(* ===== verification/Tc_Prelude.thy ===== *)
theory Tc_Prelude
  imports Main "HOL-Library.AList" "HOL-Library.Sublist"
begin

text \<open>
  Shared vocabulary of the development.

  \<^item> \<open>str\<close>: a JavaScript string is the list of its code units. A code unit is a
    \<^typ>\<open>char\<close>, so code units above 255 are not represented; the Unicode tables the
    engine consults (canonical composition) are a parameter wherever the source calls them.
  \<^item> \<open>json\<close>: the values that travel through the tool interface. Numbers are integers.
    JavaScript's \<open>undefined\<close> is \<^const>\<open>None\<close> of an option, never a value of \<open>json\<close>.
  \<^item> \<open>ebind\<close>: sequencing of computations that may throw; \<^const>\<open>Inl\<close> is the thrown error.
  \<^item> The string operations of the language the source uses (\<open>indexOf\<close>, \<open>slice\<close>, \<open>split\<close>,
    \<open>toLowerCase\<close>, the \<open>Set\<close> constructor) with the lemmas the components share.
\<close>

named_theorems gate_simps \<open>unfolding rules of the guards that run before a handler\<close>
named_theorems table_simps \<open>reading back the row tables after an update\<close>

type_synonym str = string

datatype json =
    JNull
  | JBool bool
  | JNum int
  | JStr str
  | JArr "json list"
  | JObj "(str \<times> json) list"

subsection \<open>Computations that may throw\<close>

definition ebind :: "'e + 'a \<Rightarrow> ('a \<Rightarrow> 'e + 'b) \<Rightarrow> 'e + 'b" where
  "ebind m f = (case m of Inl e \<Rightarrow> Inl e | Inr a \<Rightarrow> f a)"

definition throw_if :: "bool \<Rightarrow> 'e \<Rightarrow> 'e + unit" where
  "throw_if b e = (if b then Inl e else Inr ())"

lemma ebind_Inl [simp]: "ebind (Inl e) f = Inl e"
  by (simp add: ebind_def)

lemma ebind_Inr [simp]: "ebind (Inr a) f = f a"
  by (simp add: ebind_def)

lemma ebind_eq_Inr: "ebind m f = Inr b \<longleftrightarrow> (\<exists>a. m = Inr a \<and> f a = Inr b)"
  by (cases m) auto

lemma ebind_eq_Inl: "ebind m f = Inl e \<longleftrightarrow> m = Inl e \<or> (\<exists>a. m = Inr a \<and> f a = Inl e)"
  by (cases m) auto

lemma throw_if_Inr [simp]: "throw_if b e = Inr u \<longleftrightarrow> \<not> b"
  by (simp add: throw_if_def)

lemma throw_if_Inl [simp]: "throw_if b e = Inl e' \<longleftrightarrow> b \<and> e' = e"
  by (auto simp: throw_if_def)

lemmas ebind_iffs = ebind_eq_Inr ebind_eq_Inl

text \<open>A \<open>for\<close> loop whose body may throw: the first throw ends it.\<close>

fun each :: "('a \<Rightarrow> 'e + unit) \<Rightarrow> 'a list \<Rightarrow> 'e + unit" where
  "each f [] = Inr ()"
| "each f (x # xs) = ebind (f x) (\<lambda>_. each f xs)"

lemma each_Inr: "each f xs = Inr u \<longleftrightarrow> (\<forall>x\<in>set xs. f x = Inr ())"
  by (induction xs) (auto simp: ebind_eq_Inr)

text \<open>\<open>Array.map\<close> with a body that may throw.\<close>

fun emap :: "('a \<Rightarrow> 'e + 'b) \<Rightarrow> 'a list \<Rightarrow> 'e + 'b list" where
  "emap f [] = Inr []"
| "emap f (x # xs) = ebind (f x) (\<lambda>y. ebind (emap f xs) (\<lambda>ys. Inr (y # ys)))"

lemma emap_Inr: "emap f xs = Inr ys \<longleftrightarrow> list_all2 (\<lambda>x y. f x = Inr y) xs ys"
  by (induction xs arbitrary: ys)
    (auto simp: ebind_eq_Inr list_all2_Cons1)

subsection \<open>Strings\<close>

fun index_of :: "char \<Rightarrow> str \<Rightarrow> nat option" where
  "index_of c [] = None"
| "index_of c (d # ds) = (if d = c then Some 0 else map_option Suc (index_of c ds))"

lemma index_of_None: "index_of c s = None \<longleftrightarrow> c \<notin> set s"
  by (induction s) auto

lemma index_of_Some:
  "index_of c s = Some i \<Longrightarrow> i < length s \<and> s = take i s @ c # drop (Suc i) s \<and> c \<notin> set (take i s)"
proof (induction s arbitrary: i)
  case Nil
  then show ?case by simp
next
  case (Cons d ds)
  show ?case
  proof (cases "d = c")
    case True
    with Cons.prems show ?thesis by simp
  next
    case False
    with Cons.prems obtain j where j: "index_of c ds = Some j" "i = Suc j" by auto
    from Cons.IH [OF j(1)] j(2) False show ?thesis by auto
  qed
qed

lemma index_of_append: "c \<notin> set xs \<Longrightarrow> index_of c (xs @ c # ys) = Some (length xs)"
  by (induction xs) auto

text \<open>\<open>s.slice(s.lastIndexOf(c) + 1)\<close>: the whole string when the code unit does not occur.\<close>

definition after_last :: "char \<Rightarrow> str \<Rightarrow> str" where
  "after_last c s = rev (takeWhile (\<lambda>d. d \<noteq> c) (rev s))"

text \<open>\<open>split(c)\<close> for a single code unit: the pieces between the separators, empty ones included.\<close>

fun split_on :: "(char \<Rightarrow> bool) \<Rightarrow> str \<Rightarrow> str list" where
  "split_on p [] = [[]]"
| "split_on p (c # cs) =
     (if p c then [] # split_on p cs
      else (case split_on p cs of [] \<Rightarrow> [[c]] | w # ws \<Rightarrow> (c # w) # ws))"

fun join_with :: "str \<Rightarrow> str list \<Rightarrow> str" where
  "join_with s [] = []"
| "join_with s [w] = w"
| "join_with s (w # ws) = w @ s @ join_with s ws"

lemma split_on_nonempty [simp]: "split_on p s \<noteq> []"
  by (induction s) (auto split: list.splits)

lemma split_on_chars: "(\<Union>w\<in>set (split_on p s). set w) = {c \<in> set s. \<not> p c}"
proof (induction s)
  case Nil
  then show ?case by simp
next
  case (Cons a s)
  then show ?case by (cases "split_on p s") auto
qed

lemma split_on_clean: "w \<in> set (split_on p s) \<Longrightarrow> c \<in> set w \<Longrightarrow> \<not> p c"
  using split_on_chars [of p s] by blast

lemma split_on_word: "\<forall>c\<in>set w. \<not> p c \<Longrightarrow> split_on p w = [w]"
  by (induction w) auto

lemma split_on_word_sep:
  "\<forall>c\<in>set w. \<not> p c \<Longrightarrow> p s \<Longrightarrow> split_on p (w @ s # rest) = w # split_on p rest"
  by (induction w) auto

lemma split_join:
  assumes "\<forall>w\<in>set ws. \<forall>c\<in>set w. \<not> p c" and "p s" and "ws \<noteq> []"
  shows "split_on p (join_with [s] ws) = ws"
  using assms
proof (induction ws)
  case Nil
  then show ?case by simp
next
  case (Cons w ws)
  then show ?case by (cases ws) (simp_all add: split_on_word split_on_word_sep)
qed

lemma find_in_set: "find P xs = Some x \<Longrightarrow> x \<in> set xs \<and> P x"
  by (induction xs) (auto split: if_splits)

text \<open>\<open>toLowerCase\<close> on the represented code units.\<close>

definition char_lower :: "char \<Rightarrow> char" where
  "char_lower c =
     (let n = (of_char c :: nat) in
      if (65 \<le> n \<and> n \<le> 90) \<or> (192 \<le> n \<and> n \<le> 222 \<and> n \<noteq> 215) then char_of (n + 32) else c)"

definition lower :: "str \<Rightarrow> str" where
  "lower s = map char_lower s"

lemma length_lower [simp]: "length (lower s) = length s"
  by (simp add: lower_def)

lemma lower_append [simp]: "lower (s @ t) = lower s @ lower t"
  by (simp add: lower_def)

lemma lower_Nil [simp]: "lower [] = []"
  by (simp add: lower_def)

lemma of_char_char_of_nat: "n < 256 \<Longrightarrow> (of_char (char_of n) :: nat) = n"
  by (simp add: of_char_of)

lemma char_lower_idem [simp]: "char_lower (char_lower c) = char_lower c"
  by (auto simp: char_lower_def Let_def)

lemma lower_idem [simp]: "lower (lower s) = lower s"
  by (simp add: lower_def)

text \<open>A natural number in a template string.\<close>

fun show_nat :: "nat \<Rightarrow> str" where
  "show_nat n =
     (if n < 10 then [char_of (48 + n)] else show_nat (n div 10) @ [char_of (48 + n mod 10)])"

declare show_nat.simps [simp del]

subsection \<open>Sets built from lists\<close>

text \<open>\<open>new Set(xs)\<close> iterates in insertion order: first occurrences, in order.\<close>

definition js_set :: "'a list \<Rightarrow> 'a list" where
  "js_set xs = rev (remdups (rev xs))"

lemma set_js_set [simp]: "set (js_set xs) = set xs"
  by (simp add: js_set_def)

lemma distinct_js_set [simp]: "distinct (js_set xs)"
  by (simp add: js_set_def)

subsection \<open>Objects as association lists\<close>

text \<open>Reading a field, and the spread \<open>{ ...a, ...b }\<close>: later fields win, first positions stay.\<close>

definition get_field :: "str \<Rightarrow> (str \<times> 'v) list \<Rightarrow> 'v option" where
  "get_field k ob = map_of ob k"

lemma set_update_subset: "set (AList.update k v ob) \<subseteq> insert (k, v) (set ob)"
  by (induction ob) auto

definition spread :: "(str \<times> 'v) list \<Rightarrow> (str \<times> 'v) list \<Rightarrow> (str \<times> 'v) list" where
  "spread a b = fold (\<lambda>(k, v). AList.update k v) b a"

lemma get_field_update: "get_field k (AList.update k' v ob) = (if k = k' then Some v else get_field k ob)"
  by (simp add: get_field_def update_conv')

lemma get_field_spread:
  "get_field k (spread a b) = (case map_of (rev b) k of Some v \<Rightarrow> Some v | None \<Rightarrow> get_field k a)"
proof (induction b arbitrary: a)
  case Nil
  then show ?case by (simp add: spread_def)
next
  case (Cons p b)
  obtain k' v where p: "p = (k', v)" by (cases p)
  have "get_field k (spread a (p # b)) = get_field k (spread (AList.update k' v a) b)"
    by (simp add: spread_def p)
  also have "\<dots> = (case map_of (rev b) k of Some v \<Rightarrow> Some v
      | None \<Rightarrow> get_field k (AList.update k' v a))"
    by (rule Cons.IH)
  also have "\<dots> = (case map_of (rev (p # b)) k of Some v \<Rightarrow> Some v | None \<Rightarrow> get_field k a)"
    by (auto simp: p get_field_update map_add_def split: option.splits)
  finally show ?case .
qed

end
