(* ===== verification/Scopes.thy ===== *)
theory Scopes
  imports Tc_Prelude
begin

text \<open>
  The scope language of \<open>packages/shared/src/scopes.ts\<close>. A scope is \<open>family:resource\<close>; a scope
  without a colon is a family wildcard, and \<open>*\<close> is the wildcard of everything. Granted scopes are
  an iterable of scopes (a list here), required scopes a list that must all be granted.
\<close>

type_synonym scope = str

record scope_parts =
  family :: str
  resource :: str

definition scope_families :: "scope list" where
  "scope_families = [''read'', ''write'', ''delete'', ''execute'', ''admin'', ''bulk'']"

definition hitl_floor_scopes :: "scope list" where
  "hitl_floor_scopes = [''admin:auth'', ''write:templater'']"

definition hitl_floor_families :: "scope list" where
  "hitl_floor_families = [''execute'', ''bulk'']"

definition parseScope :: "scope \<Rightarrow> scope_parts" where
  "parseScope s =
     (if s = ''*'' then \<lparr>family = ''*'', resource = ''*''\<rparr>
      else (case index_of CHR '':'' s of
              None \<Rightarrow> \<lparr>family = s, resource = ''*''\<rparr>
            | Some i \<Rightarrow> \<lparr>family = take i s, resource = drop (i + 1) s\<rparr>))"

text \<open>The white space of a regular expression's \<open>\s\<close>, among the represented code units.\<close>

definition js_space :: "char \<Rightarrow> bool" where
  "js_space c \<longleftrightarrow> (of_char c :: nat) \<in> {9, 10, 11, 12, 13, 32, 160}"

definition isQualifiedScope :: "scope \<Rightarrow> bool" where
  "isQualifiedScope s =
     (case index_of CHR '':'' s of
        None \<Rightarrow> False
      | Some i \<Rightarrow>
          \<not> (i = 0 \<or> i = length s - 1) \<and>
          take i s \<in> set scope_families \<and> \<not> list_ex js_space s)"

fun grantsScope_loop :: "scope list \<Rightarrow> scope_parts \<Rightarrow> bool" where
  "grantsScope_loop [] req = False"
| "grantsScope_loop (g # gs) req =
     (if g = ''*'' then True
      else let gp = parseScope g in
        if family gp \<noteq> ''*'' \<and> family gp \<noteq> family req then grantsScope_loop gs req
        else if resource gp = ''*'' \<or> resource gp = resource req then True
        else grantsScope_loop gs req)"

definition grantsScope :: "scope list \<Rightarrow> scope \<Rightarrow> bool" where
  "grantsScope granted required = grantsScope_loop granted (parseScope required)"

definition grantsAll :: "scope list \<Rightarrow> scope list \<Rightarrow> bool" where
  "grantsAll granted required = list_all (grantsScope (js_set granted)) required"

definition scopeRequiresHitl :: "scope \<Rightarrow> bool" where
  "scopeRequiresHitl s \<longleftrightarrow>
     s \<in> set hitl_floor_scopes \<or> family (parseScope s) \<in> set hitl_floor_families"

definition mutating_families :: "scope list" where
  "mutating_families = [''write'', ''delete'', ''bulk'', ''execute'']"

definition isMutatingScope :: "scope \<Rightarrow> bool" where
  "isMutatingScope s \<longleftrightarrow> family (parseScope s) \<in> set mutating_families"

definition scope_class_precedence :: "scope list" where
  "scope_class_precedence = [''bulk'', ''execute'', ''admin'', ''delete'', ''write'', ''read'']"

definition scopeClassOf :: "scope list \<Rightarrow> str" where
  "scopeClassOf requiredScopes =
     (let families = js_set (map (\<lambda>s. family (parseScope s)) requiredScopes) in
      case find (\<lambda>cls. cls \<in> set families) scope_class_precedence of
        Some cls \<Rightarrow> cls
      | None \<Rightarrow> (case requiredScopes of
                   [] \<Rightarrow> ''unknown''
                 | s # _ \<Rightarrow> (if s = [] then ''unknown'' else family (parseScope s))))"

subsection \<open>What a grant means\<close>

text \<open>One granted scope against one required scope; a grant is the existence of a match.\<close>

definition scope_covers :: "scope \<Rightarrow> scope \<Rightarrow> bool" where
  "scope_covers g r \<longleftrightarrow>
     g = ''*'' \<or>
     ((family (parseScope g) = ''*'' \<or> family (parseScope g) = family (parseScope r)) \<and>
      (resource (parseScope g) = ''*'' \<or> resource (parseScope g) = resource (parseScope r)))"

lemma grantsScope_iff: "grantsScope granted r \<longleftrightarrow> (\<exists>g\<in>set granted. scope_covers g r)"
proof -
  have "grantsScope_loop gs (parseScope r) \<longleftrightarrow> (\<exists>g\<in>set gs. scope_covers g r)" for gs
    by (induction gs) (auto simp: scope_covers_def Let_def)
  then show ?thesis by (simp add: grantsScope_def)
qed

lemma grantsAll_iff [gate_simps]:
  "grantsAll granted req \<longleftrightarrow> (\<forall>r\<in>set req. grantsScope granted r)"
  by (auto simp: grantsAll_def list_all_iff grantsScope_iff)

lemma parseScope_star [simp]: "parseScope ''*'' = \<lparr>family = ''*'', resource = ''*''\<rparr>"
  by (simp add: parseScope_def)

lemma scope_covers_refl: "scope_covers s s"
  by (simp add: scope_covers_def)

text \<open>
  A scope whose family is the wildcard and that is not \<open>*\<close> itself is \<open>*:resource\<close>; nothing but a
  wildcard family covers it.
\<close>

lemma scope_covers_trans:
  assumes "scope_covers a b" and "scope_covers b c"
  shows "scope_covers a c"
proof (cases "b = ''*''")
  case True
  with assms(1) show ?thesis by (auto simp: scope_covers_def)
next
  case False
  with assms show ?thesis by (auto simp: scope_covers_def)
qed

lemma grantsScope_mono: "set a \<subseteq> set b \<Longrightarrow> grantsScope a r \<Longrightarrow> grantsScope b r"
  by (auto simp: grantsScope_iff)

lemma grantsAll_mono: "set a \<subseteq> set b \<Longrightarrow> grantsAll a rs \<Longrightarrow> grantsAll b rs"
  by (auto simp: grantsAll_iff intro: grantsScope_mono)

lemma grantsAll_Nil [simp]: "grantsAll g []"
  by (simp add: grantsAll_iff)

lemma grantsAll_subset: "set rs \<subseteq> set rs' \<Longrightarrow> grantsAll g rs' \<Longrightarrow> grantsAll g rs"
  by (auto simp: grantsAll_iff)

lemma grantsScope_through: "grantsAll a b \<Longrightarrow> grantsScope b r \<Longrightarrow> grantsScope a r"
  by (auto simp: grantsAll_iff grantsScope_iff intro: scope_covers_trans)

lemma family_qualified: "index_of CHR '':'' s = Some i \<Longrightarrow> family (parseScope s) = take i s"
  by (cases "s = ''*''") (auto simp: parseScope_def)

lemma hitl_family_mutates:
  "family (parseScope s) \<in> set hitl_floor_families \<Longrightarrow> isMutatingScope s"
  by (auto simp: hitl_floor_families_def isMutatingScope_def mutating_families_def)

subsection \<open>Properties\<close>

text \<open>
  Coverage composes: whoever holds scopes that cover a credential's scopes
  covers everything that credential covers, wildcards of families and of resources included; a
  derived or narrowed credential can never reach further than the one it came from.
\<close>

theorem delegated_scopes:
  assumes "grantsAll holder credential" and "grantsAll credential required"
  shows "grantsAll holder required"
  using assms grantsScope_through [OF assms(1)] by (simp add: grantsAll_iff [of _ required])

theorem delegated_scopes_witness:
  "grantsAll [''read:*'', ''write:notes''] [''read:notes'', ''read:docs'']"
  by (rule delegated_scopes [of _ "[''read:*'']"]) code_simp+

text \<open>
  A call that requires a mutating scope is governed by the limits of a
  mutating class (or of \<open>admin\<close>), never by those of \<open>read\<close>, whatever else it requires.
\<close>

theorem mutation_not_a_read:
  assumes "s \<in> set req" and "isMutatingScope s"
  shows "scopeClassOf req \<in> {''bulk'', ''execute'', ''admin'', ''delete'', ''write''}"
proof -
  let ?fams = "set (map (\<lambda>s. family (parseScope s)) req)"
  have "family (parseScope s) \<in> ?fams" using assms(1) by simp
  then have "{''write'', ''delete'', ''bulk'', ''execute''} \<inter> ?fams \<noteq> {}"
    using assms(2) by (auto simp: isMutatingScope_def mutating_families_def)
  then show ?thesis
    by (auto simp: scopeClassOf_def Let_def scope_class_precedence_def)
qed

theorem mutation_not_a_read_witness:
  "scopeClassOf [''read:notes'', ''write:notes''] \<in> {''bulk'', ''execute'', ''admin'', ''delete'', ''write''}"
  by (rule mutation_not_a_read [of "''write:notes''"]) code_simp+

end
