(* ===== verification/Visibility.thy ===== *)
theory Visibility
  imports Scopes
begin

text \<open>
  Tool visibility, \<open>packages/server/src/mcp/visibility.ts\<close>: which tools a caller is shown, and
  which it is told exist. One verdict per tool, computed from the static configuration, the scopes
  and the read-only flag of the caller, and the mask of the caller's persona.
  \<open>explainAgainstConfig\<close> is one layer, \<open>explainVisibility\<close> composes two of them, and
  \<open>disclosableExplanation\<close> decides whether a hidden tool may be named to the caller at all.

  Lemmas: a declarative reading of \<open>listed\<close> and \<open>disabled\<close> (\<open>layer_clear\<close>), the layers compose by
  conjunction, and what hides a tool for a reason of its own is never disclosed.
\<close>

datatype visibility = Listed | Hidden | Disabled | Scope_denied

datatype visibility_reason =
    R_listed | R_disabled_name | R_disabled_tag | R_disabled_by_profile | R_hidden_name
  | R_hidden_tag | R_hidden_require_read_only | R_hidden_not_allowlisted
  | R_scope_denied_missing_scope | R_scope_denied_read_only | R_visible_derived_telemetry

record vis_target =
  vt_name :: str
  vt_tags :: "str list option"
  vt_requiredScopes :: "scope list"

record vis_config =
  v_hidden :: "str list"
  v_disabled :: "str list"
  v_hiddenTags :: "str list"
  v_disabledTags :: "str list"
  v_requireReadOnly :: bool
  v_allowed :: "str list option"

record effective_vis_config = vis_config +
  v_allowReadOnlyDerivedTelemetry :: bool
  v_disabledByProfile :: "str list option"

record vis_caller =
  vc_grantedScopes :: "scope list"
  vc_readOnly :: bool
  vc_toolVisibility :: "vis_config option"

record vis_explanation =
  e_visibility :: visibility
  e_reason :: visibility_reason
  e_matchedTag :: "str option"
  e_missingScopes :: "scope list"

definition allow_all :: effective_vis_config where
  "allow_all =
     \<lparr>v_hidden = [], v_disabled = [], v_hiddenTags = [], v_disabledTags = [],
      v_requireReadOnly = False, v_allowed = None,
      v_allowReadOnlyDerivedTelemetry = False, v_disabledByProfile = None\<rparr>"

definition read_only_derived_telemetry_exempt_tools :: "str list" where
  "read_only_derived_telemetry_exempt_tools = [''record_retrieval_feedback'']"

definition isReadOnlyDerivedTelemetryExempt :: "str \<Rightarrow> effective_vis_config \<Rightarrow> bool" where
  "isReadOnlyDerivedTelemetryExempt name config \<longleftrightarrow>
     v_allowReadOnlyDerivedTelemetry config \<and> name \<in> set read_only_derived_telemetry_exempt_tools"

definition matchingTag :: "str list option \<Rightarrow> str list \<Rightarrow> str option" where
  "matchingTag tags marked =
     (case tags of
        None \<Rightarrow> None
      | Some ts \<Rightarrow>
          if length ts = 0 \<or> length marked = 0 then None else find (\<lambda>t. t \<in> set marked) ts)"

definition isMutating :: "vis_target \<Rightarrow> bool" where
  "isMutating target \<longleftrightarrow> list_ex isMutatingScope (vt_requiredScopes target)"

definition disclosable_hidden_reasons :: "visibility_reason list" where
  "disclosable_hidden_reasons =
     [R_hidden_require_read_only, R_scope_denied_read_only, R_disabled_by_profile]"

definition verdict :: "visibility \<Rightarrow> visibility_reason \<Rightarrow> vis_explanation" where
  "verdict v r = \<lparr>e_visibility = v, e_reason = r, e_matchedTag = None, e_missingScopes = []\<rparr>"

subsection \<open>One layer\<close>

text \<open>The last block of the source's function: the rules that read the caller.\<close>

definition explain_caller :: "vis_target \<Rightarrow> vis_caller option \<Rightarrow> bool \<Rightarrow> vis_explanation" where
  "explain_caller target caller readOnlyExempt =
     (case caller of
        None \<Rightarrow> verdict Listed R_listed
      | Some c \<Rightarrow>
          (let missing = [s \<leftarrow> vt_requiredScopes target. \<not> grantsScope (vc_grantedScopes c) s] in
           if length missing > 0
           then (verdict Scope_denied R_scope_denied_missing_scope)\<lparr>e_missingScopes := missing\<rparr>
           else if vc_readOnly c \<and> isMutating target
           then (if readOnlyExempt then verdict Listed R_visible_derived_telemetry
                 else verdict Scope_denied R_scope_denied_read_only)
           else verdict Listed R_listed))"

definition explainAgainstConfig ::
    "vis_target \<Rightarrow> 'a vis_config_scheme \<Rightarrow> vis_caller option \<Rightarrow> bool \<Rightarrow> bool \<Rightarrow> vis_explanation" where
  "explainAgainstConfig target config caller readOnlyExempt profileHidden =
     (if vt_name target \<in> set (v_disabled config) then verdict Disabled R_disabled_name
      else case matchingTag (vt_tags target) (v_disabledTags config) of
        Some t \<Rightarrow> (verdict Disabled R_disabled_tag)\<lparr>e_matchedTag := Some t\<rparr>
      | None \<Rightarrow>
          if profileHidden then verdict Disabled R_disabled_by_profile
          else if vt_name target \<in> set (v_hidden config) then verdict Hidden R_hidden_name
          else (case matchingTag (vt_tags target) (v_hiddenTags config) of
            Some t \<Rightarrow> (verdict Hidden R_hidden_tag)\<lparr>e_matchedTag := Some t\<rparr>
          | None \<Rightarrow>
              if v_requireReadOnly config \<and> isMutating target
              then (if readOnlyExempt then verdict Listed R_visible_derived_telemetry
                    else verdict Hidden R_hidden_require_read_only)
              else if (case v_allowed config of None \<Rightarrow> False | Some l \<Rightarrow> vt_name target \<notin> set l)
              then verdict Hidden R_hidden_not_allowlisted
              else explain_caller target caller readOnlyExempt))"

subsection \<open>The layers composed\<close>

definition profile_hidden :: "vis_target \<Rightarrow> effective_vis_config \<Rightarrow> bool" where
  "profile_hidden target config =
     (case v_disabledByProfile config of None \<Rightarrow> False | Some l \<Rightarrow> vt_name target \<in> set l)"

definition explainVisibility ::
    "vis_target \<Rightarrow> effective_vis_config \<Rightarrow> vis_caller option \<Rightarrow> vis_explanation" where
  "explainVisibility target config caller =
     (let readOnlyExempt = isReadOnlyDerivedTelemetryExempt (vt_name target) config;
          staticVerdict =
            explainAgainstConfig target config caller readOnlyExempt (profile_hidden target config) in
      if e_visibility staticVerdict \<noteq> Listed then staticVerdict
      else case caller of
        None \<Rightarrow> staticVerdict
      | Some c \<Rightarrow>
          (case vc_toolVisibility c of
             None \<Rightarrow> staticVerdict
           | Some m \<Rightarrow> explainAgainstConfig target m caller readOnlyExempt False))"

definition visibilityOf :: "vis_target \<Rightarrow> effective_vis_config \<Rightarrow> vis_caller option \<Rightarrow> visibility" where
  "visibilityOf target config caller = e_visibility (explainVisibility target config caller)"

definition isListed :: "vis_target \<Rightarrow> effective_vis_config \<Rightarrow> vis_caller option \<Rightarrow> bool" where
  "isListed target config caller \<longleftrightarrow> visibilityOf target config caller = Listed"

definition isDisabled :: "vis_target \<Rightarrow> effective_vis_config \<Rightarrow> vis_caller option \<Rightarrow> bool" where
  "isDisabled target config caller \<longleftrightarrow> visibilityOf target config caller = Disabled"

definition neutral_caller :: "vis_caller \<Rightarrow> vis_caller" where
  "neutral_caller c =
     c\<lparr>vc_readOnly := False,
       vc_toolVisibility :=
         (case vc_toolVisibility c of None \<Rightarrow> None | Some m \<Rightarrow> Some (m\<lparr>v_requireReadOnly := False\<rparr>))\<rparr>"

definition disclosableExplanation ::
    "vis_target \<Rightarrow> effective_vis_config \<Rightarrow> vis_caller option \<Rightarrow> vis_explanation option" where
  "disclosableExplanation target config caller =
     (let explanation = explainVisibility target config caller in
      if e_reason explanation \<notin> set disclosable_hidden_reasons then None
      else if e_reason explanation = R_disabled_by_profile
      then (if visibilityOf target (config\<lparr>v_disabledByProfile := Some []\<rparr>) caller \<noteq> Listed
            then None else Some explanation)
      else (if visibilityOf target (config\<lparr>v_requireReadOnly := False\<rparr>)
                 (map_option neutral_caller caller) \<noteq> Listed
            then None else Some explanation))"

subsection \<open>Declarative reading\<close>

definition tagged :: "vis_target \<Rightarrow> str list \<Rightarrow> bool" where
  "tagged target marked =
     (case vt_tags target of None \<Rightarrow> False | Some ts \<Rightarrow> set ts \<inter> set marked \<noteq> {})"

text \<open>The rules of one layer that are the operator's choice about this tool.\<close>

definition layer_disables :: "vis_target \<Rightarrow> 'a vis_config_scheme \<Rightarrow> bool" where
  "layer_disables target c \<longleftrightarrow> vt_name target \<in> set (v_disabled c) \<or> tagged target (v_disabledTags c)"

definition layer_hides :: "vis_target \<Rightarrow> 'a vis_config_scheme \<Rightarrow> bool" where
  "layer_hides target c \<longleftrightarrow> vt_name target \<in> set (v_hidden c) \<or> tagged target (v_hiddenTags c)"

definition not_allowlisted :: "vis_target \<Rightarrow> 'a vis_config_scheme \<Rightarrow> bool" where
  "not_allowlisted target c = (case v_allowed c of None \<Rightarrow> False | Some l \<Rightarrow> vt_name target \<notin> set l)"

lemma verdict_sel [simp]:
  "e_visibility (verdict v r) = v" "e_reason (verdict v r) = r"
  "e_matchedTag (verdict v r) = None" "e_missingScopes (verdict v r) = []"
  by (simp_all add: verdict_def)

lemma matchingTag_iff: "matchingTag (vt_tags target) marked = None \<longleftrightarrow> \<not> tagged target marked"
  by (auto simp: matchingTag_def tagged_def find_None_iff split: option.splits)

lemma layer_disables_iff:
  "layer_disables target c \<longleftrightarrow>
     vt_name target \<in> set (v_disabled c) \<or> matchingTag (vt_tags target) (v_disabledTags c) \<noteq> None"
  by (simp add: layer_disables_def matchingTag_iff)

lemma layer_hides_iff:
  "layer_hides target c \<longleftrightarrow>
     vt_name target \<in> set (v_hidden c) \<or> matchingTag (vt_tags target) (v_hiddenTags c) \<noteq> None"
  by (simp add: layer_hides_def matchingTag_iff)

lemma caller_listed:
  "e_visibility (explain_caller target caller ro) = Listed \<longleftrightarrow>
     (case caller of None \<Rightarrow> True
      | Some c \<Rightarrow> grantsAll (vc_grantedScopes c) (vt_requiredScopes target) \<and>
                  (vc_readOnly c \<and> isMutating target \<longrightarrow> ro))"
  by (auto simp: explain_caller_def Let_def grantsAll_iff filter_empty_conv split: option.splits)

lemma caller_not_disabled: "e_visibility (explain_caller target caller ro) \<noteq> Disabled"
  by (auto simp: explain_caller_def Let_def split: option.splits)

lemma layer_disabled:
  "e_visibility (explainAgainstConfig target c caller ro ph) = Disabled \<longleftrightarrow> layer_disables target c \<or> ph"
  by (auto simp: explainAgainstConfig_def layer_disables_iff caller_not_disabled split: option.splits)

lemma layer_listed:
  "e_visibility (explainAgainstConfig target c caller ro ph) = Listed \<longleftrightarrow>
     \<not> layer_disables target c \<and> \<not> ph \<and> \<not> layer_hides target c \<and>
     (if v_requireReadOnly c \<and> isMutating target then ro
      else \<not> not_allowlisted target c \<and> e_visibility (explain_caller target caller ro) = Listed)"
  by (auto simp: explainAgainstConfig_def layer_disables_iff layer_hides_iff not_allowlisted_def
      split: option.splits)

lemma explain_listed:
  "e_visibility (explainVisibility target config caller) = Listed \<longleftrightarrow>
     (let ro = isReadOnlyDerivedTelemetryExempt (vt_name target) config in
      e_visibility (explainAgainstConfig target config caller ro (profile_hidden target config)) = Listed \<and>
      (case caller of None \<Rightarrow> True | Some c \<Rightarrow>
         (case vc_toolVisibility c of None \<Rightarrow> True | Some m \<Rightarrow>
            e_visibility (explainAgainstConfig target m caller ro False) = Listed)))"
  by (auto simp: explainVisibility_def Let_def split: option.splits)

lemma listed_enabled:
  "e_visibility (explainAgainstConfig target c caller ro ph) = Listed \<Longrightarrow> \<not> layer_disables target c \<and> \<not> ph"
  by (simp add: layer_listed)

lemma explain_disabled:
  "isDisabled target config caller \<longleftrightarrow>
     (let ro = isReadOnlyDerivedTelemetryExempt (vt_name target) config in
      layer_disables target config \<or> profile_hidden target config \<or>
      (e_visibility (explainAgainstConfig target config caller ro (profile_hidden target config)) = Listed \<and>
       (case caller of None \<Rightarrow> False | Some c \<Rightarrow>
          (case vc_toolVisibility c of None \<Rightarrow> False | Some m \<Rightarrow> layer_disables target m))))"
  unfolding isDisabled_def visibilityOf_def explainVisibility_def Let_def
  by (auto simp: layer_disabled dest: listed_enabled split: option.splits)

lemma explain_caller_mask [simp]:
  "explain_caller target (Some (c\<lparr>vc_toolVisibility := x\<rparr>)) ro = explain_caller target (Some c) ro"
  by (simp add: explain_caller_def)

lemma layer_mask [simp]:
  "explainAgainstConfig target cf (Some (c\<lparr>vc_toolVisibility := x\<rparr>)) ro ph =
   explainAgainstConfig target cf (Some c) ro ph"
  by (simp add: explainAgainstConfig_def split: option.splits)

text \<open>
  A rule other than the read-only posture and the profile hides the tool. An exempted telemetry
  tool under \<open>requireReadOnly\<close> is listed before its allowlist and its scopes are looked at, so
  those two count only for the others.
\<close>

definition mask_of :: "vis_caller option \<Rightarrow> vis_config option" where
  "mask_of caller = (case caller of None \<Rightarrow> None | Some c \<Rightarrow> vc_toolVisibility c)"

definition hidden_otherwise ::
    "vis_target \<Rightarrow> effective_vis_config \<Rightarrow> vis_caller option \<Rightarrow> bool" where
  "hidden_otherwise target config caller \<longleftrightarrow>
     layer_disables target config \<or> layer_hides target config \<or>
     (\<exists>m. mask_of caller = Some m \<and> (layer_disables target m \<or> layer_hides target m)) \<or>
     (\<not> isReadOnlyDerivedTelemetryExempt (vt_name target) config \<and>
      (not_allowlisted target config \<or>
       (\<exists>m. mask_of caller = Some m \<and> not_allowlisted target m) \<or>
       (\<exists>c. caller = Some c \<and> \<not> grantsAll (vc_grantedScopes c) (vt_requiredScopes target))))"

lemma hidden_otherwise_not_listed:
  assumes "hidden_otherwise target config caller"
  shows "visibilityOf target config caller \<noteq> Listed"
  using assms
  by (auto simp: hidden_otherwise_def visibilityOf_def explain_listed layer_listed caller_listed
      Let_def mask_of_def split: option.splits if_splits)

lemma hidden_otherwise_neutral:
  assumes "hidden_otherwise target config caller"
  shows "hidden_otherwise target (config\<lparr>v_requireReadOnly := False\<rparr>) (map_option neutral_caller caller)"
    and "hidden_otherwise target (config\<lparr>v_disabledByProfile := p\<rparr>) caller"
  using assms
  by (auto simp: hidden_otherwise_def mask_of_def neutral_caller_def layer_disables_def
      layer_hides_def not_allowlisted_def isReadOnlyDerivedTelemetryExempt_def split: option.splits)

subsection \<open>Properties\<close>

text \<open>
  The mask of a persona never widens the surface: a tool listed under the
  mask is listed without it, and a tool disabled without the mask stays disabled under every mask.
\<close>

theorem persona_only_narrows:
  "(isListed target config (Some (c\<lparr>vc_toolVisibility := Some m\<rparr>)) \<longrightarrow>
      isListed target config (Some (c\<lparr>vc_toolVisibility := None\<rparr>))) \<and>
   (isDisabled target config (Some (c\<lparr>vc_toolVisibility := None\<rparr>)) \<longrightarrow>
      isDisabled target config (Some (c\<lparr>vc_toolVisibility := Some m\<rparr>)))"
  by (auto simp: isListed_def visibilityOf_def explain_listed explain_disabled Let_def)

theorem persona_only_narrows_witness:
  "(let t = \<lparr>vt_name = ''delete_note'', vt_tags = Some [''danger''], vt_requiredScopes = [''delete:notes'']\<rparr>;
        m = vis_config.truncate (allow_all\<lparr>v_disabledTags := [''danger'']\<rparr>);
        c = \<lparr>vc_grantedScopes = [''*''], vc_readOnly = False, vc_toolVisibility = None\<rparr> in
    isListed t allow_all (Some c) \<and> isDisabled t allow_all (Some (c\<lparr>vc_toolVisibility := Some m\<rparr>)) \<and>
    \<not> isListed t allow_all (Some (c\<lparr>vc_toolVisibility := Some m\<rparr>))) \<and>
   isListed \<lparr>vt_name = ''a'', vt_tags = None, vt_requiredScopes = []\<rparr> allow_all
     (Some \<lparr>vc_grantedScopes = [], vc_readOnly = True, vc_toolVisibility = None\<rparr>)"
proof -
  let ?t = "\<lparr>vt_name = ''a'', vt_tags = None, vt_requiredScopes = []\<rparr>"
  let ?c = "\<lparr>vc_grantedScopes = [], vc_readOnly = True, vc_toolVisibility = None\<rparr>"
  have l: "isListed ?t allow_all (Some (?c\<lparr>vc_toolVisibility := Some (vis_config.truncate allow_all)\<rparr>))"
    by code_simp
  then have "isListed ?t allow_all (Some (?c\<lparr>vc_toolVisibility := None\<rparr>))"
    using persona_only_narrows [where target = ?t and config = allow_all and c = ?c and m = "vis_config.truncate allow_all"] by blast
  then have a: "isListed ?t allow_all (Some ?c)" by simp
  have b: "let t = \<lparr>vt_name = ''delete_note'', vt_tags = Some [''danger''], vt_requiredScopes = [''delete:notes'']\<rparr>;
        m = vis_config.truncate (allow_all\<lparr>v_disabledTags := [''danger'']\<rparr>);
        c = \<lparr>vc_grantedScopes = [''*''], vc_readOnly = False, vc_toolVisibility = None\<rparr> in
    isListed t allow_all (Some c) \<and> isDisabled t allow_all (Some (c\<lparr>vc_toolVisibility := Some m\<rparr>)) \<and>
    \<not> isListed t allow_all (Some (c\<lparr>vc_toolVisibility := Some m\<rparr>))"
    by code_simp
  from a b show ?thesis by blast
qed

text \<open>
  A tool that any rule other than the caller's own read-only
  posture or the server-wide profile removes (a disabled or hidden name or tag, an allowlist, a
  missing scope, in the static configuration or in the persona's mask) is never disclosed: the
  answer is the one of a tool that does not exist.
\<close>

theorem disclosure_keeps_operator_choices:
  "hidden_otherwise target config caller \<Longrightarrow> disclosableExplanation target config caller = None"
  using hidden_otherwise_not_listed [OF hidden_otherwise_neutral(1)]
    hidden_otherwise_not_listed [OF hidden_otherwise_neutral(2)]
  by (auto simp: disclosableExplanation_def Let_def)

theorem disclosure_keeps_operator_choices_witness:
  "disclosableExplanation
     \<lparr>vt_name = ''write_note'', vt_tags = None, vt_requiredScopes = [''write:notes'']\<rparr>
     (allow_all\<lparr>v_requireReadOnly := True, v_allowed := Some [''read_note'']\<rparr>)
     (Some \<lparr>vc_grantedScopes = [''*''], vc_readOnly = True, vc_toolVisibility = None\<rparr>) = None \<and>
   disclosableExplanation
     \<lparr>vt_name = ''write_note'', vt_tags = None, vt_requiredScopes = [''write:notes'']\<rparr>
     (allow_all\<lparr>v_requireReadOnly := True\<rparr>)
     (Some \<lparr>vc_grantedScopes = [''*''], vc_readOnly = True, vc_toolVisibility = None\<rparr>) \<noteq> None"
proof -
  have "hidden_otherwise \<lparr>vt_name = ''write_note'', vt_tags = None, vt_requiredScopes = [''write:notes'']\<rparr>
     (allow_all\<lparr>v_requireReadOnly := True, v_allowed := Some [''read_note'']\<rparr>)
     (Some \<lparr>vc_grantedScopes = [''*''], vc_readOnly = True, vc_toolVisibility = None\<rparr>)"
    by (simp add: hidden_otherwise_def not_allowlisted_def allow_all_def isReadOnlyDerivedTelemetryExempt_def)
  note this [THEN disclosure_keeps_operator_choices]
  moreover have "disclosableExplanation
     \<lparr>vt_name = ''write_note'', vt_tags = None, vt_requiredScopes = [''write:notes'']\<rparr>
     (allow_all\<lparr>v_requireReadOnly := True\<rparr>)
     (Some \<lparr>vc_grantedScopes = [''*''], vc_readOnly = True, vc_toolVisibility = None\<rparr>) \<noteq> None"
    by code_simp
  ultimately show ?thesis by blast
qed

text \<open>
  The exemption answers before the allowlist and the scopes are read: under \<open>requireReadOnly\<close> a
  caller without a single scope is shown the exempted tool, which dispatch then refuses.
\<close>

lemma exempt_listed_without_scopes:
  "isListed \<lparr>vt_name = ''record_retrieval_feedback'', vt_tags = None, vt_requiredScopes = [''write:memory'']\<rparr>
     (allow_all\<lparr>v_requireReadOnly := True, v_allowed := Some [],
                v_allowReadOnlyDerivedTelemetry := True\<rparr>)
     (Some \<lparr>vc_grantedScopes = [], vc_readOnly = True, vc_toolVisibility = None\<rparr>)"
  by code_simp

end
