(* ===== verification/Globs.thy ===== *)
theory Globs
  imports Tc_Prelude
begin

text \<open>
  Folder globs of \<open>packages/server/src/acl.ts\<close>: the compiler from a glob to an anchored regular
  expression, the process-wide cache of compiled globs, and matching. \<open>regex\<close> is the shape of the
  expressions the compiler produces (\<open>^...$\<close>, the flag \<open>i\<close> or none), \<open>re_test\<close> the engine's
  answer on them. Lemmas: the test decides the language of the expression, an escaped name matches
  that name and nothing else, the cache never changes an answer and stays within its bound.
\<close>

text \<open>What the engine and the platform contribute: \<open>String.normalize("NFC")\<close> and whether names
  that differ in case name one file.\<close>

record platform =
  nfc :: "str \<Rightarrow> str"
  ci_fs :: bool

datatype gtok = Deep | Seg | One | Lit char

datatype regex = Regex (re_toks: "gtok list") (re_icase: bool)

definition max_glob_length :: nat where
  "max_glob_length = 512"

definition glob_cache_max :: nat where
  "glob_cache_max = 1000"

subsection \<open>The regular expressions\<close>

text \<open>\<open>/i\<close> compares code units by their simple upper case.\<close>

definition char_upper :: "char \<Rightarrow> char" where
  "char_upper c =
     (let n = (of_char c :: nat) in
      if (97 \<le> n \<and> n \<le> 122) \<or> (224 \<le> n \<and> n \<le> 254 \<and> n \<noteq> 247) then char_of (n - 32) else c)"

definition char_eq :: "bool \<Rightarrow> char \<Rightarrow> char \<Rightarrow> bool" where
  "char_eq ic c d \<longleftrightarrow> (if ic then char_upper c = char_upper d else c = d)"

text \<open>\<open>.\<close> matches no line terminator (the expressions carry no \<open>s\<close> flag).\<close>

definition line_end :: "char \<Rightarrow> bool" where
  "line_end c \<longleftrightarrow> c = CHR 0x0A \<or> c = CHR 0x0D"

fun re_match :: "bool \<Rightarrow> gtok list \<Rightarrow> str \<Rightarrow> bool" where
  "re_match ic [] s = (s = [])"
| "re_match ic (Lit c # ts) [] = False"
| "re_match ic (Lit c # ts) (d # ds) = (char_eq ic c d \<and> re_match ic ts ds)"
| "re_match ic (One # ts) [] = False"
| "re_match ic (One # ts) (d # ds) = (d \<noteq> CHR ''/'' \<and> re_match ic ts ds)"
| "re_match ic (Seg # ts) [] = re_match ic ts []"
| "re_match ic (Seg # ts) (d # ds) =
     (re_match ic ts (d # ds) \<or> (d \<noteq> CHR ''/'' \<and> re_match ic (Seg # ts) ds))"
| "re_match ic (Deep # ts) [] = re_match ic ts []"
| "re_match ic (Deep # ts) (d # ds) =
     (re_match ic ts (d # ds) \<or> (\<not> line_end d \<and> re_match ic (Deep # ts) ds))"

definition re_test :: "regex \<Rightarrow> str \<Rightarrow> bool" where
  "re_test r s = re_match (re_icase r) (re_toks r) s"

subsection \<open>The compiler\<close>

fun glob_toks :: "str \<Rightarrow> gtok list" where
  "glob_toks [] = []"
| "glob_toks (c # cs) =
     (if c = CHR ''*'' \<and> cs \<noteq> [] \<and> hd cs = CHR ''*'' then Deep # glob_toks (tl cs)
      else if c = CHR ''*'' then Seg # glob_toks cs
      else if c = CHR ''?'' then One # glob_toks cs
      else if c = CHR 0x5C \<and> cs \<noteq> [] then Lit (hd cs) # glob_toks (tl cs)
      else Lit c # glob_toks cs)"

definition compile_glob :: "str \<Rightarrow> bool \<Rightarrow> regex" where
  "compile_glob g ic = Regex (glob_toks g) ic"

definition escapeGlob :: "str \<Rightarrow> str" where
  "escapeGlob name =
     concat (map (\<lambda>c. if c \<in> {CHR ''*'', CHR ''?'', CHR 0x5C, CHR ''[''} then [CHR 0x5C, c] else [c]) name)"

definition glob_too_long :: "str \<Rightarrow> str" where
  "glob_too_long g =
     ''glob too long ('' @ show_nat (length g) @ '' > '' @ show_nat max_glob_length @ '')''"

text \<open>The compiler without its cache: what a miss computes, or the throw on an oversized glob.\<close>

definition globRegExp :: "str \<Rightarrow> bool \<Rightarrow> str + regex" where
  "globRegExp g ic =
     (if length g > max_glob_length then Inl (glob_too_long g) else Inr (compile_glob g ic))"

subsection \<open>The cache of compiled globs\<close>

text \<open>A nested \<open>Map\<close> in insertion order: glob, then flag, then the compiled expression.\<close>

type_synonym glob_cache = "(str \<times> (bool \<times> regex) list) list"

definition evict_oldest :: "glob_cache \<Rightarrow> glob_cache" where
  "evict_oldest cache =
     (if length cache \<ge> glob_cache_max
      then (case cache of [] \<Rightarrow> [] | oldest # _ \<Rightarrow> AList.delete (fst oldest) cache)
      else cache)"

definition globToRegExp :: "glob_cache \<Rightarrow> str \<Rightarrow> bool \<Rightarrow> (str + regex) \<times> glob_cache" where
  "globToRegExp cache g ic =
     (if length g > max_glob_length then (Inl (glob_too_long g), cache)
      else let byFlag = map_of cache g in
        case Option.bind byFlag (\<lambda>m. map_of m ic) of
          Some cached \<Rightarrow> (Inr cached, cache)
        | None \<Rightarrow>
            (let compiled = compile_glob g ic in
             case byFlag of
               Some entry \<Rightarrow> (Inr compiled, AList.update g (AList.update ic compiled entry) cache)
             | None \<Rightarrow> (Inr compiled, AList.update g [(ic, compiled)] (evict_oldest cache))))"

definition globMatch :: "platform \<Rightarrow> str \<Rightarrow> str \<Rightarrow> bool \<Rightarrow> str + bool" where
  "globMatch pf glob path ic =
     ebind (globRegExp (nfc pf glob) ic) (\<lambda>r. Inr (re_test r (nfc pf path)))"

definition foldPath :: "platform \<Rightarrow> str \<Rightarrow> str" where
  "foldPath pf path = (if ci_fs pf then lower (nfc pf path) else nfc pf path)"

subsection \<open>The language of an expression\<close>

fun tok_lang :: "bool \<Rightarrow> gtok \<Rightarrow> str set" where
  "tok_lang ic (Lit c) = {[d] |d. char_eq ic c d}"
| "tok_lang ic One = {[d] |d. d \<noteq> CHR ''/''}"
| "tok_lang ic Seg = {s. CHR ''/'' \<notin> set s}"
| "tok_lang ic Deep = {s. \<forall>c\<in>set s. \<not> line_end c}"

fun re_lang :: "bool \<Rightarrow> gtok list \<Rightarrow> str set" where
  "re_lang ic [] = {[]}"
| "re_lang ic (t # ts) = {u @ v |u v. u \<in> tok_lang ic t \<and> v \<in> re_lang ic ts}"

lemma star_lang_step:
  assumes "\<And>s. s \<in> L \<longleftrightarrow> (\<forall>c\<in>set s. P c)"
  shows "(\<exists>u v. d # ds = u @ v \<and> u \<in> L \<and> v \<in> R) \<longleftrightarrow>
     d # ds \<in> R \<or> (P d \<and> (\<exists>u v. ds = u @ v \<and> u \<in> L \<and> v \<in> R))"
proof
  assume "\<exists>u v. d # ds = u @ v \<and> u \<in> L \<and> v \<in> R"
  then obtain u v where uv: "d # ds = u @ v" "u \<in> L" "v \<in> R" by blast
  then show "d # ds \<in> R \<or> (P d \<and> (\<exists>u v. ds = u @ v \<and> u \<in> L \<and> v \<in> R))"
    by (cases u) (auto simp: assms)
next
  assume "d # ds \<in> R \<or> (P d \<and> (\<exists>u v. ds = u @ v \<and> u \<in> L \<and> v \<in> R))"
  then show "\<exists>u v. d # ds = u @ v \<and> u \<in> L \<and> v \<in> R"
  proof
    assume "d # ds \<in> R"
    then have "d # ds = [] @ (d # ds) \<and> [] \<in> L \<and> d # ds \<in> R" by (simp add: assms)
    then show ?thesis by blast
  next
    assume "P d \<and> (\<exists>u v. ds = u @ v \<and> u \<in> L \<and> v \<in> R)"
    then obtain u v where "P d" "ds = u @ v" "u \<in> L" "v \<in> R" by blast
    then have "d # ds = (d # u) @ v \<and> d # u \<in> L \<and> v \<in> R" by (simp add: assms)
    then show ?thesis by blast
  qed
qed

lemma head_lang_step:
  "(\<exists>u v. d # ds = u @ v \<and> (\<exists>e. u = [e] \<and> P e) \<and> v \<in> R) \<longleftrightarrow> P d \<and> ds \<in> R"
proof
  assume "P d \<and> ds \<in> R"
  then have "d # ds = [d] @ ds \<and> (\<exists>e. [d] = [e] \<and> P e) \<and> ds \<in> R" by simp
  then show "\<exists>u v. d # ds = u @ v \<and> (\<exists>e. u = [e] \<and> P e) \<and> v \<in> R" by blast
qed auto

lemma re_match_lang: "re_match ic ts s \<longleftrightarrow> s \<in> re_lang ic ts"
proof (induction ic ts s rule: re_match.induct)
  case (7 ic ts d ds)
  have "d # ds \<in> re_lang ic (Seg # ts) \<longleftrightarrow>
      d # ds \<in> re_lang ic ts \<or> (d \<noteq> CHR ''/'' \<and> ds \<in> re_lang ic (Seg # ts))"
    using star_lang_step [where L = "tok_lang ic Seg" and P = "\<lambda>c. c \<noteq> CHR ''/''"
        and R = "re_lang ic ts" and d = d and ds = ds] by auto
  with 7 show ?case by simp
next
  case (9 ic ts d ds)
  have "d # ds \<in> re_lang ic (Deep # ts) \<longleftrightarrow>
      d # ds \<in> re_lang ic ts \<or> (\<not> line_end d \<and> ds \<in> re_lang ic (Deep # ts))"
    using star_lang_step [where L = "tok_lang ic Deep" and P = "\<lambda>c. \<not> line_end c"
        and R = "re_lang ic ts" and d = d and ds = ds] by auto
  with 9 show ?case by simp
qed (auto simp: head_lang_step)

subsection \<open>Literal names\<close>

lemma re_match_lits: "re_match ic (map Lit name) s \<longleftrightarrow> list_all2 (char_eq ic) name s"
proof (induction name arbitrary: s)
  case Nil
  then show ?case by (cases s) auto
next
  case (Cons c name)
  then show ?case by (cases s) auto
qed

lemma glob_toks_escape: "glob_toks (escapeGlob name @ rest) = map Lit name @ glob_toks rest"
proof (induction name)
  case Nil
  then show ?case by (simp add: escapeGlob_def)
next
  case (Cons c name)
  have "escapeGlob (c # name) @ rest =
      (if c \<in> {CHR ''*'', CHR ''?'', CHR 0x5C, CHR ''[''} then [CHR 0x5C, c] else [c])
        @ (escapeGlob name @ rest)"
    by (simp add: escapeGlob_def)
  with Cons show ?case by auto
qed

lemma char_eq_refl [simp]: "char_eq ic c c"
  by (simp add: char_eq_def)

lemma list_all2_char_eq_False: "list_all2 (char_eq False) xs ys \<longleftrightarrow> xs = ys"
proof -
  have "char_eq False = (=)" by (intro ext) (simp add: char_eq_def)
  then show ?thesis by (simp add: list.rel_eq)
qed

lemma re_match_append_deep:
  "re_match ic (map Lit name @ [Deep]) s \<longleftrightarrow>
     (\<exists>u v. s = u @ v \<and> list_all2 (char_eq ic) name u \<and> (\<forall>c\<in>set v. \<not> line_end c))"
proof (induction name arbitrary: s)
  case Nil
  show ?case using re_match_lang [of ic "[Deep]" s] by auto
next
  case (Cons c name)
  show ?case
  proof (cases s)
    case Nil
    then show ?thesis by auto
  next
    case (Cons d ds)
    then show ?thesis
      using Cons.IH [of ds]
      by (auto simp: list_all2_Cons1 append_eq_Cons_conv) (metis append_Cons list_all2_Cons)+
  qed
qed

subsection \<open>The cache\<close>

definition glob_cache_ok :: "glob_cache \<Rightarrow> bool" where
  "glob_cache_ok cache \<longleftrightarrow>
     distinct (map fst cache) \<and> length cache \<le> glob_cache_max \<and>
     (\<forall>g m ic r. (g, m) \<in> set cache \<longrightarrow> (ic, r) \<in> set m \<longrightarrow> r = compile_glob g ic)"

lemma glob_cache_ok_empty: "glob_cache_ok []"
  by (simp add: glob_cache_ok_def)

lemma length_update: "length (AList.update k v xs) = (if k \<in> fst ` set xs then length xs else Suc (length xs))"
  by (induction xs) auto

lemma length_delete_hd: "xs \<noteq> [] \<Longrightarrow> length (AList.delete (fst (hd xs)) xs) < length xs"
  by (cases xs) (auto simp: AList.delete_eq le_imp_less_Suc)

lemma globToRegExp_answer:
  assumes "glob_cache_ok cache"
  shows "fst (globToRegExp cache g ic) = globRegExp g ic"
proof (cases "map_of cache g")
  case None
  then show ?thesis by (simp add: globToRegExp_def globRegExp_def Let_def)
next
  case (Some m)
  then have "(g, m) \<in> set cache" by (rule map_of_SomeD)
  with assms have "r = compile_glob g ic" if "map_of m ic = Some r" for r
    using map_of_SomeD [OF that] by (auto simp: glob_cache_ok_def)
  with Some show ?thesis
    by (auto simp: globToRegExp_def globRegExp_def Let_def split: option.splits)
qed

lemma set_delete_subset: "set (AList.delete k xs) \<subseteq> set xs"
  by (simp add: AList.delete_eq)

lemma evict_oldest_ok:
  assumes "glob_cache_ok cache"
  shows "length (evict_oldest cache) < glob_cache_max"
    and "distinct (map fst (evict_oldest cache))"
    and "set (evict_oldest cache) \<subseteq> set cache"
proof -
  show "length (evict_oldest cache) < glob_cache_max"
  proof (cases cache)
    case Nil
    then show ?thesis by (simp add: evict_oldest_def glob_cache_max_def)
  next
    case (Cons oldest rest)
    with assms length_delete_hd [of cache] show ?thesis
      by (auto simp: evict_oldest_def glob_cache_ok_def)
  qed
  show "distinct (map fst (evict_oldest cache))"
    using assms
    by (cases cache) (auto simp: evict_oldest_def glob_cache_ok_def AList.delete_eq intro: distinct_map_filter)
  have "set (case cache of [] \<Rightarrow> [] | oldest # _ \<Rightarrow> AList.delete (fst oldest) cache) \<subseteq> set cache"
    using set_delete_subset [of _ cache] by (cases cache) (simp, simp only: list.case)
  then show "set (evict_oldest cache) \<subseteq> set cache"
    unfolding evict_oldest_def by (simp only: order_refl split: if_split) blast
qed

lemma glob_cache_ok_update:
  assumes "glob_cache_ok cache" and "length (AList.update g m cache) \<le> glob_cache_max"
    and "\<And>ic r. (ic, r) \<in> set m \<Longrightarrow> r = compile_glob g ic"
  shows "glob_cache_ok (AList.update g m cache)"
  unfolding glob_cache_ok_def
proof (intro conjI)
  show "distinct (map fst (AList.update g m cache))"
    using assms(1) by (simp add: glob_cache_ok_def distinct_update)
  show "length (AList.update g m cache) \<le> glob_cache_max" by (rule assms(2))
next
  show "\<forall>g' m' ic r. (g', m') \<in> set (AList.update g m cache) \<longrightarrow> (ic, r) \<in> set m' \<longrightarrow>
      r = compile_glob g' ic"
  proof (intro allI impI)
    fix g' m' ic r
    assume "(g', m') \<in> set (AList.update g m cache)" and r: "(ic, r) \<in> set m'"
    then have "(g', m') = (g, m) \<or> (g', m') \<in> set cache" using set_update_subset by fast
    then show "r = compile_glob g' ic"
      using assms(1,3) r by (auto simp: glob_cache_ok_def)
  qed
qed

lemma glob_cache_ok_subset:
  "glob_cache_ok cache \<Longrightarrow> set c \<subseteq> set cache \<Longrightarrow> distinct (map fst c) \<Longrightarrow>
     length c \<le> glob_cache_max \<Longrightarrow> glob_cache_ok c"
  unfolding glob_cache_ok_def by blast

lemma globToRegExp_cache:
  assumes "glob_cache_ok cache"
  shows "glob_cache_ok (snd (globToRegExp cache g ic))"
proof (cases "length g > max_glob_length \<or> Option.bind (map_of cache g) (\<lambda>m. map_of m ic) \<noteq> None")
  case True
  with assms show ?thesis by (auto simp: globToRegExp_def Let_def)
next
  case False
  let ?r = "compile_glob g ic"
  show ?thesis
  proof (cases "map_of cache g")
    case (Some m)
    have mem: "(g, m) \<in> set cache" using Some by (rule map_of_SomeD)
    have new: "snd (globToRegExp cache g ic) = AList.update g (AList.update ic ?r m) cache"
      using False Some by (simp add: globToRegExp_def Let_def)
    have m: "(ic', r) \<in> set m \<Longrightarrow> r = compile_glob g ic'" for ic' r
      using assms mem by (auto simp: glob_cache_ok_def)
    have "g \<in> fst ` set cache" using mem by force
    then have "length (AList.update g (AList.update ic ?r m) cache) \<le> glob_cache_max"
      using assms by (simp add: length_update glob_cache_ok_def)
    then show ?thesis
      unfolding new using assms m set_update_subset [of ic ?r m]
      by (intro glob_cache_ok_update) auto
  next
    case None
    have new: "snd (globToRegExp cache g ic) = AList.update g [(ic, ?r)] (evict_oldest cache)"
      using False None by (simp add: globToRegExp_def Let_def)
    have "glob_cache_ok (evict_oldest cache)"
      using assms evict_oldest_ok [OF assms] by (auto intro: glob_cache_ok_subset)
    then show ?thesis
      unfolding new using evict_oldest_ok(1) [OF assms]
      by (intro glob_cache_ok_update) (auto simp: length_update)
  qed
qed

subsection \<open>Properties\<close>


text \<open>
  A folder name put into a glob through \<open>escapeGlob\<close> protects that folder and
  nothing else: the escaped name alone matches exactly the name, and with a double star appended
  exactly the paths that begin with the name and continue without a line terminator.
\<close>

theorem escape_exact:
  "(re_test (compile_glob (escapeGlob name) False) s \<longleftrightarrow> s = name) \<and>
   (re_test (compile_glob (escapeGlob name @ ''**'') False) s \<longleftrightarrow>
      (\<exists>v. s = name @ v \<and> list_all (\<lambda>c. \<not> line_end c) v))"
proof -
  have eq: "list_all2 (char_eq False) name u \<longleftrightarrow> u = name" for u
    by (auto simp: list_all2_char_eq_False)
  have a: "glob_toks (escapeGlob name) = map Lit name"
    using glob_toks_escape [of name "[]"] by simp
  have b: "glob_toks (escapeGlob name @ ''**'') = map Lit name @ [Deep]"
    by (simp add: glob_toks_escape)
  show ?thesis
    by (auto simp: re_test_def compile_glob_def a b re_match_lits re_match_append_deep eq list_all_iff)
qed

primrec compile_seq :: "(str \<times> bool) list \<Rightarrow> glob_cache \<Rightarrow> (str + regex) list \<times> glob_cache" where
  "compile_seq [] cache = ([], cache)"
| "compile_seq (q # qs) cache =
     (let (r, c1) = globToRegExp cache (fst q) (snd q); (rs, c2) = compile_seq qs c1 in (r # rs, c2))"

lemma compile_seq_ok:
  "glob_cache_ok cache \<Longrightarrow> fst (compile_seq qs cache) = map (\<lambda>q. globRegExp (fst q) (snd q)) qs \<and>
     glob_cache_ok (snd (compile_seq qs cache))"
proof (induction qs arbitrary: cache)
  case Nil
  then show ?case by simp
next
  case (Cons q qs)
  then show ?case
    using globToRegExp_answer [OF Cons.prems, of "fst q" "snd q"]
      globToRegExp_cache [OF Cons.prems, of "fst q" "snd q"]
    by (simp add: Let_def split_beta)
qed

text \<open>
  Starting from an empty cache, any sequence of compilations answers what
  compiling afresh answers, oversized globs included, and never holds more than the bound.
\<close>

theorem glob_cache_transparent:
  "fst (compile_seq qs []) = map (\<lambda>q. globRegExp (fst q) (snd q)) qs \<and>
   length (snd (compile_seq qs [])) \<le> glob_cache_max"
  using compile_seq_ok [OF glob_cache_ok_empty, of qs] by (simp add: glob_cache_ok_def)

text \<open>
  A path component may contain a line feed on the platforms the server runs on, and \<open>.\<close> does not
  match one: a rule on \<open>secret/**\<close> does not apply to such a note.
\<close>

lemma deep_glob_misses_line_feed:
  "re_test (compile_glob ''secret/**'' False) ''secret/a.md'' \<and>
   \<not> re_test (compile_glob ''secret/**'' False) (''secret/a'' @ [CHR 0x0A] @ ''b.md'')"
  by code_simp

end
