(* ===== verification/Folder_Acl.thy ===== *)
theory Folder_Acl
  imports Globs Scopes "HOL-Library.Char_ord" "HOL-Library.List_Lexorder"
begin

text \<open>
  The folder ACL of \<open>packages/server/src/acl.ts\<close>: the class \<open>FolderAcl\<close> with its configuration,
  the expressions compiled from it once, the rules that arrive later (\<open>pending\<close>), the per-path
  lookups, the hard-denied control directories, the fingerprint of the effective ACL and the
  indexing predicate. An object is a \<open>folder_acl\<close>; \<open>settle\<close> and the constructor may throw (an
  oversized glob), so they return \<^typ>\<open>str + 'a\<close>.

  Lemmas: the compiled fields always agree with the configuration (\<open>acl_wf\<close>), the lookups equal a
  scan of the configuration with \<open>globMatch\<close>, rule scopes are last-match-wins, and two callers
  with one fingerprint get the same read decisions.
\<close>

datatype acl_op = Read | Write | Delete

record acl_rule =
  r_glob :: str
  r_scopes :: "scope list"

record acl_config =
  c_readOnly :: bool
  c_defaultScopes :: "scope list"
  c_rules :: "acl_rule list"
  c_readPaths :: "str list option"
  c_writePaths :: "str list option"
  c_deletePaths :: "str list option"
  c_strictReadDefault :: bool
  c_immutablePaths :: "str list option"
  c_protectSchemaFiles :: bool

text \<open>
  \<open>pending\<close>: \<^const>\<open>None\<close> when nothing is awaited; otherwise what asking now answers, \<^const>\<open>None\<close>
  while it is still not knowable and the final rules once it is.
\<close>

record folder_acl =
  cfg :: acl_config
  compiledRules :: "(regex \<times> scope list) list"
  compiledPaths :: "acl_op \<Rightarrow> (str \<times> regex) list option"
  compiledImmutable :: "(str \<times> regex) list"
  declaredScopeUnion :: "scope list"
  pending :: "acl_rule list option option"

subsection \<open>Control directories\<close>

definition default_deny_roots :: "str list" where
  "default_deny_roots = [''.obsidian'', ''.git'', ''.trash'']"

definition default_deny_exempt :: "str list" where
  "default_deny_exempt = [''.obsidian/bookmarks.json'', ''.obsidian/workspaces.json'']"

definition isDefaultDenied :: "platform \<Rightarrow> str \<Rightarrow> bool" where
  "isDefaultDenied pf path =
     (let p = nfc pf path in
      if p \<in> set default_deny_exempt then False
      else let l = lower p in
        list_ex (\<lambda>r. l = r \<or> prefix (r @ ''/'') l) default_deny_roots)"

subsection \<open>Construction\<close>

definition compileGlobList :: "platform \<Rightarrow> str list option \<Rightarrow> str + (str \<times> regex) list option" where
  "compileGlobList pf l =
     (case l of
        None \<Rightarrow> Inr None
      | Some globs \<Rightarrow>
          ebind (emap (\<lambda>g. ebind (globRegExp (nfc pf g) (ci_fs pf)) (\<lambda>r. Inr (g, r))) globs)
            (\<lambda>cs. Inr (Some cs)))"

definition compileRules :: "platform \<Rightarrow> acl_config \<Rightarrow> str + (regex \<times> scope list) list" where
  "compileRules pf c =
     emap (\<lambda>r. ebind (globRegExp (nfc pf (r_glob r)) (ci_fs pf)) (\<lambda>re. Inr (re, r_scopes r))) (c_rules c)"

definition unionOfDeclaredScopes :: "acl_config \<Rightarrow> scope list" where
  "unionOfDeclaredScopes c = js_set (c_defaultScopes c @ concat (map r_scopes (c_rules c)))"

definition new_FolderAcl ::
    "platform \<Rightarrow> acl_config \<Rightarrow> acl_rule list option option \<Rightarrow> str + folder_acl" where
  "new_FolderAcl pf c pend =
     ebind (compileGlobList pf (c_immutablePaths c)) (\<lambda>imm.
     ebind (compileRules pf c) (\<lambda>rules.
     ebind (compileGlobList pf (c_readPaths c)) (\<lambda>rp.
     ebind (compileGlobList pf (c_writePaths c)) (\<lambda>wp.
     ebind (compileGlobList pf (c_deletePaths c)) (\<lambda>dp.
     Inr \<lparr>cfg = c, compiledRules = rules,
          compiledPaths = (\<lambda>op. case op of Read \<Rightarrow> rp | Write \<Rightarrow> wp | Delete \<Rightarrow> dp),
          compiledImmutable = (case imm of None \<Rightarrow> [] | Some l \<Rightarrow> l),
          declaredScopeUnion = unionOfDeclaredScopes c, pending = pend\<rparr>)))))"

subsection \<open>Rules that arrive later\<close>

text \<open>The assignments of the source in order: the configuration is replaced before the rules are
  recompiled, so a throw of the compiler leaves the new configuration with the old expressions.\<close>

definition settle :: "platform \<Rightarrow> folder_acl \<Rightarrow> (str + unit) \<times> folder_acl" where
  "settle pf a =
     (case pending a of
        None \<Rightarrow> (Inr (), a)
      | Some None \<Rightarrow> (Inr (), a)
      | Some (Some extra) \<Rightarrow>
          (let a1 = a\<lparr>pending := None, cfg := (cfg a)\<lparr>c_rules := c_rules (cfg a) @ extra\<rparr>\<rparr> in
           case compileRules pf (cfg a1) of
             Inl e \<Rightarrow> (Inl e, a1)
           | Inr cr \<Rightarrow>
               (Inr (), a1\<lparr>compiledRules := cr,
                          declaredScopeUnion := unionOfDeclaredScopes (cfg a1)\<rparr>)))"

text \<open>An accessor that settles first: the value, and the object it leaves behind.\<close>

definition settled :: "platform \<Rightarrow> (folder_acl \<Rightarrow> 'v) \<Rightarrow> folder_acl \<Rightarrow> (str + 'v) \<times> folder_acl" where
  "settled pf f a =
     (case settle pf a of (Inl e, a') \<Rightarrow> (Inl e, a') | (Inr _, a') \<Rightarrow> (Inr (f a'), a'))"

subsection \<open>Lookups\<close>

fun last_match :: "(regex \<times> scope list) list \<Rightarrow> str \<Rightarrow> scope list \<Rightarrow> scope list" where
  "last_match [] p scopes = scopes"
| "last_match ((re, s) # rest) p scopes = last_match rest p (if re_test re p then s else scopes)"

definition scopes_now :: "platform \<Rightarrow> str \<Rightarrow> folder_acl \<Rightarrow> scope list" where
  "scopes_now pf path a = last_match (compiledRules a) (nfc pf path) (c_defaultScopes (cfg a))"

definition scopesForPath ::
    "platform \<Rightarrow> folder_acl \<Rightarrow> str \<Rightarrow> (str + scope list) \<times> folder_acl" where
  "scopesForPath pf a path = settled pf (scopes_now pf path) a"

text \<open>\<^const>\<open>None\<close>: no whitelist for the operation; \<open>Some None\<close>: a whitelist nothing of which
  matched; \<open>Some (Some g)\<close>: the first glob that matched.\<close>

definition matchedPathGlob :: "platform \<Rightarrow> folder_acl \<Rightarrow> acl_op \<Rightarrow> str \<Rightarrow> str option option" where
  "matchedPathGlob pf a op path =
     (case compiledPaths a op of
        None \<Rightarrow> None
      | Some l \<Rightarrow> (let p = nfc pf path in Some (map_option fst (find (\<lambda>c. re_test (snd c) p) l))))"

definition hasImmutablePaths :: "folder_acl \<Rightarrow> bool" where
  "hasImmutablePaths a \<longleftrightarrow> length (compiledImmutable a) > 0"

definition immutableGlobFor :: "platform \<Rightarrow> folder_acl \<Rightarrow> str \<Rightarrow> str option" where
  "immutableGlobFor pf a path =
     (if length (compiledImmutable a) = 0 then None
      else let p = nfc pf path in map_option fst (find (\<lambda>c. re_test (snd c) p) (compiledImmutable a)))"

definition protectsSchemaFiles :: "folder_acl \<Rightarrow> bool" where
  "protectsSchemaFiles a = c_protectSchemaFiles (cfg a)"

definition declaresPathScopes :: "platform \<Rightarrow> folder_acl \<Rightarrow> (str + bool) \<times> folder_acl" where
  "declaresPathScopes pf a = settled pf (\<lambda>a'. length (declaredScopeUnion a') > 0) a"

definition declaredScopes :: "platform \<Rightarrow> folder_acl \<Rightarrow> (str + scope list) \<times> folder_acl" where
  "declaredScopes pf a = settled pf declaredScopeUnion a"

definition readOnly :: "folder_acl \<Rightarrow> bool" where
  "readOnly a = c_readOnly (cfg a)"

definition strictReadDefault :: "folder_acl \<Rightarrow> bool" where
  "strictReadDefault a = c_strictReadDefault (cfg a)"

subsection \<open>Fingerprint\<close>

text \<open>The canonical object that is serialised and hashed; hashing (\<open>node:crypto\<close>) is a parameter.\<close>

record acl_canon =
  k_predicate :: nat
  k_readOnly :: bool
  k_strictReadDefault :: bool
  k_defaultScopes :: "scope list"
  k_rules :: "(str \<times> scope list) list"
  k_readPaths :: "str list option"
  k_writePaths :: "str list option"
  k_deletePaths :: "str list option"
  k_immutablePaths :: "str list option"
  k_scopes :: "scope list"

definition acl_canon_of :: "acl_config \<Rightarrow> scope list \<Rightarrow> acl_canon" where
  "acl_canon_of c grantedScopes =
     \<lparr>k_predicate = 2,
      k_readOnly = c_readOnly c,
      k_strictReadDefault = c_strictReadDefault c,
      k_defaultScopes = sort (c_defaultScopes c),
      k_rules = map (\<lambda>r. (r_glob r, sort (r_scopes r))) (c_rules c),
      k_readPaths = map_option sort (c_readPaths c),
      k_writePaths = map_option sort (c_writePaths c),
      k_deletePaths = map_option sort (c_deletePaths c),
      k_immutablePaths =
        (case c_immutablePaths c of None \<Rightarrow> None | Some l \<Rightarrow> if l = [] then None else Some (sort l)),
      k_scopes = sort (js_set grantedScopes)\<rparr>"

definition aclFingerprint :: "(acl_canon \<Rightarrow> str) \<Rightarrow> acl_config \<Rightarrow> scope list \<Rightarrow> str" where
  "aclFingerprint sha256 c grantedScopes = sha256 (acl_canon_of c grantedScopes)"

definition fingerprint ::
    "platform \<Rightarrow> (acl_canon \<Rightarrow> str) \<Rightarrow> folder_acl \<Rightarrow> scope list \<Rightarrow> (str + str) \<times> folder_acl" where
  "fingerprint pf sha256 a grantedScopes =
     settled pf (\<lambda>a'. aclFingerprint sha256 (cfg a') grantedScopes) a"

subsection \<open>Indexing\<close>

definition makeIndexReadable ::
    "platform \<Rightarrow> folder_acl \<Rightarrow> (str \<rightharpoonup> folder_acl) \<Rightarrow> str \<Rightarrow> str \<Rightarrow> bool" where
  "makeIndexReadable pf rootAcl aclByVault vaultId rel =
     (let a = (case aclByVault vaultId of Some v \<Rightarrow> v | None \<Rightarrow> rootAcl) in
      if isDefaultDenied pf rel then False
      else case matchedPathGlob pf a Read rel of
             None \<Rightarrow> \<not> strictReadDefault a
           | Some m \<Rightarrow> m \<noteq> None)"

datatype reindex_call = SinkWrite str str str | SinkDelete str str

definition makeReindexGate :: "(str \<Rightarrow> str \<Rightarrow> bool) \<Rightarrow> str \<Rightarrow> str \<Rightarrow> str \<Rightarrow> reindex_call" where
  "makeReindexGate indexReadableFor vaultId path content =
     (if indexReadableFor vaultId path then SinkWrite vaultId path content else SinkDelete vaultId path)"

subsection \<open>The compiled fields agree with the configuration\<close>

fun config_paths :: "acl_config \<Rightarrow> acl_op \<Rightarrow> str list option" where
  "config_paths c Read = c_readPaths c"
| "config_paths c Write = c_writePaths c"
| "config_paths c Delete = c_deletePaths c"

definition acl_wf :: "platform \<Rightarrow> folder_acl \<Rightarrow> bool" where
  "acl_wf pf a \<longleftrightarrow>
     compileRules pf (cfg a) = Inr (compiledRules a) \<and>
     (\<forall>op. compileGlobList pf (config_paths (cfg a) op) = Inr (compiledPaths a op)) \<and>
     (\<exists>imm. compileGlobList pf (c_immutablePaths (cfg a)) = Inr imm \<and>
            compiledImmutable a = (case imm of None \<Rightarrow> [] | Some l \<Rightarrow> l)) \<and>
     declaredScopeUnion a = unionOfDeclaredScopes (cfg a)"

lemma new_FolderAcl_wf:
  assumes "new_FolderAcl pf c pend = Inr a"
  shows "acl_wf pf a \<and> cfg a = c \<and> pending a = pend"
proof -
  have "compileGlobList pf (config_paths c op) = Inr (compiledPaths a op)" for op
    using assms by (cases op) (auto simp: new_FolderAcl_def ebind_eq_Inr)
  with assms show ?thesis
    by (auto simp: new_FolderAcl_def ebind_eq_Inr acl_wf_def)
qed

lemma config_paths_rules: "config_paths (c\<lparr>c_rules := rs\<rparr>) op = config_paths c op"
  by (cases op) simp_all

lemma settle_wf:
  assumes "acl_wf pf a" and "settle pf a = (Inr u, a')"
  shows "acl_wf pf a'"
  using assms
  by (auto simp: settle_def acl_wf_def Let_def config_paths_rules split: option.splits sum.splits)

text \<open>What a glob list and the rules decide, read off the configuration with \<^const>\<open>globMatch\<close>.\<close>

definition glob_hits :: "platform \<Rightarrow> str \<Rightarrow> str \<Rightarrow> bool" where
  "glob_hits pf path g \<longleftrightarrow> globMatch pf g path (ci_fs pf) = Inr True"

lemma glob_hits_iff: "globRegExp (nfc pf g) (ci_fs pf) = Inr r \<Longrightarrow> glob_hits pf path g = re_test r (nfc pf path)"
  by (simp add: glob_hits_def globMatch_def)

lemma compileGlobList_find:
  "emap (\<lambda>g. ebind (globRegExp (nfc pf g) (ci_fs pf)) (\<lambda>r. Inr (g, r))) globs = Inr cs \<Longrightarrow>
     map_option fst (find (\<lambda>c. re_test (snd c) (nfc pf path)) cs) = find (glob_hits pf path) globs"
proof (induction globs arbitrary: cs)
  case Nil
  then show ?case by simp
next
  case (Cons g globs)
  then show ?case by (auto simp: ebind_eq_Inr glob_hits_iff)
qed

lemma matchedPathGlob_config:
  assumes "acl_wf pf a"
  shows "matchedPathGlob pf a op path =
     map_option (find (glob_hits pf path)) (config_paths (cfg a) op)"
proof -
  from assms have c: "compileGlobList pf (config_paths (cfg a) op) = Inr (compiledPaths a op)"
    by (simp add: acl_wf_def)
  show ?thesis
  proof (cases "config_paths (cfg a) op")
    case None
    with c show ?thesis by (simp add: compileGlobList_def matchedPathGlob_def)
  next
    case (Some globs)
    with c obtain cs where
      "emap (\<lambda>g. ebind (globRegExp (nfc pf g) (ci_fs pf)) (\<lambda>r. Inr (g, r))) globs = Inr cs"
      and "compiledPaths a op = Some cs"
      by (auto simp: compileGlobList_def ebind_eq_Inr)
    with Some show ?thesis
      by (simp add: matchedPathGlob_def compileGlobList_find)
  qed
qed

lemma immutableGlobFor_config:
  assumes "acl_wf pf a"
  shows "immutableGlobFor pf a path =
     (case c_immutablePaths (cfg a) of None \<Rightarrow> None | Some l \<Rightarrow> find (glob_hits pf path) l)"
proof (cases "c_immutablePaths (cfg a)")
  case None
  with assms show ?thesis by (auto simp: acl_wf_def immutableGlobFor_def compileGlobList_def)
next
  case (Some globs)
  with assms obtain cs where
    cs: "emap (\<lambda>g. ebind (globRegExp (nfc pf g) (ci_fs pf)) (\<lambda>r. Inr (g, r))) globs = Inr cs"
    and "compiledImmutable a = cs"
    by (auto simp: acl_wf_def compileGlobList_def ebind_eq_Inr)
  moreover have "cs = [] \<longleftrightarrow> globs = []"
    using cs by (auto simp: emap_Inr)
  ultimately show ?thesis
    using Some compileGlobList_find [OF cs, of path] by (auto simp: immutableGlobFor_def)
qed

definition rule_scopes :: "platform \<Rightarrow> acl_config \<Rightarrow> str \<Rightarrow> scope list" where
  "rule_scopes pf c path =
     (case find (\<lambda>r. glob_hits pf path (r_glob r)) (rev (c_rules c)) of
        Some r \<Rightarrow> r_scopes r
      | None \<Rightarrow> c_defaultScopes c)"

lemma find_append: "find P (xs @ ys) = (case find P xs of Some x \<Rightarrow> Some x | None \<Rightarrow> find P ys)"
  by (induction xs) auto

lemma last_match_find:
  "emap (\<lambda>r. ebind (globRegExp (nfc pf (r_glob r)) (ci_fs pf)) (\<lambda>re. Inr (re, r_scopes r))) rules = Inr cr \<Longrightarrow>
     last_match cr (nfc pf path) d =
       (case find (\<lambda>r. glob_hits pf path (r_glob r)) (rev rules) of Some r \<Rightarrow> r_scopes r | None \<Rightarrow> d)"
proof (induction rules arbitrary: cr d)
  case Nil
  then show ?case by simp
next
  case (Cons r rules)
  then show ?case by (auto simp: ebind_eq_Inr glob_hits_iff find_append split: option.splits)
qed

lemma scopes_now_config:
  assumes "acl_wf pf a"
  shows "scopes_now pf path a = rule_scopes pf (cfg a) path"
  using assms last_match_find
  by (auto simp: scopes_now_def rule_scopes_def acl_wf_def compileRules_def)

lemma rule_scopes_declared:
  "set (rule_scopes pf c path) \<subseteq> set (unionOfDeclaredScopes c)"
  by (auto simp: rule_scopes_def unionOfDeclaredScopes_def dest!: find_in_set split: option.splits)

subsection \<open>The fingerprint determines the read decision\<close>

lemma sort_eq_set: "sort xs = sort ys \<Longrightarrow> set xs = set (ys :: str list)"
  by (metis set_sort)

lemma find_None_set: "set xs = set ys \<Longrightarrow> (find P xs = None) = (find P ys = None)"
  by (auto simp: find_None_iff)

lemma acl_canonD:
  assumes "acl_canon_of c g = acl_canon_of c' g'"
  shows "map (\<lambda>r. (r_glob r, sort (r_scopes r))) (c_rules c) =
      map (\<lambda>r. (r_glob r, sort (r_scopes r))) (c_rules c')"
    and "sort (c_defaultScopes c) = sort (c_defaultScopes c')"
    and "map_option sort (c_readPaths c) = map_option sort (c_readPaths c')"
    and "c_strictReadDefault c = c_strictReadDefault c'"
    and "sort (js_set g) = sort (js_set g')"
  using assms unfolding acl_canon_of_def by simp_all

lemma canon_rule_scopes:
  assumes "acl_canon_of c g = acl_canon_of c' g'"
  shows "set (rule_scopes pf c path) = set (rule_scopes pf c' path)"
proof -
  note rules = acl_canonD(1) [OF assms]
  have dflt: "set (c_defaultScopes c) = set (c_defaultScopes c')"
    using acl_canonD(2) [OF assms] by (rule sort_eq_set)
  have find_sync: "map (\<lambda>r. (r_glob r, sort (r_scopes r))) rs =
      map (\<lambda>r. (r_glob r, sort (r_scopes r))) rs' \<Longrightarrow>
      rel_option (\<lambda>r r'. set (r_scopes r) = set (r_scopes r'))
        (find (\<lambda>r. glob_hits pf path (r_glob r)) rs) (find (\<lambda>r. glob_hits pf path (r_glob r)) rs')" for rs rs'
  proof (induction rs arbitrary: rs')
    case Nil
    then show ?case by simp
  next
    case (Cons r rs)
    then obtain r' rs'' where "rs' = r' # rs''" by (cases rs') auto
    with Cons show ?case by (auto dest: sort_eq_set)
  qed
  have "map (\<lambda>r. (r_glob r, sort (r_scopes r))) (rev (c_rules c)) =
      map (\<lambda>r. (r_glob r, sort (r_scopes r))) (rev (c_rules c'))"
    using rules by (simp only: rev_map [symmetric])
  from find_sync [OF this] show ?thesis
    unfolding rule_scopes_def using dflt
    by (cases rule: option.rel_cases) simp_all
qed

lemma canon_matched_read:
  assumes "acl_canon_of (cfg a) g = acl_canon_of (cfg a') g'" and "acl_wf pf a" and "acl_wf pf a'"
  shows "rel_option (\<lambda>m m'. (m = None) = (m' = None))
     (matchedPathGlob pf a Read path) (matchedPathGlob pf a' Read path)"
proof -
  have paths: "map_option sort (c_readPaths (cfg a)) = map_option sort (c_readPaths (cfg a'))"
    by (rule acl_canonD(3) [OF assms(1)])
  show ?thesis
  proof (cases "c_readPaths (cfg a)")
    case None
    with paths show ?thesis
      by (simp add: matchedPathGlob_config [OF assms(2)] matchedPathGlob_config [OF assms(3)])
  next
    case (Some l)
    with paths obtain l' where l': "c_readPaths (cfg a') = Some l'" "sort l = sort l'"
      by (cases "c_readPaths (cfg a')") auto
    have "set l = set l'" using l'(2) by (rule sort_eq_set)
    then have "(find P l = None) = (find P l' = None)" for P by (rule find_None_set)
    with Some l'(1) show ?thesis
      by (simp add: matchedPathGlob_config [OF assms(2)] matchedPathGlob_config [OF assms(3)])
  qed
qed

subsection \<open>Properties\<close>

text \<open>
  C38: an ACL object built from a configuration answers, for every path and
  operation, what scanning the configuration answers: the scopes of the last matching rule (the
  default scopes without one), the first matching whitelist glob, the first matching immutable glob.
  Rules that arrive later and settle cleanly are part of that configuration.
\<close>

theorem compiled_acl_agrees:
  assumes "new_FolderAcl pf c pend = Inr a" and "settle pf a = (Inr (), a')"
  shows "fst (scopesForPath pf a path) = Inr (rule_scopes pf (cfg a') path) \<and>
    matchedPathGlob pf a' op path = map_option (find (glob_hits pf path)) (config_paths c op) \<and>
    immutableGlobFor pf a' path =
      (case c_immutablePaths c of None \<Rightarrow> None | Some l \<Rightarrow> find (glob_hits pf path) l)"
proof -
  have a: "acl_wf pf a" "cfg a = c" using new_FolderAcl_wf [OF assms(1)] by simp_all
  have wf: "acl_wf pf a'" by (rule settle_wf [OF a(1) assms(2)])
  have keep: "config_paths (cfg a') op = config_paths c op" "c_immutablePaths (cfg a') = c_immutablePaths c"
    using assms(2) a(2)
    by (auto simp: settle_def Let_def config_paths_rules split: option.splits sum.splits)
  show ?thesis
    using scopes_now_config [OF wf] matchedPathGlob_config [OF wf] immutableGlobFor_config [OF wf]
    by (simp add: scopesForPath_def settled_def assms(2) keep)
qed

definition plain_platform :: platform where
  "plain_platform = \<lparr>nfc = (\<lambda>s. s), ci_fs = False\<rparr>"

definition sample_config :: acl_config where
  "sample_config =
     \<lparr>c_readOnly = False, c_defaultScopes = [], c_rules = [\<lparr>r_glob = ''a/*'', r_scopes = [''read:a'']\<rparr>],
      c_readPaths = Some [''a/*'', ''b/*''], c_writePaths = None, c_deletePaths = None,
      c_strictReadDefault = False, c_immutablePaths = Some [''raw/**''], c_protectSchemaFiles = True\<rparr>"

theorem compiled_acl_agrees_witness:
  "(case new_FolderAcl plain_platform sample_config (Some (Some [\<lparr>r_glob = ''a/x'', r_scopes = [''admin:vault'']\<rparr>])) of
      Inl _ \<Rightarrow> False
    | Inr a \<Rightarrow> fst (scopesForPath plain_platform a ''a/x'') = Inr [''admin:vault''])"
proof -
  let ?r = "new_FolderAcl plain_platform sample_config (Some (Some [\<lparr>r_glob = ''a/x'', r_scopes = [''admin:vault'']\<rparr>]))"
  obtain a where a: "?r = Inr a"
  proof (cases ?r)
    case (Inl e)
    moreover have "(case ?r of Inl _ \<Rightarrow> False | Inr _ \<Rightarrow> True)" by code_simp
    ultimately show ?thesis by simp
  qed
  have p: "pending a = Some (Some [\<lparr>r_glob = ''a/x'', r_scopes = [''admin:vault'']\<rparr>])" "cfg a = sample_config"
    using new_FolderAcl_wf [OF a] by simp_all
  obtain a' where s: "settle plain_platform a = (Inr (), a')"
    and c: "cfg a' = sample_config\<lparr>c_rules := c_rules sample_config @ [\<lparr>r_glob = ''a/x'', r_scopes = [''admin:vault'']\<rparr>]\<rparr>"
    by (simp add: settle_def p Let_def compileRules_def sample_config_def globRegExp_def
        plain_platform_def max_glob_length_def)
  have "rule_scopes plain_platform (sample_config\<lparr>c_rules := c_rules sample_config @
      [\<lparr>r_glob = ''a/x'', r_scopes = [''admin:vault'']\<rparr>]\<rparr>) ''a/x'' = [''admin:vault'']"
    by code_simp
  with compiled_acl_agrees [OF a s, of "''a/x''" Read] a c show ?thesis by simp
qed

text \<open>
  The fingerprint is a sound key for what a caller may read. When the
  canonical forms of two callers under two settled ACL objects are the same, every path is either
  whitelisted for both or for neither, its default-deny switch is the same, and each caller's scopes
  satisfy the path's rule exactly when the other's do.
\<close>

theorem fingerprint_decides_reads:
  assumes "acl_canon_of (cfg a) g = acl_canon_of (cfg a') g'" and "acl_wf pf a" and "acl_wf pf a'"
  shows "rel_option (\<lambda>m m'. (m = None) = (m' = None)) (matchedPathGlob pf a Read path) (matchedPathGlob pf a' Read path) \<and>
    strictReadDefault a = strictReadDefault a' \<and>
    (grantsAll g (scopes_now pf path a) \<longleftrightarrow> grantsAll g' (scopes_now pf path a'))"
proof -
  have g: "set g = set g'" using sort_eq_set [OF acl_canonD(5) [OF assms(1)]] by simp
  have r: "set (scopes_now pf path a) = set (scopes_now pf path a')"
    using canon_rule_scopes [OF assms(1)] by (simp add: scopes_now_config assms(2,3))
  have "grantsAll g (scopes_now pf path a) \<longleftrightarrow> grantsAll g' (scopes_now pf path a')"
    using g r by (auto simp: grantsAll_iff grantsScope_iff)
  with canon_matched_read [OF assms] acl_canonD(4) [OF assms(1)] show ?thesis
    by (simp add: strictReadDefault_def)
qed

theorem fingerprint_decides_reads_witness:
  "(case (new_FolderAcl plain_platform sample_config None,
          new_FolderAcl plain_platform (sample_config\<lparr>c_readPaths := Some [''b/*'', ''a/*'']\<rparr>) None) of
      (Inr a, Inr a') \<Rightarrow> strictReadDefault a = strictReadDefault a' \<and>
        (grantsAll [''read:a''] (scopes_now plain_platform ''a/x'' a) \<longleftrightarrow>
         grantsAll [''read:a''] (scopes_now plain_platform ''a/x'' a'))
    | _ \<Rightarrow> False)"
proof -
  let ?c' = "sample_config\<lparr>c_readPaths := Some [''b/*'', ''a/*'']\<rparr>"
  obtain a where a: "new_FolderAcl plain_platform sample_config None = Inr a"
  proof (cases "new_FolderAcl plain_platform sample_config None")
    case (Inl e)
    moreover have "(case new_FolderAcl plain_platform sample_config None of Inl _ \<Rightarrow> False | Inr _ \<Rightarrow> True)" by code_simp
    ultimately show ?thesis by simp
  qed
  obtain a' where a': "new_FolderAcl plain_platform ?c' None = Inr a'"
  proof (cases "new_FolderAcl plain_platform ?c' None")
    case (Inl e)
    moreover have "(case new_FolderAcl plain_platform ?c' None of Inl _ \<Rightarrow> False | Inr _ \<Rightarrow> True)" by code_simp
    ultimately show ?thesis by simp
  qed
  have "acl_canon_of sample_config [''read:a''] = acl_canon_of ?c' [''read:a'']" by code_simp
  then have "acl_canon_of (cfg a) [''read:a''] = acl_canon_of (cfg a') [''read:a'']"
    using new_FolderAcl_wf [OF a] new_FolderAcl_wf [OF a'] by simp
  moreover have "acl_wf plain_platform a" "acl_wf plain_platform a'"
    using new_FolderAcl_wf [OF a] new_FolderAcl_wf [OF a'] by simp_all
  ultimately have "rel_option (\<lambda>m m'. (m = None) = (m' = None))
        (matchedPathGlob plain_platform a Read ''a/x'') (matchedPathGlob plain_platform a' Read ''a/x'') \<and>
      strictReadDefault a = strictReadDefault a' \<and>
      (grantsAll [''read:a''] (scopes_now plain_platform ''a/x'' a) \<longleftrightarrow>
       grantsAll [''read:a''] (scopes_now plain_platform ''a/x'' a'))"
    by (rule fingerprint_decides_reads)
  then show ?thesis unfolding a a' by (simp only: prod.case sum.case simp_thms)
qed

text \<open>
  A rule that arrives later and does not compile (its glob is longer than the bound) leaves an object
  that no longer awaits anything and enforces the rules it had before, without the late one.
\<close>

lemma settle_throw_drops_late_rules:
  assumes "pending a = Some (Some extra)" and "compileRules pf ((cfg a)\<lparr>c_rules := c_rules (cfg a) @ extra\<rparr>) = Inl e"
  shows "(case scopesForPath pf a path of (r, a') \<Rightarrow>
     r = Inl e \<and> pending a' = None \<and> compiledRules a' = compiledRules a \<and>
     fst (scopesForPath pf a' path') = Inr (scopes_now pf path' a))"
  using assms by (simp add: scopesForPath_def settled_def settle_def Let_def scopes_now_def)

end
