(* ===== verification/Tc_Errors.thy ===== *)
theory Tc_Errors
  imports Tc_Prelude
begin

text \<open>
  The error taxonomy of \<open>packages/shared/src/errors.ts\<close>: every code, which codes a caller may
  retry, and the split between refusals a fan-out must surface and transient failures it may
  swallow. A thrown value is \<open>Tc\<close> (an \<open>ObsidianTcError\<close>: code, message, details) or \<open>Thrown\<close>
  (any other JavaScript error, with its message). The recovery hints, fixed prose selected by the
  code for the wire, are not modelled.
\<close>

datatype error_code =
    Unauthorized | Forbidden | Validation_error | Not_found | Vault_not_found | Conflict
  | Idempotency_key_mismatch | Idempotency_in_flight | Elicit_required | Elicit_invalid
  | Replay_drift | Overflow | Throttled | Read_only | Plugin_unavailable | Internal
  | Note_not_found | Path_invalid | Path_ambiguous | Acl_denied | Read_only_mode | Note_exists
  | Concurrent_modification | Invalid_input | Internal_error
  | Embedding_provider_error | Operation_timeout | Dql_error | Jsonlogic_error | Plugin_missing
  | Plugin_unreachable | Bases_syntax_error | Unsupported_base_filter
  | Execute_command_disabled | Command_not_allowlisted | Requires_live_obsidian
  | Compute_budget_exceeded | Plugin_incompatible | Indeterminate_outcome | Aborted
  | Content_rejected | Egress_excluded | Secret_detected | Convention_blocked

type_synonym details = "(str \<times> json) list"

datatype terror =
    Tc (err_code: error_code) (err_message: str) (err_details: "details option")
  | Thrown (thrown_message: str)

definition retryable_codes :: "error_code list" where
  "retryable_codes =
     [Idempotency_in_flight, Throttled, Internal, Internal_error, Concurrent_modification,
      Embedding_provider_error, Operation_timeout, Plugin_unreachable, Aborted]"

definition retryable :: "error_code \<Rightarrow> bool" where
  "retryable c \<longleftrightarrow> c \<in> set retryable_codes"

fun is_loud_refusal :: "terror \<Rightarrow> bool" where
  "is_loud_refusal (Tc c m d) = (c = Internal \<or> \<not> retryable c)"
| "is_loud_refusal (Thrown m) = False"

fun code_name :: "error_code \<Rightarrow> str" where
  "code_name Unauthorized = ''unauthorized''"
| "code_name Forbidden = ''forbidden''"
| "code_name Validation_error = ''validation_error''"
| "code_name Not_found = ''not_found''"
| "code_name Vault_not_found = ''vault_not_found''"
| "code_name Conflict = ''conflict''"
| "code_name Idempotency_key_mismatch = ''idempotency_key_mismatch''"
| "code_name Idempotency_in_flight = ''idempotency_in_flight''"
| "code_name Elicit_required = ''elicit_required''"
| "code_name Elicit_invalid = ''elicit_invalid''"
| "code_name Replay_drift = ''replay_drift''"
| "code_name Overflow = ''overflow''"
| "code_name Throttled = ''throttled''"
| "code_name Read_only = ''read_only''"
| "code_name Plugin_unavailable = ''plugin_unavailable''"
| "code_name Internal = ''internal''"
| "code_name Note_not_found = ''note_not_found''"
| "code_name Path_invalid = ''path_invalid''"
| "code_name Path_ambiguous = ''path_ambiguous''"
| "code_name Acl_denied = ''acl_denied''"
| "code_name Read_only_mode = ''read_only_mode''"
| "code_name Note_exists = ''note_exists''"
| "code_name Concurrent_modification = ''concurrent_modification''"
| "code_name Invalid_input = ''invalid_input''"
| "code_name Internal_error = ''internal_error''"
| "code_name Embedding_provider_error = ''embedding_provider_error''"
| "code_name Operation_timeout = ''operation_timeout''"
| "code_name Dql_error = ''dql_error''"
| "code_name Jsonlogic_error = ''jsonlogic_error''"
| "code_name Plugin_missing = ''plugin_missing''"
| "code_name Plugin_unreachable = ''plugin_unreachable''"
| "code_name Bases_syntax_error = ''bases_syntax_error''"
| "code_name Unsupported_base_filter = ''unsupported_base_filter''"
| "code_name Execute_command_disabled = ''execute_command_disabled''"
| "code_name Command_not_allowlisted = ''command_not_allowlisted''"
| "code_name Requires_live_obsidian = ''requires_live_obsidian''"
| "code_name Compute_budget_exceeded = ''compute_budget_exceeded''"
| "code_name Plugin_incompatible = ''plugin_incompatible''"
| "code_name Indeterminate_outcome = ''indeterminate_outcome''"
| "code_name Aborted = ''aborted''"
| "code_name Content_rejected = ''content_rejected''"
| "code_name Egress_excluded = ''egress_excluded''"
| "code_name Secret_detected = ''secret_detected''"
| "code_name Convention_blocked = ''convention_blocked''"

text \<open>
  The codes a fan-out may swallow are exactly the domain-specific retryable ones the comment in
  the source lists, with \<open>internal_error\<close> besides.
\<close>

lemma quiet_codes:
  "\<not> is_loud_refusal (Tc c m d) \<longleftrightarrow>
     c \<in> {Embedding_provider_error, Operation_timeout, Plugin_unreachable, Concurrent_modification,
          Idempotency_in_flight, Throttled, Aborted, Internal_error}"
  by (cases c) (simp_all add: retryable_def retryable_codes_def)

end
