(* ===== verification/Vault_Paths.thy ===== *)
theory Vault_Paths
  imports Globs Tc_Errors
begin

text \<open>
  Vault-relative paths: the segment rules of \<open>packages/shared/src/schemas/primitives.ts\<close> and the
  resolver of \<open>packages/server/src/vault/paths.ts\<close>, on a POSIX host. An absolute path is the list of
  its segments (the root directory is \<^term>\<open>[]\<close>), so \<open>node:path\<close>'s \<open>join\<close>, \<open>dirname\<close>, \<open>basename\<close>
  and \<open>relative\<close> are list operations. What the operating system answers is a parameter (\<open>fs\<close>):
  \<open>realpath\<close>, \<open>lstat\<close> on the root and on a name, the link count of a regular file; so are the
  verdict on pinned folders (\<open>vault/folder-links.ts\<close>) and the redaction of a path shown in an error
  (\<open>experiential/redact.ts\<close>).

  Lemmas: an accepted path has only plain segments, normalisation is idempotent, and a resolved
  identity is always inside the real vault root.
\<close>

type_synonym abs_path = "str list"

datatype pin_verdict = Unpinned | Pinned abs_path | Pin_refused str

record fs =
  realpath :: "abs_path \<Rightarrow> abs_path option"
  is_symlink :: "abs_path \<Rightarrow> bool"
  exists_nofollow :: "abs_path \<Rightarrow> bool"
  file_nlink :: "abs_path \<Rightarrow> nat option"
  pin_of :: "abs_path \<Rightarrow> pin_verdict"
  redact :: "str \<Rightarrow> str"

subsection \<open>Segment rules\<close>

datatype windows_problem = Reserved_name | Colon | Trailing_dot_or_space

definition windows_devices :: "str list" where
  "windows_devices =
     [''CON'', ''PRN'', ''AUX'', ''NUL''] @
     map (\<lambda>d. ''COM'' @ [d]) ''123456789'' @ map (\<lambda>d. ''LPT'' @ [d]) ''123456789''"

definition windows_reserved :: "str \<Rightarrow> bool" where
  "windows_reserved s \<longleftrightarrow>
     list_ex (\<lambda>dev. map char_upper (take (length dev) s) = dev \<and>
       (case dropWhile (\<lambda>c. c = CHR '' '') (drop (length dev) s) of
          [] \<Rightarrow> True
        | c # ext \<Rightarrow> c = CHR ''.'' \<and> \<not> list_ex line_end ext)) windows_devices"

definition windowsNameProblem :: "str \<Rightarrow> windows_problem option" where
  "windowsNameProblem segment =
     (if segment = [] \<or> segment = ''.'' \<or> segment = ''..'' then None
      else if CHR '':'' \<in> set segment then Some Colon
      else if last segment = CHR ''.'' \<or> last segment = CHR '' '' then Some Trailing_dot_or_space
      else if windows_reserved segment then Some Reserved_name
      else None)"

definition link_label :: "char \<Rightarrow> str list" where
  "link_label ch =
     (if ch \<in> set ''[]#^|'' then [[ch]]
      else if ch = CHR 0x0A \<or> ch = CHR 0x0D then [''newline'']
      else if (of_char ch :: nat) \<le> 31 \<or> (of_char ch :: nat) = 127 then [''control character'']
      else [])"

definition wikiLinkNameProblem :: "str \<Rightarrow> str list option" where
  "wikiLinkNameProblem segment =
     (let found = js_set (concat (map link_label segment) @
            (if sublist ''%%'' segment then [''%%''] else []))
      in if found = [] then None else Some found)"

subsection \<open>Normalisation\<close>

definition is_sep :: "char \<Rightarrow> bool" where
  "is_sep c \<longleftrightarrow> c = CHR ''/'' \<or> c = CHR 0x5C"

definition ascii_letter :: "char \<Rightarrow> bool" where
  "ascii_letter c \<longleftrightarrow> (let n = (of_char c :: nat) in (65 \<le> n \<and> n \<le> 90) \<or> (97 \<le> n \<and> n \<le> 122))"

definition looks_absolute :: "str \<Rightarrow> bool" where
  "looks_absolute p \<longleftrightarrow>
     (case p of
        [] \<Rightarrow> False
      | c # rest \<Rightarrow> is_sep c \<or>
          (ascii_letter c \<and> (case rest of d # e # _ \<Rightarrow> d = CHR '':'' \<and> is_sep e | _ \<Rightarrow> False)))"

definition path_error :: "fs \<Rightarrow> error_code \<Rightarrow> str \<Rightarrow> str \<Rightarrow> terror" where
  "path_error fs code msg shown = Tc code msg (Some [(''path'', JStr (redact fs shown))])"

text \<open>The pieces of \<open>split(/[\\/]+/)\<close> that are not empty, in order: the empty ones pass every test
  below and are dropped by the final filter.\<close>

definition path_parts :: "str \<Rightarrow> str list" where
  "path_parts p = filter (\<lambda>w. w \<noteq> []) (split_on is_sep p)"

definition normalizeVaultPath :: "fs \<Rightarrow> str \<Rightarrow> terror + str" where
  "normalizeVaultPath fs relPath =
     (if looks_absolute relPath
      then Inl (path_error fs Path_invalid ''absolute paths are not allowed'' relPath)
      else let parts = path_parts relPath in
        if list_ex (\<lambda>p. p = ''..'') parts
        then Inl (path_error fs Path_invalid ''path traversal is not allowed'' relPath)
        else if list_ex (\<lambda>p. windowsNameProblem p = Some Reserved_name) parts
        then Inl (path_error fs Path_invalid ''Windows reserved names are not allowed'' relPath)
        else Inr (join_with ''/'' (filter (\<lambda>p. p \<noteq> ''.'') parts)))"

fun windows_name_message :: "windows_problem \<Rightarrow> str" where
  "windows_name_message Reserved_name = ''Windows reserved names are not allowed''"
| "windows_name_message Colon =
     ''a colon in a path segment is not allowed (NTFS alternate data stream)''"
| "windows_name_message Trailing_dot_or_space =
     ''a path segment may not end in a dot or a space (Windows strips it)''"

definition assertCreatableName :: "fs \<Rightarrow> str \<Rightarrow> str \<Rightarrow> terror + unit" where
  "assertCreatableName fs segment shown =
     (case windowsNameProblem segment of
        Some problem \<Rightarrow> Inl (path_error fs Path_invalid (windows_name_message problem) shown)
      | None \<Rightarrow>
          (case wikiLinkNameProblem segment of
             None \<Rightarrow> Inr ()
           | Some linkChars \<Rightarrow>
               Inl (Tc Invalid_input
                 (''a new note or attachment name cannot contain '' @ join_with '' '' linkChars @
                  '': it cannot live inside a [[wikilink]]'')
                 (Some [(''path'', JStr (redact fs shown)),
                        (''characters'', JArr (map JStr linkChars))]))))"

definition segments :: "str \<Rightarrow> str list" where
  "segments clean = (if clean = [] then [] else split_on (\<lambda>c. c = CHR ''/'') clean)"

fun assert_writable_from :: "fs \<Rightarrow> str \<Rightarrow> abs_path \<Rightarrow> bool \<Rightarrow> str list \<Rightarrow> terror + unit" where
  "assert_writable_from fs relPath cur onDisk [] = Inr ()"
| "assert_writable_from fs relPath cur onDisk (seg # segs) =
     (let cur' = cur @ [seg]; there = onDisk \<and> exists_nofollow fs cur' in
      if there then assert_writable_from fs relPath cur' True segs
      else ebind (assertCreatableName fs seg relPath)
             (\<lambda>_. assert_writable_from fs relPath cur' False segs))"

definition assertWritableVaultPath :: "fs \<Rightarrow> abs_path \<Rightarrow> str \<Rightarrow> terror + unit" where
  "assertWritableVaultPath fs root relPath =
     ebind (normalizeVaultPath fs relPath)
       (\<lambda>clean. assert_writable_from fs relPath root True (segments clean))"

subsection \<open>Resolution\<close>

fun realpath_deepest_from :: "fs \<Rightarrow> nat \<Rightarrow> abs_path \<Rightarrow> str list \<Rightarrow> abs_path \<Rightarrow> abs_path" where
  "realpath_deepest_from fs 0 dir tail apath = apath"
| "realpath_deepest_from fs (Suc depth) dir tail apath =
     (case realpath fs dir of
        Some real \<Rightarrow> real @ tail
      | None \<Rightarrow>
          (if dir = [] then apath
           else realpath_deepest_from fs depth (butlast dir) (last dir # tail) apath))"

definition realpathDeepest :: "fs \<Rightarrow> abs_path \<Rightarrow> abs_path" where
  "realpathDeepest fs apath = realpath_deepest_from fs 4096 apath [] apath"

fun relative :: "abs_path \<Rightarrow> abs_path \<Rightarrow> str list" where
  "relative (f # fr) (t # to) =
     (if f = t then relative fr to else replicate (length (f # fr)) ''..'' @ t # to)"
| "relative fr to = replicate (length fr) ''..'' @ to"

definition escapesBase :: "str list \<Rightarrow> bool" where
  "escapesBase rel \<longleftrightarrow> (case rel of [] \<Rightarrow> False | s # _ \<Rightarrow> s = ''..'')"

record resolved_path =
  rp_abs :: abs_path
  rp_aclRel :: str

definition resolveVaultPathChecked :: "fs \<Rightarrow> abs_path \<Rightarrow> str \<Rightarrow> terror + resolved_path" where
  "resolveVaultPathChecked fs root relPath =
     ebind (normalizeVaultPath fs relPath) (\<lambda>clean.
       let apath = root @ segments clean in
       if escapesBase (relative root apath)
       then Inl (path_error fs Path_invalid ''path escapes the vault root'' relPath)
       else if is_symlink fs root
       then Inl (path_error fs Vault_not_found ''vault root resolved to a symlink'' relPath)
       else case realpath fs root of
         None \<Rightarrow> Inl (path_error fs Vault_not_found ''vault root could not be resolved'' relPath)
       | Some realRoot \<Rightarrow>
           (case pin_of fs apath of
              Pin_refused reason \<Rightarrow> Inl (path_error fs Acl_denied reason relPath)
            | pin \<Rightarrow>
                let realAbs = realpathDeepest fs apath in
                if (case pin of Pinned p \<Rightarrow> realAbs \<noteq> p | _ \<Rightarrow> False)
                then Inl (path_error fs Acl_denied
                  ''a configured folder no longer leads where it did at registration'' relPath)
                else let realRel = relative realRoot realAbs in
                  if escapesBase realRel
                  then Inl (path_error fs Path_invalid ''path escapes the vault root'' relPath)
                  else Inr \<lparr>rp_abs = apath, rp_aclRel = join_with ''/'' realRel\<rparr>))"

subsection \<open>What an accepted path looks like\<close>

definition plain_segment :: "str \<Rightarrow> bool" where
  "plain_segment w \<longleftrightarrow> w \<noteq> [] \<and> w \<noteq> ''.'' \<and> w \<noteq> ''..'' \<and> (\<forall>c\<in>set w. \<not> is_sep c)"

lemma normalize_plain:
  assumes "normalizeVaultPath fs p = Inr q"
  shows "\<exists>ws. q = join_with ''/'' ws \<and> (\<forall>w\<in>set ws. plain_segment w) \<and>
    (\<forall>w\<in>set ws. windowsNameProblem w \<noteq> Some Reserved_name)"
proof -
  let ?ws = "filter (\<lambda>p. p \<noteq> ''.'') (path_parts p)"
  have "q = join_with ''/'' ?ws"
    and up: "''..'' \<notin> set (path_parts p)"
    and res: "\<forall>w\<in>set (path_parts p). windowsNameProblem w \<noteq> Some Reserved_name"
    using assms by (auto simp: normalizeVaultPath_def Let_def list_ex_iff split: if_splits)
  moreover have "plain_segment w" if "w \<in> set ?ws" for w
    using that up by (auto simp: plain_segment_def path_parts_def dest: split_on_clean)
  ultimately show ?thesis by auto
qed

lemma segments_join:
  assumes "\<forall>w\<in>set ws. plain_segment w"
  shows "segments (join_with ''/'' ws) = ws"
proof (cases ws)
  case Nil
  then show ?thesis by (simp add: segments_def)
next
  case (Cons w rest)
  have "join_with ''/'' ws \<noteq> []"
    using assms Cons by (cases rest) (auto simp: plain_segment_def)
  moreover have "split_on (\<lambda>c. c = CHR ''/'') (join_with ''/'' ws) = ws"
    using assms Cons by (intro split_join) (auto simp: plain_segment_def is_sep_def)
  ultimately show ?thesis by (simp add: segments_def)
qed

lemma path_parts_join:
  assumes "\<forall>w\<in>set ws. plain_segment w"
  shows "path_parts (join_with ''/'' ws) = ws"
proof (cases "ws = []")
  case True
  then show ?thesis by (simp add: path_parts_def)
next
  case False
  have "split_on is_sep (join_with ''/'' ws) = ws"
    using assms False by (intro split_join) (auto simp: plain_segment_def is_sep_def)
  moreover have "filter (\<lambda>w. w \<noteq> []) ws = ws"
    using assms by (auto simp: plain_segment_def)
  ultimately show ?thesis by (simp add: path_parts_def)
qed

subsection \<open>Containment\<close>

lemma relative_prefix: "\<not> escapesBase (relative base p) \<Longrightarrow> p = base @ relative base p"
  by (induction base p rule: relative.induct)
    (auto simp: escapesBase_def Cons_replicate_eq eq_commute [of "replicate _ _"]
      split: if_splits list.splits)

lemma relative_self_append: "relative base (base @ p) = p"
  by (induction base) simp_all

lemma resolve_Inr:
  assumes "resolveVaultPathChecked fs root rel = Inr r"
  shows "\<exists>clean realRoot.
     normalizeVaultPath fs rel = Inr clean \<and> rp_abs r = root @ segments clean \<and>
     realpath fs root = Some realRoot \<and>
     \<not> escapesBase (relative realRoot (realpathDeepest fs (rp_abs r))) \<and>
     rp_aclRel r = join_with ''/'' (relative realRoot (realpathDeepest fs (rp_abs r)))"
  using assms
  by (auto simp: resolveVaultPathChecked_def ebind_eq_Inr Let_def
      split: if_splits option.splits pin_verdict.splits)

lemma realpath_deepest_total:
  "length dir < n \<Longrightarrow> realpath fs [] = Some [] \<Longrightarrow>
     \<exists>k real. k \<le> length dir \<and> realpath fs (take k dir) = Some real \<and>
       realpath_deepest_from fs n dir tail apath = real @ drop k dir @ tail"
proof (induction n arbitrary: dir tail)
  case 0
  then show ?case by simp
next
  case (Suc n)
  show ?case
  proof (cases "realpath fs dir")
    case (Some real)
    then have "length dir \<le> length dir \<and> realpath fs (take (length dir) dir) = Some real \<and>
        realpath_deepest_from fs (Suc n) dir tail apath = real @ drop (length dir) dir @ tail"
      by simp
    then show ?thesis by blast
  next
    case None
    then have ne: "dir \<noteq> []" using Suc.prems(2) by auto
    then have "length (butlast dir) < n" using Suc.prems(1) by (cases dir) simp_all
    from Suc.IH [OF this Suc.prems(2), of "last dir # tail"] obtain k real where
      k: "k \<le> length (butlast dir)" "realpath fs (take k (butlast dir)) = Some real"
      "realpath_deepest_from fs n (butlast dir) (last dir # tail) apath =
         real @ drop k (butlast dir) @ last dir # tail"
      by auto
    have "dir = butlast dir @ [last dir]" using ne by simp
    then have "take k dir = take k (butlast dir)" and "drop k dir = drop k (butlast dir) @ [last dir]"
      using k(1) by (metis take_append append_Nil2 diff_is_0_eq take_0, metis drop_append append_Cons append_Nil diff_is_0_eq drop_0 k(1))
    with k ne None show ?thesis
      by (intro exI [of _ k] exI [of _ real]) simp
  qed
qed

subsection \<open>Properties\<close>

text \<open>
  An accepted path consists of plain segments (none empty, none \<open>.\<close> or \<open>..\<close>,
  no separator inside, no device name of Windows), splitting it gives those segments back, and
  normalising it again changes nothing, except that a leading drive letter the first pass uncovered
  (\<open>./c:/x\<close>) is refused.
\<close>

theorem normalised_stable:
  assumes "normalizeVaultPath fs p = Inr q"
  shows "list_all (\<lambda>w. plain_segment w \<and> windowsNameProblem w \<noteq> Some Reserved_name) (segments q) \<and>
    join_with ''/'' (segments q) = q \<and>
    normalizeVaultPath fs q =
      (if looks_absolute q then Inl (path_error fs Path_invalid ''absolute paths are not allowed'' q) else Inr q)"
proof -
  from normalize_plain [OF assms] obtain ws where
    q: "q = join_with ''/'' ws" and pl: "\<forall>w\<in>set ws. plain_segment w"
    and res: "\<forall>w\<in>set ws. windowsNameProblem w \<noteq> Some Reserved_name" by blast
  have s: "segments q = ws" unfolding q by (rule segments_join [OF pl])
  have pp: "path_parts q = ws" unfolding q by (rule path_parts_join [OF pl])
  have dots: "''..'' \<notin> set ws" and f: "filter (\<lambda>p. p \<noteq> ''.'') ws = ws"
    using pl by (auto simp: plain_segment_def)
  show ?thesis
    using pl res dots f
    by (auto simp: s q [symmetric] normalizeVaultPath_def pp Let_def list_ex_iff list_all_iff)
qed

definition plain_fs :: fs where
  "plain_fs =
     \<lparr>realpath = (\<lambda>p. if p = [''home'', ''v''] \<or> p = [] then Some p else
                     if p = [''home'', ''v'', ''link''] then Some [''home'', ''v'', ''real''] else None),
      is_symlink = (\<lambda>_. False), exists_nofollow = (\<lambda>_. False), file_nlink = (\<lambda>_. None),
      pin_of = (\<lambda>_. Unpinned), redact = (\<lambda>s. s)\<rparr>"

theorem normalised_stable_witness:
  "list_all (\<lambda>w. plain_segment w \<and> windowsNameProblem w \<noteq> Some Reserved_name) (segments ''a/b.md'') \<and>
   normalizeVaultPath plain_fs ''a/b.md'' = Inr ''a/b.md''"
proof -
  have "normalizeVaultPath plain_fs ''a//./b.md'' = Inr ''a/b.md''" by code_simp
  from normalised_stable [OF this] show ?thesis by (simp add: looks_absolute_def is_sep_def ascii_letter_def)
qed

text \<open>
  C37: a path the resolver accepts names an absolute path below the vault root as
  written, the root is not a symbolic link, and the real location it leads to (symlinks of every
  existing prefix followed) lies inside the real root; the identity the ACL judges is exactly that
  location relative to the real root.
\<close>

theorem resolved_inside_root:
  assumes "resolveVaultPathChecked fs root rel = Inr r"
  shows "\<not> is_symlink fs root \<and>
    (\<exists>realRoot below. realpath fs root = Some realRoot \<and>
       realpathDeepest fs (rp_abs r) = realRoot @ below \<and>
       (below = [] \<or> hd below \<noteq> ''..'') \<and> rp_aclRel r = join_with ''/'' below) \<and>
    (\<exists>ws. rp_abs r = root @ ws \<and> list_all plain_segment ws)"
proof -
  from resolve_Inr [OF assms] obtain clean realRoot where
    n: "normalizeVaultPath fs rel = Inr clean" and a: "rp_abs r = root @ segments clean"
    and rr: "realpath fs root = Some realRoot"
    and e: "\<not> escapesBase (relative realRoot (realpathDeepest fs (rp_abs r)))"
    and acl: "rp_aclRel r = join_with ''/'' (relative realRoot (realpathDeepest fs (rp_abs r)))" by blast
  from normalize_plain [OF n] obtain ws where w: "clean = join_with ''/'' ws" "\<forall>w\<in>set ws. plain_segment w"
    by blast
  have "\<not> is_symlink fs root"
    using assms by (auto simp: resolveVaultPathChecked_def ebind_eq_Inr Let_def split: if_splits)
  moreover have "rp_abs r = root @ ws" using a w segments_join [OF w(2)] by simp
  moreover have "relative realRoot (realpathDeepest fs (rp_abs r)) = [] \<or>
      hd (relative realRoot (realpathDeepest fs (rp_abs r))) \<noteq> ''..''"
    using e by (auto simp: escapesBase_def split: list.splits)
  ultimately show ?thesis
    using relative_prefix [OF e] rr acl w(2) by (auto simp: list_all_iff)
qed

theorem resolved_inside_root_witness:
  "rp_aclRel \<lparr>rp_abs = [''home'', ''v'', ''link'', ''n.md''], rp_aclRel = ''real/n.md''\<rparr> = ''real/n.md'' \<and>
   (\<exists>realRoot below. realpathDeepest plain_fs [''home'', ''v'', ''link'', ''n.md''] = realRoot @ below \<and>
      join_with ''/'' below = ''real/n.md'')"
proof -
  have "resolveVaultPathChecked plain_fs [''home'', ''v''] ''link/n.md'' =
      Inr \<lparr>rp_abs = [''home'', ''v'', ''link'', ''n.md''], rp_aclRel = ''real/n.md''\<rparr>"
    by code_simp
  from resolved_inside_root [OF this] show ?thesis by fastforce
qed

end
