(* ===== verification/Acl_Path.thy ===== *)
theory Acl_Path
  imports Folder_Acl Vault_Paths
begin

text \<open>
  Per-path enforcement, \<open>packages/server/src/vault/acl-path.ts\<close>: the whitelist decision, the
  protected \<open>SCHEMA.md\<close> layers, the scopes a path declares, \<open>enforcePathAcl\<close> (every guard in the
  order of the source, on the symlink-resolved identity), the non-throwing read predicate and the
  guard of secondary rewrites. The ACL object is passed and returned, because asking for a path's
  scopes may settle it; \<^const>\<open>None\<close> is the absent ACL. The development-only audit frame
  (\<open>recordAclCheck\<close>) is not modelled.

  Lemmas: what a passing check guarantees (resolution inside the vault, no control directory, not
  immutable, whitelisted, scopes held, not hard-linked), the throwing and the non-throwing form
  agree, and more scopes never lose a permission.
\<close>

datatype denied_by = By_read_only | By_read_paths | By_write_paths | By_delete_paths | By_schema_file

datatype path_decision =
    Allowed "str option"
  | Denied denied_by "str option" bool

fun op_name :: "acl_op \<Rightarrow> str" where
  "op_name Read = ''read''"
| "op_name Write = ''write''"
| "op_name Delete = ''delete''"

fun op_paths :: "acl_op \<Rightarrow> denied_by" where
  "op_paths Read = By_read_paths"
| "op_paths Write = By_write_paths"
| "op_paths Delete = By_delete_paths"

definition conventions_scope :: scope where
  "conventions_scope = ''admin:conventions''"

definition schema_layer_name :: str where
  "schema_layer_name = ''SCHEMA.md''"

definition isSchemaLayerPath :: "platform \<Rightarrow> str \<Rightarrow> bool" where
  "isSchemaLayerPath pf path \<longleftrightarrow> foldPath pf (after_last CHR ''/'' path) = foldPath pf schema_layer_name"

definition schemaLayerRefused ::
    "platform \<Rightarrow> fs \<Rightarrow> folder_acl option \<Rightarrow> acl_op \<Rightarrow> str \<Rightarrow> str \<Rightarrow> scope list \<Rightarrow> terror + bool" where
  "schemaLayerRefused pf fs acl op written real grantedScopes =
     (if op = Read \<or> (case acl of None \<Rightarrow> True | Some a \<Rightarrow> \<not> protectsSchemaFiles a) then Inr False
      else if grantsAll grantedScopes [conventions_scope] then Inr False
      else ebind (normalizeVaultPath fs written)
             (\<lambda>w. Inr (isSchemaLayerPath pf w \<or> isSchemaLayerPath pf real)))"

definition whitelistDecision ::
    "platform \<Rightarrow> folder_acl option \<Rightarrow> acl_op \<Rightarrow> str \<Rightarrow> path_decision" where
  "whitelistDecision pf acl op path =
     (case acl of
        None \<Rightarrow> Allowed None
      | Some a \<Rightarrow>
          if isDefaultDenied pf path then Denied (op_paths op) None False
          else if op \<noteq> Read \<and> immutableGlobFor pf a path \<noteq> None
          then Denied (op_paths op) (immutableGlobFor pf a path) True
          else if op \<noteq> Read \<and> readOnly a then Denied By_read_only None False
          else (case matchedPathGlob pf a op path of
                  None \<Rightarrow>
                    if op = Read \<and> strictReadDefault a then Denied By_read_paths None False
                    else Allowed None
                | Some None \<Rightarrow> Denied (op_paths op) None False
                | Some (Some g) \<Rightarrow> Allowed (Some g)))"

definition evaluatePathAcl ::
    "platform \<Rightarrow> fs \<Rightarrow> folder_acl option \<Rightarrow> acl_op \<Rightarrow> str \<Rightarrow> scope list \<Rightarrow> str \<Rightarrow> terror + path_decision" where
  "evaluatePathAcl pf fs acl op path grantedScopes written =
     (case whitelistDecision pf acl op path of
        Denied b g imm \<Rightarrow> Inr (Denied b g imm)
      | Allowed g \<Rightarrow>
          ebind (schemaLayerRefused pf fs acl op written path grantedScopes)
            (\<lambda>refused. Inr (if refused then Denied By_schema_file g False else Allowed g)))"

definition pathScopesSatisfied ::
    "platform \<Rightarrow> folder_acl option \<Rightarrow> str \<Rightarrow> scope list \<Rightarrow> (str + bool) \<times> folder_acl option" where
  "pathScopesSatisfied pf acl path grantedScopes =
     (case acl of
        None \<Rightarrow> (Inr True, None)
      | Some a \<Rightarrow>
          (case declaresPathScopes pf a of
             (Inl e, a1) \<Rightarrow> (Inl e, Some a1)
           | (Inr declares, a1) \<Rightarrow>
               if \<not> declares then (Inr True, Some a1)
               else (case scopesForPath pf a1 path of
                       (Inl e, a2) \<Rightarrow> (Inl e, Some a2)
                     | (Inr required, a2) \<Rightarrow>
                         (Inr (length required = 0 \<or> grantsAll grantedScopes required), Some a2))))"

definition acl_error :: "fs \<Rightarrow> error_code \<Rightarrow> str \<Rightarrow> str \<Rightarrow> acl_op \<Rightarrow> details \<Rightarrow> terror" where
  "acl_error fs code msg path op extra =
     Tc code msg (Some ([(''path'', JStr (redact fs path)), (''op'', JStr (op_name op))] @ extra))"

definition immutableDenied :: "fs \<Rightarrow> str \<Rightarrow> acl_op \<Rightarrow> terror" where
  "immutableDenied fs path op =
     acl_error fs Acl_denied
       (''path is in an immutable folder (raw sources); '' @ op_name op @ '' denied'') path op
       [(''reason'', JStr ''immutable_folder'')]"

definition schemaDenied :: "fs \<Rightarrow> str \<Rightarrow> acl_op \<Rightarrow> terror" where
  "schemaDenied fs path op =
     acl_error fs Acl_denied
       (''SCHEMA.md is a protected convention layer; '' @ op_name op @
        '' needs the admin:conventions scope'') path op
       [(''reason'', JStr ''schema_file'')]"

definition decision_error :: "fs \<Rightarrow> str \<Rightarrow> acl_op \<Rightarrow> path_decision \<Rightarrow> terror + unit" where
  "decision_error fs path op d =
     (case d of
        Allowed _ \<Rightarrow> Inr ()
      | Denied b _ imm \<Rightarrow>
          if imm then Inl (immutableDenied fs path op)
          else if b = By_schema_file then Inl (schemaDenied fs path op)
          else if b = By_read_only
          then Inl (acl_error fs Read_only_mode (''vault is read-only; '' @ op_name op @ '' denied'') path op [])
          else Inl (acl_error fs Acl_denied (''path is outside the '' @ op_name op @ '' whitelist'') path op []))"

text \<open>An immutable folder is judged on the name as written too; normalising that name may throw.\<close>

definition written_immutable ::
    "platform \<Rightarrow> fs \<Rightarrow> folder_acl option \<Rightarrow> acl_op \<Rightarrow> str \<Rightarrow> terror + bool" where
  "written_immutable pf fs acl op rel =
     (if op = Read then Inr False
      else case acl of
        None \<Rightarrow> Inr False
      | Some a \<Rightarrow> ebind (normalizeVaultPath fs rel) (\<lambda>w. Inr (immutableGlobFor pf a w \<noteq> None)))"

text \<open>Every guard up to the scopes of the path: they read the ACL and do not settle it.\<close>

definition enforce_static ::
    "platform \<Rightarrow> fs \<Rightarrow> folder_acl option \<Rightarrow> acl_op \<Rightarrow> str \<Rightarrow> abs_path \<Rightarrow> scope list \<Rightarrow> terror + resolved_path" where
  "enforce_static pf fs acl op rel root grantedScopes =
     ebind (resolveVaultPathChecked fs root rel) (\<lambda>resolved.
       let path = rp_aclRel resolved in
       ebind (if op = Write then assertWritableVaultPath fs root rel else Inr ()) (\<lambda>_.
       ebind (written_immutable pf fs acl op rel) (\<lambda>imm.
       ebind (throw_if imm (immutableDenied fs path op)) (\<lambda>_.
       ebind (evaluatePathAcl pf fs acl op path grantedScopes rel) (\<lambda>decision.
       ebind (decision_error fs path op decision) (\<lambda>_. Inr resolved))))))"

definition hard_linked :: "fs \<Rightarrow> abs_path \<Rightarrow> bool" where
  "hard_linked fs p \<longleftrightarrow> (case file_nlink fs p of None \<Rightarrow> False | Some n \<Rightarrow> n > 1)"

definition path_scope_error :: "platform \<Rightarrow> fs \<Rightarrow> folder_acl option \<Rightarrow> str \<Rightarrow> acl_op \<Rightarrow> terror" where
  "path_scope_error pf fs acl path op =
     acl_error fs Acl_denied ''caller lacks the scope(s) required for this path'' path op
       [(''required_scopes'', JArr (map JStr
          (case acl of None \<Rightarrow> [] | Some a \<Rightarrow>
             (case fst (scopesForPath pf a path) of Inr s \<Rightarrow> s | Inl _ \<Rightarrow> []))))]"

definition enforcePathAcl ::
    "platform \<Rightarrow> fs \<Rightarrow> folder_acl option \<Rightarrow> acl_op \<Rightarrow> str \<Rightarrow> abs_path \<Rightarrow> scope list \<Rightarrow>
     (terror + unit) \<times> folder_acl option" where
  "enforcePathAcl pf fs acl op rel root grantedScopes =
     (case enforce_static pf fs acl op rel root grantedScopes of
        Inl e \<Rightarrow> (Inl e, acl)
      | Inr resolved \<Rightarrow>
          (let path = rp_aclRel resolved in
           case pathScopesSatisfied pf acl path grantedScopes of
             (Inl m, acl1) \<Rightarrow> (Inl (Thrown m), acl1)
           | (Inr False, acl1) \<Rightarrow> (Inl (path_scope_error pf fs acl1 path op), acl1)
           | (Inr True, acl1) \<Rightarrow>
               if acl1 \<noteq> None \<and> hard_linked fs (rp_abs resolved)
               then (Inl (acl_error fs Acl_denied ''refusing a hard-linked file (inode aliasing)'' path op []), acl1)
               else (Inr (), acl1)))"

definition callerCanReadVaultPath ::
    "platform \<Rightarrow> fs \<Rightarrow> folder_acl option \<Rightarrow> scope list \<Rightarrow> abs_path \<Rightarrow> str \<Rightarrow> bool" where
  "callerCanReadVaultPath pf fs acl grantedScopes root rel =
     (case fst (enforcePathAcl pf fs acl Read rel root grantedScopes) of
        Inl _ \<Rightarrow> False
      | Inr _ \<Rightarrow>
          (if acl = None
           then (case resolveVaultPathChecked fs root rel of
                   Inl _ \<Rightarrow> False
                 | Inr r \<Rightarrow> \<not> hard_linked fs (rp_abs r))
           else True))"

definition defaultDeniedUnderEitherName :: "platform \<Rightarrow> fs \<Rightarrow> abs_path \<Rightarrow> str \<Rightarrow> terror + bool" where
  "defaultDeniedUnderEitherName pf fs root rel =
     ebind (normalizeVaultPath fs rel) (\<lambda>w.
       if isDefaultDenied pf w then Inr True
       else ebind (resolveVaultPathChecked fs root rel) (\<lambda>r. Inr (isDefaultDenied pf (rp_aclRel r))))"

subsection \<open>Secondary rewrites\<close>

datatype skip_kind = Immutable_note | Schema_file_note

definition isImmutable :: "platform \<Rightarrow> fs \<Rightarrow> folder_acl option \<Rightarrow> abs_path \<Rightarrow> str \<Rightarrow> bool" where
  "isImmutable pf fs acl root rel =
     (case acl of
        None \<Rightarrow> False
      | Some a \<Rightarrow>
          if \<not> hasImmutablePaths a then False
          else (case ebind (normalizeVaultPath fs rel) (\<lambda>w.
                       if immutableGlobFor pf a w \<noteq> None then Inr True
                       else ebind (resolveVaultPathChecked fs root rel)
                              (\<lambda>r. Inr (immutableGlobFor pf a (rp_aclRel r) \<noteq> None))) of
                  Inl _ \<Rightarrow> True
                | Inr b \<Rightarrow> b))"

definition isProtectedSchema ::
    "platform \<Rightarrow> fs \<Rightarrow> folder_acl option \<Rightarrow> abs_path \<Rightarrow> scope list \<Rightarrow> str \<Rightarrow> bool" where
  "isProtectedSchema pf fs acl root grantedScopes rel =
     (case acl of
        None \<Rightarrow> False
      | Some a \<Rightarrow>
          if \<not> protectsSchemaFiles a then False
          else (case ebind (resolveVaultPathChecked fs root rel)
                       (\<lambda>r. schemaLayerRefused pf fs acl Write rel (rp_aclRel r) grantedScopes) of
                  Inl _ \<Rightarrow> True
                | Inr b \<Rightarrow> b))"

definition skipKind ::
    "platform \<Rightarrow> fs \<Rightarrow> folder_acl option \<Rightarrow> abs_path \<Rightarrow> scope list \<Rightarrow> str \<Rightarrow> skip_kind option" where
  "skipKind pf fs acl root grantedScopes rel =
     (if isImmutable pf fs acl root rel then Some Immutable_note
      else if isProtectedSchema pf fs acl root grantedScopes rel then Some Schema_file_note
      else None)"

text \<open>The report: names the caller may read, and the ones it may only count.\<close>

record skips =
  named :: "skip_kind \<Rightarrow> str list"
  hidden :: "skip_kind \<Rightarrow> str list"

definition note_skip ::
    "platform \<Rightarrow> fs \<Rightarrow> folder_acl option \<Rightarrow> abs_path \<Rightarrow> scope list \<Rightarrow> str \<Rightarrow> skip_kind \<Rightarrow> skips \<Rightarrow> skips" where
  "note_skip pf fs acl root grantedScopes rel kind s =
     (if callerCanReadVaultPath pf fs acl grantedScopes root rel
      then s\<lparr>named := (named s)(kind := js_set (named s kind @ [rel]))\<rparr>
      else s\<lparr>hidden := (hidden s)(kind := js_set (hidden s kind @ [rel]))\<rparr>)"

definition blocks ::
    "platform \<Rightarrow> fs \<Rightarrow> folder_acl option \<Rightarrow> abs_path \<Rightarrow> scope list \<Rightarrow> str \<Rightarrow> skips \<Rightarrow> bool \<times> skips" where
  "blocks pf fs acl root grantedScopes rel s =
     (case skipKind pf fs acl root grantedScopes rel of
        None \<Rightarrow> (False, s)
      | Some kind \<Rightarrow> (True, note_skip pf fs acl root grantedScopes rel kind s))"

subsection \<open>What a passing check guarantees\<close>

lemma evaluate_Allowed:
  assumes "evaluatePathAcl pf fs acl op path g written = Inr (Allowed m)"
  shows "whitelistDecision pf acl op path = Allowed m \<and>
    schemaLayerRefused pf fs acl op written path g = Inr False"
  using assms
  by (auto simp: evaluatePathAcl_def ebind_eq_Inr split: path_decision.splits if_splits)

lemma decision_error_Inr: "decision_error fs path op d = Inr u \<longleftrightarrow> (\<exists>g. d = Allowed g)"
  by (cases d) (auto simp: decision_error_def)

lemma whitelist_Allowed_Some:
  assumes "whitelistDecision pf (Some a) op path = Allowed m"
  shows "\<not> isDefaultDenied pf path"
    and "op \<noteq> Read \<Longrightarrow> immutableGlobFor pf a path = None \<and> \<not> readOnly a"
    and "matchedPathGlob pf a op path \<noteq> Some None"
    and "matchedPathGlob pf a op path = Some m' \<Longrightarrow> m' = m"
  using assms by (auto simp: whitelistDecision_def split: if_splits option.splits)

lemma enforce_static_Inr:
  assumes "enforce_static pf fs acl op rel root g = Inr r"
  shows "resolveVaultPathChecked fs root rel = Inr r"
    and "op = Write \<Longrightarrow> assertWritableVaultPath fs root rel = Inr ()"
    and "written_immutable pf fs acl op rel = Inr False"
    and "\<exists>m. evaluatePathAcl pf fs acl op (rp_aclRel r) g rel = Inr (Allowed m)"
  using assms
  by (auto simp: enforce_static_def Let_def ebind_eq_Inr decision_error_Inr split: if_splits)

lemma settled_wf_None:
  assumes "pending a = None"
  shows "settle pf a = (Inr (), a)" and "settled pf f a = (Inr (f a), a)"
  using assms by (simp_all add: settle_def settled_def)

lemma pathScopes_settled:
  assumes "acl_wf pf a" and "pending a = None"
  shows "pathScopesSatisfied pf (Some a) path g =
     (Inr (grantsAll g (rule_scopes pf (cfg a) path)), Some a)"
proof -
  have "declaredScopeUnion a = [] \<Longrightarrow> rule_scopes pf (cfg a) path = []"
    using rule_scopes_declared [of pf "cfg a" path] assms(1) by (simp add: acl_wf_def)
  then show ?thesis
    by (auto simp: pathScopesSatisfied_def declaresPathScopes_def scopesForPath_def
        settled_wf_None [OF assms(2)] scopes_now_config [OF assms(1)])
qed

text \<open>The conjunction every handler and the dispatcher rely on.\<close>

lemma enforce_guarantees:
  assumes ok: "fst (enforcePathAcl pf fs (Some a) op rel root g) = Inr ()"
    and wf: "acl_wf pf a" and idle: "pending a = None"
  shows "\<exists>r. resolveVaultPathChecked fs root rel = Inr r \<and>
     \<not> isDefaultDenied pf (rp_aclRel r) \<and>
     (op \<noteq> Read \<longrightarrow> \<not> readOnly a \<and> immutableGlobFor pf a (rp_aclRel r) = None) \<and>
     matchedPathGlob pf a op (rp_aclRel r) \<noteq> Some None \<and>
     grantsAll g (rule_scopes pf (cfg a) (rp_aclRel r)) \<and>
     \<not> hard_linked fs (rp_abs r)"
proof -
  obtain r where r: "enforce_static pf fs (Some a) op rel root g = Inr r"
    using ok by (auto simp: enforcePathAcl_def split: sum.splits)
  from enforce_static_Inr(4) [OF r] obtain m where
    m: "whitelistDecision pf (Some a) op (rp_aclRel r) = Allowed m"
    using evaluate_Allowed by blast
  have "grantsAll g (rule_scopes pf (cfg a) (rp_aclRel r)) \<and> \<not> hard_linked fs (rp_abs r)"
    using ok by (auto simp: enforcePathAcl_def r pathScopes_settled [OF wf idle] Let_def
        split: if_splits bool.splits)
  with enforce_static_Inr(1) [OF r] whitelist_Allowed_Some [OF m] show ?thesis by blast
qed

lemma schemaLayerRefused_mono:
  assumes "schemaLayerRefused pf fs acl op written real g = Inr False" and "set g \<subseteq> set g'"
  shows "schemaLayerRefused pf fs acl op written real g' = Inr False"
  using assms grantsAll_mono [OF assms(2)]
  by (auto simp: schemaLayerRefused_def split: if_splits)

lemma enforce_static_mono:
  assumes r: "enforce_static pf fs acl op rel root g = Inr r" and sub: "set g \<subseteq> set g'"
  shows "enforce_static pf fs acl op rel root g' = Inr r"
proof -
  from enforce_static_Inr(4) [OF r] obtain m where
    m: "whitelistDecision pf acl op (rp_aclRel r) = Allowed m"
    and s: "schemaLayerRefused pf fs acl op rel (rp_aclRel r) g = Inr False"
    using evaluate_Allowed by blast
  have "evaluatePathAcl pf fs acl op (rp_aclRel r) g' rel = Inr (Allowed m)"
    using m schemaLayerRefused_mono [OF s sub] by (simp add: evaluatePathAcl_def)
  with enforce_static_Inr [OF r] show ?thesis
    by (auto simp: enforce_static_def Let_def decision_error_def throw_if_def)
qed

subsection \<open>Properties\<close>

text \<open>
  C1: a call that passes \<open>enforcePathAcl\<close> acts on a path that resolves inside the
  vault, is no control directory, and, as it really lies on disk, is allowed by the whitelist; for a
  write or a delete the vault is not read-only and the location is not immutable; the caller holds
  the scopes of the last rule that matches it; and the file is not hard-linked.
\<close>

theorem access_guarantees:
  assumes "fst (enforcePathAcl pf fs (Some a) op rel root g) = Inr ()" and "acl_wf pf a" and "pending a = None"
  shows "\<exists>r. resolveVaultPathChecked fs root rel = Inr r \<and>
     \<not> isDefaultDenied pf (rp_aclRel r) \<and>
     (op \<noteq> Read \<longrightarrow> \<not> readOnly a \<and> immutableGlobFor pf a (rp_aclRel r) = None) \<and>
     matchedPathGlob pf a op (rp_aclRel r) \<noteq> Some None \<and>
     grantsAll g (rule_scopes pf (cfg a) (rp_aclRel r)) \<and>
     \<not> hard_linked fs (rp_abs r)"
  by (rule enforce_guarantees [OF assms])

definition open_config :: acl_config where
  "open_config =
     \<lparr>c_readOnly = False, c_defaultScopes = [], c_rules = [], c_readPaths = None, c_writePaths = None,
      c_deletePaths = None, c_strictReadDefault = False, c_immutablePaths = None, c_protectSchemaFiles = False\<rparr>"

definition open_acl :: folder_acl where
  "open_acl =
     \<lparr>cfg = open_config, compiledRules = [], compiledPaths = (\<lambda>_. None), compiledImmutable = [],
      declaredScopeUnion = [], pending = None\<rparr>"

definition flat_fs :: fs where
  "flat_fs =
     \<lparr>realpath = (\<lambda>p. Some p), is_symlink = (\<lambda>_. False), exists_nofollow = (\<lambda>_. True),
      file_nlink = (\<lambda>_. Some 1), pin_of = (\<lambda>_. Unpinned), redact = (\<lambda>s. s)\<rparr>"

lemma open_acl_wf: "acl_wf plain_platform open_acl \<and> pending open_acl = None"
proof -
  have "compileGlobList plain_platform (config_paths open_config op) = Inr None" for op
    by (cases op) (simp_all add: open_config_def compileGlobList_def)
  then show ?thesis
    by (simp add: acl_wf_def open_acl_def compileRules_def compileGlobList_def
        unionOfDeclaredScopes_def js_set_def) (simp add: open_config_def)
qed

lemma open_acl_passes: "fst (enforcePathAcl plain_platform flat_fs (Some open_acl) Read ''n'' [''v''] []) = Inr ()"
  by code_simp

theorem access_guarantees_witness:
  "\<exists>r. resolveVaultPathChecked flat_fs [''v''] ''n'' = Inr r \<and> \<not> isDefaultDenied plain_platform (rp_aclRel r)"
  using access_guarantees [OF open_acl_passes conjunct1 [OF open_acl_wf] conjunct2 [OF open_acl_wf]] by blast

text \<open>
  Holding more scopes never loses access: a path operation that passes for a
  caller passes for every caller whose scopes include that caller's.
\<close>

theorem scopes_monotone:
  assumes "fst (enforcePathAcl pf fs (Some a) op rel root g) = Inr ()" and "acl_wf pf a" and "pending a = None"
    and "set g \<subseteq> set g'"
  shows "fst (enforcePathAcl pf fs (Some a) op rel root g') = Inr ()"
proof -
  obtain r where r: "enforce_static pf fs (Some a) op rel root g = Inr r"
    using assms(1) by (auto simp: enforcePathAcl_def split: sum.splits)
  have ok: "grantsAll g (rule_scopes pf (cfg a) (rp_aclRel r))" "\<not> hard_linked fs (rp_abs r)"
    using assms(1) by (auto simp: enforcePathAcl_def r pathScopes_settled [OF assms(2,3)] Let_def
        split: if_splits bool.splits)
  have "grantsAll g' (rule_scopes pf (cfg a) (rp_aclRel r))" by (rule grantsAll_mono [OF assms(4) ok(1)])
  then show ?thesis
    using ok(2) by (simp add: enforcePathAcl_def enforce_static_mono [OF r assms(4)]
        pathScopes_settled [OF assms(2,3)] Let_def)
qed

theorem scopes_monotone_witness:
  "fst (enforcePathAcl plain_platform flat_fs (Some open_acl) Read ''n'' [''v''] [''read:notes'']) = Inr ()"
  by (rule scopes_monotone [OF open_acl_passes]) (simp_all add: open_acl_wf)

text \<open>
  A note enters the search index exactly when the read whitelist admits its
  path, so the index never holds text of a path no read could return, and misses none.
\<close>

theorem index_matches_reads:
  "makeIndexReadable pf rootAcl aclByVault vaultId rel \<longleftrightarrow>
     (\<exists>m. whitelistDecision pf (Some (case aclByVault vaultId of Some v \<Rightarrow> v | None \<Rightarrow> rootAcl)) Read rel = Allowed m)"
  by (auto simp: makeIndexReadable_def whitelistDecision_def Let_def split: option.splits)

text \<open>
  A note that a secondary rewrite (a rename updating links, say) goes on
  to write is immutable neither under the name as written nor where it really lies, and is no
  protected \<open>SCHEMA.md\<close> under either name unless the caller holds \<open>admin:conventions\<close>.
\<close>

theorem rewrite_spares_protected:
  assumes "\<not> fst (blocks pf fs (Some a) root g rel s)"
  shows "(hasImmutablePaths a \<longrightarrow> (\<exists>w r. normalizeVaultPath fs rel = Inr w \<and> immutableGlobFor pf a w = None \<and>
       resolveVaultPathChecked fs root rel = Inr r \<and> immutableGlobFor pf a (rp_aclRel r) = None)) \<and>
    (protectsSchemaFiles a \<longrightarrow> grantsAll g [conventions_scope] \<or>
       (\<exists>w r. normalizeVaultPath fs rel = Inr w \<and> resolveVaultPathChecked fs root rel = Inr r \<and>
         \<not> isSchemaLayerPath pf w \<and> \<not> isSchemaLayerPath pf (rp_aclRel r)))"
proof -
  have i: "\<not> isImmutable pf fs (Some a) root rel" and p: "\<not> isProtectedSchema pf fs (Some a) root g rel"
    using assms by (auto simp: blocks_def skipKind_def split: if_splits)
  from i have "hasImmutablePaths a \<longrightarrow> (\<exists>w r. normalizeVaultPath fs rel = Inr w \<and> immutableGlobFor pf a w = None \<and>
       resolveVaultPathChecked fs root rel = Inr r \<and> immutableGlobFor pf a (rp_aclRel r) = None)"
    by (auto simp: isImmutable_def ebind_def split: sum.splits if_splits)
  moreover from p have "protectsSchemaFiles a \<longrightarrow> grantsAll g [conventions_scope] \<or>
       (\<exists>w r. normalizeVaultPath fs rel = Inr w \<and> resolveVaultPathChecked fs root rel = Inr r \<and>
         \<not> isSchemaLayerPath pf w \<and> \<not> isSchemaLayerPath pf (rp_aclRel r))"
    by (auto simp: isProtectedSchema_def schemaLayerRefused_def ebind_def split: sum.splits if_splits)
  ultimately show ?thesis by blast
qed

theorem rewrite_spares_protected_witness:
  "\<not> fst (blocks plain_platform flat_fs (Some (open_acl\<lparr>compiledImmutable := [(''raw/*'', compile_glob ''raw/*'' False)]\<rparr>))
       [''v''] [] ''n'' \<lparr>named = (\<lambda>_. []), hidden = (\<lambda>_. [])\<rparr>) \<and>
   (\<exists>r. resolveVaultPathChecked flat_fs [''v''] ''n'' = Inr r \<and>
      immutableGlobFor plain_platform (open_acl\<lparr>compiledImmutable := [(''raw/*'', compile_glob ''raw/*'' False)]\<rparr>) (rp_aclRel r) = None)"
proof -
  let ?a = "open_acl\<lparr>compiledImmutable := [(''raw/*'', compile_glob ''raw/*'' False)]\<rparr>"
  have b: "\<not> fst (blocks plain_platform flat_fs (Some ?a) [''v''] [] ''n'' \<lparr>named = (\<lambda>_. []), hidden = (\<lambda>_. [])\<rparr>)"
    by code_simp
  from rewrite_spares_protected [OF b] b show ?thesis by (auto simp: hasImmutablePaths_def)
qed

end
