(* ===== verification/Database.thy ===== *)
theory Database
  imports Tc_Errors
begin

text \<open>
  The cache database as the dispatcher sees it, and computations over it. A row table is an
  association list from the primary key to the row. An action takes the state and returns what it
  returns or throws, with the state it leaves: a throw keeps the changes made before it, as a
  JavaScript exception does.

  Every SQL statement may fault (a locked file, a full disk): \<open>m_fault\<close> says which statements do,
  in the order they are issued, and a faulting statement changes nothing. Every reading of the clock
  takes the next value of \<open>m_clock\<close>, so code that samples the clock twice sees two values. Both
  are unconstrained, and the theorems hold for all of them unless they say otherwise.

  The locale \<open>single_use\<close> is the contract of an operation that may succeed once per key; the claim of
  an idempotency key and the redemption of a confirmation token are both instances.
\<close>

subsection \<open>Actions\<close>

type_synonym ('w, 'a) act = "'w \<Rightarrow> (terror + 'a) \<times> 'w"

definition ret :: "'a \<Rightarrow> ('w, 'a) act" where
  "ret a w = (Inr a, w)"

definition raise :: "terror \<Rightarrow> ('w, 'a) act" where
  "raise e w = (Inl e, w)"

definition abind :: "('w, 'a) act \<Rightarrow> ('a \<Rightarrow> ('w, 'b) act) \<Rightarrow> ('w, 'b) act" where
  "abind m f w = (case m w of (Inl e, w1) \<Rightarrow> (Inl e, w1) | (Inr a, w1) \<Rightarrow> f a w1)"

text \<open>\<open>try { m } catch (e) { h(e) }\<close>: the handler starts from the state the throw left.\<close>

definition acatch :: "('w, 'a) act \<Rightarrow> (terror \<Rightarrow> ('w, 'a) act) \<Rightarrow> ('w, 'a) act" where
  "acatch m h w = (case m w of (Inl e, w1) \<Rightarrow> h e w1 | (Inr a, w1) \<Rightarrow> (Inr a, w1))"

definition of_sum :: "terror + 'a \<Rightarrow> ('w, 'a) act" where
  "of_sum r w = (r, w)"

definition gets :: "('w \<Rightarrow> 'a) \<Rightarrow> ('w, 'a) act" where
  "gets f w = (Inr (f w), w)"

definition modify :: "('w \<Rightarrow> 'w) \<Rightarrow> ('w, unit) act" where
  "modify f w = (Inr (), f w)"

definition awhen :: "bool \<Rightarrow> ('w, unit) act \<Rightarrow> ('w, unit) act" where
  "awhen b m = (if b then m else ret ())"

lemma act_simps [simp]:
  "ret a w = (Inr a, w)" "raise e w = (Inl e, w)" "of_sum r w = (r, w)"
  "gets g w = (Inr (g w), w)" "modify f w = (Inr (), f w)"
  by (simp_all add: ret_def raise_def of_sum_def gets_def modify_def)

lemma awhen_simps [simp]: "awhen True m = m" "awhen False m = ret ()"
  by (simp_all add: awhen_def)

lemma abind_Inr: "m w = (Inr a, w1) \<Longrightarrow> abind m f w = f a w1"
  by (simp add: abind_def)

lemma abind_Inl: "m w = (Inl e, w1) \<Longrightarrow> abind m f w = (Inl e, w1)"
  by (simp add: abind_def)

lemma abind_eq_Inr:
  "abind m f w = (Inr b, w2) \<longleftrightarrow> (\<exists>a w1. m w = (Inr a, w1) \<and> f a w1 = (Inr b, w2))"
  by (auto simp: abind_def split: prod.splits sum.splits)

lemma abind_eq_Inl:
  "abind m f w = (Inl e, w2) \<longleftrightarrow>
     m w = (Inl e, w2) \<or> (\<exists>a w1. m w = (Inr a, w1) \<and> f a w1 = (Inl e, w2))"
  by (auto simp: abind_def split: prod.splits sum.splits)

text \<open>A property of states that every step keeps is kept by the sequence.\<close>

definition keeps :: "('w \<Rightarrow> 'w \<Rightarrow> bool) \<Rightarrow> ('w, 'a) act \<Rightarrow> bool" where
  "keeps R m \<longleftrightarrow> (\<forall>w. R w (snd (m w)))"

lemma keepsD: "keeps R m \<Longrightarrow> R w (snd (m w))"
  by (simp add: keeps_def)

lemma keeps_abind:
  assumes "transp R" and "keeps R m" and "\<And>a. keeps R (f a)"
  shows "keeps R (abind m f)"
  unfolding keeps_def
proof
  fix w
  obtain r w1 where m: "m w = (r, w1)" by (cases "m w")
  have 1: "R w w1" using keepsD [OF assms(2), of w] m by simp
  show "R w (snd (abind m f w))"
  proof (cases r)
    case (Inl e)
    then show ?thesis using 1 m by (simp add: abind_def)
  next
    case (Inr a)
    then show ?thesis
      using transpD [OF assms(1) 1 keepsD [OF assms(3) [of a], of w1]] m by (simp add: abind_def)
  qed
qed

lemma keeps_pure: "reflp R \<Longrightarrow> keeps R (ret a)" "reflp R \<Longrightarrow> keeps R (raise e)"
    "reflp R \<Longrightarrow> keeps R (of_sum r)" "reflp R \<Longrightarrow> keeps R (gets f)"
  by (simp_all add: keeps_def reflpD)

subsection \<open>Tables\<close>

datatype idem_state = In_flight | Effect_committed | Completed | Indeterminate

record idem_row =
  i_tool_name :: str
  i_args_hash :: str
  i_started_at :: int
  i_completed_at :: "int option"
  i_result :: "str option"
  i_result_size :: "int option"
  i_expires_at :: int
  i_state :: idem_state

text \<open>The primary key \<open>(vault_id, principal, idem_key)\<close>.\<close>

type_synonym idem_key = "str \<times> str \<times> str"

record token_row =
  t_vault_id :: str
  t_tool_name :: str
  t_args_hash :: str
  t_caller :: "str option"
  t_created_at :: int
  t_expires_at :: int
  t_consumed_at :: "int option"
  t_state_fp :: "str option"

record request_row =
  q_state_fp :: str
  q_raised_at :: int

record database =
  m_clock :: "nat \<Rightarrow> int"
  m_tick :: nat
  m_fault :: "nat \<Rightarrow> bool"
  m_stmt :: nat
  idem_rows :: "(idem_key \<times> idem_row) list"
  elicit_tokens :: "(str \<times> token_row) list"
  elicit_requests :: "(idem_key \<times> request_row) list"

definition now :: "('z database_scheme, int) act" where
  "now w = (Inr (m_clock w (m_tick w)), w\<lparr>m_tick := Suc (m_tick w)\<rparr>)"

definition stmt :: "('z database_scheme \<Rightarrow> 'a \<times> 'z database_scheme) \<Rightarrow> ('z database_scheme, 'a) act" where
  "stmt f w =
     (let w1 = w\<lparr>m_stmt := Suc (m_stmt w)\<rparr> in
      if m_fault w (m_stmt w) then (Inl (Thrown ''SQLITE_ERROR''), w1)
      else (case f w1 of (a, w2) \<Rightarrow> (Inr a, w2)))"

text \<open>\<open>UPDATE t SET ... WHERE key = k AND p\<close>: the table and the number of rows changed.\<close>

definition update_where ::
    "'k \<Rightarrow> ('r \<Rightarrow> bool) \<Rightarrow> ('r \<Rightarrow> 'r) \<Rightarrow> ('k \<times> 'r) list \<Rightarrow> nat \<times> ('k \<times> 'r) list" where
  "update_where k p f t =
     (case map_of t k of
        Some r \<Rightarrow> if p r then (1, AList.update k (f r) t) else (0, t)
      | None \<Rightarrow> (0, t))"

lemma update_where_row [table_simps]:
  "map_of (snd (update_where k p f t)) k' =
     (if k' = k then map_option (\<lambda>r. if p r then f r else r) (map_of t k) else map_of t k')"
  by (auto simp: update_where_def update_conv' split: option.splits)

lemma update_row [table_simps]: "map_of (AList.update k r t) k' = (if k' = k then Some r else map_of t k')"
  by (simp add: update_conv')

lemma delete_row [table_simps]: "map_of (AList.delete k t) k' = (if k' = k then None else map_of t k')"
  by (simp add: delete_conv')

subsection \<open>Once per key\<close>

locale single_use =
  fixes spend :: "'a \<Rightarrow> 's \<Rightarrow> bool \<times> 's"
    and key_of :: "'a \<Rightarrow> 'k"
    and spent :: "'k \<Rightarrow> 's \<Rightarrow> bool"
  assumes success_spends: "fst (spend a s) \<Longrightarrow> spent (key_of a) (snd (spend a s))"
    and spent_refuses: "spent (key_of a) s \<Longrightarrow> \<not> fst (spend a s)"
    and spent_stays: "spent k s \<Longrightarrow> spent k (snd (spend a s))"
begin

primrec successes :: "'k \<Rightarrow> 'a list \<Rightarrow> 's \<Rightarrow> nat" where
  "successes k [] s = 0"
| "successes k (a # as) s =
     (if key_of a = k \<and> fst (spend a s) then 1 else 0) + successes k as (snd (spend a s))"

lemma none_when_spent: "spent k s \<Longrightarrow> successes k as s = 0"
  by (induction as arbitrary: s) (auto dest: spent_refuses intro: spent_stays)

lemma at_most_once: "successes k as s \<le> 1"
proof (induction as arbitrary: s)
  case Nil
  then show ?case by simp
next
  case (Cons a as)
  then show ?case
    using success_spends [of a s] none_when_spent [of k "snd (spend a s)" as]
    by (auto simp: Suc_le_eq)
qed

end

end
