(* ===== verification/Elicit.thy ===== *)
theory Elicit
  imports Database
begin

text \<open>
  Human confirmation. \<open>packages/server/src/elicit.ts\<close>: the request a blocked call raises, the token
  an operator mints for it, its redemption (once, by the caller it was issued to, for the same
  arguments and vault) and its release. \<open>elicit-drift.ts\<close>: the verdict that refuses a confirmation
  whose target changed. \<open>elicit-request-state.ts\<close>: the stateless confirmation of the newer protocol
  revision. \<open>mcp/registry/policy-gates.ts\<close> and \<open>vault/hitl.ts\<close>: the two gates that accept either.

  A state probe is an action: recomputing the fingerprint of a call's targets may throw. The random
  token of a mint is an argument. \<open>argsHash\<close> values are strings; the codec that signs a request state
  is not modelled, a state arrives here verified.
\<close>

record elicit_state =
  es_tool :: str
  es_argsHash :: str
  es_vaultId :: str
  es_caller :: "str option"
  es_stateFp :: "str option"

type_synonym 'w state_probe = "('w, str option) act"

definition replay_drift :: "details \<Rightarrow> terror" where
  "replay_drift d = Tc Replay_drift ''confirmation is stale: the target changed after it was requested'' (Some d)"

definition assertNoReplayDrift ::
    "str option \<Rightarrow> 'w state_probe option \<Rightarrow> details \<Rightarrow> ('w, unit) act" where
  "assertNoReplayDrift issued current d =
     (case issued of
        None \<Rightarrow> ret ()
      | Some fp \<Rightarrow>
          (case current of
             None \<Rightarrow> raise (replay_drift d)
           | Some probe \<Rightarrow>
               abind probe (\<lambda>c. if c = Some fp then ret () else raise (replay_drift d))))"

subsection \<open>Requests\<close>

definition request_retention_ms :: int where
  "request_retention_ms = 24 * 60 * 60 * 1000"

definition caller_column :: "str option \<Rightarrow> str" where
  "caller_column c = (case c of None \<Rightarrow> [] | Some s \<Rightarrow> s)"

definition recordElicitRequest ::
    "str \<Rightarrow> str \<Rightarrow> str option \<Rightarrow> str \<Rightarrow> ('z database_scheme, unit) act" where
  "recordElicitRequest vaultId argsHash cl stateFp =
     abind now (\<lambda>t.
     abind (stmt (\<lambda>w. ((), w\<lparr>elicit_requests :=
              AList.update (vaultId, argsHash, caller_column cl)
                \<lparr>q_state_fp = stateFp, q_raised_at = t\<rparr> (elicit_requests w)\<rparr>))) (\<lambda>_.
     stmt (\<lambda>w. ((), w\<lparr>elicit_requests :=
              filter (\<lambda>(k, q). \<not> q_raised_at q < t - request_retention_ms) (elicit_requests w)\<rparr>))))"

definition requestedRow ::
    "str \<Rightarrow> str \<Rightarrow> str option \<Rightarrow> int \<Rightarrow> str option \<Rightarrow> ('z database_scheme, request_row option) act" where
  "requestedRow vaultId argsHash cl t stateFp =
     abind (stmt (\<lambda>w.
        (case map_of (elicit_requests w) (vaultId, argsHash, caller_column cl) of
           None \<Rightarrow> None
         | Some q \<Rightarrow> if q_raised_at q \<ge> t - request_retention_ms then Some q else None, w)))
     (\<lambda>row. ret (if stateFp \<noteq> None \<and> map_option q_state_fp row \<noteq> stateFp then None else row))"

definition hasRaisedElicitRequest ::
    "str \<Rightarrow> str \<Rightarrow> str option \<Rightarrow> str option \<Rightarrow> ('z database_scheme, bool) act" where
  "hasRaisedElicitRequest vaultId argsHash cl stateFp =
     abind now (\<lambda>t. abind (requestedRow vaultId argsHash cl t stateFp) (\<lambda>row. ret (row \<noteq> None)))"

definition elicitRequiredError ::
    "str \<Rightarrow> str option \<Rightarrow> str \<Rightarrow> 'z database_scheme state_probe option \<Rightarrow> details \<Rightarrow>
     ('z database_scheme, terror) act" where
  "elicitRequiredError vaultId cl argsHash probe d =
     abind (case probe of None \<Rightarrow> ret None | Some p \<Rightarrow> p) (\<lambda>stateFp.
     abind (case stateFp of
              Some fp \<Rightarrow> recordElicitRequest vaultId argsHash cl fp
            | None \<Rightarrow> acatch (recordElicitRequest vaultId argsHash cl []) (\<lambda>_. ret ())) (\<lambda>_.
     ret (Tc Elicit_required ''human confirmation required''
       (Some (spread (spread d (case stateFp of None \<Rightarrow> [] | Some fp \<Rightarrow> [(''state_fp'', JStr fp)]))
                (case cl of None \<Rightarrow> [] | Some c \<Rightarrow> [(''caller'', JStr c)]))))))"

subsection \<open>Tokens\<close>

definition nonempty :: "str option \<Rightarrow> str option" where
  "nonempty v = (case v of Some s \<Rightarrow> if s = [] then None else Some s | None \<Rightarrow> None)"

text \<open>\<open>input.stateFp || requestedRow(...)?.state_fp || null\<close>, then the insert.\<close>

definition issueElicitToken ::
    "str \<Rightarrow> str \<Rightarrow> str \<Rightarrow> str \<Rightarrow> str option \<Rightarrow> int \<Rightarrow> str option \<Rightarrow> ('z database_scheme, str) act" where
  "issueElicitToken token vaultId toolName argsHash cl ttlSeconds stateFp =
     abind now (\<lambda>t.
     abind (case nonempty stateFp of
              Some fp \<Rightarrow> ret (Some fp)
            | None \<Rightarrow> abind (requestedRow vaultId argsHash cl t None)
                       (\<lambda>row. ret (nonempty (map_option q_state_fp row)))) (\<lambda>fp.
     abind (stmt (\<lambda>w.
        if map_of (elicit_tokens w) token \<noteq> None then (False, w)
        else (True, w\<lparr>elicit_tokens := AList.update token
               \<lparr>t_vault_id = vaultId, t_tool_name = toolName, t_args_hash = argsHash, t_caller = cl,
                t_created_at = t, t_expires_at = t + ttlSeconds * 1000, t_consumed_at = None,
                t_state_fp = fp\<rparr> (elicit_tokens w)\<rparr>))) (\<lambda>inserted.
     if inserted then ret token else raise (Thrown ''UNIQUE constraint failed: elicit_tokens.token''))))"

definition consume_token :: "str \<Rightarrow> int \<Rightarrow> (str \<times> token_row) list \<Rightarrow> nat \<times> (str \<times> token_row) list" where
  "consume_token token t tab =
     update_where token (\<lambda>r. t_consumed_at r = None) (\<lambda>r. r\<lparr>t_consumed_at := Some t\<rparr>) tab"

definition verifyAndConsumeElicit ::
    "str \<Rightarrow> str \<Rightarrow> str \<Rightarrow> str option \<Rightarrow> 'z database_scheme state_probe option \<Rightarrow>
     ('z database_scheme, bool) act" where
  "verifyAndConsumeElicit token expectedHash vaultId expectedCaller currentFp =
     abind now (\<lambda>t.
     abind (stmt (\<lambda>w. (map_of (elicit_tokens w) token, w))) (\<lambda>found.
     case found of
       None \<Rightarrow> ret False
     | Some row \<Rightarrow>
         if t_consumed_at row \<noteq> None then ret False
         else if t_expires_at row < t then ret False
         else if t_vault_id row \<noteq> vaultId then ret False
         else if t_caller row \<noteq> expectedCaller then ret False
         else if t_args_hash row \<noteq> expectedHash then ret False
         else
           abind (stmt (\<lambda>w. case consume_token token t (elicit_tokens w) of
              (n, tab) \<Rightarrow> (n, w\<lparr>elicit_tokens := tab\<rparr>))) (\<lambda>changes.
           if changes \<noteq> 1 then ret False
           else abind (assertNoReplayDrift (t_state_fp row) currentFp
                        [(''tool'', JStr (t_tool_name row)), (''args_hash'', JStr expectedHash)])
                  (\<lambda>_. ret True))))"

definition release_token :: "str \<Rightarrow> (str \<times> token_row) list \<Rightarrow> nat \<times> (str \<times> token_row) list" where
  "release_token token tab =
     update_where token (\<lambda>r. t_consumed_at r \<noteq> None) (\<lambda>r. r\<lparr>t_consumed_at := None\<rparr>) tab"

definition releaseElicitToken :: "str \<Rightarrow> ('z database_scheme, unit) act" where
  "releaseElicitToken token =
     stmt (\<lambda>w. ((), w\<lparr>elicit_tokens := snd (release_token token (elicit_tokens w))\<rparr>))"

subsection \<open>Confirmation by request state\<close>

definition stateAuthorizes :: "elicit_state \<Rightarrow> str \<Rightarrow> str \<Rightarrow> str \<Rightarrow> str option \<Rightarrow> bool" where
  "stateAuthorizes st tool argsHash vaultId cl \<longleftrightarrow>
     es_tool st = tool \<and> es_argsHash st = argsHash \<and> es_vaultId st = vaultId \<and> es_caller st = cl"

definition hitlSatisfiedByState ::
    "elicit_state option \<Rightarrow> str \<Rightarrow> str \<Rightarrow> str \<Rightarrow> str option \<Rightarrow> 'w state_probe option \<Rightarrow> ('w, bool) act" where
  "hitlSatisfiedByState st tool argsHash vaultId cl currentFp =
     (case st of
        None \<Rightarrow> ret False
      | Some s \<Rightarrow>
          if \<not> stateAuthorizes s tool argsHash vaultId cl then ret False
          else abind (assertNoReplayDrift (es_stateFp s) currentFp
                       [(''tool'', JStr tool), (''args_hash'', JStr argsHash)]) (\<lambda>_. ret True))"

text \<open>
  The verifier the dispatcher is given; \<open>requireConfirmation\<close> uses the built-in one. The result of a
  gate says whether it passed and the token it spent.
\<close>

type_synonym 'w verify_elicit = "str \<Rightarrow> str \<Rightarrow> 'w state_probe \<Rightarrow> ('w, bool) act"

definition checkHitl ::
    "str option \<Rightarrow> elicit_state option \<Rightarrow> str \<Rightarrow> str option \<Rightarrow> str \<Rightarrow> str \<Rightarrow> 'w verify_elicit option \<Rightarrow>
     'w state_probe \<Rightarrow> ('w, bool \<times> str option) act" where
  "checkHitl elicitToken st vaultId cl hash name verifyElicit stateProbe =
     abind (case (nonempty elicitToken, verifyElicit) of
              (Some tok, Some v) \<Rightarrow> abind (v tok hash stateProbe) (\<lambda>b. ret (if b then Some tok else None))
            | _ \<Rightarrow> ret None) (\<lambda>spent.
     case spent of
       Some tok \<Rightarrow> ret (True, Some tok)
     | None \<Rightarrow> abind (hitlSatisfiedByState st name hash vaultId cl (Some stateProbe)) (\<lambda>b. ret (b, None)))"

definition requireConfirmation ::
    "str option \<Rightarrow> elicit_state option \<Rightarrow> str \<Rightarrow> str option \<Rightarrow> str \<Rightarrow> str \<Rightarrow> bool \<Rightarrow> details \<Rightarrow>
     'z database_scheme state_probe option \<Rightarrow> ('z database_scheme, str option) act" where
  "requireConfirmation elicitToken st vaultId cl hash toolName needed proposed probe =
     (if \<not> needed then ret None
      else
        abind (case nonempty elicitToken of
                 None \<Rightarrow> ret False
               | Some tok \<Rightarrow> verifyAndConsumeElicit tok hash vaultId cl probe) (\<lambda>tokenOk.
        abind (if tokenOk then ret False
               else hitlSatisfiedByState st toolName hash vaultId cl probe) (\<lambda>stateOk.
        if tokenOk then ret elicitToken
        else if stateOk then ret None
        else abind (elicitRequiredError vaultId cl hash probe
                (spread proposed [(''args_hash'', JStr hash), (''tool'', JStr toolName), (''vault'', JStr vaultId)]))
              raise)))"

subsection \<open>Lemmas\<close>

lemma stmt_Inr:
  "stmt f w = (Inr a, w2) \<longleftrightarrow>
     \<not> m_fault w (m_stmt w) \<and> f (w\<lparr>m_stmt := Suc (m_stmt w)\<rparr>) = (a, w2)"
  by (auto simp: stmt_def Let_def split: prod.splits)

lemma assertNoReplayDrift_pure:
  "assertNoReplayDrift fp (Some (\<lambda>w. (p w, w))) d w =
     (case fp of None \<Rightarrow> (Inr (), w)
      | Some f \<Rightarrow> (case p w of Inl e \<Rightarrow> (Inl e, w)
          | Inr c \<Rightarrow> if c = Some f then (Inr (), w) else (Inl (replay_drift d), w)))"
  by (simp add: assertNoReplayDrift_def abind_def split: option.splits sum.splits)

definition redeemable :: "token_row \<Rightarrow> str \<Rightarrow> str \<Rightarrow> str option \<Rightarrow> int \<Rightarrow> bool" where
  "redeemable row hash vaultId cl t \<longleftrightarrow>
     t_consumed_at row = None \<and> t \<le> t_expires_at row \<and> t_vault_id row = vaultId \<and>
     t_caller row = cl \<and> t_args_hash row = hash"

text \<open>Redemption as one case analysis: not redeemable, drifted, or spent.\<close>

lemma verify_cases:
  assumes "\<not> m_fault w (m_stmt w)" and "\<not> m_fault w (Suc (m_stmt w))"
  shows "verifyAndConsumeElicit token hash vaultId cl probe w =
    (let t = m_clock w (m_tick w);
         w1 = w\<lparr>m_tick := Suc (m_tick w), m_stmt := Suc (m_stmt w)\<rparr> in
     case map_of (elicit_tokens w) token of
       None \<Rightarrow> (Inr False, w1)
     | Some row \<Rightarrow>
         if \<not> redeemable row hash vaultId cl t then (Inr False, w1)
         else abind (assertNoReplayDrift (t_state_fp row) probe
                [(''tool'', JStr (t_tool_name row)), (''args_hash'', JStr hash)]) (\<lambda>_. ret True)
              (w1\<lparr>m_stmt := Suc (Suc (m_stmt w)),
                  elicit_tokens := AList.update token (row\<lparr>t_consumed_at := Some t\<rparr>) (elicit_tokens w)\<rparr>))"
proof (cases "map_of (elicit_tokens w) token")
  case None
  with assms show ?thesis
    by (simp add: verifyAndConsumeElicit_def abind_def now_def stmt_def)
next
  case (Some row)
  with assms show ?thesis
    by (auto simp: verifyAndConsumeElicit_def abind_def now_def stmt_def consume_token_def
        update_where_def redeemable_def Let_def)
qed

lemma map_of_filter_update: "P (k, v) \<Longrightarrow> map_of (filter P (AList.update k v xs)) k = Some v"
  by (induction xs) auto

lemma verify_True:
  assumes "verifyAndConsumeElicit token hash vaultId cl (Some (\<lambda>w. (p w, w))) w = (Inr True, w')"
  shows "\<exists>row. map_of (elicit_tokens w) token = Some row \<and>
    redeemable row hash vaultId cl (m_clock w (m_tick w)) \<and>
    (t_state_fp row \<noteq> None \<longrightarrow> p w' = Inr (t_state_fp row)) \<and>
    elicit_tokens w' =
      AList.update token (row\<lparr>t_consumed_at := Some (m_clock w (m_tick w))\<rparr>) (elicit_tokens w)"
proof -
  have f1: "\<not> m_fault w (m_stmt w)"
    using assms by (auto simp: verifyAndConsumeElicit_def abind_def now_def stmt_def)
  have f2: "\<not> m_fault w (Suc (m_stmt w))"
    using assms f1
    by (auto simp: verifyAndConsumeElicit_def abind_def now_def stmt_def split: option.splits if_splits)
  show ?thesis
    using assms
    by (simp add: verify_cases [OF f1 f2] Let_def abind_def assertNoReplayDrift_pure
        split: option.splits sum.splits if_splits) auto
qed

lemma verify_tokens:
  "elicit_tokens (snd (verifyAndConsumeElicit token hash vaultId cl (Some (\<lambda>w. (p w, w))) w)) = elicit_tokens w \<or>
   (\<exists>row t. map_of (elicit_tokens w) token = Some row \<and>
     elicit_tokens (snd (verifyAndConsumeElicit token hash vaultId cl (Some (\<lambda>w. (p w, w))) w)) =
       AList.update token (row\<lparr>t_consumed_at := Some t\<rparr>) (elicit_tokens w))"
proof (cases "m_fault w (m_stmt w) \<or> m_fault w (Suc (m_stmt w))")
  case True
  then show ?thesis
    by (auto simp: verifyAndConsumeElicit_def abind_def now_def stmt_def Let_def split: option.splits)
next
  case False
  then show ?thesis
    by (auto simp: verify_cases Let_def abind_def assertNoReplayDrift_pure split: option.splits sum.splits)
qed

text \<open>A token that is gone or consumed refuses every redemption, and no redemption revives one.\<close>

definition token_spent :: "str \<Rightarrow> 'z database_scheme \<Rightarrow> bool" where
  "token_spent token w \<longleftrightarrow>
     (case map_of (elicit_tokens w) token of None \<Rightarrow> True | Some row \<Rightarrow> t_consumed_at row \<noteq> None)"

definition redeem ::
    "str \<times> str \<times> str \<times> str option \<times> (database \<Rightarrow> terror + str option) \<Rightarrow> database \<Rightarrow> bool \<times> database" where
  "redeem a w =
     (case a of (token, hash, vaultId, cl, p) \<Rightarrow>
        (case verifyAndConsumeElicit token hash vaultId cl (Some (\<lambda>w. (p w, w))) w of
           (r, w') \<Rightarrow> (r = Inr True, w')))"

interpretation tok: single_use redeem fst token_spent
proof unfold_locales
  fix a :: "str \<times> str \<times> str \<times> str option \<times> (database \<Rightarrow> terror + str option)" and s :: database
  obtain token hash vaultId cl p where a: "a = (token, hash, vaultId, cl, p)" by (cases a)
  obtain r w' where v: "verifyAndConsumeElicit token hash vaultId cl (Some (\<lambda>w. (p w, w))) s = (r, w')"
    by (cases "verifyAndConsumeElicit token hash vaultId cl (Some (\<lambda>w. (p w, w))) s")
  show "token_spent (fst a) (snd (redeem a s))" if "fst (redeem a s)"
    using that v verify_True [of token hash vaultId cl p s w']
    by (auto simp: redeem_def a token_spent_def table_simps)
  show "\<not> fst (redeem a s)" if "token_spent (fst a) s"
    using that v verify_True [of token hash vaultId cl p s w']
    by (auto simp: redeem_def a token_spent_def redeemable_def)
  show "token_spent k (snd (redeem a s))" if "token_spent k s" for k
    using that v verify_tokens [of token hash vaultId cl p s]
    by (auto simp: redeem_def a token_spent_def table_simps)
qed

lemma record_request:
  assumes "m_fault w = (\<lambda>_. False)"
  shows "\<exists>w1. recordElicitRequest v h cl fp w = (Inr (), w1) \<and> m_fault w1 = (\<lambda>_. False) \<and>
    m_clock w1 = m_clock w \<and> m_tick w1 = Suc (m_tick w) \<and> elicit_tokens w1 = elicit_tokens w \<and>
    map_of (elicit_requests w1) (v, h, caller_column cl) =
      Some \<lparr>q_state_fp = fp, q_raised_at = m_clock w (m_tick w)\<rparr>"
  using assms
  by (simp add: recordElicitRequest_def abind_def now_def stmt_def map_of_filter_update request_retention_ms_def)

lemma issue_bound:
  assumes "m_fault w = (\<lambda>_. False)" and "map_of (elicit_tokens w) token = None"
    and "map_of (elicit_requests w) (v, h, caller_column cl) = Some q"
    and "m_clock w (m_tick w) - request_retention_ms \<le> q_raised_at q" and "q_state_fp q \<noteq> []"
  shows "\<exists>w1. issueElicitToken token v tool h cl ttl None w = (Inr token, w1) \<and> m_fault w1 = (\<lambda>_. False) \<and>
    m_clock w1 = m_clock w \<and> m_tick w1 = Suc (m_tick w) \<and>
    map_of (elicit_tokens w1) token = Some \<lparr>t_vault_id = v, t_tool_name = tool, t_args_hash = h,
      t_caller = cl, t_created_at = m_clock w (m_tick w),
      t_expires_at = m_clock w (m_tick w) + ttl * 1000, t_consumed_at = None, t_state_fp = Some (q_state_fp q)\<rparr>"
  using assms
  by (simp add: issueElicitToken_def requestedRow_def abind_def now_def stmt_def nonempty_def table_simps)

subsection \<open>Properties\<close>

text \<open>
  Of all the redemptions of one confirmation token, in any order, by any callers, for
  any calls and against any states of the targets, and whatever statements fault, at most one
  succeeds.
\<close>

theorem redeemed_once:
  "(\<Sum>i<length attempts. if fst (attempts ! i) = token \<and>
       fst (redeem (attempts ! i) (fold (\<lambda>a w. snd (redeem a w)) (take i attempts) w)) then 1 else 0) \<le> (1::nat)"
proof -
  have "(\<Sum>i<length as. if fst (as ! i) = token \<and>
       fst (redeem (as ! i) (fold (\<lambda>a w. snd (redeem a w)) (take i as) w)) then 1 else 0) =
     tok.successes token as w" for as
  proof (induction as arbitrary: w)
    case Nil
    then show ?case by simp
  next
    case (Cons a as)
    then show ?case by (simp only: length_Cons sum.lessThan_Suc_shift) simp
  qed
  with tok.at_most_once show ?thesis by simp
qed

text \<open>
  C35: a token is accepted only when it exists, is unspent and unexpired, was issued for
  this vault, this caller and these arguments, and, if it was bound to a state of the target, that
  state is what the probe finds now; the redemption changes nothing of the table but its
  \<open>consumed_at\<close>.
\<close>

theorem redeem_sound:
  assumes "verifyAndConsumeElicit token hash vaultId cl (Some (\<lambda>w. (p w, w))) w = (Inr True, w')"
  shows "\<exists>row. map_of (elicit_tokens w) token = Some row \<and>
    redeemable row hash vaultId cl (m_clock w (m_tick w)) \<and>
    (t_state_fp row \<noteq> None \<longrightarrow> p w' = Inr (t_state_fp row)) \<and>
    elicit_tokens w' =
      AList.update token (row\<lparr>t_consumed_at := Some (m_clock w (m_tick w))\<rparr>) (elicit_tokens w)"
  by (rule verify_True [OF assms])

definition sample_token :: token_row where
  "sample_token =
     \<lparr>t_vault_id = ''v'', t_tool_name = ''delete_note'', t_args_hash = ''h'', t_caller = Some ''ann'',
      t_created_at = 0, t_expires_at = 1000, t_consumed_at = None, t_state_fp = Some ''fp''\<rparr>"

definition elicit_db :: "(str \<times> token_row) list \<Rightarrow> database" where
  "elicit_db tokens =
     \<lparr>m_clock = (\<lambda>i. 100 * int i), m_tick = 0, m_fault = (\<lambda>_. False), m_stmt = 0, idem_rows = [],
      elicit_tokens = tokens, elicit_requests = []\<rparr>"

theorem redeem_sound_witness:
  "\<exists>row. map_of [(''t'', sample_token)] ''t'' = Some row \<and> redeemable row ''h'' ''v'' (Some ''ann'') 0"
proof -
  have "verifyAndConsumeElicit ''t'' ''h'' ''v'' (Some ''ann'') (Some (\<lambda>w. (Inr (Some ''fp''), w)))
      (elicit_db [(''t'', sample_token)]) =
    (Inr True, snd (verifyAndConsumeElicit ''t'' ''h'' ''v'' (Some ''ann'') (Some (\<lambda>w. (Inr (Some ''fp''), w)))
      (elicit_db [(''t'', sample_token)])))"
    by (simp add: verify_cases elicit_db_def sample_token_def redeemable_def abind_def assertNoReplayDrift_def)
  from redeem_sound [of _ _ _ _ "\<lambda>_. Inr (Some ''fp'')", OF this] show ?thesis
    by (simp add: elicit_db_def)
qed

text \<open>
  C36: the confirmation an operator mints for a blocked call approves the
  state of the target the call was blocked on. Raised with fingerprint \<open>fp\<close>, minted within the
  retention of the request and redeemed before it expires, it is accepted exactly when the target
  still has that fingerprint; any other state is refused as \<open>replay_drift\<close> and spends the token.
\<close>

theorem confirmation_binds_state:
  assumes "m_fault w = (\<lambda>_. False)" and "fp \<noteq> []" and "map_of (elicit_tokens w) token = None"
    and "m_clock w (Suc (m_tick w)) - m_clock w (m_tick w) \<le> request_retention_ms"
    and "m_clock w (Suc (Suc (m_tick w))) \<le> m_clock w (Suc (m_tick w)) + ttl * 1000"
  shows "(case abind (recordElicitRequest v h cl fp) (\<lambda>_.
            abind (issueElicitToken token v tool h cl ttl None) (\<lambda>tk.
            verifyAndConsumeElicit tk h v cl (Some (ret current)))) w of
     (r, w') \<Rightarrow>
       r = (if current = Some fp then Inr True
            else Inl (replay_drift [(''tool'', JStr tool), (''args_hash'', JStr h)])) \<and>
       token_spent token w')"
proof -
  obtain w1 where r: "recordElicitRequest v h cl fp w = (Inr (), w1)"
    and f1: "m_fault w1 = (\<lambda>_. False)" "m_clock w1 = m_clock w" "m_tick w1 = Suc (m_tick w)"
      "elicit_tokens w1 = elicit_tokens w"
    and q: "map_of (elicit_requests w1) (v, h, caller_column cl) =
      Some \<lparr>q_state_fp = fp, q_raised_at = m_clock w (m_tick w)\<rparr>"
    using record_request [OF assms(1), of v h cl fp] by blast
  have within: "m_clock w1 (m_tick w1) - request_retention_ms \<le> m_clock w (m_tick w)"
    using assms(4) f1 by simp
  obtain w2 where i: "issueElicitToken token v tool h cl ttl None w1 = (Inr token, w2)"
    and f2: "m_fault w2 = (\<lambda>_. False)" "m_clock w2 = m_clock w1" "m_tick w2 = Suc (m_tick w1)"
    and tk: "map_of (elicit_tokens w2) token = Some \<lparr>t_vault_id = v, t_tool_name = tool, t_args_hash = h,
      t_caller = cl, t_created_at = m_clock w1 (m_tick w1),
      t_expires_at = m_clock w1 (m_tick w1) + ttl * 1000, t_consumed_at = None, t_state_fp = Some fp\<rparr>"
    using issue_bound [OF f1(1) _ q, of token tool ttl] assms(2,3) f1(4) within by auto
  show ?thesis
    using assms(5) tk f2 f1
    by (simp add: abind_def [of "recordElicitRequest v h cl fp"] r abind_def [of "issueElicitToken token v tool h cl ttl None"] i
        verify_cases Let_def redeemable_def assertNoReplayDrift_def token_spent_def table_simps abind_def)
qed

theorem confirmation_binds_state_witness:
  "(case abind (recordElicitRequest ''v'' ''h'' None ''fp1'') (\<lambda>_.
            abind (issueElicitToken ''t'' ''v'' ''delete_note'' ''h'' None 300 None) (\<lambda>tk.
            verifyAndConsumeElicit tk ''h'' ''v'' None (Some (ret (Some ''fp2''))))) (elicit_db []) of
     (r, w') \<Rightarrow> r = Inl (replay_drift [(''tool'', JStr ''delete_note''), (''args_hash'', JStr ''h'')]) \<and>
       token_spent ''t'' w')"
  using confirmation_binds_state [where w = "elicit_db []" and fp = "''fp1''" and token = "''t''" and ttl = 300
      and v = "''v''" and h = "''h''" and cl = None and tool = "''delete_note''" and current = "Some ''fp2''"]
  by (simp add: elicit_db_def request_retention_ms_def)

text \<open>
  Handing back a token that a refused call spent restores the table to what it
  was before the call: the expiry, the binding to the state and the owner of the token are the ones
  it was issued with, and it can be redeemed again until it expires.
\<close>

theorem release_restores:
  assumes "verifyAndConsumeElicit token hash vaultId cl (Some (\<lambda>w. (p w, w))) w = (Inr True, w1)"
    and "\<not> m_fault w1 (m_stmt w1)"
  shows "\<exists>w2. releaseElicitToken token w1 = (Inr (), w2) \<and>
    (\<forall>k. map_of (elicit_tokens w2) k = map_of (elicit_tokens w) k)"
proof -
  from verify_True [OF assms(1)] obtain row where
    r: "map_of (elicit_tokens w) token = Some row" "t_consumed_at row = None"
      "elicit_tokens w1 = AList.update token (row\<lparr>t_consumed_at := Some (m_clock w (m_tick w))\<rparr>) (elicit_tokens w)"
    by (auto simp: redeemable_def)
  then show ?thesis using assms(2)
    by (simp add: releaseElicitToken_def stmt_def release_token_def table_simps)
qed

theorem release_restores_witness:
  "\<exists>w2. releaseElicitToken ''t'' (snd (verifyAndConsumeElicit ''t'' ''h'' ''v'' (Some ''ann'')
       (Some (\<lambda>w. (Inr (Some ''fp''), w))) (elicit_db [(''t'', sample_token)]))) = (Inr (), w2) \<and>
    map_of (elicit_tokens w2) ''t'' = Some sample_token"
proof -
  have v: "verifyAndConsumeElicit ''t'' ''h'' ''v'' (Some ''ann'') (Some (\<lambda>w. (Inr (Some ''fp''), w)))
      (elicit_db [(''t'', sample_token)]) =
    (Inr True, snd (verifyAndConsumeElicit ''t'' ''h'' ''v'' (Some ''ann'') (Some (\<lambda>w. (Inr (Some ''fp''), w)))
      (elicit_db [(''t'', sample_token)])))"
    by (simp add: verify_cases elicit_db_def sample_token_def redeemable_def abind_def assertNoReplayDrift_def)
  have "\<not> m_fault (snd (verifyAndConsumeElicit ''t'' ''h'' ''v'' (Some ''ann'') (Some (\<lambda>w. (Inr (Some ''fp''), w)))
      (elicit_db [(''t'', sample_token)])))
    (m_stmt (snd (verifyAndConsumeElicit ''t'' ''h'' ''v'' (Some ''ann'') (Some (\<lambda>w. (Inr (Some ''fp''), w)))
      (elicit_db [(''t'', sample_token)]))))"
    by (simp add: verify_cases elicit_db_def sample_token_def redeemable_def abind_def assertNoReplayDrift_def)
  from release_restores [of _ _ _ _ "\<lambda>_. Inr (Some ''fp'')", OF v this] show ?thesis
    by (auto simp: elicit_db_def)
qed

end
