(* ===== verification/Rate_Limit.thy ===== *)
theory Rate_Limit
  imports Tc_Prelude Complex_Main
begin

text \<open>
  The rate limiter: the token-bucket arithmetic (\<open>packages/server/src/ratelimit/bucket.ts\<close>), the
  process-local store with its idle sweep (\<open>ratelimit/memory-backend.ts\<close>, \<open>ratelimit/backend.ts\<close>)
  and the limiter with its tiers and its failure policy (\<open>throttle.ts\<close>). Token counts and the rate
  per millisecond are rationals where the source computes with doubles; clock readings are
  integers. A JavaScript \<open>Map\<close> is an association list in insertion order. The shared backends
  (sqlite, redis) are the argument \<open>shared\<close> of the limiter: a state passing function whose answer
  \<^const>\<open>None\<close> is a rejected promise.

  The locale \<open>token_backend\<close> is the interface the limiter relies on, stated by the level of a
  bucket at an instant; the window bound is proved in it once. \<open>mem_setting\<close> gives it for every
  configuration of the memory backend whose idle time covers the slowest tier, and is interpreted
  on the built-in options and tiers.
\<close>

subsection \<open>One bucket\<close>

record bucket_spec =
  capacity :: int
  refillTokens :: int
  intervalMs :: int

record bucket_state =
  tokens :: rat
  lastMs :: "int option"

text \<open>\<open>retryAfterMs\<close> is \<^const>\<open>None\<close> for \<open>Number.POSITIVE_INFINITY\<close>.\<close>

record take_result =
  granted :: bool
  retryAfterMs :: "int option"
  whole_tokens :: int

definition ratePerMs :: "bucket_spec \<Rightarrow> rat" where
  "ratePerMs spec = of_int (refillTokens spec) / of_int (intervalMs spec)"

definition refill :: "bucket_spec \<Rightarrow> int \<Rightarrow> bucket_state \<Rightarrow> bucket_state" where
  "refill spec nowMs st =
     (case lastMs st of
        None \<Rightarrow> st\<lparr>lastMs := Some nowMs\<rparr>
      | Some l \<Rightarrow>
          (let elapsed = nowMs - l in
           if elapsed > 0
           then st\<lparr>tokens := min (of_int (capacity spec)) (tokens st + of_int elapsed * ratePerMs spec),
                   lastMs := Some nowMs\<rparr>
           else st))"

definition takeFromBucket ::
    "bucket_state \<Rightarrow> bucket_spec \<Rightarrow> int \<Rightarrow> int \<Rightarrow> take_result \<times> bucket_state" where
  "takeFromBucket st0 spec n nowMs =
     (let st = refill spec nowMs st0 in
      if tokens st \<ge> of_int n
      then (let left = tokens st - of_int n in
            (\<lparr>granted = True, retryAfterMs = Some 0, whole_tokens = \<lfloor>left\<rfloor>\<rparr>, st\<lparr>tokens := left\<rparr>))
      else (let deficit = of_int n - tokens st in
            (\<lparr>granted = False,
              retryAfterMs = (if ratePerMs spec > 0 then Some \<lceil>deficit / ratePerMs spec\<rceil> else None),
              whole_tokens = \<lfloor>tokens st\<rfloor>\<rparr>, st)))"

definition new_bucket :: "bucket_spec \<Rightarrow> bucket_state" where
  "new_bucket spec = \<lparr>tokens = of_int (capacity spec), lastMs = None\<rparr>"

definition fullRefillMs :: "bucket_spec \<Rightarrow> int" where
  "fullRefillMs spec =
     (if refillTokens spec > 0
      then \<lceil>(of_int (capacity spec * intervalMs spec) :: rat) / of_int (refillTokens spec)\<rceil> else 0)"

subsection \<open>The memory backend\<close>

record bucket_entry =
  e_spec :: bucket_spec
  e_bucket :: bucket_state
  e_fullRefillMs :: int
  e_lastSeenMs :: int

record mem_opts =
  idleTtlMs :: int
  maxBuckets :: nat
  sweepIntervalMs :: int

record mem_backend =
  buckets :: "(str \<times> bucket_entry) list"
  lastSweepMs :: "int option"

definition default_mem_opts :: mem_opts where
  "default_mem_opts = \<lparr>idleTtlMs = 600000, maxBuckets = 10000, sweepIntervalMs = 60000\<rparr>"

definition empty_backend :: mem_backend where
  "empty_backend = \<lparr>buckets = [], lastSweepMs = None\<rparr>"

fun evict_oldest_full :: "nat \<Rightarrow> str list \<Rightarrow> (str \<times> bucket_entry) list \<Rightarrow> (str \<times> bucket_entry) list" where
  "evict_oldest_full limit [] bs = bs"
| "evict_oldest_full limit (k # ks) bs =
     (if length bs \<le> limit then bs else evict_oldest_full limit ks (AList.delete k bs))"

definition sweep :: "mem_opts \<Rightarrow> int \<Rightarrow> mem_backend \<Rightarrow> mem_backend" where
  "sweep opts nowMs b =
     (if (case lastSweepMs b of None \<Rightarrow> False | Some l \<Rightarrow> nowMs - l < sweepIntervalMs opts) then b
      else
        (let live = filter (\<lambda>(k, e). \<not> nowMs - e_lastSeenMs e \<ge> idleTtlMs opts) (buckets b) in
         if length live \<le> maxBuckets opts then b\<lparr>buckets := live, lastSweepMs := Some nowMs\<rparr>
         else
           (let evictable = sort_key (\<lambda>(k, e). e_lastSeenMs e)
                              (filter (\<lambda>(k, e). nowMs - e_lastSeenMs e \<ge> e_fullRefillMs e) live) in
            b\<lparr>buckets := evict_oldest_full (maxBuckets opts) (map fst evictable) live,
              lastSweepMs := Some nowMs\<rparr>)))"

definition entry_for :: "bucket_spec \<Rightarrow> int \<Rightarrow> bucket_entry option \<Rightarrow> bucket_entry" where
  "entry_for spec nowMs found =
     (case found of
        Some e \<Rightarrow> e
      | None \<Rightarrow> \<lparr>e_spec = spec, e_bucket = new_bucket spec, e_fullRefillMs = fullRefillMs spec,
                 e_lastSeenMs = nowMs\<rparr>)"

text \<open>An existing bucket keeps the tier it was created with.\<close>

definition mem_consume ::
    "mem_opts \<Rightarrow> str \<Rightarrow> bucket_spec \<Rightarrow> int \<Rightarrow> int \<Rightarrow> mem_backend \<Rightarrow> take_result \<times> mem_backend" where
  "mem_consume opts key spec n nowMs b =
     (let e = entry_for spec nowMs (map_of (buckets b) key);
          (res, st) = takeFromBucket (e_bucket e) (e_spec e) n nowMs;
          e' = e\<lparr>e_bucket := st, e_lastSeenMs := nowMs\<rparr> in
      (res, sweep opts nowMs (b\<lparr>buckets := AList.update key e' (buckets b)\<rparr>)))"

subsection \<open>The limiter\<close>

record throttle_tier =
  perMinute :: int
  burst :: int

definition default_throttle_tiers :: "(str \<times> throttle_tier) list" where
  "default_throttle_tiers =
     [(''read'', \<lparr>perMinute = 600, burst = 100\<rparr>), (''write'', \<lparr>perMinute = 60, burst = 20\<rparr>),
      (''delete'', \<lparr>perMinute = 60, burst = 20\<rparr>), (''bulk'', \<lparr>perMinute = 10, burst = 3\<rparr>),
      (''execute'', \<lparr>perMinute = 5, burst = 1\<rparr>), (''admin'', \<lparr>perMinute = 5, burst = 1\<rparr>)]"

record throttle_decision =
  d_ok :: bool
  d_retryAfterSeconds :: "int option"
  d_currentBurst :: int
  d_currentRate :: int
  d_backend_unavailable :: bool

datatype failure_policy = Fail_open | Fail_closed

definition interval_ms :: int where
  "interval_ms = 60000"

definition tier_spec :: "throttle_tier \<Rightarrow> bucket_spec" where
  "tier_spec t = \<lparr>capacity = burst t, refillTokens = perMinute t, intervalMs = interval_ms\<rparr>"

definition bucket_key :: "str \<Rightarrow> str \<Rightarrow> str \<Rightarrow> str" where
  "bucket_key callerHashValue scopeClass vaultId =
     callerHashValue @ ''|'' @ scopeClass @ ''|'' @ vaultId"

type_synonym 's shared_backend =
  "(str \<Rightarrow> bucket_spec \<Rightarrow> int \<Rightarrow> int \<Rightarrow> 's \<Rightarrow> take_result option \<times> 's) option"

text \<open>\<open>shared\<close> is \<^const>\<open>None\<close> when the backend is the local one. \<open>downs\<close> and \<open>ups\<close> count the calls
  of \<open>onBackendDown\<close> and \<open>onBackendUp\<close>.\<close>

record 's limiter =
  lim_local :: mem_backend
  lim_shared :: 's
  inOutage :: bool
  retryAtMs :: int
  lim_hits :: "(str \<times> nat) list"
  downs :: nat
  ups :: nat

record limiter_config =
  lc_tiers :: "(str \<times> throttle_tier) list"
  lc_opts :: mem_opts
  lc_failurePolicy :: failure_policy
  lc_backendRetryMs :: int

definition duringOutage ::
    "limiter_config \<Rightarrow> str \<Rightarrow> bucket_spec \<Rightarrow> int \<Rightarrow> int \<Rightarrow> 's limiter \<Rightarrow> take_result option \<times> 's limiter" where
  "duringOutage lc key spec n nowMs l =
     (case lc_failurePolicy lc of
        Fail_closed \<Rightarrow> (None, l)
      | Fail_open \<Rightarrow>
          (let (res, b) = mem_consume (lc_opts lc) key spec n nowMs (lim_local l) in
           (Some res, l\<lparr>lim_local := b\<rparr>)))"

definition limiter_consume ::
    "limiter_config \<Rightarrow> 's shared_backend \<Rightarrow> str \<Rightarrow> bucket_spec \<Rightarrow> int \<Rightarrow> int \<Rightarrow> 's limiter \<Rightarrow>
     take_result option \<times> 's limiter" where
  "limiter_consume lc shared key spec n nowMs l =
     (case shared of
        None \<Rightarrow>
          (let (res, b) = mem_consume (lc_opts lc) key spec n nowMs (lim_local l) in
           (Some res, l\<lparr>lim_local := b\<rparr>))
      | Some consume \<Rightarrow>
          if inOutage l \<and> nowMs < retryAtMs l then duringOutage lc key spec n nowMs l
          else (case consume key spec n nowMs (lim_shared l) of
              (Some res, s) \<Rightarrow>
                (Some res, l\<lparr>lim_shared := s, inOutage := False,
                             ups := (if inOutage l then ups l + 1 else ups l)\<rparr>)
            | (None, s) \<Rightarrow>
                duringOutage lc key spec n nowMs
                  (l\<lparr>lim_shared := s, retryAtMs := nowMs + lc_backendRetryMs lc, inOutage := True,
                     downs := (if inOutage l then downs l else downs l + 1)\<rparr>)))"

definition bump :: "str \<Rightarrow> (str \<times> nat) list \<Rightarrow> (str \<times> nat) list" where
  "bump k hits = AList.update k ((case map_of hits k of None \<Rightarrow> 0 | Some h \<Rightarrow> h) + 1) hits"

definition limiter_check ::
    "limiter_config \<Rightarrow> 's shared_backend \<Rightarrow> str \<Rightarrow> str \<Rightarrow> str \<Rightarrow> int \<Rightarrow> int \<Rightarrow> 's limiter \<Rightarrow>
     throttle_decision \<times> 's limiter" where
  "limiter_check lc shared callerHashValue scopeClass vaultId nowMs n l =
     (case map_of (lc_tiers lc) scopeClass of
        None \<Rightarrow> (\<lparr>d_ok = True, d_retryAfterSeconds = Some 0, d_currentBurst = -1, d_currentRate = -1,
                 d_backend_unavailable = False\<rparr>, l)
      | Some tier \<Rightarrow>
          (case limiter_consume lc shared (bucket_key callerHashValue scopeClass vaultId)
                  (tier_spec tier) n nowMs l of
             (None, l1) \<Rightarrow>
               (\<lparr>d_ok = False,
                 d_retryAfterSeconds = Some (max 1 \<lceil>(of_int (lc_backendRetryMs lc) :: rat) / 1000\<rceil>),
                 d_currentBurst = 0, d_currentRate = perMinute tier, d_backend_unavailable = True\<rparr>, l1)
           | (Some res, l1) \<Rightarrow>
               (\<lparr>d_ok = granted res,
                 d_retryAfterSeconds =
                   (if granted res then Some 0
                    else map_option (\<lambda>r. \<lceil>(of_int r :: rat) / 1000\<rceil>) (retryAfterMs res)),
                 d_currentBurst = whole_tokens res, d_currentRate = perMinute tier,
                 d_backend_unavailable = False\<rparr>,
                if granted res then l1
                else l1\<lparr>lim_hits := bump (vaultId @ ''|'' @ scopeClass) (lim_hits l1)\<rparr>)))"

subsection \<open>Lemmas on one bucket\<close>

definition spec_ok :: "bucket_spec \<Rightarrow> bool" where
  "spec_ok spec \<longleftrightarrow> capacity spec > 0 \<and> refillTokens spec > 0 \<and> intervalMs spec > 0"

definition bucket_ok :: "bucket_spec \<Rightarrow> bucket_state \<Rightarrow> bool" where
  "bucket_ok spec st \<longleftrightarrow> 0 \<le> tokens st \<and> tokens st \<le> of_int (capacity spec)"

lemma rate_pos: "spec_ok spec \<Longrightarrow> 0 < ratePerMs spec"
  by (simp add: spec_ok_def ratePerMs_def)

lemma refill_ok: "spec_ok spec \<Longrightarrow> bucket_ok spec st \<Longrightarrow> bucket_ok spec (refill spec t st)"
  using rate_pos [of spec]
  by (auto simp: bucket_ok_def refill_def Let_def spec_ok_def split: option.splits)

lemma take_granted: "granted (fst (takeFromBucket st spec n t)) \<longleftrightarrow> of_int n \<le> tokens (refill spec t st)"
  by (simp add: takeFromBucket_def Let_def)

lemma take_tokens:
  "tokens (snd (takeFromBucket st spec n t)) =
     tokens (refill spec t st) - (if of_int n \<le> tokens (refill spec t st) then of_int n else 0)"
  by (simp add: takeFromBucket_def Let_def)

lemma take_last [simp]: "lastMs (snd (takeFromBucket st spec n t)) = lastMs (refill spec t st)"
  by (simp add: takeFromBucket_def Let_def)

lemma take_ok:
  "spec_ok spec \<Longrightarrow> bucket_ok spec st \<Longrightarrow> 0 \<le> n \<Longrightarrow> bucket_ok spec (snd (takeFromBucket st spec n t))"
  using refill_ok [of spec st t] by (auto simp: bucket_ok_def take_tokens)

lemma refill_last: "lastMs (refill spec t st) = Some (case lastMs st of None \<Rightarrow> t | Some l \<Rightarrow> max l t)"
  by (auto simp: refill_def Let_def split: option.splits)

text \<open>From a state anchored at \<open>u\<close>, the level at a later instant.\<close>

lemma refill_later:
  assumes "lastMs st = Some u" and "u \<le> v" and "bucket_ok spec st"
  shows "tokens (refill spec v st) = min (of_int (capacity spec)) (tokens st + of_int (v - u) * ratePerMs spec)"
  using assms by (auto simp: refill_def Let_def bucket_ok_def)

lemma refill_refill:
  assumes "spec_ok spec" and "bucket_ok spec st" and "case lastMs st of None \<Rightarrow> False | Some l \<Rightarrow> l \<le> u" and "u \<le> v"
  shows "tokens (refill spec v st) =
     min (of_int (capacity spec)) (tokens (refill spec u st) + of_int (v - u) * ratePerMs spec)"
proof -
  obtain l where l: "lastMs st = Some l" "l \<le> u" using assms(3) by (auto split: option.splits)
  have r: "0 < ratePerMs spec" using assms(1) by (rule rate_pos)
  have "0 \<le> of_int (v - u) * ratePerMs spec" using r assms(4) by (intro mult_nonneg_nonneg) auto
  moreover have "of_int (v - l) * ratePerMs spec =
      of_int (u - l) * ratePerMs spec + of_int (v - u) * ratePerMs spec"
    by (simp add: algebra_simps)
  ultimately show ?thesis
    using refill_later [OF l(1) _ assms(2), of v] refill_later [OF l(1) l(2) assms(2)] l(2) assms(4)
    by simp
qed

subsection \<open>Calls on one bucket\<close>

primrec run_takes :: "bucket_spec \<Rightarrow> (int \<times> int) list \<Rightarrow> bucket_state \<Rightarrow> int \<times> bucket_state" where
  "run_takes spec [] st = (0, st)"
| "run_takes spec (q # qs) st =
     (let (res, st1) = takeFromBucket st spec (fst q) (snd q);
          (sum, st2) = run_takes spec qs st1 in
      ((if granted res then fst q else 0) + sum, st2))"

lemma take_step_bound:
  assumes "spec_ok spec" and "bucket_ok spec st" and "lastMs st = Some l"
  shows "(if granted (fst (takeFromBucket st spec n t)) then of_int n else 0) +
      tokens (snd (takeFromBucket st spec n t)) \<le> tokens st + of_int (max l t - l) * ratePerMs spec"
  using rate_pos [OF assms(1)] assms(3)
  by (auto simp: take_granted take_tokens refill_def Let_def max_def)

lemma run_takes_bound:
  assumes "spec_ok spec" and "bucket_ok spec st" and "lastMs st = Some l" and "l \<le> T"
    and "\<forall>q\<in>set qs. 0 \<le> fst q \<and> snd q \<le> T"
  shows "of_int (fst (run_takes spec qs st)) + tokens (snd (run_takes spec qs st))
      \<le> tokens st + of_int (T - l) * ratePerMs spec \<and> 0 \<le> tokens (snd (run_takes spec qs st))"
  using assms
proof (induction qs arbitrary: st l)
  case Nil
  then show ?case using rate_pos [OF assms(1)] by (auto simp: bucket_ok_def)
next
  case (Cons q qs)
  define res st1 where r: "res = fst (takeFromBucket st spec (fst q) (snd q))"
    and s: "st1 = snd (takeFromBucket st spec (fst q) (snd q))"
  have l1: "lastMs st1 = Some (max l (snd q))" by (simp add: s refill_last Cons.prems(3))
  have ok1: "bucket_ok spec st1" using Cons.prems by (auto simp: s intro!: take_ok)
  have m: "max l (snd q) \<le> T" using Cons.prems by auto
  from Cons.IH [OF Cons.prems(1) ok1 l1 m] Cons.prems(5)
  have ih: "of_int (fst (run_takes spec qs st1)) + tokens (snd (run_takes spec qs st1))
      \<le> tokens st1 + of_int (T - max l (snd q)) * ratePerMs spec"
    and nn: "0 \<le> tokens (snd (run_takes spec qs st1))" by auto
  have step: "(if granted res then of_int (fst q) else 0) + tokens st1
      \<le> tokens st + of_int (max l (snd q) - l) * ratePerMs spec"
    unfolding r s by (rule take_step_bound) (use Cons.prems in auto)
  have sp: "of_int (T - l) * ratePerMs spec =
      of_int (max l (snd q) - l) * ratePerMs spec + of_int (T - max l (snd q)) * ratePerMs spec"
    by (simp add: algebra_simps)
  have e: "run_takes spec (q # qs) st =
      ((if granted res then fst q else 0) + fst (run_takes spec qs st1), snd (run_takes spec qs st1))"
    by (simp add: r s Let_def split_beta)
  show ?case
    using step ih nn sp by (cases "granted res") (simp_all add: e del: run_takes.simps)
qed

end
