(* ===== verification/Idempotency.thy ===== *)
theory Idempotency
  imports Database
begin

text \<open>
  Idempotency keys, \<open>packages/server/src/mcp/registry/idempotency.ts\<close>: the key of a call, the six
  statements on the table \<open>idempotency_keys\<close>, and \<open>claimOrReplay\<close>, which resolves a keyed call to
  one state (claimed, mismatch, in flight, or one of the replays). The statements are pure functions
  on rows and tables, lifted to actions that may fault. \<open>JSON.parse\<close> of a stored result is the
  argument \<open>parse\<close> (\<^const>\<open>None\<close>: it throws).
\<close>

subsection \<open>The key of a call\<close>

definition json_field :: "str \<Rightarrow> json \<Rightarrow> json option" where
  "json_field k v = (case v of JObj ob \<Rightarrow> get_field k ob | _ \<Rightarrow> None)"

definition nonempty_str :: "json option \<Rightarrow> str option" where
  "nonempty_str v = (case v of Some (JStr s) \<Rightarrow> if length s > 0 then Some s else None | _ \<Rightarrow> None)"

definition nullish :: "json option \<Rightarrow> bool" where
  "nullish v \<longleftrightarrow> v = None \<or> v = Some JNull"

definition extractIdempotencyKey :: "json \<Rightarrow> str option" where
  "extractIdempotencyKey data =
     (let top = (if nullish (json_field ''idempotency_key'' data)
                 then json_field ''bulk_idempotency_key'' data
                 else json_field ''idempotency_key'' data) in
      case nonempty_str top of
        Some s \<Rightarrow> Some s
      | None \<Rightarrow>
          (case json_field ''options'' data of
             None \<Rightarrow> None
           | Some opts \<Rightarrow> nonempty_str (json_field ''idempotency_key'' opts)))"

subsection \<open>The statements\<close>

definition new_row :: "str \<Rightarrow> str \<Rightarrow> int \<Rightarrow> int \<Rightarrow> idem_row" where
  "new_row tool argsHashValue nowMs ttlMs =
     \<lparr>i_tool_name = tool, i_args_hash = argsHashValue, i_started_at = nowMs, i_completed_at = None,
      i_result = None, i_result_size = None, i_expires_at = nowMs + ttlMs, i_state = In_flight\<rparr>"

definition claim_row ::
    "idem_key \<Rightarrow> str \<Rightarrow> str \<Rightarrow> int \<Rightarrow> int \<Rightarrow> (idem_key \<times> idem_row) list \<Rightarrow> bool \<times> (idem_key \<times> idem_row) list" where
  "claim_row k tool h nowMs ttlMs t =
     (if map_of t k = None then (True, AList.update k (new_row tool h nowMs ttlMs) t) else (False, t))"

definition finalize_row :: "str \<Rightarrow> int \<Rightarrow> int \<Rightarrow> idem_row \<Rightarrow> idem_row" where
  "finalize_row json sz nowMs r =
     r\<lparr>i_completed_at := Some nowMs, i_result := Some json, i_result_size := Some sz, i_state := Completed\<rparr>"

definition committed_row :: "idem_row \<Rightarrow> idem_row" where
  "committed_row r = r\<lparr>i_state := Effect_committed\<rparr>"

definition indeterminate_row :: "int \<Rightarrow> idem_row \<Rightarrow> idem_row" where
  "indeterminate_row nowMs r =
     r\<lparr>i_completed_at := Some nowMs, i_result := Some ''null'', i_result_size := None, i_state := Indeterminate\<rparr>"

definition on_idem ::
    "((idem_key \<times> idem_row) list \<Rightarrow> 'a \<times> (idem_key \<times> idem_row) list) \<Rightarrow> ('z database_scheme, 'a) act" where
  "on_idem f = stmt (\<lambda>w. case f (idem_rows w) of (a, t) \<Rightarrow> (a, w\<lparr>idem_rows := t\<rparr>))"

definition tryClaimIdempotency ::
    "idem_key \<Rightarrow> str \<Rightarrow> str \<Rightarrow> int \<Rightarrow> int \<Rightarrow> ('z database_scheme, bool) act" where
  "tryClaimIdempotency k tool h nowMs ttlMs = on_idem (claim_row k tool h nowMs ttlMs)"

definition readIdempotency :: "idem_key \<Rightarrow> ('z database_scheme, idem_row option) act" where
  "readIdempotency k = on_idem (\<lambda>t. (map_of t k, t))"

definition finalizeIdempotency :: "idem_key \<Rightarrow> str \<Rightarrow> int \<Rightarrow> int \<Rightarrow> ('z database_scheme, unit) act" where
  "finalizeIdempotency k json sz nowMs =
     on_idem (\<lambda>t. ((), snd (update_where k (\<lambda>_. True) (finalize_row json sz nowMs) t)))"

definition markEffectCommitted :: "idem_key \<Rightarrow> ('z database_scheme, unit) act" where
  "markEffectCommitted k =
     on_idem (\<lambda>t. ((), snd (update_where k (\<lambda>r. i_completed_at r = None) committed_row t)))"

definition finalizeIndeterminate :: "idem_key \<Rightarrow> int \<Rightarrow> ('z database_scheme, unit) act" where
  "finalizeIndeterminate k nowMs =
     on_idem (\<lambda>t. ((), snd (update_where k (\<lambda>_. True) (indeterminate_row nowMs) t)))"

definition deleteIdempotency :: "idem_key \<Rightarrow> ('z database_scheme, unit) act" where
  "deleteIdempotency k = on_idem (\<lambda>t. ((), AList.delete k t))"

subsection \<open>Claim or replay\<close>

datatype claim_result =
    Claimed
  | Mismatch
  | Claim_in_flight
  | Replay_indeterminate
  | Replay_overflow int
  | Replay_ok json str int

definition bufToString :: "str option \<Rightarrow> str" where
  "bufToString v = (case v of None \<Rightarrow> [] | Some s \<Rightarrow> s)"

definition utf8_length :: "str \<Rightarrow> int" where
  "utf8_length s = (\<Sum>c\<leftarrow>s. if (of_char c :: nat) < 128 then 1 else 2)"

text \<open>The row a call that lost the claim resolves against.\<close>

definition resolve_row ::
    "(str \<Rightarrow> json option) \<Rightarrow> idem_key \<Rightarrow> str \<Rightarrow> str \<Rightarrow> int \<Rightarrow> idem_row option \<Rightarrow>
     ('z database_scheme, claim_result) act" where
  "resolve_row parse k tool h maxResponseBytes found =
     (case found of
        None \<Rightarrow> ret Claim_in_flight
      | Some row \<Rightarrow>
          if i_tool_name row \<noteq> tool \<or> i_args_hash row \<noteq> h then ret Mismatch
          else if i_state row = Indeterminate \<or> i_state row = Effect_committed
          then ret Replay_indeterminate
          else if i_completed_at row = None then ret Claim_in_flight
          else (case i_result_size row of
              Some sz \<Rightarrow>
                if sz > maxResponseBytes then ret (Replay_overflow sz)
                else (case parse (bufToString (i_result row)) of
                    Some v \<Rightarrow> ret (Replay_ok v (bufToString (i_result row)) sz)
                  | None \<Rightarrow> abind (deleteIdempotency k) (\<lambda>_.
                      raise (Tc Internal ''cached idempotent result was unreadable; retry'' None)))
            | None \<Rightarrow>
                (case parse (bufToString (i_result row)) of
                    Some v \<Rightarrow> ret (Replay_ok v (bufToString (i_result row)) (utf8_length (bufToString (i_result row))))
                  | None \<Rightarrow> abind (deleteIdempotency k) (\<lambda>_.
                      raise (Tc Internal ''cached idempotent result was unreadable; retry'' None)))))"

text \<open>\<open>row && (row.expires_at <= now() || (in flight && row.started_at + reclaimMs <= now()))\<close>: the
  second clock reading happens only when the first comparison fails and the row is in flight.\<close>

definition reclaimable :: "int \<Rightarrow> idem_row option \<Rightarrow> ('z database_scheme, bool) act" where
  "reclaimable reclaimMs found =
     (case found of
        None \<Rightarrow> ret False
      | Some row \<Rightarrow>
          abind now (\<lambda>t1.
            if i_expires_at row \<le> t1 then ret True
            else if i_state row = In_flight \<and> i_completed_at row = None
            then abind now (\<lambda>t2. ret (i_started_at row + reclaimMs \<le> t2))
            else ret False))"

definition claimOrReplay ::
    "(str \<Rightarrow> json option) \<Rightarrow> idem_key \<Rightarrow> str \<Rightarrow> str \<Rightarrow> int \<Rightarrow> int \<Rightarrow> int \<Rightarrow> ('z database_scheme, claim_result) act" where
  "claimOrReplay parse k tool h ttlMs reclaimMs maxResponseBytes =
     abind now (\<lambda>t0.
     abind (tryClaimIdempotency k tool h t0 ttlMs) (\<lambda>won.
     if won then ret Claimed
     else
       abind (readIdempotency k) (\<lambda>found.
       abind (reclaimable reclaimMs found) (\<lambda>again.
       if again
       then
         abind (deleteIdempotency k) (\<lambda>_.
         abind now (\<lambda>t3.
         abind (tryClaimIdempotency k tool h t3 ttlMs) (\<lambda>won2.
         if won2 then ret Claimed
         else abind (readIdempotency k) (\<lambda>found2.
           resolve_row parse k tool h maxResponseBytes found2))))
       else resolve_row parse k tool h maxResponseBytes found))))"

subsection \<open>Lemmas\<close>

lemma on_idem_cases:
  "on_idem f w =
     (if m_fault w (m_stmt w) then (Inl (Thrown ''SQLITE_ERROR''), w\<lparr>m_stmt := Suc (m_stmt w)\<rparr>)
      else (Inr (fst (f (idem_rows w))), w\<lparr>m_stmt := Suc (m_stmt w), idem_rows := snd (f (idem_rows w))\<rparr>))"
  by (simp add: on_idem_def stmt_def Let_def split_beta)

lemmas idem_ops =
  tryClaimIdempotency_def readIdempotency_def finalizeIdempotency_def markEffectCommitted_def
  finalizeIndeterminate_def deleteIdempotency_def

text \<open>Statements about one key leave the rows of every other key alone.\<close>

definition same_but :: "idem_key \<Rightarrow> 'z database_scheme \<Rightarrow> 'z database_scheme \<Rightarrow> bool" where
  "same_but k w w' \<longleftrightarrow>
     (\<forall>k'. k' \<noteq> k \<longrightarrow> map_of (idem_rows w') k' = map_of (idem_rows w) k') \<and>
     elicit_tokens w' = elicit_tokens w \<and> elicit_requests w' = elicit_requests w"

lemma same_but_refl: "reflp (same_but k)"
  by (simp add: reflp_def same_but_def)

lemma same_but_trans: "transp (same_but k)"
  by (auto simp: transp_def same_but_def)

lemma keeps_now: "keeps (same_but k) now"
  by (simp add: keeps_def now_def same_but_def)

lemma keeps_idem_ops:
  "keeps (same_but k) (tryClaimIdempotency k tool h t ttl)"
  "keeps (same_but k) (readIdempotency k)"
  "keeps (same_but k) (finalizeIdempotency k json sz t)"
  "keeps (same_but k) (markEffectCommitted k)"
  "keeps (same_but k) (finalizeIndeterminate k t)"
  "keeps (same_but k) (deleteIdempotency k)"
  by (auto simp: keeps_def same_but_def idem_ops on_idem_cases claim_row_def table_simps)

lemmas keeps_same_but =
  keeps_abind [OF same_but_trans] keeps_pure [OF same_but_refl] keeps_now keeps_idem_ops

lemma keeps_resolve: "keeps (same_but k) (resolve_row parse k tool h m found)"
  unfolding resolve_row_def by (auto intro!: keeps_same_but split: option.splits)

lemma keeps_reclaimable: "keeps (same_but k) (reclaimable rm found)"
  unfolding reclaimable_def by (auto intro!: keeps_same_but split: option.splits)

lemma keeps_claimOrReplay: "keeps (same_but k) (claimOrReplay parse k tool h ttl rm m)"
  unfolding claimOrReplay_def
  by (auto intro!: keeps_same_but keeps_resolve keeps_reclaimable)

interpretation claim: single_use
  "\<lambda>(k, tool, h, t, ttl) tab. claim_row k tool h t ttl tab" fst "\<lambda>k tab. map_of tab k \<noteq> None"
  by unfold_locales (auto simp: claim_row_def table_simps split: prod.splits if_splits)

subsection \<open>What a call may claim\<close>

definition free_at :: "int \<Rightarrow> int \<Rightarrow> int \<Rightarrow> idem_row option \<Rightarrow> bool" where
  "free_at t1 t2 reclaimMs found =
     (case found of
        None \<Rightarrow> True
      | Some r \<Rightarrow> i_expires_at r \<le> t1 \<or>
          (i_state r = In_flight \<and> i_completed_at r = None \<and> i_started_at r + reclaimMs \<le> t2))"

lemma now_Inr: "now w = (Inr t, w1) \<longleftrightarrow> t = m_clock w (m_tick w) \<and> w1 = w\<lparr>m_tick := Suc (m_tick w)\<rparr>"
  by (auto simp: now_def)

lemma now_Inl: "now w = (Inl e, w1) \<longleftrightarrow> False"
  by (simp add: now_def)

lemma tryClaim_Inr:
  "tryClaimIdempotency k tool h t ttl w = (Inr b, w1) \<longleftrightarrow>
     \<not> m_fault w (m_stmt w) \<and> b = (map_of (idem_rows w) k = None) \<and>
     w1 = w\<lparr>m_stmt := Suc (m_stmt w),
            idem_rows := (if b then AList.update k (new_row tool h t ttl) (idem_rows w) else idem_rows w)\<rparr>"
  by (auto simp: idem_ops on_idem_cases claim_row_def)

lemma read_Inr:
  "readIdempotency k w = (Inr r, w1) \<longleftrightarrow>
     \<not> m_fault w (m_stmt w) \<and> r = map_of (idem_rows w) k \<and> w1 = w\<lparr>m_stmt := Suc (m_stmt w)\<rparr>"
  by (auto simp: idem_ops on_idem_cases)

lemma delete_Inr:
  "deleteIdempotency k w = (Inr u, w1) \<longleftrightarrow>
     \<not> m_fault w (m_stmt w) \<and> w1 = w\<lparr>m_stmt := Suc (m_stmt w), idem_rows := AList.delete k (idem_rows w)\<rparr>"
  by (auto simp: idem_ops on_idem_cases)

lemmas idem_Inr = now_Inr now_Inl tryClaim_Inr read_Inr delete_Inr

lemma resolve_not_claimed: "resolve_row parse k tool h m found w = (Inr r, w1) \<Longrightarrow> r \<noteq> Claimed \<and> w1 = w"
  by (auto simp: resolve_row_def abind_eq_Inr split: option.splits if_splits)

lemma reclaimable_Inr:
  assumes "reclaimable rm found w = (Inr b, w1)"
  shows "(b \<longrightarrow> found \<noteq> None \<and> free_at (m_clock w (m_tick w)) (m_clock w (Suc (m_tick w))) rm found) \<and>
     w1 = w\<lparr>m_tick := m_tick w1\<rparr>"
proof (cases found)
  case None
  with assms show ?thesis by (auto simp: reclaimable_def)
next
  case (Some row)
  with assms show ?thesis
    by (simp add: reclaimable_def free_at_def abind_def now_def split: if_splits) auto
qed

lemma reclaimable_tick:
  "reclaimable rm found w = (Inr b, w1) \<Longrightarrow> m_tick w \<le> m_tick w1 \<and> m_clock w1 = m_clock w"
  by (auto simp: reclaimable_def abind_def now_def split: option.splits if_splits)

lemma claim_or_replay_claimed:
  assumes "claimOrReplay parse k tool h ttl rm m w = (Inr Claimed, w')"
  shows "free_at (m_clock w (Suc (m_tick w))) (m_clock w (Suc (Suc (m_tick w)))) rm (map_of (idem_rows w) k)"
    and "\<exists>i. m_tick w \<le> i \<and> i < m_tick w' \<and>
      map_of (idem_rows w') k = Some (new_row tool h (m_clock w i) ttl)"
proof -
  let ?w1 = "w\<lparr>m_tick := Suc (m_tick w)\<rparr>"
  from assms obtain won w2 where c: "tryClaimIdempotency k tool h (m_clock w (m_tick w)) ttl ?w1 = (Inr won, w2)"
    and rest: "(if won then ret Claimed else
       abind (readIdempotency k) (\<lambda>found. abind (reclaimable rm found) (\<lambda>again.
       if again
       then abind (deleteIdempotency k) (\<lambda>_. abind now (\<lambda>t3.
         abind (tryClaimIdempotency k tool h t3 ttl) (\<lambda>won2.
         if won2 then ret Claimed
         else abind (readIdempotency k) (\<lambda>found2. resolve_row parse k tool h m found2))))
       else resolve_row parse k tool h m found))) w2 = (Inr Claimed, w')"
    by (auto simp: claimOrReplay_def abind_eq_Inr now_Inr)
  have "free_at (m_clock w (Suc (m_tick w))) (m_clock w (Suc (Suc (m_tick w)))) rm (map_of (idem_rows w) k) \<and>
    (\<exists>i. m_tick w \<le> i \<and> i < m_tick w' \<and>
      map_of (idem_rows w') k = Some (new_row tool h (m_clock w i) ttl))"
  proof (cases won)
    case True
    with c rest show ?thesis by (auto simp: tryClaim_Inr free_at_def table_simps intro!: exI [of _ "m_tick w"])
  next
    case False
    with rest obtain found w3 again w4 where r: "readIdempotency k w2 = (Inr found, w3)"
      and g: "reclaimable rm found w3 = (Inr again, w4)"
      and t: "(if again
       then abind (deleteIdempotency k) (\<lambda>_. abind now (\<lambda>t3.
         abind (tryClaimIdempotency k tool h t3 ttl) (\<lambda>won2.
         if won2 then ret Claimed
         else abind (readIdempotency k) (\<lambda>found2. resolve_row parse k tool h m found2))))
       else resolve_row parse k tool h m found) w4 = (Inr Claimed, w')"
      by (auto simp: abind_eq_Inr)
    have ag: again
    proof (rule ccontr)
      assume "\<not> again"
      with t have "resolve_row parse k tool h m found w4 = (Inr Claimed, w')" by simp
      from resolve_not_claimed [OF this] show False by simp
    qed
    have e: "found = map_of (idem_rows w) k" "m_clock w3 = m_clock w" "m_tick w3 = Suc (m_tick w)"
      using c r False by (auto simp: tryClaim_Inr read_Inr)
    have f: "free_at (m_clock w (Suc (m_tick w))) (m_clock w (Suc (Suc (m_tick w)))) rm (map_of (idem_rows w) k)"
      using reclaimable_Inr [OF g] ag e by simp
    have w4: "m_clock w4 = m_clock w" "m_tick w4 \<ge> Suc (m_tick w)"
      using e reclaimable_tick [OF g] by simp_all
    from t ag obtain w5 w6 t3 won2 w7 where
      d: "deleteIdempotency k w4 = (Inr (), w5)" and n: "now w5 = (Inr t3, w6)"
      and c2: "tryClaimIdempotency k tool h t3 ttl w6 = (Inr won2, w7)"
      and l: "(if won2 then ret Claimed
         else abind (readIdempotency k) (\<lambda>found2. resolve_row parse k tool h m found2)) w7 = (Inr Claimed, w')"
      by (auto simp: abind_eq_Inr)
    have "won2"
    proof (rule ccontr)
      assume "\<not> won2"
      with l obtain found2 w8 where "resolve_row parse k tool h m found2 w8 = (Inr Claimed, w')"
        by (auto simp: abind_eq_Inr)
      from resolve_not_claimed [OF this] show False by simp
    qed
    with f d n c2 l w4 show ?thesis
      by (auto simp: tryClaim_Inr now_Inr delete_Inr table_simps intro!: exI [of _ "m_tick w4"])
  qed
  then show "free_at (m_clock w (Suc (m_tick w))) (m_clock w (Suc (Suc (m_tick w)))) rm (map_of (idem_rows w) k)"
    and "\<exists>i. m_tick w \<le> i \<and> i < m_tick w' \<and>
      map_of (idem_rows w') k = Some (new_row tool h (m_clock w i) ttl)" by auto
qed

subsection \<open>Properties\<close>

text \<open>
  Whatever statements fault and however the clock moves, a call is told to run
  the handler only when its key had no row, an expired one, or one whose call was still in flight
  and older than the reclaim window; it then owns a fresh row stamped by a reading taken during the
  call itself, and no other key's row and no confirmation token has changed.
\<close>

theorem claim_only_free:
  assumes "claimOrReplay parse k tool h ttl rm m w = (Inr Claimed, w')"
  shows "free_at (m_clock w (Suc (m_tick w))) (m_clock w (Suc (Suc (m_tick w)))) rm (map_of (idem_rows w) k) \<and>
    (\<exists>i. m_tick w \<le> i \<and> i < m_tick w' \<and>
      map_of (idem_rows w') k = Some (new_row tool h (m_clock w i) ttl)) \<and> same_but k w w'"
  using claim_or_replay_claimed [OF assms] keepsD [OF keeps_claimOrReplay, of k w parse tool h ttl rm m]
  by (simp add: assms)

definition sample_db :: database where
  "sample_db =
     \<lparr>m_clock = (\<lambda>i. 100 * int i), m_tick = 0, m_fault = (\<lambda>_. False), m_stmt = 0,
      idem_rows = [((''v'', ''ann'', ''k1''), new_row ''write_note'' ''h'' 0 1000)],
      elicit_tokens = [], elicit_requests = []\<rparr>"

theorem claim_only_free_witness:
  "(case claimOrReplay (\<lambda>_. None) (''v'', ''ann'', ''k1'') ''write_note'' ''h'' 1000 150 9 sample_db of (r, w') \<Rightarrow>
     r = Inr Claimed \<and> same_but (''v'', ''ann'', ''k1'') sample_db w')"
proof -
  have e: "claimOrReplay (\<lambda>_. None) (''v'', ''ann'', ''k1'') ''write_note'' ''h'' 1000 150 9 sample_db =
      (Inr Claimed, sample_db\<lparr>m_tick := 4, m_stmt := 4,
         idem_rows := [((''v'', ''ann'', ''k1''), new_row ''write_note'' ''h'' 300 1000)]\<rparr>)"
    by (simp add: claimOrReplay_def abind_def now_def idem_ops on_idem_cases claim_row_def
        reclaimable_def sample_db_def new_row_def)
  from claim_only_free [OF e] e show ?thesis by simp
qed

text \<open>
  Once a call has been finalized with its serialized result, a repetition with the
  same tool and arguments before the row expires is answered with exactly that text and its parsed
  value, and changes no row.
\<close>

theorem replay_verbatim:
  assumes "map_of (idem_rows w) k = Some (finalize_row json sz t r)"
    and "i_tool_name r = tool" and "i_args_hash r = h"
    and "parse json = Some v" and "sz \<le> m"
    and "m_clock w (Suc (m_tick w)) < i_expires_at r"
    and "\<not> m_fault w (m_stmt w)" and "\<not> m_fault w (Suc (m_stmt w))"
  shows "\<exists>w'. claimOrReplay parse k tool h ttl rm m w = (Inr (Replay_ok v json sz), w') \<and>
    idem_rows w' = idem_rows w"
  using assms
  by (simp add: claimOrReplay_def abind_def now_def idem_ops on_idem_cases claim_row_def
      reclaimable_def resolve_row_def finalize_row_def bufToString_def)

theorem replay_verbatim_witness:
  "\<exists>w'. claimOrReplay (\<lambda>s. if s = ''{}'' then Some (JObj []) else None) (''v'', ''ann'', ''k1'') ''t'' ''h'' 5 5 100
      (sample_db\<lparr>idem_rows := [((''v'', ''ann'', ''k1''), finalize_row ''{}'' 2 1 (new_row ''t'' ''h'' 0 1000))]\<rparr>) =
      (Inr (Replay_ok (JObj []) ''{}'' 2), w') \<and>
    idem_rows w' = [((''v'', ''ann'', ''k1''), finalize_row ''{}'' 2 1 (new_row ''t'' ''h'' 0 1000))]"
  using replay_verbatim [of "sample_db\<lparr>idem_rows := [((''v'', ''ann'', ''k1''), finalize_row ''{}'' 2 1 (new_row ''t'' ''h'' 0 1000))]\<rparr>"
      "(''v'', ''ann'', ''k1'')" "''{}''" 2 1 "new_row ''t'' ''h'' 0 1000" "''t''" "''h''"
      "\<lambda>s. if s = ''{}'' then Some (JObj []) else None" "JObj []" 100 5 5]
  by (simp add: sample_db_def new_row_def)

text \<open>
  While a row says the effect may be applied (committed but unrecorded, or
  indeterminate) and has not expired, no call with that key is ever told to run the handler, in
  whatever order statements fault and however late it comes; and the row survives the call.
\<close>

theorem committed_never_rerun:
  assumes "map_of (idem_rows w) k = Some r" and "i_state r = Effect_committed \<or> i_state r = Indeterminate"
    and "m_clock w (Suc (m_tick w)) < i_expires_at r"
  shows "fst (claimOrReplay parse k tool h ttl rm m w) \<noteq> Inr Claimed \<and>
    map_of (idem_rows (snd (claimOrReplay parse k tool h ttl rm m w))) k = Some r"
  using assms
  by (cases "m_fault w (m_stmt w)"; cases "m_fault w (Suc (m_stmt w))"; elim disjE)
    (simp_all add: claimOrReplay_def abind_def now_def idem_ops on_idem_cases claim_row_def
      reclaimable_def resolve_row_def)

theorem committed_never_rerun_witness:
  "fst (claimOrReplay (\<lambda>_. None) (''v'', ''ann'', ''k1'') ''t'' ''h'' 5 5 100
      (sample_db\<lparr>idem_rows := [((''v'', ''ann'', ''k1''), committed_row (new_row ''t'' ''h'' 0 1000))]\<rparr>)) \<noteq> Inr Claimed"
  using committed_never_rerun [of "sample_db\<lparr>idem_rows := [((''v'', ''ann'', ''k1''), committed_row (new_row ''t'' ''h'' 0 1000))]\<rparr>"
      "(''v'', ''ann'', ''k1'')" "committed_row (new_row ''t'' ''h'' 0 1000)" "\<lambda>_. None" "''t''" "''h''" 5 5 100]
  by (simp add: sample_db_def new_row_def committed_row_def)

text \<open>
  A refused keyed call releases its claim twice: at the gate that refuses it and again in the outer
  \<open>catch\<close>, with an \<open>await\<close> between the two. A second call that claims the key in between loses its row
  to the second release, and a third one is told to run the handler while the second still runs.
\<close>

lemma second_release_frees_other_claim:
  assumes "map_of t k = None"
  shows "(let t1 = snd (claim_row k tool h n1 ttl t);
              t2 = AList.delete k t1;
              (second, t3) = claim_row k tool h n2 ttl t2;
              t4 = AList.delete k t3;
              (third, t5) = claim_row k tool h n3 ttl t4 in second \<and> third)"
  using assms by (simp add: claim_row_def delete_row Let_def del: map_of_eq_None_iff)

end
