(* ===== verification/Gates.thy ===== *)
theory Gates
  imports Visibility Acl_Path Elicit Rate_Limit Idempotency
begin

text \<open>
  The gates of a tool call that run before its handler, \<open>packages/server/src/mcp/registry/\<close>:
  \<open>input-binding.ts\<close> (which vault a call names, the vault binding of a token, the ACL of the named
  vault), \<open>vault-default.ts\<close> (an omitted vault), \<open>identified-caller.ts\<close>, \<open>policy-gates.ts\<close> (authentication,
  scopes, the policy of one call, read-only, vault kind, confirmation, rate limit, central path ACL)
  and \<open>authorization-gates.ts\<close> (the order the dispatcher and the offload pre-flight share).

  A gate is a value of \<open>terror + 'a\<close>; a gate that reads or changes state is an action. ACL objects are
  shared by reference: a context holds an \<open>acl_ref\<close> and the state holds the objects (\<open>w_acls\<close>). What
  the gates read of the registry's configuration is the record \<open>deps\<close>; its resolvers, the input
  schemas (a parser each) and the hash functions are its arguments.
\<close>

type_synonym acl_ref = nat

record call_ctx =
  x_caller :: "str option"
  x_authenticated :: bool
  x_grantedScopes :: "scope list"
  x_vaultId :: str
  x_vaultBound :: bool
  x_callerVaultId :: "str option"
  x_acl :: "acl_ref option"
  x_elicitToken :: "str option"
  x_elicitState :: "elicit_state option"
  x_toolVisibility :: "vis_config option"

record op_policy =
  op_requiredScopes :: "scope list"
  op_destructive :: "bool option"
  op_scopeClass :: "str option"

record resolved_policy =
  p_requiredScopes :: "scope list"
  p_destructive :: bool
  p_scopeClass :: str

datatype 'w confirmation_targets =
    Targets_absent
  | Targets_none
  | Targets_fun "json \<Rightarrow> call_ctx \<Rightarrow> str \<Rightarrow> abs_path option \<Rightarrow> 'w \<Rightarrow> terror + str option"

text \<open>The fields of a \<open>ToolDefinition\<close> the pipeline reads; the handler is added by the dispatcher.\<close>

record 'w tool =
  d_name :: str
  d_tags :: "str list option"
  d_requiredScopes :: "scope list"
  d_destructive :: bool
  d_vaultArg :: "str option"
  d_principalOwned :: bool
  d_scopeClass :: "str option"
  d_vaultOmittable :: bool
  d_parse :: "json option \<Rightarrow> details + json"
  d_resolvePolicy :: "(json \<Rightarrow> op_policy) option"
  d_pathAcl :: "(json \<Rightarrow> abs_path \<Rightarrow> (acl_op \<times> str) list) option"
  d_confirmationTargets :: "'w confirmation_targets"
  d_precheck :: "(json \<Rightarrow> call_ctx \<Rightarrow> ('w, unit) act) option"
  d_resolveTarget :: "(json \<Rightarrow> call_ctx \<Rightarrow> ('w, (str \<times> json) list) act) option"
  d_checkResolved :: "(str \<times> json) list \<Rightarrow> call_ctx \<Rightarrow> terror + unit"

record ('e, 's) world = database +
  w_acls :: "acl_ref \<Rightarrow> folder_acl"
  w_env :: 'e
  w_limiter :: "'s limiter"

record ('e, 's) deps =
  toolVisibility :: effective_vis_config
  aclResolver :: "(str \<Rightarrow> acl_ref option) option"
  rootResolver :: "(str \<Rightarrow> abs_path option) option"
  vaultKindResolver :: "(str \<Rightarrow> str option) option"
  visibleVaultIds :: "(call_ctx \<Rightarrow> str list) option"
  rateLimiter :: "(limiter_config \<times> 's shared_backend) option"
  dp_platform :: platform
  dp_fs :: "'e \<Rightarrow> fs"
  dp_entryState :: "'e \<Rightarrow> abs_path \<Rightarrow> terror + str"
  dp_argsHash :: "str \<Rightarrow> json \<Rightarrow> str"
  dp_callerHash :: "str option \<Rightarrow> str"

subsection \<open>Which vault a call is about\<close>

definition vaultArgOf :: "('w, 'z) tool_scheme \<Rightarrow> json \<Rightarrow> str option" where
  "vaultArgOf d data =
     (case json_field (case d_vaultArg d of None \<Rightarrow> ''vault'' | Some k \<Rightarrow> k) data of
        Some (JStr v) \<Rightarrow> Some v
      | _ \<Rightarrow> None)"

text \<open>The effective input, and whether it differs from the input as sent.\<close>

definition withDefaultVault ::
    "('w, 'z) tool_scheme \<Rightarrow> json option \<Rightarrow> call_ctx \<Rightarrow> (call_ctx \<Rightarrow> str list) option \<Rightarrow> json option \<times> bool" where
  "withDefaultVault d rawInput ctx visibleIds =
     (let key = (case d_vaultArg d of None \<Rightarrow> ''vault'' | Some k \<Rightarrow> k) in
      if \<not> d_vaultOmittable d then (rawInput, False)
      else case (case rawInput of None \<Rightarrow> Some [] | Some (JObj ob) \<Rightarrow> Some ob | _ \<Rightarrow> None) of
        None \<Rightarrow> (rawInput, False)
      | Some args \<Rightarrow>
          if get_field key args \<noteq> None then (rawInput, False)
          else (let visible = (case visibleIds of
                        Some f \<Rightarrow> f ctx
                      | None \<Rightarrow> if x_vaultBound ctx then [x_vaultId ctx] else []) in
                case visible of
                  [only] \<Rightarrow> (Some (JObj (spread args [(key, JStr only)])), True)
                | _ \<Rightarrow> (rawInput, False)))"

definition withEffectiveVault :: "call_ctx \<Rightarrow> ('w, 'z) tool_scheme \<Rightarrow> json \<Rightarrow> call_ctx" where
  "withEffectiveVault ctx d parsedInput =
     (case vaultArgOf d parsedInput of
        Some v \<Rightarrow> if v \<noteq> x_vaultId ctx then ctx\<lparr>x_vaultId := v, x_callerVaultId := Some (x_vaultId ctx)\<rparr> else ctx
      | None \<Rightarrow> ctx)"

definition parseInput :: "('w, 'z) tool_scheme \<Rightarrow> json option \<Rightarrow> terror + json" where
  "parseInput d rawInput =
     (case d_parse d rawInput of
        Inl issues \<Rightarrow> Inl (Tc Validation_error ''input validation failed'' (Some issues))
      | Inr data \<Rightarrow> Inr data)"

definition enforceVaultBinding :: "call_ctx \<Rightarrow> ('w, 'z) tool_scheme \<Rightarrow> json \<Rightarrow> terror + unit" where
  "enforceVaultBinding ctx d data =
     (if \<not> x_vaultBound ctx then Inr ()
      else case vaultArgOf d data of
        None \<Rightarrow> Inr ()
      | Some requested \<Rightarrow>
          throw_if (requested \<noteq> x_vaultId ctx)
            (Tc Forbidden ''vault is not the caller's bound vault''
              (Some [(''vault'', JStr requested), (''bound_vault'', JStr (x_vaultId ctx))])))"

definition applyVaultAcl ::
    "call_ctx \<Rightarrow> ('w, 'z) tool_scheme \<Rightarrow> json \<Rightarrow> (str \<Rightarrow> acl_ref option) option \<Rightarrow> call_ctx" where
  "applyVaultAcl ctx d data resolver =
     (case resolver of
        None \<Rightarrow> ctx
      | Some f \<Rightarrow>
          (case vaultArgOf d data of
             None \<Rightarrow> ctx
           | Some requestedVault \<Rightarrow>
               (case f requestedVault of None \<Rightarrow> ctx | Some vaultAcl \<Rightarrow> ctx\<lparr>x_acl := Some vaultAcl\<rparr>)))"

subsection \<open>Who calls\<close>

definition isIdentifiedCaller :: "str option \<Rightarrow> bool" where
  "isIdentifiedCaller c \<longleftrightarrow> (case c of Some s \<Rightarrow> length s > 0 | None \<Rightarrow> False)"

definition no_identity_hint :: str where
  "no_identity_hint =
     ''this credential is valid but carries no identity (a token with no `sub` claim; for an oidc provider, the claim named by auth.oidc.claimMapping.subject). Issue the token with a `sub` and retry''"

definition requireIdentifiedCaller :: "call_ctx \<Rightarrow> str \<Rightarrow> terror + str" where
  "requireIdentifiedCaller ctx what =
     (case x_caller ctx of
        Some s \<Rightarrow>
          if length s > 0 then Inr s
          else Inl (Tc Forbidden (what @ '' requires an identified caller: '' @ no_identity_hint)
                 (Some [(''reason'', JStr ''no_identity'')]))
      | None \<Rightarrow> Inl (Tc Forbidden (what @ '' requires an identified caller: '' @ no_identity_hint)
                 (Some [(''reason'', JStr ''no_identity'')])))"

definition requireAuthenticated :: "call_ctx \<Rightarrow> terror + unit" where
  "requireAuthenticated ctx =
     throw_if (\<not> x_authenticated ctx) (Tc Unauthorized ''authentication required for this tool'' None)"

definition assertScopesGranted :: "call_ctx \<Rightarrow> scope list \<Rightarrow> str \<Rightarrow> terror + unit" where
  "assertScopesGranted ctx requiredScopes message =
     throw_if (\<not> grantsAll (x_grantedScopes ctx) requiredScopes)
       (Tc Forbidden message (Some [(''required'', JArr (map JStr requiredScopes))]))"

subsection \<open>The policy of one call\<close>

definition isMutatingCall :: "bool \<Rightarrow> scope list \<Rightarrow> bool" where
  "isMutatingCall destructive requiredScopes \<longleftrightarrow> destructive \<or> list_ex isMutatingScope requiredScopes"

definition resolveOperationPolicy :: "('w, 'z) tool_scheme \<Rightarrow> json \<Rightarrow> terror + resolved_policy" where
  "resolveOperationPolicy d input =
     (let staticClass = (case d_scopeClass d of Some c \<Rightarrow> c | None \<Rightarrow> scopeClassOf (d_requiredScopes d)) in
      case d_resolvePolicy d of
        None \<Rightarrow> Inr \<lparr>p_requiredScopes = d_requiredScopes d, p_destructive = d_destructive d,
                    p_scopeClass = staticClass\<rparr>
      | Some f \<Rightarrow>
          (let resolved = f input;
               undeclared = filter (\<lambda>s. s \<notin> set (d_requiredScopes d)) (op_requiredScopes resolved) in
           if length undeclared > 0
           then Inl (Tc Internal ''resolved policy requires scopes the tool does not declare''
                  (Some [(''undeclared'', JArr (map JStr undeclared)),
                         (''declared'', JArr (map JStr (d_requiredScopes d)))]))
           else Inr \<lparr>p_requiredScopes = op_requiredScopes resolved,
                     p_destructive = (case op_destructive resolved of Some b \<Rightarrow> b | None \<Rightarrow> d_destructive d),
                     p_scopeClass =
                       (case op_scopeClass resolved of
                          Some c \<Rightarrow> c
                        | None \<Rightarrow> if length (op_requiredScopes resolved) > 0
                                  then scopeClassOf (op_requiredScopes resolved) else staticClass)\<rparr>))"

definition read_only_denial_message :: str where
  "read_only_denial_message = ''vault is read-only (acl.readOnly)''"

definition acl_readOnly :: "(acl_ref \<Rightarrow> folder_acl) \<Rightarrow> call_ctx \<Rightarrow> bool" where
  "acl_readOnly acls ctx = (case x_acl ctx of None \<Rightarrow> False | Some r \<Rightarrow> readOnly (acls r))"

definition enforceReadOnlyGate ::
    "(acl_ref \<Rightarrow> folder_acl) \<Rightarrow> call_ctx \<Rightarrow> bool \<Rightarrow> str \<Rightarrow> effective_vis_config \<Rightarrow> terror + unit" where
  "enforceReadOnlyGate acls ctx mutating name vis =
     throw_if (mutating \<and> acl_readOnly acls ctx \<and> \<not> isReadOnlyDerivedTelemetryExempt name vis)
       (Tc Forbidden read_only_denial_message None)"

definition enforceVaultKindGate ::
    "call_ctx \<Rightarrow> ('w, 'z) tool_scheme \<Rightarrow> json \<Rightarrow> bool \<Rightarrow> str \<Rightarrow> (str \<Rightarrow> str option) option \<Rightarrow> terror + unit" where
  "enforceVaultKindGate ctx d data mutating name resolver =
     (case resolver of
        None \<Rightarrow> Inr ()
      | Some kindOf \<Rightarrow>
          if \<not> mutating then Inr ()
          else (let effVault = (case vaultArgOf d data of Some v \<Rightarrow> v | None \<Rightarrow> x_vaultId ctx) in
                case kindOf effVault of
                  None \<Rightarrow> Inr ()
                | Some kind \<Rightarrow>
                    throw_if (kind = ''docs'' \<or> kind = ''system'')
                      (Tc Forbidden (name @ '' cannot mutate a '' @ kind @ ''-kind vault'')
                        (Some [(''vault'', JStr effVault), (''kind'', JStr kind)]))))"

definition hitlRequired :: "bool \<Rightarrow> scope list \<Rightarrow> bool" where
  "hitlRequired destructive requiredScopes \<longleftrightarrow> destructive \<or> list_ex scopeRequiresHitl requiredScopes"

subsection \<open>The gates in order\<close>

definition vis_target_of :: "('w, 'z) tool_scheme \<Rightarrow> vis_target" where
  "vis_target_of d = \<lparr>vt_name = d_name d, vt_tags = d_tags d, vt_requiredScopes = d_requiredScopes d\<rparr>"

definition vis_caller_of :: "(acl_ref \<Rightarrow> folder_acl) \<Rightarrow> call_ctx \<Rightarrow> vis_caller" where
  "vis_caller_of acls ctx =
     \<lparr>vc_grantedScopes = x_grantedScopes ctx, vc_readOnly = acl_readOnly acls ctx,
      vc_toolVisibility = x_toolVisibility ctx\<rparr>"

definition isToolDisabledFor ::
    "effective_vis_config \<Rightarrow> (acl_ref \<Rightarrow> folder_acl) \<Rightarrow> ('w, 'z) tool_scheme \<Rightarrow> call_ctx \<Rightarrow> bool" where
  "isToolDisabledFor vis acls d ctx = isDisabled (vis_target_of d) vis (Some (vis_caller_of acls ctx))"

record authorized_call =
  a_ctx :: call_ctx
  a_policy :: resolved_policy
  a_mutating :: bool

definition runAuthorizationGates ::
    "('e, 's) deps \<Rightarrow> (acl_ref \<Rightarrow> folder_acl) \<Rightarrow> str \<Rightarrow> ('w, 'z) tool_scheme \<Rightarrow> json \<Rightarrow> call_ctx \<Rightarrow>
     terror + authorized_call" where
  "runAuthorizationGates dp acls name d input callerCtx =
     ebind (resolveOperationPolicy d input) (\<lambda>policy.
     let mutating = isMutatingCall (p_destructive policy) (p_requiredScopes policy) in
     ebind (requireAuthenticated callerCtx) (\<lambda>_.
     ebind (if d_principalOwned d then ebind (requireIdentifiedCaller callerCtx name) (\<lambda>_. Inr ()) else Inr ()) (\<lambda>_.
     ebind (assertScopesGranted callerCtx (p_requiredScopes policy) ''missing required scope(s)'') (\<lambda>_.
     ebind (enforceVaultBinding callerCtx d input) (\<lambda>_.
     let ctx = withEffectiveVault (applyVaultAcl callerCtx d input (aclResolver dp)) d input in
     ebind (enforceReadOnlyGate acls ctx mutating name (toolVisibility dp)) (\<lambda>_.
     ebind (enforceVaultKindGate ctx d input mutating name (vaultKindResolver dp)) (\<lambda>_.
     Inr \<lparr>a_ctx = ctx, a_policy = policy, a_mutating = mutating\<rparr>)))))))"

end
