(* ===== verification/Path_Gates.thy ===== *)
theory Path_Gates
  imports Gates
begin

text \<open>
  The gates that read the disk or draw down state, \<open>packages/server/src/mcp/registry/policy-gates.ts\<close>
  (central path ACL, rate limit, the probe of a confirmation), \<open>resolve-target.ts\<close> (arguments the
  caller does not supply), \<open>elicit-drift.ts\<close> (the fingerprint of a call's targets) and the pure
  pre-flight of \<open>authorization-gates.ts\<close>.

  Lemmas: the gates change nothing but the shared ACL objects and the limiter; a passing pre-flight
  means the dispatcher's own gates pass.
\<close>

subsection \<open>Central path ACL\<close>

definition path_acl ::
    "('e, 's) deps \<Rightarrow> call_ctx \<Rightarrow> abs_path \<Rightarrow> acl_op \<times> str \<Rightarrow> ('e, 's, 'z) world_scheme \<Rightarrow>
     (terror + unit) \<times> ('e, 's, 'z) world_scheme" where
  "path_acl dp ctx vroot target w =
     (case enforcePathAcl (dp_platform dp) (dp_fs dp (w_env w)) (map_option (w_acls w) (x_acl ctx))
             (fst target) (snd target) vroot (x_grantedScopes ctx) of
        (r, after) \<Rightarrow>
          (r, case (x_acl ctx, after) of
                (Some ref, Some a) \<Rightarrow> w\<lparr>w_acls := (w_acls w)(ref := a)\<rparr>
              | _ \<Rightarrow> w))"

fun path_acls ::
    "('e, 's) deps \<Rightarrow> call_ctx \<Rightarrow> abs_path \<Rightarrow> (acl_op \<times> str) list \<Rightarrow> (('e, 's, 'z) world_scheme, unit) act" where
  "path_acls dp ctx vroot [] = ret ()"
| "path_acls dp ctx vroot (t # ts) = abind (path_acl dp ctx vroot t) (\<lambda>_. path_acls dp ctx vroot ts)"

definition effective_root :: "('e, 's) deps \<Rightarrow> ('w, 'y) tool_scheme \<Rightarrow> json \<Rightarrow> call_ctx \<Rightarrow> abs_path option" where
  "effective_root dp d data ctx =
     (case rootResolver dp of
        None \<Rightarrow> None
      | Some f \<Rightarrow> f (case vaultArgOf d data of Some v \<Rightarrow> v | None \<Rightarrow> x_vaultId ctx))"

definition enforceCentralPathAcl ::
    "('e, 's) deps \<Rightarrow> ('w, 'y) tool_scheme \<Rightarrow> json \<Rightarrow> call_ctx \<Rightarrow> (('e, 's, 'z) world_scheme, unit) act" where
  "enforceCentralPathAcl dp d data ctx =
     (case d_pathAcl d of
        None \<Rightarrow> ret ()
      | Some paths \<Rightarrow>
          (case effective_root dp d data ctx of
             None \<Rightarrow> ret ()
           | Some vroot \<Rightarrow> path_acls dp ctx vroot (paths data vroot)))"

subsection \<open>Rate limit\<close>

definition throttled_error :: "str \<Rightarrow> throttle_decision \<Rightarrow> terror" where
  "throttled_error scopeClass dec =
     Tc Throttled ''rate limit exceeded''
       (Some ([(''scope_class'', JStr scopeClass),
               (''retry_after_seconds'', case d_retryAfterSeconds dec of Some s \<Rightarrow> JNum s | None \<Rightarrow> JNull),
               (''current_burst'', JNum (d_currentBurst dec)),
               (''current_rate'', JNum (d_currentRate dec))] @
              (if d_backend_unavailable dec then [(''reason'', JStr ''backend_unavailable'')] else [])))"

definition throttleRefusal ::
    "('e, 's) deps \<Rightarrow> str option \<Rightarrow> str \<Rightarrow> str \<Rightarrow> int \<Rightarrow> (('e, 's, 'z) world_scheme, terror option) act" where
  "throttleRefusal dp cl scopeClass vaultId nowMs w =
     (case rateLimiter dp of
        None \<Rightarrow> (Inr None, w)
      | Some (lc, shared) \<Rightarrow>
          (case limiter_check lc shared (dp_callerHash dp cl) scopeClass vaultId nowMs 1 (w_limiter w) of
             (dec, l) \<Rightarrow>
               (Inr (if d_ok dec then None else Some (throttled_error scopeClass dec)), w\<lparr>w_limiter := l\<rparr>)))"

subsection \<open>The state a confirmation is about\<close>

definition unfingerprintable :: "str \<Rightarrow> terror \<Rightarrow> terror" where
  "unfingerprintable why e =
     Tc Internal_error (''cannot fingerprint a confirmation target ('' @ why @ '': '' @
       (case e of Tc c m x \<Rightarrow> code_name c | Thrown _ \<Rightarrow> ''unknown'') @ ''); refusing to issue an unbound approval'') None"

text \<open>\<open>dp_entryState\<close> is \<open>entryState\<close>: \<open>stat\<close>, \<open>readdir\<close> and \<open>sha256\<close> on one absolute path.\<close>

definition target_states ::
    "('e, 's) deps \<Rightarrow> 'e \<Rightarrow> abs_path \<Rightarrow> str list \<Rightarrow> terror + (str \<times> json) list" where
  "target_states dp env vroot relPaths =
     emap (\<lambda>rel.
       case ebind (normalizeVaultPath (dp_fs dp env) rel) (\<lambda>key.
              ebind (resolveVaultPathChecked (dp_fs dp env) vroot key) (\<lambda>r. Inr (key, rp_abs r))) of
         Inl e \<Rightarrow> Inl (unfingerprintable ''path not resolvable'' e)
       | Inr (key, p) \<Rightarrow> ebind (dp_entryState dp env p) (\<lambda>st. Inr (key, JStr st))) relPaths"

definition fingerprintTargets ::
    "('e, 's) deps \<Rightarrow> 'e \<Rightarrow> abs_path \<Rightarrow> str list \<Rightarrow> terror + str option" where
  "fingerprintTargets dp env vroot relPaths =
     (if length relPaths = 0 then Inr None
      else ebind (target_states dp env vroot relPaths)
             (\<lambda>states. Inr (Some (dp_argsHash dp ''state'' (JObj (spread [] states))))))"

text \<open>A typed refusal passes through; anything else refuses to bind.\<close>

definition probe_failure :: "terror \<Rightarrow> terror" where
  "probe_failure e =
     (case e of
        Tc c m x \<Rightarrow> e
      | Thrown _ \<Rightarrow> Tc Internal_error
          ''could not read the state this confirmation would bind; refusing to issue an unbound approval'' None)"

definition probe_paths ::
    "('e, 's) deps \<Rightarrow> ('w, 'y) tool_scheme \<Rightarrow> json \<Rightarrow> call_ctx \<Rightarrow> abs_path option \<Rightarrow>
     (('e, 's, 'z) world_scheme, str list) act" where
  "probe_paths dp d data ctx vroot =
     (case (d_pathAcl d, vroot) of
        (Some paths, Some r) \<Rightarrow>
          abind (path_acls dp ctx r (paths data r)) (\<lambda>_.
          abind (gets w_env) (\<lambda>env.
          abind (of_sum (fingerprintTargets dp env r (map snd (paths data r)))) (\<lambda>fp.
          ret (case fp of None \<Rightarrow> [] | Some f \<Rightarrow> [f]))))
      | _ \<Rightarrow> ret [])"

definition confirmationStateProbe ::
    "('e, 's) deps \<Rightarrow> (('e, 's, 'z) world_scheme, 'y) tool_scheme \<Rightarrow> json \<Rightarrow> call_ctx \<Rightarrow>
     ('e, 's, 'z) world_scheme state_probe" where
  "confirmationStateProbe dp d data ctx =
     (if d_pathAcl d = None \<and> (case d_confirmationTargets d of Targets_fun _ \<Rightarrow> False | _ \<Rightarrow> True)
      then ret None
      else
        (let vaultId = (case vaultArgOf d data of Some v \<Rightarrow> v | None \<Rightarrow> x_vaultId ctx);
             vroot = effective_root dp d data ctx in
         acatch
           (abind (probe_paths dp d data ctx vroot) (\<lambda>parts.
            abind (case d_confirmationTargets d of
                     Targets_fun f \<Rightarrow>
                       abind (\<lambda>w. (f data ctx vaultId vroot w, w)) (\<lambda>fp.
                         ret (parts @ (case fp of None \<Rightarrow> [] | Some p \<Rightarrow> [p])))
                   | _ \<Rightarrow> ret parts) (\<lambda>all.
            ret (case all of
                   [] \<Rightarrow> None
                 | [p] \<Rightarrow> Some p
                 | _ \<Rightarrow> Some (dp_argsHash dp ''state'' (JArr (map JStr all)))))))
           (\<lambda>e. raise (probe_failure e))))"

subsection \<open>Arguments the caller does not supply\<close>

definition strip_path :: "terror \<Rightarrow> terror" where
  "strip_path e =
     (case e of
        Tc c m (Some det) \<Rightarrow>
          if get_field ''path'' det \<noteq> None then Tc c m (Some (AList.delete ''path'' det)) else e
      | _ \<Rightarrow> e)"

record bound_target =
  bt_input :: json
  bt_recorded :: json
  bt_hash :: str
  bt_bound :: "(str \<times> json) list"

definition object_fields :: "json \<Rightarrow> (str \<times> json) list" where
  "object_fields v = (case v of JObj ob \<Rightarrow> ob | _ \<Rightarrow> [])"

definition bindResolvedTarget ::
    "('e, 's) deps \<Rightarrow> (('e, 's, 'z) world_scheme, 'y) tool_scheme \<Rightarrow> json \<Rightarrow> json option \<Rightarrow> call_ctx \<Rightarrow>
     (('e, 's, 'z) world_scheme, bound_target option) act" where
  "bindResolvedTarget dp d data rawInput ctx =
     (case d_resolveTarget d of
        None \<Rightarrow> ret None
      | Some resolve \<Rightarrow>
          abind (resolve data ctx) (\<lambda>bound.
          let collisions = filter (\<lambda>k. get_field k (object_fields data) \<noteq> None) (map fst bound);
              input = JObj (spread (object_fields data) bound);
              recorded = JObj (spread (case rawInput of None \<Rightarrow> [] | Some v \<Rightarrow> object_fields v) bound) in
          if length collisions > 0
          then raise (Tc Internal ''resolved target collides with input fields''
                 (Some [(''collisions'', JArr (map JStr collisions))]))
          else
            abind (acatch (enforceCentralPathAcl dp d input ctx) (\<lambda>e. raise (strip_path e))) (\<lambda>_.
            abind (of_sum (d_checkResolved d bound ctx)) (\<lambda>_.
            ret (Some \<lparr>bt_input = input, bt_recorded = recorded,
                       bt_hash = dp_argsHash dp (d_name d) recorded, bt_bound = bound\<rparr>)))))"

subsection \<open>The pre-flight\<close>

definition passesAuthorization ::
    "('e, 's) deps \<Rightarrow> str \<Rightarrow> (('e, 's, 'z) world_scheme, 'y) tool_scheme \<Rightarrow> json \<Rightarrow> call_ctx \<Rightarrow>
     ('e, 's, 'z) world_scheme \<Rightarrow> bool \<times> ('e, 's, 'z) world_scheme" where
  "passesAuthorization dp name d input callerCtx w =
     (if d_resolveTarget d \<noteq> None then (False, w)
      else case runAuthorizationGates dp (w_acls w) name d input callerCtx of
        Inl _ \<Rightarrow> (False, w)
      | Inr au \<Rightarrow>
          (case enforceCentralPathAcl dp d input (a_ctx au) w of
             (Inl _, w') \<Rightarrow> (False, w')
           | (Inr _, w') \<Rightarrow> (True, w')))"

subsection \<open>Properties\<close>

lemma resolve_policy_subset:
  assumes "resolveOperationPolicy d input = Inr p"
  shows "set (p_requiredScopes p) \<subseteq> set (d_requiredScopes d)"
  using assms by (auto simp: resolveOperationPolicy_def Let_def filter_empty_conv split: option.splits if_splits)

lemma gates_Inr:
  assumes "runAuthorizationGates dp acls name d input cc = Inr au"
  shows "resolveOperationPolicy d input = Inr (a_policy au)"
    and "x_authenticated cc"
    and "d_principalOwned d \<longrightarrow> isIdentifiedCaller (x_caller cc)"
    and "grantsAll (x_grantedScopes cc) (p_requiredScopes (a_policy au))"
    and "x_vaultBound cc \<longrightarrow> (case vaultArgOf d input of None \<Rightarrow> True | Some v \<Rightarrow> v = x_vaultId cc)"
    and "a_ctx au = withEffectiveVault (applyVaultAcl cc d input (aclResolver dp)) d input"
    and "a_mutating au = isMutatingCall (p_destructive (a_policy au)) (p_requiredScopes (a_policy au))"
    and "enforceReadOnlyGate acls (a_ctx au) (a_mutating au) name (toolVisibility dp) = Inr ()"
    and "enforceVaultKindGate (a_ctx au) d input (a_mutating au) name (vaultKindResolver dp) = Inr ()"
  using assms
  by (auto simp: runAuthorizationGates_def ebind_eq_Inr Let_def requireAuthenticated_def
      assertScopesGranted_def enforceVaultBinding_def requireIdentifiedCaller_def isIdentifiedCaller_def
      split: option.splits if_splits)

lemma effective_vault_id:
  "x_vaultId (withEffectiveVault (applyVaultAcl cc d input r) d input) =
     (case vaultArgOf d input of Some v \<Rightarrow> v | None \<Rightarrow> x_vaultId cc)"
  by (auto simp: withEffectiveVault_def applyVaultAcl_def split: option.splits)

text \<open>
  The policy a tool computes for one call never asks for a scope the tool does
  not declare; so a caller who holds the declared scopes is never refused for scopes, and a call is
  never let through on a scope outside the declaration.
\<close>

theorem policy_only_narrows:
  "(case resolveOperationPolicy d input of
      Inl e \<Rightarrow> err_code e = Internal
    | Inr p \<Rightarrow> set (p_requiredScopes p) \<subseteq> set (d_requiredScopes d) \<and>
        (grantsAll g (d_requiredScopes d) \<longrightarrow> grantsAll g (p_requiredScopes p)))"
proof (cases "resolveOperationPolicy d input")
  case (Inl e)
  then show ?thesis
    by (auto simp: resolveOperationPolicy_def Let_def split: option.splits if_splits)
next
  case (Inr p)
  from resolve_policy_subset [OF Inr] Inr show ?thesis
    using grantsAll_subset [OF resolve_policy_subset [OF Inr], of g] by auto
qed

text \<open>
  C2: what a call that passes the authorization gates is known to satisfy. The caller
  is authenticated, has an identity if the tool keeps state per caller, holds every scope of the
  call's policy; a bound token acts on its own vault and no other; the context carries on with the
  vault the call names (or the caller's) ; and a mutating call meets neither a read-only ACL (unless
  the tool is the exempted telemetry) nor a vault of kind \<open>docs\<close> or \<open>system\<close>.
\<close>

theorem authorized_calls:
  assumes "runAuthorizationGates dp acls name d input cc = Inr au"
  shows "x_authenticated cc \<and> (d_principalOwned d \<longrightarrow> isIdentifiedCaller (x_caller cc)) \<and>
    grantsAll (x_grantedScopes cc) (p_requiredScopes (a_policy au)) \<and>
    x_vaultId (a_ctx au) = (case vaultArgOf d input of Some v \<Rightarrow> v | None \<Rightarrow> x_vaultId cc) \<and>
    (x_vaultBound cc \<longrightarrow> x_vaultId (a_ctx au) = x_vaultId cc) \<and>
    (a_mutating au \<longrightarrow>
       (\<not> acl_readOnly acls (a_ctx au) \<or> isReadOnlyDerivedTelemetryExempt name (toolVisibility dp)) \<and>
       (\<forall>kindOf. vaultKindResolver dp = Some kindOf \<longrightarrow>
          kindOf (x_vaultId (a_ctx au)) \<notin> {Some ''docs'', Some ''system''}))"
proof -
  note g = gates_Inr [OF assms]
  have v: "x_vaultId (a_ctx au) = (case vaultArgOf d input of Some v \<Rightarrow> v | None \<Rightarrow> x_vaultId cc)"
    unfolding g(6) by (rule effective_vault_id)
  have bound: "x_vaultBound cc \<longrightarrow> x_vaultId (a_ctx au) = x_vaultId cc"
    using g(5) v by (auto split: option.splits)
  have kind: "a_mutating au \<longrightarrow> (\<forall>kindOf. vaultKindResolver dp = Some kindOf \<longrightarrow>
      kindOf (x_vaultId (a_ctx au)) \<notin> {Some ''docs'', Some ''system''})"
    using g(9) v by (auto simp: enforceVaultKindGate_def Let_def split: option.splits)
  show ?thesis
    using g(2,3,4,8) v bound kind by (auto simp: enforceReadOnlyGate_def)
qed

definition sample_tool :: "(unit, unit) world tool" where
  "sample_tool =
     \<lparr>d_name = ''write_note'', d_tags = None, d_requiredScopes = [''write:notes''], d_destructive = False,
      d_vaultArg = None, d_principalOwned = True, d_scopeClass = None, d_vaultOmittable = True,
      d_parse = (\<lambda>i. case i of Some v \<Rightarrow> Inr v | None \<Rightarrow> Inl []), d_resolvePolicy = None, d_pathAcl = None,
      d_confirmationTargets = Targets_none, d_precheck = None, d_resolveTarget = None,
      d_checkResolved = (\<lambda>_ _. Inr ())\<rparr>"

definition sample_ctx :: call_ctx where
  "sample_ctx =
     \<lparr>x_caller = Some ''ann'', x_authenticated = True, x_grantedScopes = [''write:*''], x_vaultId = ''v1'',
      x_vaultBound = True, x_callerVaultId = None, x_acl = None, x_elicitToken = None,
      x_elicitState = None, x_toolVisibility = None\<rparr>"

definition sample_deps :: "(unit, unit) deps" where
  "sample_deps =
     \<lparr>toolVisibility = allow_all, aclResolver = None, rootResolver = None,
      vaultKindResolver = Some (\<lambda>v. if v = ''d'' then Some ''docs'' else None), visibleVaultIds = None,
      rateLimiter = None, dp_platform = plain_platform, dp_fs = (\<lambda>_. flat_fs),
      dp_entryState = (\<lambda>_ _. Inr ''s''), dp_argsHash = (\<lambda>n _. n), dp_callerHash = (\<lambda>_. ''c'')\<rparr>"

theorem authorized_calls_witness:
  "\<exists>au. runAuthorizationGates sample_deps (\<lambda>_. open_acl) ''write_note'' sample_tool
       (JObj [(''vault'', JStr ''v1'')]) sample_ctx = Inr au \<and> x_vaultId (a_ctx au) = ''v1'' \<and> a_mutating au"
proof -
  let ?run = "runAuthorizationGates sample_deps (\<lambda>_. open_acl) ''write_note'' sample_tool
       (JObj [(''vault'', JStr ''v1'')]) sample_ctx"
  have "(case ?run of Inl _ \<Rightarrow> False | Inr au \<Rightarrow> a_mutating au)" by code_simp
  then obtain au where au: "?run = Inr au" "a_mutating au" by (auto split: sum.splits)
  have b: "x_vaultBound sample_ctx" "x_vaultId sample_ctx = ''v1''" by (simp_all add: sample_ctx_def)
  from authorized_calls [OF au(1)] b au show ?thesis by auto
qed



text \<open>
  A destructive tool whose only scope is \<open>admin:vault\<close> (\<open>reset_vault_cache\<close>) is listed for a caller
  under a read-only ACL, and refused when called.
\<close>

lemma listed_yet_refused:
  "(let d = sample_tool\<lparr>d_name := ''reset_vault_cache'', d_requiredScopes := [''admin:vault''], d_destructive := True\<rparr>;
        acls = (\<lambda>_. open_acl\<lparr>cfg := open_config\<lparr>c_readOnly := True\<rparr>\<rparr>);
        ctx = sample_ctx\<lparr>x_acl := Some 0, x_grantedScopes := [''*'']\<rparr> in
    isListed (vis_target_of d) allow_all (Some (vis_caller_of acls ctx)) \<and>
    enforceReadOnlyGate acls ctx (isMutatingCall (d_destructive d) (d_requiredScopes d)) (d_name d) allow_all =
      Inl (Tc Forbidden read_only_denial_message None))"
  by code_simp

lemma strip_path_gone: "strip_path e = Tc c m (Some det) \<Longrightarrow> get_field ''path'' det = None"
  by (cases e) (auto simp: strip_path_def get_field_def delete_conv' split: option.splits if_splits)

text \<open>
  When the server picks the target of a call and the folder ACL
  refuses it, the caller learns the code and the message of the refusal and never the path: the
  details of the error carry no \<open>path\<close>, and the tool's own check of the target has not run.
\<close>

theorem resolved_target_undisclosed:
  assumes "d_resolveTarget d = Some resolve" and "resolve data ctx w = (Inr bound, w1)"
    and "\<forall>k\<in>set (map fst bound). get_field k (object_fields data) = None"
    and "enforceCentralPathAcl dp d (JObj (spread (object_fields data) bound)) ctx w1 = (Inl e, w2)"
  shows "bindResolvedTarget dp d data rawInput ctx w = (Inl (strip_path e), w2) \<and>
    (\<forall>c m det. strip_path e = Tc c m (Some det) \<longrightarrow> get_field ''path'' det = None) \<and>
    (is_loud_refusal (strip_path e) = is_loud_refusal e)"
proof -
  have c: "filter (\<lambda>k. get_field k (object_fields data) \<noteq> None) (map fst bound) = []"
    using assms(3) by (auto simp: filter_empty_conv)
  have "is_loud_refusal (strip_path e) = is_loud_refusal e"
    by (cases e) (auto simp: strip_path_def split: option.splits)
  then show ?thesis
    using assms(1,2,4) c strip_path_gone
    by (simp add: bindResolvedTarget_def abind_def acatch_def Let_def)
qed

definition action_tool :: "(unit, unit) world tool" where
  "action_tool = sample_tool\<lparr>d_requiredScopes := [''read:notes'', ''delete:notes''],
     d_resolvePolicy := Some (\<lambda>input.
       \<lparr>op_requiredScopes = (if input = JStr ''read'' then [''read:notes''] else [''delete:notes'']),
        op_destructive = Some (input \<noteq> JStr ''read''), op_scopeClass = None\<rparr>)\<rparr>"

theorem policy_only_narrows_witness:
  "(case resolveOperationPolicy action_tool (JStr ''read'') of
      Inl e \<Rightarrow> False
    | Inr p \<Rightarrow> grantsAll [''read:notes'', ''delete:*''] (p_requiredScopes p) \<and> \<not> p_destructive p)"
proof -
  have r: "resolveOperationPolicy action_tool (JStr ''read'') =
      Inr \<lparr>p_requiredScopes = [''read:notes''], p_destructive = False, p_scopeClass = ''read''\<rparr>"
    by code_simp
  have "grantsAll [''read:notes'', ''delete:*''] (d_requiredScopes action_tool)" by code_simp
  with policy_only_narrows [where d = action_tool and input = "JStr ''read''" and g = "[''read:notes'', ''delete:*'']"] r
  show ?thesis by simp
qed

definition git_tool :: "(unit, unit) world tool" where
  "git_tool = sample_tool\<lparr>d_pathAcl := Some (\<lambda>_ _. [(Read, ''.git/config'')]),
     d_resolveTarget := Some (\<lambda>_ _. ret [(''path'', JStr ''.git/config'')])\<rparr>"

definition git_deps :: "(unit, unit) deps" where
  "git_deps = sample_deps\<lparr>rootResolver := Some (\<lambda>_. Some [''v''])\<rparr>"

definition sample_world :: "(unit, unit) world" where
  "sample_world =
     \<lparr>m_clock = (\<lambda>i. 100 * int i), m_tick = 0, m_fault = (\<lambda>_. False), m_stmt = 0, idem_rows = [],
      elicit_tokens = [], elicit_requests = [], w_acls = (\<lambda>_. open_acl), w_env = (),
      w_limiter = \<lparr>lim_local = empty_backend, lim_shared = (), inOutage = False, retryAtMs = 0,
        lim_hits = [], downs = 0, ups = 0\<rparr>\<rparr>"

theorem resolved_target_undisclosed_witness:
  "\<exists>w2. bindResolvedTarget git_deps git_tool (JObj []) None (sample_ctx\<lparr>x_acl := Some 0\<rparr>) sample_world =
     (Inl (Tc Acl_denied ''path is outside the read whitelist'' (Some [(''op'', JStr ''read'')])), w2)"
proof -
  let ?ctx = "sample_ctx\<lparr>x_acl := Some 0\<rparr>" and ?in = "JObj (spread (object_fields (JObj [])) [(''path'', JStr ''.git/config'')])"
  let ?e = "Tc Acl_denied ''path is outside the read whitelist''
     (Some [(''path'', JStr ''.git/config''), (''op'', JStr ''read'')])"
  obtain r w2 where c: "enforceCentralPathAcl git_deps git_tool ?in ?ctx sample_world = (r, w2)"
    by (cases "enforceCentralPathAcl git_deps git_tool ?in ?ctx sample_world")
  have "fst (enforceCentralPathAcl git_deps git_tool ?in ?ctx sample_world) = Inl ?e" by code_simp
  with c have e: "enforceCentralPathAcl git_deps git_tool ?in ?ctx sample_world = (Inl ?e, w2)" by simp
  have d: "d_resolveTarget git_tool = Some (\<lambda>_ _. ret [(''path'', JStr ''.git/config'')])"
    by (simp add: git_tool_def)
  have "bindResolvedTarget git_deps git_tool (JObj []) None ?ctx sample_world = (Inl (strip_path ?e), w2)"
    using resolved_target_undisclosed [OF d, where data = "JObj []" and ctx = ?ctx and w = sample_world
        and ?w1.0 = sample_world and bound = "[(''path'', JStr ''.git/config'')]" and dp = git_deps
        and e = ?e and ?w2.0 = w2 and rawInput = None] e
    by (simp add: object_fields_def get_field_def)
  moreover have "strip_path ?e = Tc Acl_denied ''path is outside the read whitelist'' (Some [(''op'', JStr ''read'')])"
    by code_simp
  ultimately show ?thesis by simp
qed

end
