(* ===== verification/Act_Wp.thy ===== *)
theory Act_Wp
  imports Database
begin

text \<open>
  A calculus for actions of \<open>Database\<close>: \<open>wp m Q E s\<close> says that the action returns in a state with \<open>Q\<close>
  or throws in a state with \<open>E\<close>. The equations compute through the sequence and the \<open>catch\<close>; a step
  whose body does not matter is passed by a relation it keeps (\<open>wp_keeps\<close>) or by what is known of its
  outcome (\<open>wp_mono\<close>). The dispatcher and the file operations are both reasoned about with it.
\<close>

text \<open>\<open>try { m } catch { }\<close>, and the value of \<open>m\<close> or what it threw.\<close>

definition swallow :: "('w, unit) act \<Rightarrow> ('w, unit) act" where
  "swallow m = acatch m (\<lambda>_. ret ())"

definition attempt :: "('w, 'a) act \<Rightarrow> ('w, terror + 'a) act" where
  "attempt m w = (case m w of (r, w1) \<Rightarrow> (Inr r, w1))"

subsection \<open>Weakest preconditions\<close>

definition wp ::
    "('w, 'a) act \<Rightarrow> ('a \<Rightarrow> 'w \<Rightarrow> bool) \<Rightarrow> (terror \<Rightarrow> 'w \<Rightarrow> bool) \<Rightarrow> 'w \<Rightarrow> bool" where
  "wp m Q E s = (case m s of (Inr a, s') \<Rightarrow> Q a s' | (Inl e, s') \<Rightarrow> E e s')"

lemma wp_ret [simp]: "wp (ret a) Q E = Q a"
  by (simp add: wp_def fun_eq_iff)

lemma wp_raise [simp]: "wp (raise e) Q E = E e"
  by (simp add: wp_def fun_eq_iff)

lemma wp_of_sum [simp]: "wp (of_sum r) Q E s = (case r of Inr a \<Rightarrow> Q a s | Inl e \<Rightarrow> E e s)"
  by (simp add: wp_def split: sum.splits)

lemma wp_gets [simp]: "wp (gets f) Q E s = Q (f s) s"
  by (simp add: wp_def)

lemma wp_modify [simp]: "wp (modify f) Q E s = Q () (f s)"
  by (simp add: wp_def)

lemma wp_abind [simp]: "wp (abind m f) Q E s = wp m (\<lambda>a. wp (f a) Q E) E s"
  by (simp add: wp_def abind_def split: prod.splits sum.splits)

lemma wp_acatch [simp]: "wp (acatch m h) Q E s = wp m Q (\<lambda>e. wp (h e) Q E) s"
  by (simp add: wp_def acatch_def split: prod.splits sum.splits)

lemma wp_if [simp]: "wp (if b then m else m') Q E s = (if b then wp m Q E s else wp m' Q E s)"
  by simp

lemma wp_option [simp]:
  "wp (case x of None \<Rightarrow> m | Some y \<Rightarrow> f y) Q E s = (case x of None \<Rightarrow> wp m Q E s | Some y \<Rightarrow> wp (f y) Q E s)"
  by (simp split: option.splits)

lemma wp_pair [simp]: "wp (case p of (a, b) \<Rightarrow> f a b) Q E s = (case p of (a, b) \<Rightarrow> wp (f a b) Q E s)"
  by (simp split: prod.splits)

lemma wp_awhen [simp]: "wp (awhen b m) Q E s = (if b then wp m Q E s else Q () s)"
  by (simp add: awhen_def)

lemma wp_swallow [simp]: "wp (swallow m) Q E s = wp m Q (\<lambda>_. Q ()) s"
  by (simp add: swallow_def wp_def acatch_def split: prod.splits sum.splits)

text \<open>The same equations without the state, to compute under a continuation.\<close>

lemma wp_abind_fun: "wp (abind m f) Q E = wp m (\<lambda>a. wp (f a) Q E) E"
  by (simp add: fun_eq_iff)

lemma wp_gets_fun: "wp (gets g) Q E = (\<lambda>s. Q (g s) s)"
  by (simp add: fun_eq_iff)

lemma wp_if_fun: "wp (if b then m else m') Q E = (\<lambda>s. if b then wp m Q E s else wp m' Q E s)"
  by (simp add: fun_eq_iff)

lemma wp_swallow_fun: "wp (swallow m) Q E = wp m Q (\<lambda>_. Q ())"
  by (simp add: fun_eq_iff)

lemmas wp_fun = wp_abind_fun wp_gets_fun wp_if_fun wp_swallow_fun

lemma wp_mono:
  assumes "wp m Q E s" and "\<And>a s'. Q a s' \<Longrightarrow> Q' a s'" and "\<And>e s'. E e s' \<Longrightarrow> E' e s'"
  shows "wp m Q' E' s"
  using assms by (auto simp: wp_def split: prod.splits sum.splits)

lemma wp_keeps:
  assumes "keeps R m" and "\<And>a s'. R s s' \<Longrightarrow> Q a s'" and "\<And>e s'. R s s' \<Longrightarrow> E e s'"
  shows "wp m Q E s"
  using assms(2,3) keepsD [OF assms(1), of s] by (auto simp: wp_def split: prod.splits sum.splits)

lemma wpD: "wp m Q E s \<Longrightarrow> m s = (r, s') \<Longrightarrow> (case r of Inr a \<Rightarrow> Q a s' | Inl e \<Rightarrow> E e s')"
  by (simp add: wp_def split: sum.splits)

lemma wp_keeps_iff: "keeps R m \<longleftrightarrow> (\<forall>s. wp m (\<lambda>_. R s) (\<lambda>_. R s) s)"
proof -
  have "wp m (\<lambda>_. R s) (\<lambda>_. R s) s = R s (snd (m s))" for s
    by (simp add: wp_def split: prod.splits sum.splits)
  then show ?thesis by (simp add: keeps_def)
qed

lemma keeps_acatch:
  assumes "transp R" and "keeps R m" and "\<And>e. keeps R (h e)"
  shows "keeps R (acatch m h)"
  using assms unfolding keeps_def
  by (auto simp: acatch_def transp_def split: prod.splits sum.splits) (metis snd_conv)+

lemma wp_attempt [simp]: "wp (attempt m) Q E s = wp m (\<lambda>a. Q (Inr a)) (\<lambda>e. Q (Inl e)) s"
  by (simp add: wp_def attempt_def split: prod.splits sum.splits)

end
