(* ===== verification/Dispatch.thy ===== *)
theory Dispatch
  imports Path_Gates Act_Wp
begin

text \<open>
  The dispatcher, \<open>packages/server/src/mcp/registry/dispatch.ts\<close>, with the pieces it calls from
  \<open>result-governance.ts\<close>, \<open>elicit-release.ts\<close>, \<open>effect-marker.ts\<close>, \<open>abort.ts\<close> and the failure hint of
  \<open>input-binding.ts\<close>. The local variables of \<open>runDispatch\<close> are the record \<open>dispatch\<close>, so the code of
  the \<open>catch\<close> block sees them as the throw left them.

  A handler is a \<open>script\<close>: the effects it has on the outside, its signals, its own confirmation and
  its transactions, in order. The abort signal is read at each check through an arbitrary function
  of the number of checks made. \<open>JSON.stringify\<close> and \<open>JSON.parse\<close> are arguments. Metrics, audit,
  tracing, provenance and conventions are the optional sinks of \<open>DispatchDeps\<close> and are absent here;
  the verifier is the built-in one of \<open>elicit.ts\<close> or none.
\<close>

subsection \<open>Handlers\<close>

datatype 'e script =
    H_return "json option"
  | H_throw terror
  | H_effect "'e \<Rightarrow> 'e" "'e script"
  | H_mark "'e script"
  | H_confirm bool json details "'e script"
  | H_txn "'e script" "'e script"

record ('w, 'e) dtool = "'w tool" +
  d_handler :: "json \<Rightarrow> call_ctx \<Rightarrow> 'e \<Rightarrow> 'e script"
  d_outputOk :: "(json option \<Rightarrow> bool) option"

record ('e, 's) dispatch_deps = "('e, 's) deps" +
  toolStore :: "str \<Rightarrow> (('e, 's) world, 'e) dtool option"
  verifyWired :: bool
  idempotencyTtlMs :: int
  idempotencyReclaimMs :: int
  maxResponseBytes :: int
  strictOutputSchema :: bool
  dp_stringify :: "json \<Rightarrow> str"
  dp_parse :: "str \<Rightarrow> json option"

record ('e, 's) dispatch = "('e, 's) world" +
  l_ctx :: call_ctx
  l_start :: int
  l_hash :: str
  l_scopeClass :: str
  l_idemKey :: "str option"
  l_idemClaimed :: bool
  l_idemPrincipal :: str
  l_handlerReturned :: bool
  l_effectCommitted :: bool
  l_handlerInvoked :: bool
  l_spent :: "str option"
  l_marker :: bool
  l_checks :: nat

record call =
  c_name :: str
  c_input :: "json option"
  c_ctx :: call_ctx
  c_aborted :: "nat \<Rightarrow> bool"
  c_slotBusy :: bool

record result_meta =
  m_duration_ms :: int
  m_result_size :: int
  m_overflow_bytes :: "int option"
  m_idempotent_replay :: bool

datatype tool_result = Ok_result "json option" result_meta | Err_result terror result_meta

text \<open>An action on the state without the locals.\<close>

definition lift :: "(('e, 's) world, 'a) act \<Rightarrow> (('e, 's, 'l) world_scheme, 'a) act" where
  "lift m s = (case m (world.truncate s) of (r, w) \<Rightarrow> (r, world.extend w (world.more s)))"

subsection \<open>Result governance\<close>

definition no_output_text :: str where
  "no_output_text = ''OK: the tool completed and returned no data.''"

definition isOverflow :: "int \<Rightarrow> int \<Rightarrow> bool" where
  "isOverflow resultSize maxBytes \<longleftrightarrow> resultSize > maxBytes"

definition overflowError :: "int \<Rightarrow> int \<Rightarrow> terror" where
  "overflowError resultSize maxBytes =
     Tc Overflow ''response exceeds byte budget''
       (Some [(''result_size'', JNum resultSize), (''limit'', JNum maxBytes)])"

definition checkOutputSchema :: "(json option \<Rightarrow> bool) option \<Rightarrow> json option \<Rightarrow> str \<Rightarrow> bool \<Rightarrow> terror + unit" where
  "checkOutputSchema outputOk out name strict =
     (case outputOk of
        None \<Rightarrow> Inr ()
      | Some ok \<Rightarrow>
          if ok out then Inr ()
          else if strict
          then Inl (Tc Internal_error (''output does not match advertised outputSchema for '' @ name) None)
          else Inr ())"

subsection \<open>The failure hint\<close>

definition slug_char :: "char \<Rightarrow> bool" where
  "slug_char c \<longleftrightarrow> (let n = (of_char c :: nat) in
     (97 \<le> n \<and> n \<le> 122) \<or> (48 \<le> n \<and> n \<le> 57) \<or> c = CHR ''_'' \<or> c = CHR ''-'')"

fun dash_runs :: "bool \<Rightarrow> str \<Rightarrow> str" where
  "dash_runs inrun [] = []"
| "dash_runs inrun (c # cs) =
     (if slug_char c then c # dash_runs False cs
      else if inrun then dash_runs True cs
      else CHR ''-'' # dash_runs True cs)"

definition slugifyForHint :: "str \<Rightarrow> str" where
  "slugifyForHint s =
     (let t = dropWhile (\<lambda>c. c = CHR ''-'') (dash_runs False (lower s)) in
      rev (dropWhile (\<lambda>c. c = CHR ''-'') (rev t)))"

definition hasVaultIssue :: "str \<Rightarrow> details option \<Rightarrow> bool" where
  "hasVaultIssue vaultArg det =
     (case get_field ''issues'' (case det of None \<Rightarrow> [] | Some x \<Rightarrow> x) of
        Some (JArr issues) \<Rightarrow>
          list_ex (\<lambda>i. json_field ''path'' i = Some (JArr [JStr vaultArg])) issues
      | _ \<Rightarrow> False)"

definition hinted ::
    "terror \<Rightarrow> str list \<Rightarrow> str option \<Rightarrow> (str \<times> json) list \<Rightarrow> terror" where
  "hinted e visible submitted extra =
     (case e of
        Thrown m \<Rightarrow> e
      | Tc c m det \<Rightarrow>
          (let didYouMean = (case submitted of
                 None \<Rightarrow> None
               | Some s \<Rightarrow> find (\<lambda>i. i = lower s \<or> i = slugifyForHint s) visible) in
           Tc c m (Some (spread (spread (spread (case det of None \<Rightarrow> [] | Some x \<Rightarrow> x)
               [(''visible_vaults'', JArr (map JStr visible))])
               (case nonempty didYouMean of None \<Rightarrow> [] | Some i \<Rightarrow> [(''did_you_mean'', JStr i)])) extra))))"

definition vaultFailureHint ::
    "terror \<Rightarrow> ('w, 'z) tool_scheme option \<Rightarrow> json option \<Rightarrow> call_ctx \<Rightarrow> (call_ctx \<Rightarrow> str list) option \<Rightarrow> terror" where
  "vaultFailureHint e d rawInput ctx visibleIds =
     (case visibleIds of
        None \<Rightarrow> e
      | Some visible \<Rightarrow>
          if \<not> grantsAll (x_grantedScopes ctx) [''read:vault''] then e
          else
            (let vaultArg = (case d of None \<Rightarrow> ''vault'' | Some t \<Rightarrow>
                               (case d_vaultArg t of None \<Rightarrow> ''vault'' | Some k \<Rightarrow> k)) in
             case (e, d) of
               (Tc Vault_not_found m det, _) \<Rightarrow>
                 hinted e (visible ctx)
                   (case get_field ''vault'' (case det of None \<Rightarrow> [] | Some x \<Rightarrow> x) of
                      Some (JStr v) \<Rightarrow> Some v | _ \<Rightarrow> None) []
             | (Tc Validation_error m det, Some t) \<Rightarrow>
                 if hasVaultIssue vaultArg det
                 then hinted e (visible ctx) (case rawInput of None \<Rightarrow> None | Some v \<Rightarrow> vaultArgOf t v)
                        [(''vault_hint_path'', JStr vaultArg)]
                 else e
             | _ \<Rightarrow> e))"

subsection \<open>Small steps of the pipeline\<close>

definition aborted_error :: terror where
  "aborted_error = Tc Aborted ''operation aborted by caller'' None"

definition checkAborted :: "(nat \<Rightarrow> bool) \<Rightarrow> (('e, 's) dispatch, unit) act" where
  "checkAborted ab s =
     (if ab (l_checks s) then (Inl aborted_error, s\<lparr>l_checks := Suc (l_checks s)\<rparr>)
      else (Inr (), s\<lparr>l_checks := Suc (l_checks s)\<rparr>))"

definition idemAt :: "('e, 's) dispatch \<Rightarrow> idem_key" where
  "idemAt s = (x_vaultId (l_ctx s), l_idemPrincipal s, case l_idemKey s of None \<Rightarrow> [] | Some k \<Rightarrow> k)"

text \<open>\<open>idemClaimed && idemKey\<close>\<close>

definition owns_claim :: "('e, 's) dispatch \<Rightarrow> bool" where
  "owns_claim s \<longleftrightarrow> l_idemClaimed s \<and> l_idemKey s \<noteq> None"

definition when_claimed ::
    "(idem_key \<Rightarrow> (('e, 's) dispatch, unit) act) \<Rightarrow> (('e, 's) dispatch, unit) act" where
  "when_claimed f s = (if owns_claim s then f (idemAt s) s else (Inr (), s))"

text \<open>A gate that refuses a call which owns a claim releases it; a fault of the release is dropped.\<close>

definition release_claim :: "(('e, 's) dispatch, unit) act" where
  "release_claim = when_claimed (\<lambda>k. swallow (deleteIdempotency k))"

definition throttle_gate :: "('e, 's) dispatch_deps \<Rightarrow> (('e, 's) dispatch, terror option) act" where
  "throttle_gate dp =
     abind now (\<lambda>t.
     abind (gets (\<lambda>s. s)) (\<lambda>s.
     throttleRefusal (deps.truncate dp) (x_caller (l_ctx s)) (l_scopeClass s) (x_vaultId (l_ctx s)) t))"

definition duration :: "(('e, 's) dispatch, int) act" where
  "duration = abind now (\<lambda>t. abind (gets l_start) (\<lambda>start. ret (max 0 (t - start))))"

subsection \<open>The handler\<close>

text \<open>The commit signal: the clock is read for its argument, then the row is marked, then the flag is
  set.\<close>

definition signal_commit :: "(('e, 's) dispatch, unit) act" where
  "signal_commit s =
     (if \<not> l_marker s then (Inr (), s)
      else
        (case l_idemKey s of
           None \<Rightarrow> (Inr (), s\<lparr>l_effectCommitted := True\<rparr>)
         | Some _ \<Rightarrow>
             abind now (\<lambda>_. abind (markEffectCommitted (idemAt s))
               (\<lambda>_. modify (\<lambda>s. s\<lparr>l_effectCommitted := True\<rparr>))) s))"

text \<open>A transaction that throws restores the outside state and the tables, and rethrows.\<close>

definition rollback_to :: "('e, 's) dispatch \<Rightarrow> ('e, 's) dispatch \<Rightarrow> ('e, 's) dispatch" where
  "rollback_to s0 s = s\<lparr>w_env := w_env s0, idem_rows := idem_rows s0,
     elicit_tokens := elicit_tokens s0, elicit_requests := elicit_requests s0\<rparr>"

primrec run_script ::
    "('e, 's) dispatch_deps \<Rightarrow> str \<Rightarrow> ('e, 's) dispatch state_probe \<Rightarrow> 'e script \<Rightarrow>
     (('e, 's) dispatch, json option) act" where
  "run_script dp name probe (H_return v) = ret v"
| "run_script dp name probe (H_throw e) = raise e"
| "run_script dp name probe (H_effect f k) =
     abind (modify (\<lambda>s. s\<lparr>w_env := f (w_env s)\<rparr>)) (\<lambda>_. run_script dp name probe k)"
| "run_script dp name probe (H_mark k) = abind signal_commit (\<lambda>_. run_script dp name probe k)"
| "run_script dp name probe (H_confirm needed input proposed k) =
     abind (gets l_ctx) (\<lambda>ctx.
     abind (requireConfirmation (x_elicitToken ctx) (x_elicitState ctx) (x_vaultId ctx) (x_caller ctx)
              (dp_argsHash dp name input) name needed proposed (Some probe)) (\<lambda>spent.
     abind (modify (\<lambda>s. case spent of None \<Rightarrow> s | Some tok \<Rightarrow> s\<lparr>l_spent := Some tok\<rparr>)) (\<lambda>_.
     run_script dp name probe k)))"
| "run_script dp name probe (H_txn body k) =
     abind (gets (\<lambda>s. s)) (\<lambda>s0.
     abind (acatch (run_script dp name probe body)
              (\<lambda>e. abind (modify (rollback_to s0)) (\<lambda>_. raise e))) (\<lambda>_.
     run_script dp name probe k))"

definition invoke_handler ::
    "('e, 's) dispatch_deps \<Rightarrow> (('e, 's) world, 'e) dtool \<Rightarrow> str \<Rightarrow> json \<Rightarrow> ('e, 's) dispatch state_probe \<Rightarrow>
     (('e, 's) dispatch, json option) act" where
  "invoke_handler dp d name input probe =
     abind (modify (\<lambda>s. s\<lparr>l_handlerInvoked := True\<rparr>)) (\<lambda>_.
     abind (gets (\<lambda>s. d_handler d input (l_ctx s) (w_env s))) (\<lambda>script.
     run_script dp name probe script))"

text \<open>The audited block: path ACL, last abort check, handler, commit mark.\<close>

definition execute ::
    "('e, 's) dispatch_deps \<Rightarrow> (('e, 's) world, 'e) dtool \<Rightarrow> str \<Rightarrow> json \<Rightarrow> ('e, 's) dispatch state_probe \<Rightarrow>
     (nat \<Rightarrow> bool) \<Rightarrow> (('e, 's) dispatch, json option) act" where
  "execute dp d name input probe ab =
     abind (gets l_ctx) (\<lambda>ctx.
     abind (enforceCentralPathAcl (deps.truncate dp) d input ctx) (\<lambda>_.
     abind (checkAborted ab) (\<lambda>_.
     abind now (\<lambda>_.
     abind (invoke_handler dp d name input probe) (\<lambda>out.
     abind now (\<lambda>_.
     abind (modify (\<lambda>s. s\<lparr>l_handlerReturned := True\<rparr>)) (\<lambda>_.
     abind (when_claimed (\<lambda>k. abind now (\<lambda>_. markEffectCommitted k))) (\<lambda>_.
     ret out))))))))"

subsection \<open>After the handler\<close>

definition finish ::
    "('e, 's) dispatch_deps \<Rightarrow> (('e, 's) world, 'e) dtool \<Rightarrow> str \<Rightarrow> json option \<Rightarrow>
     (('e, 's) dispatch, tool_result) act" where
  "finish dp d name out =
     abind (of_sum (checkOutputSchema (d_outputOk d) out name (strictOutputSchema dp))) (\<lambda>_.
     let json = dp_stringify dp (case out of None \<Rightarrow> JNull | Some v \<Rightarrow> v);
         resultSize = utf8_length (if nullish out then no_output_text else json) in
     abind duration (\<lambda>dur.
     if isOverflow resultSize (maxResponseBytes dp)
     then
       abind (when_claimed (\<lambda>k. swallow (abind now (\<lambda>t. finalizeIdempotency k ''null'' resultSize t)))) (\<lambda>_.
       ret (Err_result (overflowError resultSize (maxResponseBytes dp))
         \<lparr>m_duration_ms = dur, m_result_size = resultSize,
          m_overflow_bytes = Some (resultSize - maxResponseBytes dp), m_idempotent_replay = False\<rparr>))
     else
       abind (when_claimed (\<lambda>k. abind now (\<lambda>t. finalizeIdempotency k json resultSize t))) (\<lambda>_.
       ret (Ok_result out
         \<lparr>m_duration_ms = dur, m_result_size = resultSize, m_overflow_bytes = None,
          m_idempotent_replay = False\<rparr>))))"

subsection \<open>Before the handler\<close>

text \<open>Lookup, visibility, input and authorization: the tool and the validated input.\<close>

definition stage_authorize ::
    "('e, 's) dispatch_deps \<Rightarrow> call \<Rightarrow>
     (('e, 's) dispatch, (('e, 's) world, 'e) dtool \<times> json \<times> json option \<times> authorized_call) act" where
  "stage_authorize dp c =
     abind (checkAborted (c_aborted c)) (\<lambda>_.
     case toolStore dp (c_name c) of
       None \<Rightarrow> raise (Tc Not_found (''unknown tool: '' @ c_name c) None)
     | Some d \<Rightarrow>
         abind (gets (\<lambda>s. isToolDisabledFor (toolVisibility dp) (w_acls s) d (l_ctx s))) (\<lambda>off.
         if off then raise (Tc Not_found (''unknown tool: '' @ c_name c) None)
         else
           abind (modify (\<lambda>s. s\<lparr>l_scopeClass :=
             (case d_scopeClass d of Some k \<Rightarrow> k | None \<Rightarrow> scopeClassOf (d_requiredScopes d))\<rparr>)) (\<lambda>_.
           abind (gets l_ctx) (\<lambda>ctx.
           let (effectiveInput, filled) = withDefaultVault d (c_input c) ctx (visibleVaultIds dp) in
           abind (modify (\<lambda>s. if filled
               then s\<lparr>l_hash := dp_argsHash dp (c_name c)
                        (case effectiveInput of None \<Rightarrow> JObj [] | Some v \<Rightarrow> v)\<rparr> else s)) (\<lambda>_.
           abind (of_sum (parseInput d effectiveInput)) (\<lambda>input.
           abind (of_sum (resolveOperationPolicy d input)) (\<lambda>policy.
           abind (modify (\<lambda>s. s\<lparr>l_scopeClass := p_scopeClass policy\<rparr>)) (\<lambda>_.
           abind (gets w_acls) (\<lambda>acls.
           abind (of_sum (runAuthorizationGates (deps.truncate dp) acls (c_name c) d input ctx)) (\<lambda>au.
           abind (modify (\<lambda>s. s\<lparr>l_ctx := a_ctx au\<rparr>)) (\<lambda>_.
           ret (d, input, effectiveInput, au))))))))))))"

text \<open>A \<open>resolveTarget\<close> tool takes the rate limit first; then its resolved target joins the input and
  the hash. Returns the input and the path the confirmation names.\<close>

definition nonempty_path :: "json option \<Rightarrow> str option" where
  "nonempty_path v = (case v of Some (JStr p) \<Rightarrow> Some p | _ \<Rightarrow> None)"

definition stage_target ::
    "('e, 's) dispatch_deps \<Rightarrow> (('e, 's) world, 'e) dtool \<Rightarrow> json \<Rightarrow> json option \<Rightarrow>
     (('e, 's) dispatch, json \<times> str option) act" where
  "stage_target dp d input effectiveInput =
     abind (if d_resolveTarget d \<noteq> None
            then abind (throttle_gate dp) (\<lambda>r. case r of None \<Rightarrow> ret () | Some e \<Rightarrow> raise e)
            else ret ()) (\<lambda>_.
     abind (gets l_ctx) (\<lambda>ctx.
     abind (lift (bindResolvedTarget (deps.truncate dp) d input effectiveInput ctx)) (\<lambda>target.
     case target of
       None \<Rightarrow> ret (input, None)
     | Some b \<Rightarrow>
         abind (modify (\<lambda>s. s\<lparr>l_hash := bt_hash b\<rparr>)) (\<lambda>_.
         ret (bt_input b, nonempty_path (get_field ''path'' (bt_bound b)))))))"


text \<open>The idempotency gate: \<^const>\<open>None\<close> when the pipeline goes on, the answer when the call is replayed.\<close>

definition indeterminate_error :: "str \<Rightarrow> terror" where
  "indeterminate_error key =
     Tc Indeterminate_outcome ''a prior attempt with this idempotency key may have applied its effect but did not record a result; verify state before retrying''
       (Some [(''key'', JStr key)])"

definition replay_meta :: "int \<Rightarrow> int \<Rightarrow> int option \<Rightarrow> result_meta" where
  "replay_meta dur sz over =
     \<lparr>m_duration_ms = dur, m_result_size = sz, m_overflow_bytes = over, m_idempotent_replay = True\<rparr>"

definition answer_claim ::
    "('e, 's) dispatch_deps \<Rightarrow> str \<Rightarrow> claim_result \<Rightarrow> (('e, 's) dispatch, tool_result option) act" where
  "answer_claim dp key r =
     (case r of
        Claimed \<Rightarrow> abind (modify (\<lambda>s. s\<lparr>l_idemClaimed := True\<rparr>)) (\<lambda>_. ret None)
      | Mismatch \<Rightarrow> raise (Tc Idempotency_key_mismatch
          ''idempotency key reused with a different tool or arguments'' (Some [(''key'', JStr key)]))
      | Claim_in_flight \<Rightarrow> raise (Tc Idempotency_in_flight ''operation in progress'' (Some [(''key'', JStr key)]))
      | Replay_indeterminate \<Rightarrow>
          abind duration (\<lambda>dur. ret (Some (Err_result (indeterminate_error key) (replay_meta dur 0 None))))
      | Replay_overflow overSize \<Rightarrow>
          abind duration (\<lambda>dur. ret (Some (Err_result (overflowError overSize (maxResponseBytes dp))
            (replay_meta dur overSize (Some (overSize - maxResponseBytes dp))))))
      | Replay_ok data json resultSize \<Rightarrow>
          abind duration (\<lambda>dur. ret (Some (Ok_result (Some data) (replay_meta dur resultSize None)))))"

definition stage_idempotency ::
    "('e, 's) dispatch_deps \<Rightarrow> str \<Rightarrow> json \<Rightarrow> (('e, 's) dispatch, tool_result option) act" where
  "stage_idempotency dp name input =
     (case extractIdempotencyKey input of
        None \<Rightarrow> ret None
      | Some key \<Rightarrow>
          abind (modify (\<lambda>s. s\<lparr>l_idemKey := Some key\<rparr>)) (\<lambda>_.
          abind (gets l_ctx) (\<lambda>ctx.
          abind (of_sum (requireIdentifiedCaller ctx ''idempotency_key'')) (\<lambda>who.
          abind (modify (\<lambda>s. s\<lparr>l_idemPrincipal := who\<rparr>)) (\<lambda>_.
          abind (gets (\<lambda>s. s)) (\<lambda>s.
          abind (claimOrReplay (dp_parse dp) (idemAt s) name (l_hash s) (idempotencyTtlMs dp)
                   (idempotencyReclaimMs dp) (maxResponseBytes dp)) (\<lambda>r.
          answer_claim dp key r)))))))"

text \<open>Rate limit and cancellation, then the confirmation; a refusal at either gate releases the claim.\<close>

definition stage_throttle ::
    "('e, 's) dispatch_deps \<Rightarrow> (('e, 's) world, 'e) dtool \<Rightarrow> (nat \<Rightarrow> bool) \<Rightarrow> bool \<Rightarrow>
     (('e, 's) dispatch, unit) act" where
  "stage_throttle dp d ab mutating =
     abind (checkAborted ab) (\<lambda>_.
     abind (if d_resolveTarget d \<noteq> None then ret None else throttle_gate dp) (\<lambda>refused.
     abind (case refused of None \<Rightarrow> ret () | Some e \<Rightarrow> abind release_claim (\<lambda>_. raise e)) (\<lambda>_.
     abind (checkAborted ab) (\<lambda>_.
     if mutating then checkAborted ab else ret ()))))"

definition builtin_verifier :: "call_ctx \<Rightarrow> ('e, 's) dispatch verify_elicit" where
  "builtin_verifier ctx tok hash probe =
     verifyAndConsumeElicit tok hash (x_vaultId ctx) (x_caller ctx) (Some probe)"

definition stage_hitl ::
    "('e, 's) dispatch_deps \<Rightarrow> str \<Rightarrow> resolved_policy \<Rightarrow> str option \<Rightarrow> ('e, 's) dispatch state_probe \<Rightarrow>
     (('e, 's) dispatch, unit) act" where
  "stage_hitl dp name policy resolvedPath probe =
     (if \<not> hitlRequired (p_destructive policy) (p_requiredScopes policy) then ret ()
      else
        abind (gets (\<lambda>s. s)) (\<lambda>s.
        let ctx = l_ctx s in
        abind (checkHitl (x_elicitToken ctx) (x_elicitState ctx) (x_vaultId ctx) (x_caller ctx) (l_hash s) name
                 (if verifyWired dp then Some (builtin_verifier ctx) else None) probe) (\<lambda>(passed, spent).
        abind (modify (\<lambda>s. case spent of None \<Rightarrow> s | Some tok \<Rightarrow> s\<lparr>l_spent := Some tok\<rparr>)) (\<lambda>_.
        if passed then ret ()
        else
          abind release_claim (\<lambda>_.
          abind (elicitRequiredError (x_vaultId ctx) (x_caller ctx) (l_hash s) (Some probe)
                   ([(''args_hash'', JStr (l_hash s)), (''tool'', JStr name), (''vault'', JStr (x_vaultId ctx))] @
                    (case resolvedPath of None \<Rightarrow> [] | Some p \<Rightarrow> [(''path'', JStr p)])))
            raise)))))"

text \<open>The commit callback is installed only for a call that owns a claim or carries a token.\<close>

definition install_marker :: "bool \<Rightarrow> (('e, 's) dispatch, unit) act" where
  "install_marker slotBusy s =
     (if owns_claim s \<or> nonempty (x_elicitToken (l_ctx s)) \<noteq> None
      then if slotBusy
        then (Inl (Tc Internal ''CallerContext is already in use by an in-flight dispatch; a context must not be shared across concurrent dispatches'' None), s)
        else (Inr (), s\<lparr>l_marker := True\<rparr>)
      else (Inr (), s))"


subsection \<open>When the pipeline throws\<close>

definition durably_committed :: "(('e, 's) dispatch, bool) act" where
  "durably_committed s =
     (if \<not> l_effectCommitted s then (Inr False, s)
      else acatch
        (abind (readIdempotency (idemAt s)) (\<lambda>found.
           ret (case found of None \<Rightarrow> False | Some row \<Rightarrow> i_state row = Effect_committed)))
        (\<lambda>_. ret True) s)"

text \<open>The claim of a failed call: recorded as indeterminate after a possible effect, else deleted.\<close>

definition settle_claim :: "(('e, 's) dispatch, unit) act" where
  "settle_claim s =
     (if \<not> owns_claim s then (Inr (), s)
      else
        abind durably_committed (\<lambda>durable.
        abind (gets l_handlerReturned) (\<lambda>returned.
        if returned \<or> durable
        then swallow (abind now (\<lambda>t. finalizeIndeterminate (idemAt s) t))
        else swallow (deleteIdempotency (idemAt s)))) s)"

definition refusedBeforeEffect :: "bool \<Rightarrow> bool \<Rightarrow> bool \<Rightarrow> bool \<Rightarrow> bool" where
  "refusedBeforeEffect handlerInvoked handlerReturned effectCommitted refusedBeforeWrite \<longleftrightarrow>
     (if handlerReturned \<or> effectCommitted then False else \<not> handlerInvoked \<or> refusedBeforeWrite)"

definition releaseSpentElicit :: "(('e, 's) dispatch, unit) act" where
  "releaseSpentElicit s =
     (case l_spent s of
        None \<Rightarrow> (Inr (), s)
      | Some tok \<Rightarrow>
          if refusedBeforeEffect (l_handlerInvoked s) (l_handlerReturned s) (l_effectCommitted s) False
          then swallow (releaseElicitToken tok) s
          else (Inr (), s))"

definition client_error :: "terror \<Rightarrow> terror" where
  "client_error e = (case e of Tc c m x \<Rightarrow> e | Thrown _ \<Rightarrow> Tc Internal ''internal error'' None)"

definition fail ::
    "('e, 's) dispatch_deps \<Rightarrow> call \<Rightarrow> terror \<Rightarrow> (('e, 's) dispatch, tool_result) act" where
  "fail dp c e =
     abind settle_claim (\<lambda>_.
     abind releaseSpentElicit (\<lambda>_.
     abind (gets l_ctx) (\<lambda>ctx.
     abind duration (\<lambda>dur.
     ret (Err_result
       (vaultFailureHint (client_error e) (toolStore dp (c_name c)) (c_input c) ctx (visibleVaultIds dp))
       (\<lparr>m_duration_ms = dur, m_result_size = 0, m_overflow_bytes = None, m_idempotent_replay = False\<rparr>))))))"

subsection \<open>The pipeline\<close>

definition stage_precheck ::
    "(('e, 's) world, 'e) dtool \<Rightarrow> json \<Rightarrow> (('e, 's) dispatch, unit) act" where
  "stage_precheck d input =
     abind (gets l_ctx) (\<lambda>ctx. lift (case d_precheck d of None \<Rightarrow> ret () | Some f \<Rightarrow> f input ctx))"

text \<open>From the claim on: the gates that may still refuse, then the handler and what follows it.\<close>

definition guarded ::
    "('e, 's) dispatch_deps \<Rightarrow> call \<Rightarrow> (('e, 's) world, 'e) dtool \<Rightarrow> json \<Rightarrow> str option \<Rightarrow>
     authorized_call \<Rightarrow> (('e, 's) dispatch, tool_result) act" where
  "guarded dp c d input resolvedPath au =
     abind (stage_throttle dp d (c_aborted c) (a_mutating au)) (\<lambda>_.
     abind (gets l_ctx) (\<lambda>ctx.
     let probe = lift (confirmationStateProbe (deps.truncate dp) d input ctx) in
     abind (stage_hitl dp (c_name c) (a_policy au) resolvedPath probe) (\<lambda>_.
     abind (install_marker (c_slotBusy c)) (\<lambda>_.
     abind (execute dp d (c_name c) input probe (c_aborted c)) (\<lambda>out.
     finish dp d (c_name c) out)))))"

definition pipeline ::
    "('e, 's) dispatch_deps \<Rightarrow> call \<Rightarrow> (('e, 's) dispatch, tool_result) act" where
  "pipeline dp c =
     abind (stage_authorize dp c) (\<lambda>(d, input0, effectiveInput, au).
     abind (stage_target dp d input0 effectiveInput) (\<lambda>(input, resolvedPath).
     abind (stage_precheck d input) (\<lambda>_.
     abind (stage_idempotency dp (c_name c) input) (\<lambda>replayed.
     case replayed of
       Some answer \<Rightarrow> ret answer
     | None \<Rightarrow> guarded dp c d input resolvedPath au))))"

definition initial ::
    "('e, 's) dispatch_deps \<Rightarrow> call \<Rightarrow> int \<Rightarrow> ('e, 's) world \<Rightarrow> ('e, 's) dispatch" where
  "initial dp c start w =
     world.extend w (dispatch.fields (c_ctx c) start
       (dp_argsHash dp (c_name c) (case c_input c of None \<Rightarrow> JObj [] | Some v \<Rightarrow> if v = JNull then JObj [] else v))
       ''unknown'' None False [] False False False None False 0)"

text \<open>What a call returns always, and the locals the call ended with.\<close>

definition run_call ::
    "('e, 's) dispatch_deps \<Rightarrow> call \<Rightarrow> ('e, 's) world \<Rightarrow> (terror + tool_result) \<times> ('e, 's) dispatch" where
  "run_call dp c w =
     (case now w of
        (Inl e, w1) \<Rightarrow> (Inl e, initial dp c 0 w1)
      | (Inr start, w1) \<Rightarrow> acatch (pipeline dp c) (fail dp c) (initial dp c start w1))"

definition runDispatch ::
    "('e, 's) dispatch_deps \<Rightarrow> call \<Rightarrow> ('e, 's) world \<Rightarrow> (terror + tool_result) \<times> ('e, 's) world" where
  "runDispatch dp c w = (case run_call dp c w of (r, s) \<Rightarrow> (r, world.truncate s))"

end
