(* ===== verification/Act_Logic.thy ===== *)
theory Act_Logic
  imports Dispatch
begin

text \<open>
  The dispatcher's statements under the calculus of \<open>Act_Wp\<close>. The relation \<open>calm\<close> is what the gates
  between the claim and the handler keep: the local variables, the clock, the fault oracle, the
  idempotency rows, and every confirmation token's existence.
\<close>

subsection \<open>Statements\<close>

lemma wp_now [simp]: "wp now Q E s = Q (m_clock s (m_tick s)) (s\<lparr>m_tick := Suc (m_tick s)\<rparr>)"
  by (simp add: wp_def now_def)

lemma wp_stmt:
  "wp (stmt f) Q E s =
     (let s1 = s\<lparr>m_stmt := Suc (m_stmt s)\<rparr> in
      if m_fault s (m_stmt s) then E (Thrown ''SQLITE_ERROR'') s1
      else (case f s1 of (a, s2) \<Rightarrow> Q a s2))"
  by (simp add: wp_def stmt_def Let_def split: prod.splits)

lemma wp_on_idem:
  "wp (on_idem f) Q E s =
     (if m_fault s (m_stmt s) then E (Thrown ''SQLITE_ERROR'') (s\<lparr>m_stmt := Suc (m_stmt s)\<rparr>)
      else Q (fst (f (idem_rows s))) (s\<lparr>m_stmt := Suc (m_stmt s), idem_rows := snd (f (idem_rows s))\<rparr>))"
  by (simp add: wp_def on_idem_cases)

subsection \<open>Calm steps\<close>

definition locals :: "('e, 's) dispatch \<Rightarrow> _" where
  "locals s = (l_ctx s, l_start s, l_hash s, l_scopeClass s, l_idemKey s, l_idemClaimed s,
     l_idemPrincipal s, l_handlerReturned s, l_effectCommitted s, l_handlerInvoked s, l_spent s,
     l_marker s, l_checks s)"

definition calm :: "('e, 's) dispatch \<Rightarrow> ('e, 's) dispatch \<Rightarrow> bool" where
  "calm s s' \<longleftrightarrow> locals s' = locals s \<and> m_clock s' = m_clock s \<and> m_fault s' = m_fault s \<and>
     idem_rows s' = idem_rows s \<and>
     (\<forall>tok. map_of (elicit_tokens s) tok \<noteq> None \<longrightarrow> map_of (elicit_tokens s') tok \<noteq> None)"

lemma calm_refl: "reflp calm"
  by (simp add: reflp_def calm_def)

lemma calm_trans: "transp calm"
  by (auto simp: transp_def calm_def)

lemma calm_now: "keeps calm now"
  by (simp add: wp_keeps_iff calm_def locals_def)

lemma calm_stmt:
  fixes f :: "('e, 's) dispatch \<Rightarrow> 'a \<times> ('e, 's) dispatch"
  assumes "\<And>s. calm s (snd (f s))"
  shows "keeps calm (stmt f)"
  unfolding wp_keeps_iff
proof
  fix s :: "('e, 's) dispatch"
  have "calm s (s\<lparr>m_stmt := Suc (m_stmt s)\<rparr>)" by (simp add: calm_def locals_def)
  then show "wp (stmt f) (\<lambda>_. calm s) (\<lambda>_. calm s) s"
    using assms [of "s\<lparr>m_stmt := Suc (m_stmt s)\<rparr>"] transpD [OF calm_trans]
    by (auto simp: wp_stmt Let_def split: prod.splits)
qed

lemma keeps_option:
  "keeps R m \<Longrightarrow> (\<And>y. keeps R (f y)) \<Longrightarrow> keeps R (case x of None \<Rightarrow> m | Some y \<Rightarrow> f y)"
  by (simp split: option.splits)

lemma keeps_if: "keeps R m \<Longrightarrow> keeps R m' \<Longrightarrow> keeps R (if b then m else m')"
  by simp

lemma calm_abind: "keeps calm m \<Longrightarrow> (\<And>a. keeps calm (f a)) \<Longrightarrow> keeps calm (abind m f)"
  by (rule keeps_abind [OF calm_trans])

lemma calm_acatch: "keeps calm m \<Longrightarrow> (\<And>e. keeps calm (h e)) \<Longrightarrow> keeps calm (acatch m h)"
  by (rule keeps_acatch [OF calm_trans])

lemmas calm_rules =
  calm_abind calm_acatch keeps_pure [OF calm_refl] calm_now keeps_option keeps_if

lemma calm_read_token: "keeps calm (stmt (\<lambda>w. (f w, w)))"
  by (rule calm_stmt) (simp add: reflpD [OF calm_refl])

lemma calm_requests: "keeps calm (stmt (\<lambda>w. ((), w\<lparr>elicit_requests := f w\<rparr>)))"
  by (rule calm_stmt) (simp add: calm_def locals_def)

lemma calm_record_request: "keeps calm (recordElicitRequest v h cl fp)"
  unfolding recordElicitRequest_def by (intro calm_rules calm_requests)

lemma calm_consume:
  "keeps calm (stmt (\<lambda>w. case consume_token tok t (elicit_tokens w) of (n, tab) \<Rightarrow> (n, w\<lparr>elicit_tokens := tab\<rparr>)))"
  by (rule calm_stmt) (auto simp: calm_def locals_def consume_token_def update_where_def table_simps split: option.splits prod.splits)

lemma calm_release: "keeps calm (releaseElicitToken tok)"
  unfolding releaseElicitToken_def
  by (rule calm_stmt) (auto simp: calm_def locals_def release_token_def table_simps split: if_splits)

lemma calm_drift: "(\<And>p. probe = Some p \<Longrightarrow> keeps calm p) \<Longrightarrow> keeps calm (assertNoReplayDrift fp probe d)"
  unfolding assertNoReplayDrift_def
  by (auto split: option.splits intro!: calm_rules)

lemma calm_verify:
  assumes "\<And>p. probe = Some p \<Longrightarrow> keeps calm p"
  shows "keeps calm (verifyAndConsumeElicit tok h v cl probe)"
  unfolding verifyAndConsumeElicit_def
  by (intro calm_rules calm_read_token calm_consume calm_drift assms)

lemma calm_state_ok:
  assumes "\<And>p. probe = Some p \<Longrightarrow> keeps calm p"
  shows "keeps calm (hitlSatisfiedByState st tool h v cl probe)"
  unfolding hitlSatisfiedByState_def by (intro calm_rules calm_drift assms)

lemma calm_required:
  assumes "\<And>p. probe = Some p \<Longrightarrow> keeps calm p"
  shows "keeps calm (elicitRequiredError v cl h probe d)"
  unfolding elicitRequiredError_def using assms
  by (cases probe) (simp; intro calm_rules calm_record_request; simp)+

lemma calm_confirmation:
  assumes "\<And>p. probe = Some p \<Longrightarrow> keeps calm p"
  shows "keeps calm (requireConfirmation tok st v cl h tool needed proposed probe)"
  unfolding requireConfirmation_def
  by (intro calm_rules calm_verify calm_state_ok calm_required assms)


subsection \<open>The steps of the pipeline\<close>

text \<open>The path gates change the shared ACL objects (a cached verdict) and nothing else.\<close>

definition acls_only :: "('e, 's, 'z) world_scheme \<Rightarrow> ('e, 's, 'z) world_scheme \<Rightarrow> bool" where
  "acls_only w w' \<longleftrightarrow> (\<exists>a. w' = w\<lparr>w_acls := a\<rparr>)"

lemma acls_self [simp]: "acls_only w w"
proof -
  have "w = w\<lparr>w_acls := w_acls w\<rparr>" by simp
  then show ?thesis unfolding acls_only_def by (rule exI [of _ "w_acls w"])
qed

lemma acls_refl: "reflp acls_only"
  by (simp add: reflp_def)

lemma acls_trans: "transp acls_only"
  by (auto simp: transp_def acls_only_def)

lemmas acls_rules =
  keeps_abind [OF acls_trans] keeps_acatch [OF acls_trans] keeps_pure [OF acls_refl] keeps_option keeps_if

lemma acls_path_acl: "keeps acls_only (path_acl dp ctx vroot t)"
  unfolding keeps_def path_acl_def
  by (auto split: prod.splits option.splits) (auto simp: acls_only_def)

lemma acls_path_acls: "keeps acls_only (path_acls dp ctx vroot ts)"
proof (induction ts)
  case Nil
  then show ?case by (simp add: keeps_def)
next
  case (Cons t ts)
  then show ?case by (simp only: path_acls.simps) (intro acls_rules acls_path_acl)
qed

lemma acls_central: "keeps acls_only (enforceCentralPathAcl dp d data ctx)"
  unfolding enforceCentralPathAcl_def by (auto split: option.splits intro!: acls_rules acls_path_acls)

lemma acls_read: "keeps acls_only (\<lambda>w. (f w, w))"
  by (simp add: keeps_def)

lemma acls_probe: "keeps acls_only (confirmationStateProbe dp d data ctx)"
proof -
  have paths: "keeps acls_only (probe_paths dp d data ctx vroot)" for vroot
    unfolding probe_paths_def by (auto split: option.splits intro!: acls_rules acls_path_acls)
  show ?thesis
    unfolding confirmationStateProbe_def Let_def
    by (auto split: confirmation_targets.splits intro!: acls_rules paths acls_read)
qed

lemma acls_calm: "acls_only s s' \<Longrightarrow> calm s s'"
  by (auto simp: acls_only_def calm_def locals_def)

lemma keeps_mono: "keeps R m \<Longrightarrow> (\<And>s s'. R s s' \<Longrightarrow> R' s s') \<Longrightarrow> keeps R' m"
  by (simp add: keeps_def)

lemma calm_central: "keeps calm (enforceCentralPathAcl dp d data ctx)"
  by (rule keeps_mono [OF acls_central acls_calm])

lemma locals_extend: "locals (world.extend w (world.more s)) = locals s"
  by (cases s) (simp add: locals_def world.defs)

lemma lift_snd: "snd (lift m s) = world.extend (snd (m (world.truncate s))) (world.more s)"
  by (simp add: lift_def split: prod.splits)

lemma calm_lift_acls:
  assumes "keeps acls_only m"
  shows "keeps calm (lift m)"
  unfolding keeps_def
proof
  fix s :: "('a, 'b) dispatch"
  from keepsD [OF assms, of "world.truncate s"] obtain a where
    "snd (m (world.truncate s)) = (world.truncate s)\<lparr>w_acls := a\<rparr>" by (auto simp: acls_only_def)
  then have "snd (lift m s) = s\<lparr>w_acls := a\<rparr>"
    by (cases s) (simp add: lift_snd world.defs)
  then show "calm s (snd (lift m s))" by (simp add: calm_def locals_def)
qed

lemma calm_probe: "keeps calm (lift (confirmationStateProbe dp d data ctx))"
  by (rule calm_lift_acls [OF acls_probe])

lemma calm_throttle: "keeps calm (throttle_gate dp)"
proof -
  have "keeps calm (throttleRefusal dp' cl sc v t)" for dp' cl sc v t
    by (auto simp: keeps_def throttleRefusal_def calm_def locals_def split: option.splits prod.splits)
  then show ?thesis unfolding throttle_gate_def by (intro calm_rules)
qed

lemma calm_duration: "keeps calm duration"
  unfolding duration_def by (intro calm_rules)

text \<open>A tool's own resolver and precheck may change the world, but not the local variables.\<close>

definition same_locals :: "('e, 's) dispatch \<Rightarrow> ('e, 's) dispatch \<Rightarrow> bool" where
  "same_locals s s' \<longleftrightarrow> locals s' = locals s"

lemma locals_rules:
  "reflp same_locals" "transp same_locals"
  by (simp_all add: reflp_def transp_def same_locals_def)

lemma locals_lift: "keeps same_locals (lift m)"
  by (simp add: keeps_def same_locals_def lift_snd locals_extend)

lemma wp_checkAborted [simp]:
  "wp (checkAborted ab) Q E s =
     (if ab (l_checks s) then E aborted_error (s\<lparr>l_checks := Suc (l_checks s)\<rparr>)
      else Q () (s\<lparr>l_checks := Suc (l_checks s)\<rparr>))"
  by (simp add: wp_def checkAborted_def)

lemma wp_when_claimed [simp]:
  "wp (when_claimed f) Q E s = (if owns_claim s then wp (f (idemAt s)) Q E s else Q () s)"
  by (simp add: wp_def when_claimed_def)

lemma wp_release_claim:
  "wp release_claim Q E s =
     (if owns_claim s then wp (deleteIdempotency (idemAt s)) Q (\<lambda>_. Q ()) s else Q () s)"
  by (simp add: release_claim_def)

end
