(* ===== verification/Dispatch_Safety.thy ===== *)
theory Dispatch_Safety
  imports Act_Logic
begin

text \<open>
  What the dispatcher guarantees end to end, over \<open>run_call\<close> (the outcome and the local variables a
  call ended with): the handler runs only behind the gates, an idempotency row survives the handler
  whatever faults, a refusal before the handler costs the caller neither its key nor its
  confirmation, and every outcome is a typed answer.
\<close>

subsection \<open>Stages before the claim\<close>

definition fresh :: "('e, 's) dispatch \<Rightarrow> bool" where
  "fresh s \<longleftrightarrow> l_idemKey s = None \<and> \<not> l_idemClaimed s \<and> \<not> l_handlerReturned s \<and>
     \<not> l_effectCommitted s \<and> \<not> l_handlerInvoked s \<and> l_spent s = None"

definition db_same :: "('e, 's, 'z) world_scheme \<Rightarrow> ('e, 's, 'z) world_scheme \<Rightarrow> bool" where
  "db_same w w' \<longleftrightarrow> m_clock w' = m_clock w \<and> m_fault w' = m_fault w \<and> idem_rows w' = idem_rows w"

text \<open>A tool whose own resolver and precheck leave the idempotency table alone.\<close>

definition quiet_tool :: "(('e, 's) world, 'e) dtool \<Rightarrow> bool" where
  "quiet_tool d \<longleftrightarrow>
     (case d_resolveTarget d of None \<Rightarrow> True | Some f \<Rightarrow> \<forall>data ctx. keeps db_same (f data ctx)) \<and>
     (case d_precheck d of None \<Rightarrow> True | Some f \<Rightarrow> \<forall>data ctx. keeps db_same (f data ctx))"

definition preclaim ::
    "(('e, 's) world, 'e) dtool \<Rightarrow> ('e, 's) dispatch \<Rightarrow> ('e, 's) dispatch \<Rightarrow> bool" where
  "preclaim d s s' \<longleftrightarrow> locals s' = locals s \<and> (quiet_tool d \<longrightarrow> db_same s s')"

lemma db_rules: "reflp db_same" "transp db_same"
  by (simp_all add: reflp_def transp_def db_same_def)

lemma calm_preclaim: "calm s s' \<Longrightarrow> preclaim d s s'"
  by (simp add: calm_def preclaim_def db_same_def)

lemma extend_fields:
  "m_clock (world.extend w x) = m_clock w" "m_fault (world.extend w x) = m_fault w"
  "idem_rows (world.extend w x) = idem_rows w" "m_clock (world.truncate s) = m_clock s"
  "m_fault (world.truncate s) = m_fault s" "idem_rows (world.truncate s) = idem_rows s"
  by (cases w; cases s; simp add: world.defs)+

lemma db_lift: "keeps db_same m \<Longrightarrow> keeps db_same (lift m)"
  unfolding keeps_def db_same_def by (simp add: lift_snd extend_fields)

lemma preclaim_lift:
  assumes "quiet_tool d \<Longrightarrow> keeps db_same m"
  shows "keeps (preclaim d) (lift m)"
  using keepsD [OF locals_lift [of m]] keepsD [OF db_lift [OF assms]]
  by (auto simp: keeps_def preclaim_def same_locals_def)

lemma acls_db: "acls_only w w' \<Longrightarrow> db_same w w'"
  by (auto simp: acls_only_def db_same_def)

lemma preclaim_target:
  "keeps (preclaim d) (lift (bindResolvedTarget dp d data rawInput ctx))"
proof (rule preclaim_lift)
  assume q: "quiet_tool d"
  have c: "keeps db_same (enforceCentralPathAcl dp d x y)" for x y
    by (rule keeps_mono [OF acls_central acls_db])
  show "keeps db_same (bindResolvedTarget dp d data rawInput ctx)"
    using q unfolding bindResolvedTarget_def Let_def quiet_tool_def
    by (auto split: option.splits
        intro!: keeps_abind [OF db_rules(2)] keeps_acatch [OF db_rules(2)] keeps_pure [OF db_rules(1)] c)
qed

lemma preclaim_precheck: "keeps (preclaim d) (lift (case d_precheck d of None \<Rightarrow> ret () | Some f \<Rightarrow> f data ctx))"
  by (rule preclaim_lift) (auto simp: quiet_tool_def intro: keeps_pure [OF db_rules(1)] split: option.splits)

lemma fresh_locals: "locals s' = locals s \<Longrightarrow> fresh s' = fresh s"
  by (simp add: locals_def fresh_def)

lemma authorize_wp:
  assumes "fresh s"
  shows "wp (stage_authorize dp c)
    (\<lambda>(d, input, effectiveInput, au) s'. fresh s' \<and> db_same s s' \<and> toolStore dp (c_name c) = Some d \<and>
       \<not> isToolDisabledFor (toolVisibility dp) (w_acls s) d (l_ctx s) \<and>
       parseInput d (fst (withDefaultVault d (c_input c) (l_ctx s) (visibleVaultIds dp))) = Inr input \<and>
       runAuthorizationGates (deps.truncate dp) (w_acls s) (c_name c) d input (l_ctx s) = Inr au \<and>
       l_ctx s' = a_ctx au)
    (\<lambda>_ s'. fresh s' \<and> db_same s s') s"
  using assms unfolding stage_authorize_def
  by (auto simp: Let_def fresh_def db_same_def split: option.splits sum.splits prod.splits)

lemma target_wp:
  assumes "fresh s"
  shows "wp (stage_target dp d input effectiveInput)
    (\<lambda>_ s'. fresh s' \<and> l_ctx s' = l_ctx s \<and> (quiet_tool d \<longrightarrow> db_same s s'))
    (\<lambda>_ s'. fresh s' \<and> l_ctx s' = l_ctx s) s"
proof -
  have step: "wp m Q E s1" if "keeps (preclaim d) m" and "preclaim d s s1"
    and "\<And>a s'. preclaim d s s' \<Longrightarrow> Q a s'" and "\<And>e s'. preclaim d s s' \<Longrightarrow> E e s'"
    for m Q E s1
    by (rule wp_keeps [OF that(1)])
      (use that in \<open>auto simp: preclaim_def db_same_def\<close>)
  have ok: "fresh s' \<and> l_ctx s' = l_ctx s \<and> (quiet_tool d \<longrightarrow> db_same s s')" if "preclaim d s s'" for s'
    using that assms fresh_locals [of s' s] by (simp add: preclaim_def locals_def)
  have th: "keeps (preclaim d) (throttle_gate dp)"
    by (rule keeps_mono [OF calm_throttle calm_preclaim])
  have s: "preclaim d s s" by (simp add: preclaim_def db_same_def)
  have pure: "reflp (preclaim d)" "transp (preclaim d)"
    by (auto simp: reflp_def transp_def preclaim_def db_same_def)
  have first: "keeps (preclaim d) (if d_resolveTarget d \<noteq> None
      then abind (throttle_gate dp) (\<lambda>r. case r of None \<Rightarrow> ret () | Some e \<Rightarrow> raise e) else ret ())"
    by (intro keeps_if keeps_abind [OF pure(2)] th keeps_option keeps_pure [OF pure(1)])
  show ?thesis
    unfolding stage_target_def wp_abind
  proof (rule step [OF first s])
    fix s1 assume p: "preclaim d s s1"
    show "wp (gets l_ctx) (\<lambda>ctx. wp (lift (bindResolvedTarget (deps.truncate dp) d input effectiveInput ctx))
        (\<lambda>target. wp (case target of None \<Rightarrow> ret (input, None)
            | Some b \<Rightarrow> abind (modify (\<lambda>s. s\<lparr>l_hash := bt_hash b\<rparr>)) (\<lambda>_. ret (bt_input b, nonempty_path (get_field ''path'' (bt_bound b)))))
          (\<lambda>_ s'. fresh s' \<and> l_ctx s' = l_ctx s \<and> (quiet_tool d \<longrightarrow> db_same s s')) (\<lambda>_ s'. fresh s' \<and> l_ctx s' = l_ctx s))
        (\<lambda>_ s'. fresh s' \<and> l_ctx s' = l_ctx s)) (\<lambda>_ s'. fresh s' \<and> l_ctx s' = l_ctx s) s1"
      unfolding wp_gets
      by (rule step [OF preclaim_target p])
        (auto dest: ok simp: fresh_def db_same_def split: option.splits)
  qed (simp add: ok)
qed

text \<open>The claim: only a free key is claimed, and the row is then this call's own.\<close>

definition frozen :: "('e, 's) dispatch \<Rightarrow> ('e, 's) dispatch \<Rightarrow> bool" where
  "frozen s s' \<longleftrightarrow> l_ctx s' = l_ctx s \<and> l_hash s' = l_hash s \<and> l_idemKey s' = l_idemKey s \<and>
     l_idemClaimed s' = l_idemClaimed s \<and> l_idemPrincipal s' = l_idemPrincipal s \<and>
     m_clock s' = m_clock s \<and> m_fault s' = m_fault s \<and> (l_spent s \<noteq> None \<longrightarrow> l_spent s' \<noteq> None)"

definition pending :: "('e, 's) dispatch \<Rightarrow> bool" where
  "pending s \<longleftrightarrow> \<not> l_handlerReturned s \<and> \<not> l_effectCommitted s \<and> \<not> l_handlerInvoked s"

text \<open>The row of an owned claim, with the readings its times were taken from.\<close>

definition stamped :: "int \<Rightarrow> ('e, 's) dispatch \<Rightarrow> (idem_row \<Rightarrow> bool) \<Rightarrow> bool" where
  "stamped ttl s p \<longleftrightarrow> (owns_claim s \<longrightarrow>
     (\<exists>row i. map_of (idem_rows s) (idemAt s) = Some row \<and> i_started_at row = m_clock s i \<and>
        i_expires_at row = m_clock s i + ttl \<and> p row))"

abbreviation held :: "int \<Rightarrow> ('e, 's) dispatch \<Rightarrow> bool" where
  "held ttl s \<equiv> stamped ttl s (\<lambda>row. i_completed_at row = None)"

abbreviation kept :: "int \<Rightarrow> ('e, 's) dispatch \<Rightarrow> bool" where
  "kept ttl s \<equiv> stamped ttl s (\<lambda>row. (\<forall>n. \<not> m_fault s n) \<longrightarrow> i_state row \<noteq> In_flight)"

definition claim_step :: "('e, 's) dispatch \<Rightarrow> ('e, 's) dispatch \<Rightarrow> bool" where
  "claim_step s s' \<longleftrightarrow> locals s' = locals s \<and> m_clock s' = m_clock s \<and> m_fault s' = m_fault s"

lemma claim_rules: "reflp claim_step" "transp claim_step"
  by (simp_all add: reflp_def transp_def claim_step_def)

lemma claim_idem: "keeps claim_step (on_idem f)"
  by (auto simp: wp_keeps_iff wp_on_idem claim_step_def locals_def)

lemma claim_now: "keeps claim_step now"
  by (simp add: wp_keeps_iff claim_step_def locals_def)

lemma claim_step_claim: "keeps claim_step (claimOrReplay parse k tool h ttl rm m)"
proof -
  note r = keeps_abind [OF claim_rules(2)] keeps_pure [OF claim_rules(1)] claim_now claim_idem keeps_if
  have "keeps claim_step (resolve_row parse k tool h m found)" for found
    unfolding resolve_row_def idem_ops by (auto split: option.splits intro!: r)
  moreover have "keeps claim_step (reclaimable rm found)" for found
    unfolding reclaimable_def by (auto split: option.splits intro!: r)
  ultimately show ?thesis
    unfolding claimOrReplay_def idem_ops by (intro r)
qed

lemma claim_wp:
  assumes "fresh s"
  shows "wp (stage_idempotency dp name input)
    (\<lambda>a s'. pending s' \<and> l_spent s' = None \<and> l_ctx s' = l_ctx s \<and> (a \<noteq> None \<longrightarrow> \<not> l_idemClaimed s') \<and>
       (a = None \<longrightarrow> held (idempotencyTtlMs dp) s' \<and> (l_idemKey s' \<noteq> None \<longrightarrow>
          (\<exists>t1 t2. free_at (m_clock s t1) (m_clock s t2) (idempotencyReclaimMs dp) (map_of (idem_rows s) (idemAt s'))))))
    (\<lambda>_ s'. pending s' \<and> l_spent s' = None \<and> l_ctx s' = l_ctx s \<and> \<not> l_idemClaimed s') s"
proof (cases "extractIdempotencyKey input")
  case None
  with assms show ?thesis
    by (simp add: stage_idempotency_def fresh_def pending_def stamped_def owns_claim_def)
next
  case (Some key)
  show ?thesis
  proof (cases "requireIdentifiedCaller (l_ctx s) ''idempotency_key''")
    case (Inl e)
    with Some assms show ?thesis by (simp add: stage_idempotency_def fresh_def pending_def)
  next
    case (Inr who)
    let ?s1 = "s\<lparr>l_idemKey := Some key, l_idemPrincipal := who\<rparr>"
    let ?m = "claimOrReplay (dp_parse dp) (idemAt ?s1) name (l_hash s) (idempotencyTtlMs dp)
        (idempotencyReclaimMs dp) (maxResponseBytes dp)"
    obtain r s2 where m: "?m ?s1 = (r, s2)" by (cases "?m ?s1")
    have k: "locals s2 = locals ?s1" "m_clock s2 = m_clock s"
      using keepsD [OF claim_step_claim, of ?s1 "dp_parse dp" "idemAt ?s1" name "l_hash s" "idempotencyTtlMs dp"
          "idempotencyReclaimMs dp" "maxResponseBytes dp"]
      by (simp_all add: m claim_step_def)
    have at: "idemAt (s2\<lparr>l_idemClaimed := True\<rparr>) = idemAt ?s1"
      using k by (simp add: idemAt_def locals_def)
    have "wp (stage_idempotency dp name input) Q E s =
        (case r of Inl e \<Rightarrow> E e s2 | Inr res \<Rightarrow> wp (answer_claim dp key res) Q E s2)" for Q E
    proof -
      have "wp ?m Q' E ?s1 = (case r of Inl e \<Rightarrow> E e s2 | Inr res \<Rightarrow> Q' res s2)" for Q'
        by (simp add: wp_def m)
      with Some Inr show ?thesis by (simp add: stage_idempotency_def)
    qed
    moreover have "held (idempotencyTtlMs dp) (s2\<lparr>l_idemClaimed := True\<rparr>) \<and>
        (\<exists>t1 t2. free_at (m_clock s t1) (m_clock s t2) (idempotencyReclaimMs dp) (map_of (idem_rows s) (idemAt ?s1)))"
      if "r = Inr Claimed"
      using claim_or_replay_claimed [OF m [unfolded that]] k at
      by (auto simp: stamped_def new_row_def)
    ultimately show ?thesis
      using k assms at
      by (cases r) (auto simp: answer_claim_def fresh_def pending_def locals_def duration_def
          idemAt_def split: claim_result.splits)
  qed
qed

subsection \<open>Gates between the claim and the handler\<close>

definition spent_ok :: "('e, 's) dispatch \<Rightarrow> bool" where
  "spent_ok s \<longleftrightarrow> (\<forall>tok. l_spent s = Some tok \<longrightarrow> map_of (elicit_tokens s) tok \<noteq> None)"

definition waiting :: "('e, 's) dispatch \<Rightarrow> ('e, 's) dispatch \<Rightarrow> bool" where
  "waiting s0 s \<longleftrightarrow> frozen s0 s \<and> pending s \<and> spent_ok s"

lemma calm_waiting: "waiting s0 s \<Longrightarrow> calm s s' \<Longrightarrow> waiting s0 s' \<and> idem_rows s' = idem_rows s"
  by (auto simp: waiting_def frozen_def pending_def spent_ok_def calm_def locals_def)

lemma release_waiting:
  assumes "waiting s0 s" and "\<And>s'. waiting s0 s' \<Longrightarrow> l_ctx s' = l_ctx s \<Longrightarrow> l_hash s' = l_hash s \<Longrightarrow> Q () s'"
  shows "wp release_claim Q E s"
  using assms
  by (auto simp: wp_release_claim deleteIdempotency_def wp_on_idem waiting_def frozen_def pending_def spent_ok_def)

lemma wp_waiting:
  assumes "keeps calm m" and "waiting s0 s"
    and "\<And>a s'. waiting s0 s' \<Longrightarrow> idem_rows s' = idem_rows s \<Longrightarrow> Q a s'" and "\<And>e s'. waiting s0 s' \<Longrightarrow> E e s'"
  shows "wp m Q E s"
  by (rule wp_keeps [OF assms(1)]) (use assms calm_waiting in blast)+

lemma waiting_checks [simp]: "waiting s0 (s\<lparr>l_checks := n\<rparr>) = waiting s0 s"
  by (simp add: waiting_def frozen_def pending_def spent_ok_def)

lemma throttle_wp:
  assumes "waiting s0 s"
  shows "wp (stage_throttle dp d ab mutating)
    (\<lambda>_ s'. waiting s0 s' \<and> idem_rows s' = idem_rows s) (\<lambda>_ s'. waiting s0 s') s"
proof -
  let ?Q = "\<lambda>_ s'. waiting s0 s' \<and> idem_rows s' = idem_rows s"
  let ?E = "\<lambda>_ s'. waiting s0 s'"
  have gate: "keeps calm (if d_resolveTarget d \<noteq> None then ret None else throttle_gate dp)"
    by (intro calm_rules calm_throttle)
  have rest: "wp (case refused of None \<Rightarrow> ret () | Some e \<Rightarrow> abind release_claim (\<lambda>_. raise e))
      (\<lambda>_. wp (checkAborted ab) (\<lambda>_. wp (if mutating then checkAborted ab else ret ()) ?Q ?E) ?E) ?E s1"
    if "waiting s0 s1" "idem_rows s1 = idem_rows s" for refused s1
    using that by (cases refused) (auto intro: release_waiting)
  show ?thesis
  proof (cases "ab (l_checks s)")
    case True
    with assms show ?thesis by (simp add: stage_throttle_def)
  next
    case False
    have "waiting s0 (s\<lparr>l_checks := Suc (l_checks s)\<rparr>)" using assms by simp
    then show ?thesis
      unfolding stage_throttle_def wp_abind wp_checkAborted if_not_P [OF False]
      by (rule wp_waiting [OF gate]) (rule rest [unfolded wp_checkAborted], simp_all)
  qed
qed

lemma wp_verify_ok:
  assumes "\<And>p. probe = Some p \<Longrightarrow> keeps calm p"
  shows "wp (verifyAndConsumeElicit tok h v cl probe)
    (\<lambda>b s'. calm s s' \<and> (b \<longrightarrow> map_of (elicit_tokens s') tok \<noteq> None)) (\<lambda>_ s'. calm s s') s"
proof (cases "map_of (elicit_tokens s) tok")
  case None
  then show ?thesis
    by (simp add: verifyAndConsumeElicit_def wp_stmt Let_def calm_def locals_def)
next
  case (Some row)
  show ?thesis
    by (rule wp_keeps [OF calm_verify [OF assms]]) (auto simp: calm_def Some)
qed

definition state_confirms :: "str \<Rightarrow> ('e, 's) dispatch \<Rightarrow> bool" where
  "state_confirms name s \<longleftrightarrow>
     (case x_elicitState (l_ctx s) of
        None \<Rightarrow> False
      | Some st \<Rightarrow> stateAuthorizes st name (l_hash s) (x_vaultId (l_ctx s)) (x_caller (l_ctx s)))"

lemma check_hitl_wp:
  assumes "keeps calm probe"
  shows "wp (checkHitl tok st v cl h name (if wired then Some (builtin_verifier ctx) else None) probe)
    (\<lambda>(ok, spent) s'. calm s s' \<and> (\<forall>t. spent = Some t \<longrightarrow> map_of (elicit_tokens s') t \<noteq> None) \<and>
       (ok \<longrightarrow> spent \<noteq> None \<or> (\<exists>x. st = Some x \<and> stateAuthorizes x name h v cl)))
    (\<lambda>_ s'. calm s s') s"
proof -
  have state: "wp (hitlSatisfiedByState st name h v cl (Some probe))
      (\<lambda>b s'. calm s s' \<and> (b \<longrightarrow> (\<exists>x. st = Some x \<and> stateAuthorizes x name h v cl)))
      (\<lambda>_ s'. calm s s') s1" if "calm s s1" for s1
  proof (cases "\<exists>x. st = Some x \<and> stateAuthorizes x name h v cl")
    case True
    show ?thesis
      by (rule wp_keeps [OF calm_state_ok]) (use True assms that transpD [OF calm_trans] in auto)
  next
    case False
    then show ?thesis using that by (auto simp: hitlSatisfiedByState_def split: option.splits)
  qed
  have verify: "wp (builtin_verifier ctx t h probe)
      (\<lambda>b s'. calm s s' \<and> (b \<longrightarrow> map_of (elicit_tokens s') t \<noteq> None)) (\<lambda>_ s'. calm s s') s" for t
    unfolding builtin_verifier_def by (rule wp_verify_ok) (use assms in auto)
  show ?thesis
  proof (cases "nonempty tok = None \<or> \<not> wired")
    case True
    then show ?thesis
      using state [OF reflpD [OF calm_refl]]
      by (auto simp: checkHitl_def split: option.splits elim!: wp_mono)
  next
    case False
    then obtain t where t: "nonempty tok = Some t" and w: "wired" by auto
    show ?thesis
      unfolding checkHitl_def wp_abind t
      by (simp add: w) (rule wp_mono [OF verify], auto intro!: wp_mono [OF state])
  qed
qed

lemma hitl_wp:
  assumes "waiting s0 s" and "keeps calm probe"
  shows "wp (stage_hitl dp name policy resolvedPath probe)
    (\<lambda>_ s'. waiting s0 s' \<and> idem_rows s' = idem_rows s \<and>
       (hitlRequired (p_destructive policy) (p_requiredScopes policy) \<longrightarrow> l_spent s' \<noteq> None \<or> state_confirms name s'))
    (\<lambda>_ s'. waiting s0 s') s"
proof (cases "hitlRequired (p_destructive policy) (p_requiredScopes policy)")
  case False
  with assms show ?thesis by (simp add: stage_hitl_def)
next
  case True
  have refuse: "wp (elicitRequiredError v cl h (Some probe) det) E E s1"
    if "waiting s0 s1" and "\<And>e s'. waiting s0 s' \<Longrightarrow> E e s'" for v cl h det E s1
    using assms(2) that by (auto intro!: wp_waiting [OF calm_required])
  have spend: "waiting s0 (s'\<lparr>l_spent := Some t\<rparr>)" if "waiting s0 s'" "map_of (elicit_tokens s') t \<noteq> None" for s' t
    using that by (auto simp: waiting_def frozen_def pending_def spent_ok_def)
  show ?thesis
    unfolding stage_hitl_def Let_def wp_abind wp_gets wp_if
    using True
    apply (simp only: if_False not_True_eq_False simp_thms)
    apply (rule wp_mono [OF check_hitl_wp [OF assms(2)]])
    subgoal for a s'
      using assms(1) calm_waiting [OF assms(1), of s']
      apply (cases a; cases "snd a"; cases "fst a")
         apply (auto intro!: release_waiting refuse spend)
      apply (simp add: state_confirms_def calm_def locals_def)
      done
    subgoal using assms(1) calm_waiting by blast
    done
qed

lemma marker_wp:
  assumes "waiting s0 s"
  shows "wp (install_marker busy)
    (\<lambda>_ s'. waiting s0 s' \<and> idem_rows s' = idem_rows s \<and> locals (s'\<lparr>l_marker := l_marker s\<rparr>) = locals s)
    (\<lambda>_ s'. waiting s0 s') s"
  using assms
  by (auto simp: wp_def install_marker_def waiting_def frozen_def pending_def spent_ok_def locals_def)

subsection \<open>The handler\<close>

text \<open>While the handler runs: the claim's row stays, whatever it signals, confirms or rolls back.\<close>

definition running :: "int \<Rightarrow> ('e, 's) dispatch \<Rightarrow> ('e, 's) dispatch \<Rightarrow> bool" where
  "running ttl s s' \<longleftrightarrow> frozen s s' \<and> l_handlerReturned s' = l_handlerReturned s \<and>
     l_handlerInvoked s' = l_handlerInvoked s \<and> (held ttl s \<longrightarrow> held ttl s')"

lemma running_rules: "reflp (running ttl)" "transp (running ttl)"
  by (auto simp: reflp_def transp_def running_def frozen_def)

lemma calm_running: "calm s s' \<Longrightarrow> running ttl s s'"
  by (simp add: calm_def running_def frozen_def stamped_def owns_claim_def idemAt_def locals_def)

definition same_flags :: "('e, 's) dispatch \<Rightarrow> ('e, 's) dispatch \<Rightarrow> bool" where
  "same_flags s s' \<longleftrightarrow> l_handlerReturned s' = l_handlerReturned s \<and> l_handlerInvoked s' = l_handlerInvoked s \<and>
     l_effectCommitted s' = l_effectCommitted s"

text \<open>An update of the claim's own row that keeps its times.\<close>

lemma own_row_wp:
  assumes "stamped ttl s p"
    and "\<And>r. p r \<Longrightarrow> q r \<and> p' (f r) \<and> i_started_at (f r) = i_started_at r \<and> i_expires_at (f r) = i_expires_at r"
  shows "wp (on_idem (\<lambda>t. ((), snd (update_where (idemAt s) q f t))))
    (\<lambda>_ s'. frozen s s' \<and> same_flags s s' \<and> stamped ttl s' p')
    (\<lambda>_ s'. frozen s s' \<and> same_flags s s' \<and> stamped ttl s' p \<and> (\<exists>n. m_fault s' n)) s"
proof -
  have at: "idemAt (s\<lparr>m_stmt := n, idem_rows := t\<rparr>) = idemAt s" "owns_claim (s\<lparr>m_stmt := n, idem_rows := t\<rparr>) = owns_claim s"
    "idemAt (s\<lparr>m_stmt := n\<rparr>) = idemAt s" "owns_claim (s\<lparr>m_stmt := n\<rparr>) = owns_claim s" for n t
    by (simp_all add: idemAt_def owns_claim_def)
  show ?thesis
  proof (cases "owns_claim s")
    case False
    then show ?thesis by (auto simp: wp_on_idem frozen_def same_flags_def stamped_def at)
  next
    case True
    with assms(1) obtain row i where r: "map_of (idem_rows s) (idemAt s) = Some row"
      "i_started_at row = m_clock s i" "i_expires_at row = m_clock s i + ttl" "p row"
      by (auto simp: stamped_def)
    from assms(2) [OF r(4)] r show ?thesis
      by (auto simp: wp_on_idem frozen_def same_flags_def stamped_def at table_simps)
  qed
qed

lemma stamped_mono: "stamped ttl s p \<Longrightarrow> (\<And>r. p r \<Longrightarrow> p' r) \<Longrightarrow> stamped ttl s p'"
  by (auto simp: stamped_def)

lemma mark_wp:
  assumes "held ttl s"
  shows "wp (markEffectCommitted (idemAt s))
    (\<lambda>_ s'. frozen s s' \<and> same_flags s s' \<and>
       stamped ttl s' (\<lambda>row. i_completed_at row = None \<and> i_state row = Effect_committed))
    (\<lambda>_ s'. frozen s s' \<and> same_flags s s' \<and> held ttl s' \<and> (\<exists>n. m_fault s' n)) s"
  unfolding markEffectCommitted_def by (rule own_row_wp [OF assms]) (simp add: committed_row_def)

lemma held_tick [simp]: "stamped ttl (s\<lparr>m_tick := n\<rparr>) p = stamped ttl s p" "idemAt (s\<lparr>m_tick := n\<rparr>) = idemAt s"
  "owns_claim (s\<lparr>m_tick := n\<rparr>) = owns_claim s"
  by (simp_all add: stamped_def idemAt_def owns_claim_def)

lemma wp_signal_commit:
  "wp signal_commit Q E s =
     (if \<not> l_marker s then Q () s
      else case l_idemKey s of
        None \<Rightarrow> Q () (s\<lparr>l_effectCommitted := True\<rparr>)
      | Some _ \<Rightarrow> wp (markEffectCommitted (idemAt s)) (\<lambda>_ s'. Q () (s'\<lparr>l_effectCommitted := True\<rparr>)) E (s\<lparr>m_tick := Suc (m_tick s)\<rparr>))"
proof -
  show ?thesis
    by (cases "l_idemKey s") (simp_all add: wp_def signal_commit_def abind_def now_def split: prod.splits sum.splits)
qed

lemma running_committed [simp]: "running ttl s (s'\<lparr>l_effectCommitted := b\<rparr>) = running ttl s s'"
  by (simp add: running_def frozen_def stamped_def owns_claim_def idemAt_def)

lemma running_tick [simp]: "running ttl (s\<lparr>m_tick := n\<rparr>) = running ttl s"
  by (simp add: running_def frozen_def fun_eq_iff)

lemma mark_running: "wp (markEffectCommitted (idemAt s)) (\<lambda>_. running ttl s) (\<lambda>_. running ttl s) s"
proof (cases "held ttl s")
  case True
  show ?thesis
    by (rule wp_mono [OF mark_wp [OF True]])
      (auto simp: running_def same_flags_def elim: stamped_mono)
next
  case False
  then show ?thesis by (simp add: markEffectCommitted_def wp_on_idem running_def frozen_def)
qed

lemma running_refl [simp]: "running ttl s s"
  by (rule reflpD [OF running_rules(1)])

lemma wp_signal_running: "wp signal_commit (\<lambda>_. running ttl s) (\<lambda>_. running ttl s) s"
  using mark_running [of "s\<lparr>m_tick := Suc (m_tick s)\<rparr>" ttl]
  by (simp add: wp_signal_commit split: option.splits)

lemma signal_running: "keeps (running ttl) signal_commit"
  by (simp add: wp_keeps_iff wp_signal_running)

lemma rollback_running: "running ttl s0 s \<Longrightarrow> running ttl s0 (rollback_to s0 s)"
  by (simp add: running_def frozen_def rollback_to_def stamped_def owns_claim_def idemAt_def)

lemma script_running:
  assumes "keeps calm probe"
  shows "keeps (running ttl) (run_script dp name probe h)"
proof (induction h)
  case (H_effect f h)
  have "keeps (running ttl) (modify (\<lambda>s. s\<lparr>w_env := f (w_env s)\<rparr>))" for f
    by (simp add: keeps_def running_def frozen_def stamped_def owns_claim_def idemAt_def)
  with H_effect show ?case by (simp only: run_script.simps) (intro keeps_abind [OF running_rules(2)])
next
  case (H_mark h)
  then show ?case by (simp only: run_script.simps) (intro keeps_abind [OF running_rules(2)] signal_running)
next
  case (H_confirm needed input proposed h)
  have c: "keeps (running ttl) (requireConfirmation t st v cl ha tool needed proposed (Some probe))"
    for t st v cl ha tool needed proposed
    by (rule keeps_mono [OF calm_confirmation calm_running]) (use assms in auto)
  have m: "keeps (running ttl) (modify (\<lambda>s. case spent of None \<Rightarrow> s | Some tok \<Rightarrow> s\<lparr>l_spent := Some tok\<rparr>))" for spent
    by (simp add: keeps_def running_def frozen_def stamped_def owns_claim_def idemAt_def split: option.splits)
  from H_confirm show ?case
    by (simp only: run_script.simps)
      (intro keeps_abind [OF running_rules(2)] keeps_pure [OF running_rules(1)] c m)
next
  case (H_txn body h)
  have body: "wp (run_script dp name probe body) (\<lambda>_. running ttl s) (\<lambda>_. running ttl s) s" for s
    using H_txn(1) by (simp add: wp_keeps_iff)
  have h: "wp (run_script dp name probe h) (\<lambda>_. running ttl s) (\<lambda>_. running ttl s) s1" if "running ttl s s1" for s s1
    by (rule wp_keeps [OF H_txn(2)]) (use that transpD [OF running_rules(2)] in blast)+
  show ?case
    unfolding wp_keeps_iff
    by (auto intro!: wp_mono [OF body] h rollback_running)
qed (simp_all add: keeps_def)

lemma local_updates [simp]:
  "stamped ttl (s\<lparr>l_checks := n\<rparr>) p = stamped ttl s p"
  "stamped ttl (s\<lparr>l_handlerInvoked := b\<rparr>) p = stamped ttl s p"
  "stamped ttl (s\<lparr>l_handlerReturned := b\<rparr>) p = stamped ttl s p"
  "idemAt (s\<lparr>l_handlerReturned := b\<rparr>) = idemAt s"
  "owns_claim (s\<lparr>l_handlerReturned := b\<rparr>) = owns_claim s"
  "frozen s0 (s\<lparr>l_handlerInvoked := b\<rparr>) = frozen s0 s"
  "frozen s0 (s\<lparr>l_handlerReturned := b\<rparr>) = frozen s0 s"
  "frozen s0 (s\<lparr>m_tick := n\<rparr>) = frozen s0 s"
  "waiting s0 (s\<lparr>m_tick := n\<rparr>) = waiting s0 s"
  by (simp_all add: stamped_def idemAt_def owns_claim_def frozen_def waiting_def pending_def spent_ok_def)

lemma frozen_trans: "frozen s0 s \<Longrightarrow> frozen s s' \<Longrightarrow> frozen s0 s'"
  by (auto simp: frozen_def)

lemma calm_held: "calm s s' \<Longrightarrow> held ttl s \<Longrightarrow> held ttl s'"
  using calm_running [of s s' ttl] by (simp add: running_def)

text \<open>A statement on the claim's own row, after a reading of the clock.\<close>

lemma owned_wp:
  assumes "stamped ttl s p"
    and "\<And>t s. stamped ttl s p \<Longrightarrow> wp (act (idemAt s) t)
      (\<lambda>_ s'. frozen s s' \<and> same_flags s s' \<and> stamped ttl s' q)
      (\<lambda>_ s'. frozen s s' \<and> same_flags s s' \<and> stamped ttl s' p \<and> (\<exists>n. m_fault s' n)) s"
  shows "wp (when_claimed (\<lambda>k. abind now (act k)))
    (\<lambda>_ s'. frozen s s' \<and> same_flags s s' \<and> stamped ttl s' q)
    (\<lambda>_ s'. frozen s s' \<and> same_flags s s' \<and> stamped ttl s' p \<and> (\<exists>n. m_fault s' n)) s"
proof (cases "owns_claim s")
  case False
  then show ?thesis by (simp add: stamped_def frozen_def same_flags_def)
next
  case True
  let ?s = "s\<lparr>m_tick := Suc (m_tick s)\<rparr>"
  have f: "frozen ?s s' = frozen s s'" "same_flags ?s s' = same_flags s s'" for s'
    by (simp_all add: frozen_def same_flags_def)
  have "stamped ttl ?s p" using assms(1) by simp
  from assms(2) [OF this] True show ?thesis by (simp add: f)
qed

lemma execute_wp:
  assumes "waiting s0 s" and "held ttl s" and "keeps calm probe"
  shows "wp (execute dp d name input probe ab)
    (\<lambda>_ s'. frozen s0 s' \<and> l_handlerInvoked s' \<and> l_handlerReturned s' \<and>
       stamped ttl s' (\<lambda>row. i_completed_at row = None \<and> i_state row = Effect_committed))
    (\<lambda>_ s'. frozen s0 s' \<and> (l_handlerInvoked s' \<longrightarrow> held ttl s') \<and>
       (\<not> l_handlerInvoked s' \<longrightarrow> waiting s0 s')) s"
    (is "wp _ ?Q ?E s")
proof -
  have script: "wp (run_script dp name probe h) (\<lambda>out. wp now (\<lambda>_. wp (modify (\<lambda>s. s\<lparr>l_handlerReturned := True\<rparr>))
      (\<lambda>_. wp (when_claimed (\<lambda>k. abind now (\<lambda>_. markEffectCommitted k))) (\<lambda>_. wp (ret out) ?Q ?E) ?E) ?E) ?E) ?E s1"
    if "frozen s0 s1" "l_handlerInvoked s1" "held ttl s1" for h s1
  proof (rule wp_keeps [OF script_running [OF assms(3)]])
    fix a s2 assume r: "running ttl s1 s2"
    then have "frozen s0 s2 \<and> l_handlerInvoked s2 \<and> held ttl s2"
      using that frozen_trans by (auto simp: running_def)
    then have f: "frozen s0 s3" "l_handlerInvoked s3" "held ttl s3" "l_handlerReturned s3"
      if "s3 = s2\<lparr>m_tick := Suc (m_tick s2), l_handlerReturned := True\<rparr>" for s3
      using that by simp_all
    show "wp now (\<lambda>_. wp (modify (\<lambda>s. s\<lparr>l_handlerReturned := True\<rparr>))
      (\<lambda>_. wp (when_claimed (\<lambda>k. abind now (\<lambda>_. markEffectCommitted k))) (\<lambda>_. wp (ret a) ?Q ?E) ?E) ?E) ?E s2"
      unfolding wp_now wp_modify wp_ret
      by (rule wp_mono [OF owned_wp [OF f(3) mark_wp]])
        (use f frozen_trans [OF f(1)] in \<open>auto simp: same_flags_def\<close>)
  next
    fix e s2 assume "running ttl s1 s2"
    then show "?E e s2" using that frozen_trans by (auto simp: running_def)
  qed
  show ?thesis
    unfolding execute_def invoke_handler_def wp_abind wp_gets
  proof (rule wp_keeps [OF calm_central])
    fix s1 assume c: "calm s s1"
    note w = conjunct1 [OF calm_waiting [OF assms(1) c]] and h = calm_held [OF c assms(2)]
    show "wp (checkAborted ab) (\<lambda>_. wp now (\<lambda>_. wp (modify (\<lambda>s. s\<lparr>l_handlerInvoked := True\<rparr>))
        (\<lambda>_ s. wp (run_script dp name probe (d_handler d input (l_ctx s) (w_env s)))
          (\<lambda>out. wp now (\<lambda>_. wp (modify (\<lambda>s. s\<lparr>l_handlerReturned := True\<rparr>))
            (\<lambda>_. wp (when_claimed (\<lambda>k. abind now (\<lambda>_. markEffectCommitted k))) (\<lambda>_. wp (ret out) ?Q ?E) ?E) ?E) ?E)
          ?E s) ?E) ?E) ?E s1"
      unfolding wp_checkAborted wp_now wp_modify
      using w h script [unfolded wp_now wp_modify]
      by (auto simp: waiting_def pending_def frozen_def spent_ok_def)
  next
    fix e s1 assume c: "calm s s1"
    then show "?E e s1"
      using calm_waiting [OF assms(1) c] calm_held [OF c assms(2)] by (auto simp: waiting_def)
  qed
qed

subsection \<open>After the handler, and after a throw\<close>

lemma calm_frozen: "calm s s' \<Longrightarrow> frozen s s' \<and> same_flags s s' \<and> idem_rows s' = idem_rows s"
  by (auto simp: calm_def frozen_def same_flags_def locals_def)

lemma calm_stamped: "calm s s' \<Longrightarrow> stamped ttl s' p = stamped ttl s p"
  by (simp add: calm_def stamped_def owns_claim_def idemAt_def locals_def)

lemma finalize_wp:
  assumes "stamped ttl s p"
  shows "wp (finalizeIdempotency (idemAt s) json sz t)
    (\<lambda>_ s'. frozen s s' \<and> same_flags s s' \<and> stamped ttl s' (\<lambda>row. i_state row = Completed))
    (\<lambda>_ s'. frozen s s' \<and> same_flags s s' \<and> stamped ttl s' p \<and> (\<exists>n. m_fault s' n)) s"
  unfolding finalizeIdempotency_def by (rule own_row_wp [OF assms]) (simp add: finalize_row_def)

lemma indeterminate_wp:
  assumes "stamped ttl s p"
  shows "wp (finalizeIndeterminate (idemAt s) t)
    (\<lambda>_ s'. frozen s s' \<and> same_flags s s' \<and> stamped ttl s' (\<lambda>row. i_state row = Indeterminate))
    (\<lambda>_ s'. frozen s s' \<and> same_flags s s' \<and> stamped ttl s' p \<and> (\<exists>n. m_fault s' n)) s"
  unfolding finalizeIndeterminate_def by (rule own_row_wp [OF assms]) (simp add: indeterminate_row_def)

definition done_ok :: "int \<Rightarrow> ('e, 's) dispatch \<Rightarrow> ('e, 's) dispatch \<Rightarrow> bool" where
  "done_ok ttl s0 s \<longleftrightarrow> frozen s0 s \<and> l_handlerInvoked s \<and> l_handlerReturned s \<and> kept ttl s"

lemma finish_wp:
  assumes "frozen s0 s" and "l_handlerInvoked s" and "l_handlerReturned s"
    and "stamped ttl s (\<lambda>row. i_completed_at row = None \<and> i_state row = Effect_committed)"
  shows "wp (finish dp d name out) (\<lambda>_ s'. done_ok ttl s0 s') (\<lambda>_ s'. done_ok ttl s0 s') s"
proof -
  let ?p = "\<lambda>row. i_completed_at row = None \<and> i_state row = Effect_committed"
  have weak: "kept ttl s'" if "stamped ttl s' ?p \<or> stamped ttl s' (\<lambda>row. i_state row = Completed)" for s'
    using that by (auto elim: stamped_mono)
  have fin: "wp (when_claimed (\<lambda>k. abind now (\<lambda>t. finalizeIdempotency k json sz t))) (\<lambda>_ s'. done_ok ttl s0 s')
      (\<lambda>_ s'. done_ok ttl s0 s') s1"
    if "frozen s0 s1 \<and> l_handlerInvoked s1 \<and> l_handlerReturned s1 \<and> stamped ttl s1 ?p" for json sz s1
    by (rule wp_mono [OF owned_wp [OF _ finalize_wp]])
      (use that weak frozen_trans in \<open>auto simp: done_ok_def same_flags_def\<close>)
  have dur: "wp duration (\<lambda>a s'. Q a s') E s1"
    if "frozen s0 s1 \<and> l_handlerInvoked s1 \<and> l_handlerReturned s1 \<and> stamped ttl s1 ?p"
      and "\<And>a s'. frozen s0 s' \<and> l_handlerInvoked s' \<and> l_handlerReturned s' \<and> stamped ttl s' ?p \<Longrightarrow> Q a s'"
    for Q E s1
    using that by (simp add: duration_def)
  have both: "done_ok ttl s0 s1 \<and> (\<forall>json sz. wp (when_claimed (\<lambda>k. abind now (\<lambda>t. finalizeIdempotency k json sz t)))
      (\<lambda>_ s'. done_ok ttl s0 s') (\<lambda>_ s'. done_ok ttl s0 s') s1)"
    if "frozen s0 s1 \<and> l_handlerInvoked s1 \<and> l_handlerReturned s1 \<and> stamped ttl s1 ?p" for s1
  proof (intro conjI allI)
    show "done_ok ttl s0 s1" using that weak [of s1] by (simp add: done_ok_def)
  qed (rule fin [OF that])
  have start: "frozen s0 s \<and> l_handlerInvoked s \<and> l_handlerReturned s \<and> stamped ttl s ?p"
    using assms by simp
  show ?thesis
  proof (cases "checkOutputSchema (d_outputOk d) out name (strictOutputSchema dp)")
    case (Inl e)
    with start weak [of s] show ?thesis by (simp add: finish_def done_ok_def)
  next
    case (Inr u)
    show ?thesis
      unfolding finish_def Let_def wp_abind wp_of_sum Inr sum.case
      by (rule dur [OF start]) (drule both, auto)
  qed
qed

text \<open>Where a failed call stands when it throws.\<close>

definition failing :: "int \<Rightarrow> ('e, 's) dispatch \<Rightarrow> bool" where
  "failing ttl s \<longleftrightarrow> (if l_handlerInvoked s then stamped ttl s (\<lambda>_. True) else pending s \<and> spent_ok s)"

definition settled :: "int \<Rightarrow> ('e, 's) dispatch \<Rightarrow> bool" where
  "settled ttl s \<longleftrightarrow>
     (l_handlerReturned s \<longrightarrow> l_handlerInvoked s \<and> kept ttl s) \<and>
     (\<not> l_handlerInvoked s \<and> (\<forall>n. \<not> m_fault s n) \<longrightarrow>
        (owns_claim s \<longrightarrow> map_of (idem_rows s) (idemAt s) = None) \<and>
        (\<forall>tok. l_spent s = Some tok \<longrightarrow>
           (\<exists>row. map_of (elicit_tokens s) tok = Some row \<and> t_consumed_at row = None)))"

text \<open>After the claim is settled, before the confirmation is.\<close>

definition half_settled :: "int \<Rightarrow> ('e, 's) dispatch \<Rightarrow> bool" where
  "half_settled ttl s \<longleftrightarrow>
     (l_handlerReturned s \<longrightarrow> l_handlerInvoked s \<and> kept ttl s) \<and>
     (\<not> l_handlerInvoked s \<longrightarrow> pending s \<and> spent_ok s \<and>
        ((\<forall>n. \<not> m_fault s n) \<longrightarrow> owns_claim s \<longrightarrow> map_of (idem_rows s) (idemAt s) = None))"

lemma wp_settle_claim:
  "wp settle_claim Q E s =
     (if \<not> owns_claim s then Q () s
      else wp durably_committed (\<lambda>durable s1.
        if l_handlerReturned s1 \<or> durable
        then wp (abind now (\<lambda>t. finalizeIndeterminate (idemAt s) t)) Q (\<lambda>_. Q ()) s1
        else wp (deleteIdempotency (idemAt s)) Q (\<lambda>_. Q ()) s1) E s)"
proof (cases "owns_claim s")
  case True
  then have "wp settle_claim Q E s = wp (abind durably_committed (\<lambda>durable.
        abind (gets l_handlerReturned) (\<lambda>returned.
        if returned \<or> durable
        then swallow (abind now (\<lambda>t. finalizeIndeterminate (idemAt s) t))
        else swallow (deleteIdempotency (idemAt s))))) Q E s"
    by (simp only: wp_def settle_claim_def simp_thms if_False)
  also have "\<dots> = wp durably_committed (\<lambda>durable s1.
        if l_handlerReturned s1 \<or> durable
        then wp (abind now (\<lambda>t. finalizeIndeterminate (idemAt s) t)) Q (\<lambda>_. Q ()) s1
        else wp (deleteIdempotency (idemAt s)) Q (\<lambda>_. Q ()) s1) E s"
    by (simp only: wp_fun)
  finally show ?thesis using True by simp
qed (simp add: wp_def settle_claim_def)

lemma durable_wp:
  "wp durably_committed (\<lambda>b s'. calm s s' \<and> (b \<longrightarrow> l_effectCommitted s)) (\<lambda>_ _. False) s"
proof (cases "l_effectCommitted s")
  case True
  have "wp durably_committed Q E s = wp (acatch (abind (readIdempotency (idemAt s)) (\<lambda>found.
           ret (case found of None \<Rightarrow> False | Some row \<Rightarrow> i_state row = Effect_committed))) (\<lambda>_. ret True)) Q E s" for Q E
    using True by (simp only: wp_def durably_committed_def simp_thms if_False)
  then show ?thesis
    using True by (simp add: readIdempotency_def wp_on_idem calm_def locals_def)
qed (simp add: wp_def durably_committed_def calm_def)

lemma settle_wp:
  assumes "failing ttl s"
  shows "wp settle_claim (\<lambda>_ s'. frozen s s' \<and> same_flags s s' \<and> half_settled ttl s') (\<lambda>_ _. False) s"
proof (cases "owns_claim s")
  case False
  with assms show ?thesis
    by (auto simp: wp_settle_claim failing_def half_settled_def frozen_def same_flags_def stamped_def pending_def
        split: if_splits)
next
  case True
  let ?Q = "\<lambda>_ s'. frozen s s' \<and> same_flags s s' \<and> half_settled ttl s'"
  have "wp durably_committed (\<lambda>durable s1.
        if l_handlerReturned s1 \<or> durable
        then wp (abind now (\<lambda>t. finalizeIndeterminate (idemAt s) t)) ?Q (\<lambda>_. ?Q ()) s1
        else wp (deleteIdempotency (idemAt s)) ?Q (\<lambda>_. ?Q ()) s1) (\<lambda>_ _. False) s"
  proof (rule wp_mono [OF durable_wp])
    fix b s1 assume "calm s s1 \<and> (b \<longrightarrow> l_effectCommitted s)"
    then have c: "calm s s1" and b: "b \<longrightarrow> l_effectCommitted s" by simp_all
    have at: "idemAt s1 = idemAt s" "owns_claim s1" "frozen s s1" "same_flags s s1"
      using c True calm_frozen [OF c] by (simp_all add: calm_def locals_def idemAt_def owns_claim_def)
    show "if l_handlerReturned s1 \<or> b
        then wp (abind now (\<lambda>t. finalizeIndeterminate (idemAt s) t)) ?Q (\<lambda>_. ?Q ()) s1
        else wp (deleteIdempotency (idemAt s)) ?Q (\<lambda>_. ?Q ()) s1"
    proof (cases "l_handlerReturned s1 \<or> b")
      case True
      have inv: "l_handlerInvoked s1"
        using True assms b at(4) by (auto simp: failing_def pending_def same_flags_def split: if_splits)
      then have "stamped ttl (s1\<lparr>m_tick := Suc (m_tick s1)\<rparr>) (\<lambda>_. True)"
        using assms at(4) by (auto simp: failing_def same_flags_def calm_stamped [OF c] split: if_splits)
      then have "wp (finalizeIndeterminate (idemAt (s1\<lparr>m_tick := Suc (m_tick s1)\<rparr>)) (m_clock s1 (m_tick s1))) ?Q (\<lambda>_. ?Q ()) (s1\<lparr>m_tick := Suc (m_tick s1)\<rparr>)"
        by (rule wp_mono [OF indeterminate_wp])
          (use at inv frozen_trans [OF at(3)] in \<open>auto simp: half_settled_def same_flags_def frozen_def elim: stamped_mono\<close>)
      with True at show ?thesis by simp
    next
      case False
      have "failing ttl s1"
        using assms c at(4) by (auto simp: failing_def same_flags_def calm_stamped [OF c] pending_def spent_ok_def calm_def locals_def)
      with False at show ?thesis
        by (auto simp: deleteIdempotency_def wp_on_idem half_settled_def failing_def same_flags_def frozen_def
            pending_def spent_ok_def owns_claim_def idemAt_def table_simps split: if_splits)
    qed
  qed
  with True show ?thesis by (simp add: wp_settle_claim)
qed

lemma release_wp:
  assumes "half_settled ttl s"
  shows "wp releaseSpentElicit (\<lambda>_ s'. frozen s s' \<and> same_flags s s' \<and> settled ttl s') (\<lambda>_ _. False) s"
proof (cases "l_spent s = None \<or> l_handlerInvoked s \<or> l_handlerReturned s \<or> l_effectCommitted s")
  case True
  with assms show ?thesis
    by (auto simp: wp_def releaseSpentElicit_def refusedBeforeEffect_def half_settled_def settled_def frozen_def
        same_flags_def pending_def split: option.splits)
next
  case False
  then obtain tok where t: "l_spent s = Some tok" by auto
  have "wp releaseSpentElicit Q E s = wp (swallow (releaseElicitToken tok)) Q E s" for Q E
    using False t by (simp add: wp_def releaseSpentElicit_def refusedBeforeEffect_def)
  moreover obtain row where "map_of (elicit_tokens s) tok = Some row"
    using assms False t by (auto simp: half_settled_def spent_ok_def)
  ultimately show ?thesis
    using assms False t
    by (auto simp: releaseElicitToken_def wp_stmt Let_def release_token_def table_simps half_settled_def settled_def
        frozen_def same_flags_def owns_claim_def idemAt_def)
qed

definition typed :: "terror \<Rightarrow> bool" where
  "typed e \<longleftrightarrow> (case e of Tc _ _ _ \<Rightarrow> True | Thrown _ \<Rightarrow> False)"

lemma hint_typed: "typed (vaultFailureHint (client_error e) d raw ctx vis)"
  by (auto simp: vaultFailureHint_def client_error_def hinted_def typed_def Let_def
      split: terror.splits option.splits error_code.splits if_splits)

lemma fail_wp:
  assumes "failing ttl s"
  shows "wp (fail dp c e)
    (\<lambda>r s'. frozen s s' \<and> same_flags s s' \<and> settled ttl s' \<and>
       (\<exists>err m. r = Err_result err m \<and> typed err \<and> \<not> m_idempotent_replay m)) (\<lambda>_ _. False) s"
  unfolding fail_def wp_abind
proof (rule wp_mono [OF settle_wp [OF assms]])
  fix a s1 assume 1: "frozen s s1 \<and> same_flags s s1 \<and> half_settled ttl s1"
  then have h: "half_settled ttl s1" by simp
  have tick: "frozen s (s2\<lparr>m_tick := n\<rparr>) = frozen s s2" "same_flags s (s2\<lparr>m_tick := n\<rparr>) = same_flags s s2"
    "settled ttl (s2\<lparr>m_tick := n\<rparr>) = settled ttl s2" for s2 n
    by (simp_all add: frozen_def same_flags_def settled_def)
  show "wp releaseSpentElicit (\<lambda>a. wp (gets l_ctx) (\<lambda>ctx. wp duration (\<lambda>dur. wp (ret (Err_result
       (vaultFailureHint (client_error e) (toolStore dp (c_name c)) (c_input c) ctx (visibleVaultIds dp))
       \<lparr>m_duration_ms = dur, m_result_size = 0, m_overflow_bytes = None, m_idempotent_replay = False\<rparr>))
      (\<lambda>r s'. frozen s s' \<and> same_flags s s' \<and> settled ttl s' \<and>
       (\<exists>err m. r = Err_result err m \<and> typed err \<and> \<not> m_idempotent_replay m)) (\<lambda>_ _. False)) (\<lambda>_ _. False)) (\<lambda>_ _. False))
     (\<lambda>_ _. False) s1"
  proof (rule wp_mono [OF release_wp [OF h]])
    fix b s2 assume 2: "frozen s1 s2 \<and> same_flags s1 s2 \<and> settled ttl s2"
    from 1 2 have "frozen s s2 \<and> same_flags s s2" by (auto dest: frozen_trans simp: same_flags_def)
    with 2 show "wp (gets l_ctx) (\<lambda>ctx. wp duration (\<lambda>dur. wp (ret (Err_result
       (vaultFailureHint (client_error e) (toolStore dp (c_name c)) (c_input c) ctx (visibleVaultIds dp))
       \<lparr>m_duration_ms = dur, m_result_size = 0, m_overflow_bytes = None, m_idempotent_replay = False\<rparr>))
      (\<lambda>r s'. frozen s s' \<and> same_flags s s' \<and> settled ttl s' \<and>
       (\<exists>err m. r = Err_result err m \<and> typed err \<and> \<not> m_idempotent_replay m)) (\<lambda>_ _. False)) (\<lambda>_ _. False)) (\<lambda>_ _. False) s2"
      by (simp add: duration_def tick hint_typed)
  qed
qed

subsection \<open>The whole call\<close>

definition confirmed :: "str \<Rightarrow> resolved_policy \<Rightarrow> ('e, 's) dispatch \<Rightarrow> bool" where
  "confirmed name policy s \<longleftrightarrow>
     (hitlRequired (p_destructive policy) (p_requiredScopes policy) \<longrightarrow> l_spent s \<noteq> None \<or> state_confirms name s)"

lemma confirmed_frozen: "confirmed name p s \<Longrightarrow> frozen s s' \<Longrightarrow> confirmed name p s'"
  by (auto simp: confirmed_def frozen_def state_confirms_def split: option.splits)

lemma frozen_refl [simp]: "frozen s s"
  by (simp add: frozen_def)

lemma guarded_wp:
  assumes "pending s" and "spent_ok s" and "held ttl s"
  shows "wp (guarded dp c d input resolvedPath au)
    (\<lambda>_ s'. done_ok ttl s s' \<and> confirmed (c_name c) (a_policy au) s')
    (\<lambda>_ s'. frozen s s' \<and> failing ttl s' \<and> (l_handlerInvoked s' \<longrightarrow> confirmed (c_name c) (a_policy au) s')) s"
    (is "wp _ ?Q ?E s")
proof -
  have early: "?E e s'" if "waiting s s'" for e s'
    using that by (auto simp: waiting_def failing_def pending_def)
  have held: "held ttl s'" if "waiting s s'" "idem_rows s' = idem_rows s" for s'
    using that assms(3) by (simp add: waiting_def frozen_def stamped_def owns_claim_def idemAt_def)
  let ?probe = "\<lambda>ctx. lift (confirmationStateProbe (deps.truncate dp) d input ctx)"
  have w: "waiting s s" using assms by (simp add: waiting_def)
  have run: "wp (execute dp d (c_name c) input (?probe ctx) (c_aborted c))
      (\<lambda>out. wp (finish dp d (c_name c) out) ?Q ?E) ?E s3"
    if "waiting s s3" "idem_rows s3 = idem_rows s" "confirmed (c_name c) (a_policy au) s3" for s3 ctx
  proof (rule wp_mono [OF execute_wp [OF _ held [OF that(1,2)] calm_probe]])
    show "waiting s3 s3" using that(1) by (simp add: waiting_def)
    fix out s4 assume 4: "frozen s3 s4 \<and> l_handlerInvoked s4 \<and> l_handlerReturned s4 \<and>
       stamped ttl s4 (\<lambda>row. i_completed_at row = None \<and> i_state row = Effect_committed)"
    have fz: "frozen s s5 \<and> confirmed (c_name c) (a_policy au) s5" if "frozen s3 s5" for s5
      using that \<open>waiting s s3\<close> confirmed_frozen [OF \<open>confirmed (c_name c) (a_policy au) s3\<close> that] frozen_trans
      by (auto simp: waiting_def)
    show "wp (finish dp d (c_name c) out) ?Q ?E s4"
      by (rule wp_mono [OF finish_wp [of s3 s4 ttl]])
        (use 4 fz in \<open>auto simp: done_ok_def failing_def elim: stamped_mono\<close>)
  next
    fix e s4 assume "frozen s3 s4 \<and> (l_handlerInvoked s4 \<longrightarrow> held ttl s4) \<and> (\<not> l_handlerInvoked s4 \<longrightarrow> waiting s3 s4)"
    then show "?E e s4"
      using that confirmed_frozen [OF that(3)] frozen_trans
      by (auto simp: failing_def waiting_def elim: stamped_mono)
  qed
  show ?thesis
    unfolding guarded_def Let_def wp_abind wp_gets
  proof (rule wp_mono [OF throttle_wp [OF w]])
    fix a s1 assume 1: "waiting s s1 \<and> idem_rows s1 = idem_rows s"
    show "wp (stage_hitl dp (c_name c) (a_policy au) resolvedPath (?probe (l_ctx s1)))
        (\<lambda>_. wp (install_marker (c_slotBusy c)) (\<lambda>_. wp (execute dp d (c_name c) input (?probe (l_ctx s1)) (c_aborted c))
          (\<lambda>out. wp (finish dp d (c_name c) out) ?Q ?E) ?E) ?E) ?E s1"
    proof (rule wp_mono [OF hitl_wp [OF conjunct1 [OF 1] calm_probe]])
      fix b s2 assume 2: "waiting s s2 \<and> idem_rows s2 = idem_rows s1 \<and>
         (hitlRequired (p_destructive (a_policy au)) (p_requiredScopes (a_policy au)) \<longrightarrow>
            l_spent s2 \<noteq> None \<or> state_confirms (c_name c) s2)"
      show "wp (install_marker (c_slotBusy c)) (\<lambda>_. wp (execute dp d (c_name c) input (?probe (l_ctx s1)) (c_aborted c))
          (\<lambda>out. wp (finish dp d (c_name c) out) ?Q ?E) ?E) ?E s2"
      proof (rule wp_mono [OF marker_wp [OF conjunct1 [OF 2]]])
        fix x s3 assume 3: "waiting s s3 \<and> idem_rows s3 = idem_rows s2 \<and> locals (s3\<lparr>l_marker := l_marker s2\<rparr>) = locals s2"
        then have "confirmed (c_name c) (a_policy au) s3"
          using 2 by (auto simp: confirmed_def state_confirms_def locals_def split: option.splits)
        with 1 2 3 show "wp (execute dp d (c_name c) input (?probe (l_ctx s1)) (c_aborted c))
          (\<lambda>out. wp (finish dp d (c_name c) out) ?Q ?E) ?E s3"
          by (intro run) simp_all
      qed (rule early)
    qed (rule early)
  qed (rule early)
qed

end
