(* ===== verification/Dispatch_Guarantees.thy ===== *)
theory Dispatch_Guarantees
  imports Dispatch_Safety
begin

text \<open>
  The guarantees of \<open>dispatch.ts\<close> over a whole call, from the stage lemmas: what is true when the
  handler was entered, what a returned handler leaves in the idempotency table, what a refusal leaves
  behind, and what the caller is told. \<open>run_call\<close> is \<open>runDispatch\<close> with the local variables kept.
\<close>

subsection \<open>From the stages to the call\<close>

definition behind_gates ::
    "('e, 's) dispatch_deps \<Rightarrow> call \<Rightarrow> ('e, 's) dispatch \<Rightarrow> ('e, 's) dispatch \<Rightarrow> bool" where
  "behind_gates dp c s s' \<longleftrightarrow>
     (\<exists>d input au. toolStore dp (c_name c) = Some d \<and>
        \<not> isToolDisabledFor (toolVisibility dp) (w_acls s) d (l_ctx s) \<and>
        parseInput d (fst (withDefaultVault d (c_input c) (l_ctx s) (visibleVaultIds dp))) = Inr input \<and>
        runAuthorizationGates (deps.truncate dp) (w_acls s) (c_name c) d input (l_ctx s) = Inr au \<and>
        l_ctx s' = a_ctx au \<and> confirmed (c_name c) (a_policy au) s' \<and>
        (quiet_tool d \<and> l_idemKey s' \<noteq> None \<longrightarrow>
           (\<exists>t1 t2. free_at (m_clock s t1) (m_clock s t2) (idempotencyReclaimMs dp)
              (map_of (idem_rows s) (idemAt s')))))"

lemma behind_frozen:
  assumes "behind_gates dp c s s1" and "frozen s1 s2"
  shows "behind_gates dp c s s2"
proof -
  have "idemAt s2 = idemAt s1" "l_ctx s2 = l_ctx s1" "l_idemKey s2 = l_idemKey s1"
    using assms(2) by (simp_all add: frozen_def idemAt_def)
  with assms show ?thesis
    unfolding behind_gates_def using confirmed_frozen [OF _ assms(2)] by metis
qed

lemma precheck_wp:
  assumes "fresh s"
  shows "wp (stage_precheck d input)
    (\<lambda>_ s'. fresh s' \<and> l_ctx s' = l_ctx s \<and> (quiet_tool d \<longrightarrow> db_same s s')) (\<lambda>_ s'. fresh s') s"
proof -
  have "fresh s' \<and> l_ctx s' = l_ctx s \<and> (quiet_tool d \<longrightarrow> db_same s s')" if "preclaim d s s'" for s'
    using that assms fresh_locals [of s' s] by (simp add: preclaim_def locals_def)
  then show ?thesis
    unfolding stage_precheck_def wp_abind wp_gets by (intro wp_keeps [OF preclaim_precheck]) simp_all
qed

lemma pipeline_wp:
  fixes dp :: "('e, 's) dispatch_deps"
  assumes "fresh s"
  shows "wp (pipeline dp c)
    (\<lambda>_ s'. settled (idempotencyTtlMs dp) s' \<and> (l_handlerInvoked s' \<longrightarrow> behind_gates dp c s s'))
    (\<lambda>_ s'. failing (idempotencyTtlMs dp) s' \<and> (l_handlerInvoked s' \<longrightarrow> behind_gates dp c s s')) s"
    (is "wp _ ?Q ?E s")
proof -
  let ?ttl = "idempotencyTtlMs dp"
  have early: "?E e s'" if "fresh s'" for e s'
    using that by (simp add: fresh_def failing_def pending_def spent_ok_def)
  have claimed: "wp (case a of Some answer \<Rightarrow> ret answer | None \<Rightarrow> guarded dp c d input path au) ?Q ?E s1"
    if s1: "pending s1" "l_spent s1 = None" "a \<noteq> None \<longrightarrow> \<not> l_idemClaimed s1" "a = None \<longrightarrow> held ?ttl s1"
      and gates: "\<And>s'. a = None \<Longrightarrow> frozen s1 s' \<Longrightarrow> confirmed (c_name c) (a_policy au) s' \<Longrightarrow> behind_gates dp c s s'"
    for a d input path au s1
  proof (cases a)
    case None
    then show ?thesis
      using wp_mono [OF guarded_wp [of s1 ?ttl dp c d input path au], of ?Q ?E] s1 gates
      by (auto simp: spent_ok_def done_ok_def settled_def)
  next
    case (Some answer)
    with s1 show ?thesis by (simp add: settled_def pending_def owns_claim_def)
  qed
  show ?thesis
    unfolding pipeline_def wp_abind
  proof (rule wp_mono [OF authorize_wp [OF assms]])
    fix p :: "(('e, 's) world, 'e) dtool \<times> json \<times> json option \<times> authorized_call" and s1 :: "('e, 's) dispatch"
    obtain d input0 eff au where p: "p = (d, input0, eff, au)" by (cases p)
    assume "(case p of (d, input, effectiveInput, au) \<Rightarrow> \<lambda>s'. fresh s' \<and> db_same s s' \<and> toolStore dp (c_name c) = Some d \<and>
       \<not> isToolDisabledFor (toolVisibility dp) (w_acls s) d (l_ctx s) \<and>
       parseInput d (fst (withDefaultVault d (c_input c) (l_ctx s) (visibleVaultIds dp))) = Inr input \<and>
       runAuthorizationGates (deps.truncate dp) (w_acls s) (c_name c) d input (l_ctx s) = Inr au \<and>
       l_ctx s' = a_ctx au) s1"
    note a = this [unfolded p prod.case]
    show "wp (case p of (d, input0, effectiveInput, au) \<Rightarrow> abind (stage_target dp d input0 effectiveInput) (\<lambda>(input, resolvedPath).
        abind (stage_precheck d input) (\<lambda>_. abind (stage_idempotency dp (c_name c) input) (\<lambda>replayed.
        case replayed of Some answer \<Rightarrow> ret answer | None \<Rightarrow> guarded dp c d input resolvedPath au)))) ?Q ?E s1"
      unfolding p prod.case wp_abind
    proof (rule wp_mono [OF target_wp [OF conjunct1 [OF a]]])
      fix q :: "json \<times> str option" and s2 :: "('e, 's) dispatch"
      obtain input path where q: "q = (input, path)" by (cases q)
      assume t: "fresh s2 \<and> l_ctx s2 = l_ctx s1 \<and> (quiet_tool d \<longrightarrow> db_same s1 s2)"
      show "wp (case q of (input, resolvedPath) \<Rightarrow> abind (stage_precheck d input) (\<lambda>_.
          abind (stage_idempotency dp (c_name c) input) (\<lambda>replayed.
          case replayed of Some answer \<Rightarrow> ret answer | None \<Rightarrow> guarded dp c d input resolvedPath au))) ?Q ?E s2"
        unfolding q prod.case wp_abind
      proof (rule wp_mono [OF precheck_wp [OF conjunct1 [OF t], where d = d]])
        fix u and s3 :: "('e, 's) dispatch"
        assume c: "fresh s3 \<and> l_ctx s3 = l_ctx s2 \<and> (quiet_tool d \<longrightarrow> db_same s2 s3)"
        have db: "quiet_tool d \<longrightarrow> m_clock s3 = m_clock s \<and> idem_rows s3 = idem_rows s"
          using a t c by (auto simp: db_same_def)
        show "wp (stage_idempotency dp (c_name c) input) (\<lambda>replayed. wp (case replayed of
            Some answer \<Rightarrow> ret answer | None \<Rightarrow> guarded dp c d input path au) ?Q ?E) ?E s3"
        proof (rule wp_mono [OF claim_wp [OF conjunct1 [OF c]]])
          fix r :: "tool_result option" and s4 :: "('e, 's) dispatch"
          assume k: "pending s4 \<and> l_spent s4 = None \<and> l_ctx s4 = l_ctx s3 \<and> (r \<noteq> None \<longrightarrow> \<not> l_idemClaimed s4) \<and>
             (r = None \<longrightarrow> held ?ttl s4 \<and> (l_idemKey s4 \<noteq> None \<longrightarrow>
               (\<exists>t1 t2. free_at (m_clock s3 t1) (m_clock s3 t2) (idempotencyReclaimMs dp) (map_of (idem_rows s3) (idemAt s4)))))"
          show "wp (case r of Some answer \<Rightarrow> ret answer | None \<Rightarrow> guarded dp c d input path au) ?Q ?E s4"
          proof (rule claimed)
            fix s' assume n: "r = None" and f: "frozen s4 s'" and cf: "confirmed (c_name c) (a_policy au) s'"
            have "l_ctx s' = a_ctx au" "idemAt s' = idemAt s4" "l_idemKey s' = l_idemKey s4"
              using a t c k f by (simp_all add: frozen_def idemAt_def)
            with a k n db cf show "behind_gates dp c s s'"
              unfolding behind_gates_def by metis
          qed (use k in simp_all)
        qed (simp add: failing_def pending_def spent_ok_def)
      qed (rule early)
    qed (simp add: early)
  qed (simp add: early)
qed

lemma run_call_wp:
  assumes "run_call dp c w = (r, s)"
  shows "\<exists>s0 res. r = Inr res \<and> m_clock s0 = m_clock w \<and> idem_rows s0 = idem_rows w \<and> w_acls s0 = w_acls w \<and>
    l_ctx s0 = c_ctx c \<and> settled (idempotencyTtlMs dp) s \<and> (l_handlerInvoked s \<longrightarrow> behind_gates dp c s0 s)"
proof -
  let ?ttl = "idempotencyTtlMs dp"
  define s0 where "s0 = initial dp c (m_clock w (m_tick w)) (w\<lparr>m_tick := Suc (m_tick w)\<rparr>)"
  have i: "fresh s0" "m_clock s0 = m_clock w" "idem_rows s0 = idem_rows w" "w_acls s0 = w_acls w" "l_ctx s0 = c_ctx c"
    unfolding s0_def initial_def by (cases w; simp add: fresh_def world.defs dispatch.defs)+
  have run: "acatch (pipeline dp c) (fail dp c) s0 = (r, s)"
    using assms by (simp add: run_call_def now_def s0_def)
  have "wp (acatch (pipeline dp c) (fail dp c))
      (\<lambda>_ s'. settled ?ttl s' \<and> (l_handlerInvoked s' \<longrightarrow> behind_gates dp c s0 s')) (\<lambda>_ _. False) s0"
    unfolding wp_acatch
  proof (rule wp_mono [OF pipeline_wp [OF i(1)]])
    fix e s1 assume f: "failing ?ttl s1 \<and> (l_handlerInvoked s1 \<longrightarrow> behind_gates dp c s0 s1)"
    show "wp (fail dp c e) (\<lambda>_ s'. settled ?ttl s' \<and> (l_handlerInvoked s' \<longrightarrow> behind_gates dp c s0 s')) (\<lambda>_ _. False) s1"
      by (rule wp_mono [OF fail_wp [OF conjunct1 [OF f]]])
        (use f behind_frozen in \<open>auto simp: same_flags_def\<close>)
  qed simp
  from wpD [OF this run] i show ?thesis by (cases r) auto
qed

subsection \<open>What the caller is told\<close>

text \<open>Every value an action returns satisfies a predicate, whatever the state.\<close>

definition answers :: "('a \<Rightarrow> bool) \<Rightarrow> ('w, 'a) act \<Rightarrow> bool" where
  "answers P m \<longleftrightarrow> (\<forall>s. wp m (\<lambda>r _. P r) (\<lambda>_ _. True) s)"

lemma answers_ret: "P a \<Longrightarrow> answers P (ret a)"
  by (simp add: answers_def)

lemma answers_raise: "answers P (raise e)"
  by (simp add: answers_def)

lemma answers_abind:
  assumes "\<And>a. answers P (f a)"
  shows "answers P (abind m f)"
  unfolding answers_def
proof
  fix s
  have "wp m (\<lambda>_ _. True) (\<lambda>_ _. True) s" by (simp add: wp_def split: prod.splits sum.splits)
  then show "wp (abind m f) (\<lambda>r _. P r) (\<lambda>_ _. True) s"
    unfolding wp_abind by (rule wp_mono) (use assms in \<open>simp_all add: answers_def\<close>)
qed

lemma answers_if: "(b \<Longrightarrow> answers P m) \<Longrightarrow> (\<not> b \<Longrightarrow> answers P m') \<Longrightarrow> answers P (if b then m else m')"
  by simp

lemma answers_pair: "(\<And>a b. answers P (f a b)) \<Longrightarrow> answers P (case p of (a, b) \<Rightarrow> f a b)"
  by (simp split: prod.splits)

lemmas answers_rules = answers_ret answers_raise answers_abind answers_if

definition answer_ok :: "int \<Rightarrow> tool_result \<Rightarrow> bool" where
  "answer_ok budget r = (case r of
     Err_result e m \<Rightarrow> typed e
   | Ok_result out m \<Rightarrow> m_idempotent_replay m \<or> m_result_size m \<le> budget)"

lemma finish_answers: "answers (answer_ok (maxResponseBytes dp)) (finish dp d name out)"
  unfolding finish_def Let_def
  by (intro answers_rules) (simp_all add: answer_ok_def typed_def overflowError_def isOverflow_def)

lemma claim_answers:
  "answers (\<lambda>a. \<forall>r. a = Some r \<longrightarrow> answer_ok (maxResponseBytes dp) r) (stage_idempotency dp name input)"
proof -
  have "answers (\<lambda>a. \<forall>r. a = Some r \<longrightarrow> answer_ok (maxResponseBytes dp) r) (answer_claim dp key res)" for key res
    by (cases res)
      (auto simp: answer_claim_def answer_ok_def typed_def overflowError_def indeterminate_error_def replay_meta_def
        intro!: answers_rules)
  then show ?thesis
    unfolding stage_idempotency_def by (auto split: option.splits intro!: answers_rules)
qed

lemma pipeline_answers: "answers (answer_ok (maxResponseBytes dp)) (pipeline dp c)"
proof -
  have g: "answers (answer_ok (maxResponseBytes dp)) (guarded dp c d input path au)" for d input path au
    unfolding guarded_def Let_def by (intro answers_abind finish_answers)
  have "wp (abind (stage_idempotency dp name input) (\<lambda>replayed. case replayed of
      Some answer \<Rightarrow> ret answer | None \<Rightarrow> guarded dp c d input path au))
      (\<lambda>r _. answer_ok (maxResponseBytes dp) r) (\<lambda>_ _. True) s" for name d input path au s
    unfolding wp_abind
    using claim_answers [of dp name input, unfolded answers_def, THEN spec, of s] g [of d input path au]
    by (rule_tac wp_mono) (auto simp: answers_def split: option.splits)
  then have tail: "answers (answer_ok (maxResponseBytes dp)) (abind (stage_idempotency dp name input) (\<lambda>replayed. case replayed of
      Some answer \<Rightarrow> ret answer | None \<Rightarrow> guarded dp c d input path au))" for name d input path au
    by (simp add: answers_def)
  show ?thesis
    unfolding pipeline_def
    by (rule tail answers_pair answers_abind)+
qed

lemma fail_answers: "answers (answer_ok budget) (fail dp c e)"
  unfolding fail_def by (intro answers_rules) (simp add: answer_ok_def hint_typed)

lemma run_call_answers:
  assumes "run_call dp c w = (Inr res, s)"
  shows "answer_ok (maxResponseBytes dp) res"
proof -
  define s0 where "s0 = initial dp c (m_clock w (m_tick w)) (w\<lparr>m_tick := Suc (m_tick w)\<rparr>)"
  have run: "acatch (pipeline dp c) (fail dp c) s0 = (Inr res, s)"
    using assms by (simp add: run_call_def now_def s0_def)
  have "wp (acatch (pipeline dp c) (fail dp c)) (\<lambda>r _. answer_ok (maxResponseBytes dp) r) (\<lambda>_ _. True) s0"
    unfolding wp_acatch
    using pipeline_answers [of dp c] fail_answers [of "maxResponseBytes dp" dp c]
    by (auto simp: answers_def intro: wp_mono)
  from wpD [OF this run] show ?thesis by simp
qed


subsection \<open>Properties\<close>

text \<open>A registry of one tool, a call that carries an idempotency key and a confirmation token, and a
  database that holds the token, for the witnesses.\<close>

definition purge_tool :: "((unit, unit) world, unit) dtool" where
  "purge_tool = tool.extend (sample_tool\<lparr>d_destructive := True\<rparr>)
     (dtool.fields (\<lambda>_ _ _. H_mark (H_return (Some (JStr ''done'')))) None)"

definition purge_deps :: "(unit, unit) dispatch_deps" where
  "purge_deps = deps.extend sample_deps
     (dispatch_deps.fields (\<lambda>n. if n = ''write_note'' then Some purge_tool else None) True 1000 500 100 False
       (\<lambda>_. ''x'') (\<lambda>_. None))"

definition purge_call :: "(nat \<Rightarrow> bool) \<Rightarrow> call" where
  "purge_call cancelled = \<lparr>c_name = ''write_note'', c_input = Some (JObj [(''idempotency_key'', JStr ''k'')]),
     c_ctx = sample_ctx\<lparr>x_elicitToken := Some ''tok''\<rparr>, c_aborted = cancelled, c_slotBusy = False\<rparr>"

definition purge_world :: "(unit, unit) world" where
  "purge_world = sample_world\<lparr>m_clock := \<lambda>_. 7, elicit_tokens := [(''tok'',
     \<lparr>t_vault_id = ''v1'', t_tool_name = ''write_note'', t_args_hash = ''write_note'', t_caller = Some ''ann'',
      t_created_at = 0, t_expires_at = 100, t_consumed_at = None, t_state_fp = None\<rparr>)]\<rparr>"

text \<open>
  C33: a tool call always returns an answer and never throws, whatever the tool does,
  whatever statements fault and whenever the caller cancels. An error answer is a typed error: the
  message of an unexpected exception never reaches the caller. A success that was executed fits the
  response budget.
\<close>

theorem dispatch_answers:
  "(case fst (runDispatch dp c w) of
      Inl e \<Rightarrow> False
    | Inr (Err_result e m) \<Rightarrow> typed e
    | Inr (Ok_result out m) \<Rightarrow> m_idempotent_replay m \<or> m_result_size m \<le> maxResponseBytes dp)"
proof -
  obtain r s where run: "run_call dp c w = (r, s)" by (cases "run_call dp c w")
  from run_call_wp [OF run] obtain res where r: "r = Inr res" by blast
  with run run_call_answers [of dp c w res s] show ?thesis
    by (simp add: runDispatch_def answer_ok_def split: tool_result.splits)
qed

text \<open>
  C5: a handler is entered only for a tool that is registered and not disabled for
  the caller, on an input its schema accepts, after every authorization gate has passed on that input
  (\<open>runAuthorizationGates\<close>, whose guarantees are \<open>authorized_calls\<close>), in the context those gates
  computed; and where the policy of the call asks for a confirmation, the call has spent a
  confirmation token or carries a request state that authorizes exactly this tool, these arguments,
  this vault and this caller.
\<close>

theorem handler_behind_gates:
  assumes "run_call dp c w = (r, s)" and "l_handlerInvoked s"
  shows "\<exists>d input au. toolStore dp (c_name c) = Some d \<and>
    \<not> isToolDisabledFor (toolVisibility dp) (w_acls w) d (c_ctx c) \<and>
    parseInput d (fst (withDefaultVault d (c_input c) (c_ctx c) (visibleVaultIds dp))) = Inr input \<and>
    runAuthorizationGates (deps.truncate dp) (w_acls w) (c_name c) d input (c_ctx c) = Inr au \<and>
    l_ctx s = a_ctx au \<and>
    (hitlRequired (p_destructive (a_policy au)) (p_requiredScopes (a_policy au)) \<longrightarrow>
       l_spent s \<noteq> None \<or>
       (\<exists>st. x_elicitState (l_ctx s) = Some st \<and>
          stateAuthorizes st (c_name c) (l_hash s) (x_vaultId (l_ctx s)) (x_caller (l_ctx s))))"
proof -
  from run_call_wp [OF assms(1)] assms(2) obtain s0 where
    e: "w_acls s0 = w_acls w" "l_ctx s0 = c_ctx c" and b: "behind_gates dp c s0 s" by blast
  from b [unfolded behind_gates_def e] show ?thesis
    unfolding confirmed_def state_confirms_def by (auto split: option.splits)
qed

theorem handler_behind_gates_witness:
  "\<exists>d input au. toolStore purge_deps ''write_note'' = Some d \<and>
    runAuthorizationGates (deps.truncate purge_deps) (w_acls purge_world) ''write_note'' d input
      (c_ctx (purge_call (\<lambda>_. False))) = Inr au \<and>
    l_spent (snd (run_call purge_deps (purge_call (\<lambda>_. False)) purge_world)) = Some ''tok''"
proof -
  let ?run = "run_call purge_deps (purge_call (\<lambda>_. False)) purge_world"
  have e: "l_handlerInvoked (snd ?run) \<and> l_spent (snd ?run) = Some ''tok''" by code_simp
  have n: "c_name (purge_call (\<lambda>_. False)) = ''write_note''" by (simp add: purge_call_def)
  from handler_behind_gates [of purge_deps "purge_call (\<lambda>_. False)" purge_world "fst ?run" "snd ?run"] e
  show ?thesis unfolding n by auto
qed

text \<open>
  C4: once the handler of a keyed call has returned, the row of its key is in the
  table, stamped by readings of this call, whatever statements fault afterwards and whatever the
  handler's own transactions rolled back; and if no statement faults, the row no longer reads as a
  call in flight.
\<close>

theorem handler_keeps_claim:
  assumes "run_call dp c w = (r, s)" and "l_handlerReturned s" and "owns_claim s"
  shows "\<exists>row i. map_of (idem_rows s) (idemAt s) = Some row \<and> i_started_at row = m_clock s i \<and>
    i_expires_at row = m_clock s i + idempotencyTtlMs dp \<and>
    ((\<forall>n. \<not> m_fault s n) \<longrightarrow> i_state row \<noteq> In_flight)"
  using run_call_wp [OF assms(1)] assms(2,3) by (auto simp: settled_def stamped_def)

theorem handler_keeps_claim_witness:
  "(let s = snd (run_call purge_deps (purge_call (\<lambda>_. False)) purge_world) in
      \<exists>row i. map_of (idem_rows s) (idemAt s) = Some row \<and> i_started_at row = m_clock s i \<and>
        i_state row \<noteq> In_flight)"
proof -
  let ?run = "run_call purge_deps (purge_call (\<lambda>_. False)) purge_world"
  have e: "l_handlerReturned (snd ?run) \<and> owns_claim (snd ?run)" by code_simp
  have f: "\<not> m_fault (snd ?run) n" for n by code_simp
  from handler_keeps_claim [of purge_deps "purge_call (\<lambda>_. False)" purge_world "fst ?run" "snd ?run"] e f show ?thesis unfolding Let_def by auto
qed

text \<open>
  C3: a later call with the same key, principal and vault never enters the handler
  again, whatever statements fault in either call, as long as its readings of the clock come within
  the retention and reclaim windows of the row the first call left. The tool's own resolver and
  precheck are assumed to leave the idempotency table alone (\<open>quiet_tool\<close>).
\<close>

theorem never_run_twice:
  assumes "map_of (idem_rows w) k = Some row"
    and "\<forall>t. m_clock w t < i_expires_at row \<and> m_clock w t < i_started_at row + idempotencyReclaimMs dp"
    and "\<forall>d. toolStore dp (c_name c) = Some d \<longrightarrow> quiet_tool d"
    and "run_call dp c w = (r, s)" and "l_idemKey s \<noteq> None" and "idemAt s = k"
  shows "\<not> l_handlerInvoked s"
proof
  assume "l_handlerInvoked s"
  with run_call_wp [OF assms(4)] obtain s0 where
    e: "m_clock s0 = m_clock w" "idem_rows s0 = idem_rows w" and b: "behind_gates dp c s0 s" by blast
  from b assms(3,5) obtain t1 t2 where
    "free_at (m_clock s0 t1) (m_clock s0 t2) (idempotencyReclaimMs dp) (map_of (idem_rows s0) (idemAt s))"
    unfolding behind_gates_def by blast
  then have "free_at (m_clock w t1) (m_clock w t2) (idempotencyReclaimMs dp) (Some row)"
    by (simp add: e assms(1,6))
  with assms(2) [THEN spec, of t1] assms(2) [THEN spec, of t2] show False
    by (auto simp: free_at_def)
qed

theorem never_run_twice_witness:
  "\<not> l_handlerInvoked (snd (run_call purge_deps (purge_call (\<lambda>_. False))
     (purge_world\<lparr>idem_rows := [((''v1'', ''ann'', ''k''), committed_row (new_row ''write_note'' ''write_note'' 5 1000))]\<rparr>)))"
proof -
  let ?w = "purge_world\<lparr>idem_rows := [((''v1'', ''ann'', ''k''), committed_row (new_row ''write_note'' ''write_note'' 5 1000))]\<rparr>"
  let ?run = "run_call purge_deps (purge_call (\<lambda>_. False)) ?w"
  have k: "l_idemKey (snd ?run) \<noteq> None \<and> idemAt (snd ?run) = (''v1'', ''ann'', ''k'')" by code_simp
  have q: "quiet_tool d" if "toolStore purge_deps n = Some d" for n d
    using that
    by (auto simp: purge_deps_def purge_tool_def quiet_tool_def sample_tool_def deps.defs dispatch_deps.defs
        tool.defs dtool.defs sample_deps_def split: if_splits)
  have r: "idempotencyReclaimMs purge_deps = 500"
    by (simp add: purge_deps_def deps.defs dispatch_deps.defs sample_deps_def)
  show ?thesis
    by (rule never_run_twice [of ?w "(''v1'', ''ann'', ''k'')" "committed_row (new_row ''write_note'' ''write_note'' 5 1000)"
          purge_deps _ "fst ?run"])
      (use k q r in \<open>simp_all add: committed_row_def new_row_def purge_world_def\<close>)
qed

text \<open>
  A call that ends without its handler having been entered, refused by any
  gate, cancelled or replayed, costs its caller nothing when no statement faults: the key it claimed
  is free again, and the confirmation token it spent is unspent again.
\<close>

theorem refusal_costs_nothing:
  assumes "run_call dp c w = (r, s)" and "\<not> l_handlerInvoked s" and "\<forall>n. \<not> m_fault s n"
  shows "(owns_claim s \<longrightarrow> map_of (idem_rows s) (idemAt s) = None) \<and>
    (\<forall>tok. l_spent s = Some tok \<longrightarrow>
       (\<exists>row. map_of (elicit_tokens s) tok = Some row \<and> t_consumed_at row = None))"
  using run_call_wp [OF assms(1)] assms(2,3) unfolding settled_def by blast

theorem refusal_costs_nothing_witness:
  "(let s = snd (run_call purge_deps (purge_call (\<lambda>n. n = 4)) purge_world) in
      owns_claim s \<and> map_of (idem_rows s) (idemAt s) = None \<and> l_spent s = Some ''tok'' \<and>
      (\<exists>row. map_of (elicit_tokens s) ''tok'' = Some row \<and> t_consumed_at row = None))"
proof -
  let ?run = "run_call purge_deps (purge_call (\<lambda>n. n = 4)) purge_world"
  have e: "\<not> l_handlerInvoked (snd ?run) \<and> owns_claim (snd ?run) \<and> l_spent (snd ?run) = Some ''tok''" by code_simp
  have f: "\<not> m_fault (snd ?run) n" for n by code_simp
  from refusal_costs_nothing [of purge_deps "purge_call (\<lambda>n. n = 4)" purge_world "fst ?run" "snd ?run"] e f show ?thesis by (simp add: Let_def)
qed

end
