(* ===== verification/Rate_Window.thy ===== *)
theory Rate_Window
  imports Rate_Limit
begin

text \<open>
  What a rate-limit backend promises and what follows from it. \<open>token_backend\<close> is the interface:
  every key has a level at every instant, a call is granted exactly when the level covers it, takes
  exactly that much from its own key and nothing from any other, and levels grow with the rate of
  the tier up to the burst. Inside it: over any period, a key is granted at most its burst plus what
  the rate yields. \<open>mem_setting\<close> shows the memory backend keeps the interface, whatever its sweep
  drops, when the idle time covers the slowest refill; the built-in options and tiers are an instance.
\<close>

subsection \<open>Sequences of calls\<close>

type_synonym rl_call = "str \<times> int \<times> int"

definition call_key :: "rl_call \<Rightarrow> str" where "call_key q = fst q"
definition call_n :: "rl_call \<Rightarrow> int" where "call_n q = fst (snd q)"
definition call_at :: "rl_call \<Rightarrow> int" where "call_at q = snd (snd q)"

primrec run_calls ::
    "(str \<Rightarrow> int \<Rightarrow> int \<Rightarrow> 's \<Rightarrow> take_result \<times> 's) \<Rightarrow> rl_call list \<Rightarrow> 's \<Rightarrow> take_result list \<times> 's" where
  "run_calls tk [] s = ([], s)"
| "run_calls tk (q # qs) s =
     (let (r, s1) = tk (call_key q) (call_n q) (call_at q) s;
          (rs, s2) = run_calls tk qs s1 in (r # rs, s2))"

primrec granted_to :: "str \<Rightarrow> rl_call list \<Rightarrow> take_result list \<Rightarrow> int" where
  "granted_to k [] rs = 0"
| "granted_to k (q # qs) rs =
     (if call_key q = k \<and> granted (hd rs) then call_n q else 0) + granted_to k qs (tl rs)"

text \<open>The clock does not run backwards, and stays within the period.\<close>

fun timely :: "int \<Rightarrow> rl_call list \<Rightarrow> int \<Rightarrow> bool" where
  "timely t [] T \<longleftrightarrow> t \<le> T"
| "timely t (q # qs) T \<longleftrightarrow> t \<le> call_at q \<and> 0 \<le> call_n q \<and> timely (call_at q) qs T"

lemma timely_le: "timely t qs T \<Longrightarrow> t \<le> T"
  by (induction qs arbitrary: t) (auto intro: order_trans)

subsection \<open>The interface\<close>

locale token_backend =
  fixes take_n :: "str \<Rightarrow> int \<Rightarrow> int \<Rightarrow> 's \<Rightarrow> take_result \<times> 's"
    and level :: "str \<Rightarrow> int \<Rightarrow> 's \<Rightarrow> rat"
    and clock_ok :: "int \<Rightarrow> 's \<Rightarrow> bool"
    and spec :: "str \<Rightarrow> bucket_spec"
  assumes spec_fine: "spec_ok (spec k)"
    and level_range: "clock_ok t s \<Longrightarrow> t \<le> u \<Longrightarrow> 0 \<le> level k u s \<and> level k u s \<le> of_int (capacity (spec k))"
    and take_clock: "clock_ok t s \<Longrightarrow> t \<le> u \<Longrightarrow> 0 \<le> n \<Longrightarrow> clock_ok u (snd (take_n k n u s))"
    and take_clock_idle: "clock_ok t s \<Longrightarrow> t \<le> u \<Longrightarrow> clock_ok u s"
    and take_grants: "clock_ok t s \<Longrightarrow> t \<le> u \<Longrightarrow> granted (fst (take_n k n u s)) \<longleftrightarrow> of_int n \<le> level k u s"
    and take_level: "clock_ok t s \<Longrightarrow> t \<le> u \<Longrightarrow> 0 \<le> n \<Longrightarrow> level k' u (snd (take_n k n u s)) =
          level k' u s - (if k' = k \<and> of_int n \<le> level k u s then of_int n else 0)"
    and level_later: "clock_ok t s \<Longrightarrow> t \<le> u \<Longrightarrow> u \<le> v \<Longrightarrow>
          level k v s = min (of_int (capacity (spec k))) (level k u s + of_int (v - u) * ratePerMs (spec k))"
begin

lemma window_level:
  assumes "clock_ok t s" and "timely t qs T"
  shows "of_int (granted_to k qs (fst (run_calls take_n qs s))) + level k T (snd (run_calls take_n qs s))
      \<le> level k t s + of_int (T - t) * ratePerMs (spec k) \<and>
    0 \<le> level k T (snd (run_calls take_n qs s))"
  using assms
proof (induction qs arbitrary: s t)
  case Nil
  then show ?case using level_later [of t s t T k] level_range [of t s T k] by auto
next
  case (Cons q qs)
  let ?k = "call_key q" and ?n = "call_n q" and ?u = "call_at q"
  define r s1 where rs: "r = fst (take_n ?k ?n ?u s)" "s1 = snd (take_n ?k ?n ?u s)"
  have t: "t \<le> ?u" "0 \<le> ?n" "timely ?u qs T" using Cons.prems(2) by auto
  have "clock_ok ?u s1" using take_clock [OF Cons.prems(1) t(1,2)] by (simp add: rs)
  from Cons.IH [OF this t(3)] have
    ih: "of_int (granted_to k qs (fst (run_calls take_n qs s1))) + level k T (snd (run_calls take_n qs s1))
        \<le> level k ?u s1 + of_int (T - ?u) * ratePerMs (spec k)"
    and nn: "0 \<le> level k T (snd (run_calls take_n qs s1))" by auto
  have lu: "level k ?u s \<le> level k t s + of_int (?u - t) * ratePerMs (spec k)"
    using level_later [OF Cons.prems(1) order_refl t(1)] by simp
  have l1: "(if ?k = k \<and> granted r then of_int ?n else 0) + level k ?u s1 = level k ?u s"
    using take_level [OF Cons.prems(1) t(1,2), of k ?k] take_grants [OF Cons.prems(1) t(1), of ?k ?n]
    by (auto simp: rs)
  have sp: "of_int (T - t) * ratePerMs (spec k) =
      of_int (?u - t) * ratePerMs (spec k) + of_int (T - ?u) * ratePerMs (spec k)"
    by (simp add: algebra_simps)
  have e: "run_calls take_n (q # qs) s = (r # fst (run_calls take_n qs s1), snd (run_calls take_n qs s1))"
    by (simp add: rs split_beta Let_def)
  have g: "(of_int (granted_to k (q # qs) (r # rs')) :: rat) =
      (if ?k = k \<and> granted r then of_int ?n else 0) + of_int (granted_to k qs rs')" for rs'
    by simp
  show ?case
    unfolding e fst_conv snd_conv g using ih nn lu l1 sp by linarith
qed

lemma clock_after: "clock_ok t s \<Longrightarrow> timely t qs T \<Longrightarrow> clock_ok T (snd (run_calls take_n qs s))"
proof (induction qs arbitrary: s t)
  case Nil
  then show ?case using take_clock_idle by simp
next
  case (Cons q qs)
  then show ?case using take_clock [of t s "call_at q" "call_n q" "call_key q"]
    by (auto simp: split_beta Let_def)
qed

lemma window_bound:
  assumes "clock_ok t s" and "timely t qs T"
  shows "of_int (granted_to k qs (fst (run_calls take_n qs s)))
      \<le> of_int (capacity (spec k)) + of_int (T - t) * ratePerMs (spec k)"
  using window_level [OF assms, of k] level_range [OF assms(1) order_refl, of k] by linarith

lemma other_key_unaffected:
  assumes "clock_ok t s" and "t \<le> u" and "0 \<le> n" and "k' \<noteq> k"
  shows "granted (fst (take_n k' m u (snd (take_n k n u s)))) \<longleftrightarrow> granted (fst (take_n k' m u s))"
  using take_grants [OF take_clock [OF assms(1-3)] order_refl] take_grants [OF assms(1,2)]
    take_level [OF assms(1-3)] assms(4) by simp

end

subsection \<open>The memory backend keeps the interface\<close>

definition mem_ok :: "(str \<Rightarrow> bucket_spec) \<Rightarrow> int \<Rightarrow> mem_backend \<Rightarrow> bool" where
  "mem_ok sp t b \<longleftrightarrow> distinct (map fst (buckets b)) \<and>
     (\<forall>(k, e)\<in>set (buckets b). e_spec e = sp k \<and> e_fullRefillMs e = fullRefillMs (sp k) \<and>
        bucket_ok (sp k) (e_bucket e) \<and> lastMs (e_bucket e) = Some (e_lastSeenMs e) \<and> e_lastSeenMs e \<le> t)"

definition mem_level :: "(str \<Rightarrow> bucket_spec) \<Rightarrow> str \<Rightarrow> int \<Rightarrow> mem_backend \<Rightarrow> rat" where
  "mem_level sp k u b =
     (case map_of (buckets b) k of
        None \<Rightarrow> of_int (capacity (sp k))
      | Some e \<Rightarrow> tokens (refill (sp k) u (e_bucket e)))"

lemma mem_okD:
  assumes "mem_ok sp t b" and "map_of (buckets b) k = Some e"
  shows "e_spec e = sp k" "e_fullRefillMs e = fullRefillMs (sp k)" "bucket_ok (sp k) (e_bucket e)"
    "lastMs (e_bucket e) = Some (e_lastSeenMs e)" "e_lastSeenMs e \<le> t"
  using assms by (auto simp: mem_ok_def dest!: map_of_SomeD)

lemma full_after_idle:
  assumes "spec_ok spec" and "bucket_ok spec st" and "lastMs st = Some l" and "fullRefillMs spec \<le> u - l"
    and "0 \<le> u - l"
  shows "tokens (refill spec u st) = of_int (capacity spec)"
proof -
  have "(of_int (capacity spec * intervalMs spec) :: rat) / of_int (refillTokens spec) \<le> of_int (u - l)"
    using assms(1,4) by (simp add: fullRefillMs_def spec_ok_def ceiling_le_iff)
  then have "(of_int (capacity spec) :: rat) \<le> of_int (u - l) * ratePerMs spec"
    using assms(1) by (simp add: ratePerMs_def spec_ok_def field_simps)
  then show ?thesis
    using refill_later [OF assms(3) _ assms(2), of u] assms(2,5) by (simp add: bucket_ok_def)
qed

text \<open>Dropping entries that are full at the current instant changes no level.\<close>

definition drops_full :: "(str \<Rightarrow> bucket_spec) \<Rightarrow> int \<Rightarrow> (str \<times> bucket_entry) list \<Rightarrow> (str \<times> bucket_entry) list \<Rightarrow> bool" where
  "drops_full sp u bs bs' \<longleftrightarrow> set bs' \<subseteq> set bs \<and> distinct (map fst bs') \<and>
     (\<forall>(k, e)\<in>set bs. (k, e) \<in> set bs' \<or> fullRefillMs (sp k) \<le> u - e_lastSeenMs e)"

lemma drops_full_ok: "mem_ok sp t b \<Longrightarrow> drops_full sp u (buckets b) bs' \<Longrightarrow> mem_ok sp t (b\<lparr>buckets := bs', lastSweepMs := x\<rparr>)"
  by (auto simp: mem_ok_def drops_full_def)

lemma drops_full_level:
  assumes sp: "\<And>k. spec_ok (sp k)" and ok: "mem_ok sp u b" and d: "drops_full sp u (buckets b) bs'"
  shows "mem_level sp k u (b\<lparr>buckets := bs', lastSweepMs := x\<rparr>) = mem_level sp k u b"
proof -
  have db: "distinct (map fst (buckets b))" and d': "distinct (map fst bs')"
    using ok d by (auto simp: mem_ok_def drops_full_def)
  show ?thesis
  proof (cases "map_of (buckets b) k")
    case None
    then have "map_of bs' k = None" using d by (auto simp: map_of_eq_None_iff drops_full_def)
    with None show ?thesis by (simp add: mem_level_def)
  next
    case (Some e)
    then have e: "(k, e) \<in> set (buckets b)" by (rule map_of_SomeD)
    show ?thesis
    proof (cases "(k, e) \<in> set bs'")
      case True
      then show ?thesis using Some d' by (simp add: mem_level_def)
    next
      case False
      then have f: "fullRefillMs (sp k) \<le> u - e_lastSeenMs e" using d e by (auto simp: drops_full_def)
      have "map_of bs' k = None"
      proof (rule ccontr)
        assume "map_of bs' k \<noteq> None"
        then obtain e' where e': "(k, e') \<in> set bs'" by (auto dest: map_of_SomeD)
        then have "map_of (buckets b) k = Some e'" using d db by (auto simp: drops_full_def)
        with Some e' False show False by simp
      qed
      moreover have "tokens (refill (sp k) u (e_bucket e)) = of_int (capacity (sp k))"
        using mem_okD [OF ok Some] by (intro full_after_idle [OF sp _ _ f]) auto
      ultimately show ?thesis using Some by (simp add: mem_level_def)
    qed
  qed
qed

lemma drops_full_trans:
  "drops_full sp u bs bs' \<Longrightarrow> drops_full sp u bs' bs'' \<Longrightarrow> drops_full sp u bs bs''"
  by (fastforce simp: drops_full_def)

lemma evict_drops:
  assumes "distinct (map fst bs)"
    and "\<forall>(k, e)\<in>set bs. k \<in> set ks \<longrightarrow> fullRefillMs (sp k) \<le> u - e_lastSeenMs e"
  shows "drops_full sp u bs (evict_oldest_full limit ks bs)"
  using assms
proof (induction limit ks bs rule: evict_oldest_full.induct)
  case (1 limit bs)
  then show ?case by (auto simp: drops_full_def)
next
  case (2 limit k ks bs)
  show ?case
  proof (cases "length bs \<le> limit")
    case True
    with 2 show ?thesis by (auto simp: drops_full_def)
  next
    case False
    have sub: "set (AList.delete k bs) \<subseteq> set bs" by (simp add: AList.delete_eq filter_is_subset)
    have dd: "distinct (map fst (AList.delete k bs))" using 2(2) by (rule distinct_delete)
    have "drops_full sp u bs (AList.delete k bs)"
      using 2(3) sub dd by (auto simp: drops_full_def AList.delete_eq)
    moreover have "drops_full sp u (AList.delete k bs) (evict_oldest_full limit ks (AList.delete k bs))"
      using 2(3) sub by (intro 2(1) [OF False dd]) auto
    ultimately show ?thesis using False by (auto intro: drops_full_trans)
  qed
qed

lemma filter_drops:
  assumes "distinct (map fst bs)" and "\<forall>(k, e)\<in>set bs. \<not> P (k, e) \<longrightarrow> fullRefillMs (sp k) \<le> u - e_lastSeenMs e"
  shows "drops_full sp u bs (filter P bs)"
  using assms by (auto simp: drops_full_def distinct_map_filter)

lemma sweep_drops:
  assumes ok: "mem_ok sp u b" and idle: "\<And>k. fullRefillMs (sp k) \<le> idleTtlMs opts"
  shows "\<exists>bs' x. sweep opts u b = b\<lparr>buckets := bs', lastSweepMs := x\<rparr> \<and> drops_full sp u (buckets b) bs'"
proof -
  let ?live = "filter (\<lambda>(k, e). \<not> u - e_lastSeenMs e \<ge> idleTtlMs opts) (buckets b)"
  let ?ev = "sort_key (\<lambda>(k, e). e_lastSeenMs e) (filter (\<lambda>(k, e). u - e_lastSeenMs e \<ge> e_fullRefillMs e) ?live)"
  have dist: "distinct (map fst (buckets b))" using ok by (simp add: mem_ok_def)
  have l: "drops_full sp u (buckets b) ?live"
  proof (rule filter_drops [OF dist], clarsimp)
    fix k e assume "(k, e) \<in> set (buckets b)" and i: "idleTtlMs opts \<le> u - e_lastSeenMs e"
    show "fullRefillMs (sp k) \<le> u - e_lastSeenMs e" using idle [of k] i by linarith
  qed
  have dl: "distinct (map fst ?live)" using l by (simp add: drops_full_def)
  have "drops_full sp u ?live (evict_oldest_full (maxBuckets opts) (map fst ?ev) ?live)"
  proof (rule evict_drops [OF dl], clarsimp)
    fix k e e'
    assume in1: "(k, e) \<in> set (buckets b)" and in2: "(k, e') \<in> set (buckets b)"
      and f: "e_fullRefillMs e' \<le> u - e_lastSeenMs e'"
    have "e' = e" using in1 in2 dist by (metis map_of_eq_Some_iff option.inject)
    moreover have "e_fullRefillMs e = fullRefillMs (sp k)" using ok in1 by (auto simp: mem_ok_def)
    ultimately show "fullRefillMs (sp k) \<le> u - e_lastSeenMs e" using f by simp
  qed
  with l have d2: "drops_full sp u (buckets b) (evict_oldest_full (maxBuckets opts) (map fst ?ev) ?live)"
    by (rule drops_full_trans)
  have same: "drops_full sp u (buckets b) (buckets b)" using dist by (auto simp: drops_full_def)
  show ?thesis
  proof (cases "case lastSweepMs b of None \<Rightarrow> False | Some l \<Rightarrow> u - l < sweepIntervalMs opts")
    case True
    then have "sweep opts u b = b\<lparr>buckets := buckets b, lastSweepMs := lastSweepMs b\<rparr>"
      by (simp add: sweep_def)
    with same show ?thesis by blast
  next
    case False
    then have "sweep opts u b = b\<lparr>buckets := (if length ?live \<le> maxBuckets opts then ?live
        else evict_oldest_full (maxBuckets opts) (map fst ?ev) ?live), lastSweepMs := Some u\<rparr>"
      by (simp only: sweep_def Let_def if_False if_distrib)
        (simp only: split: if_split, simp)
    moreover have "drops_full sp u (buckets b) (if length ?live \<le> maxBuckets opts then ?live
        else evict_oldest_full (maxBuckets opts) (map fst ?ev) ?live)"
      using l d2 by (simp only: split: if_split) simp
    ultimately show ?thesis by blast
  qed
qed

definition mem_take ::
    "mem_opts \<Rightarrow> (str \<Rightarrow> bucket_spec) \<Rightarrow> str \<Rightarrow> int \<Rightarrow> int \<Rightarrow> mem_backend \<Rightarrow> take_result \<times> mem_backend" where
  "mem_take opts sp k n u b = mem_consume opts k (sp k) n u b"

lemma mem_ok_later: "mem_ok sp t b \<Longrightarrow> t \<le> u \<Longrightarrow> mem_ok sp u b"
  by (fastforce simp: mem_ok_def)

text \<open>The entry a call works on, before the sweep.\<close>

lemma mem_take_entry:
  assumes sp: "\<And>k. spec_ok (sp k)" and ok: "mem_ok sp t b" and t: "t \<le> u" and n: "0 \<le> n"
  shows "\<exists>e'. mem_take opts sp k n u b =
      (fst (mem_take opts sp k n u b), sweep opts u (b\<lparr>buckets := AList.update k e' (buckets b)\<rparr>)) \<and>
    (granted (fst (mem_take opts sp k n u b)) \<longleftrightarrow> of_int n \<le> mem_level sp k u b) \<and>
    mem_ok sp u (b\<lparr>buckets := AList.update k e' (buckets b)\<rparr>) \<and>
    tokens (refill (sp k) u (e_bucket e')) =
      mem_level sp k u b - (if of_int n \<le> mem_level sp k u b then of_int n else 0)"
proof -
  define e where "e = entry_for (sp k) u (map_of (buckets b) k)"
  have lev: "mem_level sp k u b = tokens (refill (sp k) u (e_bucket e))"
    by (simp add: mem_level_def e_def entry_for_def new_bucket_def refill_def split: option.splits)
  have spec_e: "e_spec e = sp k" and full_e: "e_fullRefillMs e = fullRefillMs (sp k)"
    and bok: "bucket_ok (sp k) (e_bucket e)"
    using mem_okD [OF ok] sp [of k]
    by (auto simp: e_def entry_for_def new_bucket_def bucket_ok_def spec_ok_def split: option.splits)
  have last: "lastMs (refill (sp k) u (e_bucket e)) = Some u"
    using mem_okD(4,5) [OF ok] t
    by (fastforce simp: refill_last e_def entry_for_def new_bucket_def max_def split: option.splits)
  define st where "st = snd (takeFromBucket (e_bucket e) (sp k) n u)"
  define e' where "e' = e\<lparr>e_bucket := st, e_lastSeenMs := u\<rparr>"
  have st_last: "lastMs st = Some u" by (simp add: st_def last)
  have st_ok: "bucket_ok (sp k) st" unfolding st_def by (rule take_ok [OF sp bok n])
  have "tokens (refill (sp k) u st) = tokens st" using st_last by (simp add: refill_def)
  then have lv: "tokens (refill (sp k) u (e_bucket e')) =
      mem_level sp k u b - (if of_int n \<le> mem_level sp k u b then of_int n else 0)"
    by (simp add: e'_def lev) (simp add: st_def take_tokens)
  have bs: "set (AList.update k e' (buckets b)) \<subseteq> insert (k, e') (set (buckets b))"
    by (rule set_update_subset)
  have d: "distinct (map fst (AList.update k e' (buckets b)))"
    using ok by (simp add: mem_ok_def distinct_update)
  have "mem_ok sp u (b\<lparr>buckets := AList.update k e' (buckets b)\<rparr>)"
    using mem_ok_later [OF ok t] bs d spec_e full_e st_ok st_last
    by (fastforce simp: mem_ok_def e'_def)
  moreover have "mem_take opts sp k n u b =
      (fst (takeFromBucket (e_bucket e) (sp k) n u), sweep opts u (b\<lparr>buckets := AList.update k e' (buckets b)\<rparr>))"
    by (simp add: mem_take_def mem_consume_def Let_def split_beta e_def [symmetric] spec_e st_def [symmetric] e'_def)
  ultimately show ?thesis using lv by (auto simp: take_granted lev intro!: exI [of _ e'])
qed

lemma mem_take_facts:
  assumes sp: "\<And>k. spec_ok (sp k)" and idle: "\<And>k. fullRefillMs (sp k) \<le> idleTtlMs opts"
    and ok: "mem_ok sp t b" and t: "t \<le> u" and n: "0 \<le> n"
  shows "mem_ok sp u (snd (mem_take opts sp k n u b))"
    and "granted (fst (mem_take opts sp k n u b)) \<longleftrightarrow> of_int n \<le> mem_level sp k u b"
    and "mem_level sp k' u (snd (mem_take opts sp k n u b)) =
      mem_level sp k' u b - (if k' = k \<and> of_int n \<le> mem_level sp k u b then of_int n else 0)"
proof -
  from mem_take_entry [OF sp ok t n, of opts k] obtain e' where
    m: "mem_take opts sp k n u b =
      (fst (mem_take opts sp k n u b), sweep opts u (b\<lparr>buckets := AList.update k e' (buckets b)\<rparr>))"
    and g: "granted (fst (mem_take opts sp k n u b)) \<longleftrightarrow> of_int n \<le> mem_level sp k u b"
    and ok1: "mem_ok sp u (b\<lparr>buckets := AList.update k e' (buckets b)\<rparr>)"
    and lv: "tokens (refill (sp k) u (e_bucket e')) =
      mem_level sp k u b - (if of_int n \<le> mem_level sp k u b then of_int n else 0)" by blast
  let ?b1 = "b\<lparr>buckets := AList.update k e' (buckets b)\<rparr>"
  from sweep_drops [OF ok1 idle] obtain bs' x where
    s: "sweep opts u ?b1 = ?b1\<lparr>buckets := bs', lastSweepMs := x\<rparr>"
    and d: "drops_full sp u (buckets ?b1) bs'" by blast
  have sn: "snd (mem_take opts sp k n u b) = ?b1\<lparr>buckets := bs', lastSweepMs := x\<rparr>"
    by (subst m) (simp only: snd_conv s)
  show "mem_ok sp u (snd (mem_take opts sp k n u b))"
    unfolding sn by (rule drops_full_ok [OF ok1 d])
  show "granted (fst (mem_take opts sp k n u b)) \<longleftrightarrow> of_int n \<le> mem_level sp k u b" by (rule g)
  have "mem_level sp k' u (snd (mem_take opts sp k n u b)) = mem_level sp k' u ?b1"
    unfolding sn by (rule drops_full_level [OF sp ok1 d])
  also have "\<dots> = (if k' = k then tokens (refill (sp k) u (e_bucket e')) else mem_level sp k' u b)"
    by (simp add: mem_level_def update_conv')
  finally show "mem_level sp k' u (snd (mem_take opts sp k n u b)) =
      mem_level sp k' u b - (if k' = k \<and> of_int n \<le> mem_level sp k u b then of_int n else 0)"
    by (simp add: lv)
qed

locale mem_setting =
  fixes opts :: mem_opts and sp :: "str \<Rightarrow> bucket_spec"
  assumes tier_fine: "spec_ok (sp k)"
    and idle_covers: "fullRefillMs (sp k) \<le> idleTtlMs opts"
begin

lemma level_mono_later:
  assumes ok: "mem_ok sp t b" and "t \<le> u" and "u \<le> v"
  shows "mem_level sp k v b =
    min (of_int (capacity (sp k))) (mem_level sp k u b + of_int (v - u) * ratePerMs (sp k))"
proof (cases "map_of (buckets b) k")
  case None
  have "0 \<le> of_int (v - u) * ratePerMs (sp k)"
    using rate_pos [OF tier_fine [of k]] assms(3) by (intro mult_nonneg_nonneg) auto
  with None show ?thesis by (simp add: mem_level_def)
next
  case (Some e)
  then show ?thesis
    using refill_refill [OF tier_fine, of k "e_bucket e" u v] mem_okD [OF ok Some] assms(2,3)
    by (simp add: mem_level_def)
qed

lemma level_in_range:
  assumes "mem_ok sp t b" and "t \<le> u"
  shows "0 \<le> mem_level sp k u b \<and> mem_level sp k u b \<le> of_int (capacity (sp k))"
  using refill_ok [OF tier_fine [of k]] mem_okD(3) [OF assms(1)] tier_fine [of k]
  by (auto simp: mem_level_def bucket_ok_def spec_ok_def split: option.splits)

end

sublocale mem_setting \<subseteq> mem: token_backend "mem_take opts sp" "mem_level sp" "mem_ok sp" sp
proof unfold_locales
  show "spec_ok (sp k)" for k by (rule tier_fine)
  show "0 \<le> mem_level sp k u s \<and> mem_level sp k u s \<le> of_int (capacity (sp k))"
    if "mem_ok sp t s" "t \<le> u" for t s u k using that by (rule level_in_range)
  show "mem_level sp k v s =
      min (of_int (capacity (sp k))) (mem_level sp k u s + of_int (v - u) * ratePerMs (sp k))"
    if "mem_ok sp t s" "t \<le> u" "u \<le> v" for t s u v k using that by (rule level_mono_later)
  show "granted (fst (mem_take opts sp k n u s)) \<longleftrightarrow> of_int n \<le> mem_level sp k u s"
    if "mem_ok sp t s" "t \<le> u" for t s u n k
    by (simp add: mem_take_def mem_consume_def split_beta Let_def take_granted)
      (simp add: mem_level_def entry_for_def new_bucket_def refill_def mem_okD(1) [OF that(1)] split: option.splits)
qed (rule mem_take_facts [OF tier_fine idle_covers] mem_ok_later, assumption+)+

text \<open>The built-in tiers: the tier of a key is its scope class, between the first two bars.\<close>

definition key_class :: "str \<Rightarrow> str" where
  "key_class key = (case split_on (\<lambda>c. c = CHR ''|'') key of a # b # _ \<Rightarrow> b | _ \<Rightarrow> [])"

definition default_key_spec :: "str \<Rightarrow> bucket_spec" where
  "default_key_spec key =
     tier_spec (case map_of default_throttle_tiers (key_class key) of
       Some t \<Rightarrow> t | None \<Rightarrow> \<lparr>perMinute = 600, burst = 100\<rparr>)"

lemma map_of_ball: "(\<forall>p\<in>set xs. P (snd p)) \<Longrightarrow> map_of xs k = Some v \<Longrightarrow> P v"
  by (auto dest!: map_of_SomeD)

lemma default_tier_fine:
  "spec_ok (default_key_spec key) \<and> fullRefillMs (default_key_spec key) \<le> idleTtlMs default_mem_opts"
proof -
  let ?P = "\<lambda>t. spec_ok (tier_spec t) \<and> fullRefillMs (tier_spec t) \<le> idleTtlMs default_mem_opts"
  have all: "\<forall>p\<in>set default_throttle_tiers. ?P (snd p)"
    by (simp add: default_throttle_tiers_def spec_ok_def tier_spec_def interval_ms_def fullRefillMs_def
        default_mem_opts_def)
  have "?P \<lparr>perMinute = 600, burst = 100\<rparr>"
    by (simp add: spec_ok_def tier_spec_def interval_ms_def fullRefillMs_def default_mem_opts_def)
  with map_of_ball [OF all] show ?thesis by (auto simp: default_key_spec_def split: option.splits)
qed

interpretation built_in: mem_setting default_mem_opts default_key_spec
  using default_tier_fine by unfold_locales auto

lemma split_on_append:
  "d \<notin> set xs \<Longrightarrow> split_on (\<lambda>c. c = d) (xs @ d # ys) = xs # split_on (\<lambda>c. c = d) ys"
  by (induction xs) auto

lemma key_class_bucket_key:
  assumes "CHR ''|'' \<notin> set h" and "CHR ''|'' \<notin> set cls"
  shows "key_class (bucket_key h cls v) = cls"
proof -
  have "split_on (\<lambda>c. c = CHR ''|'') (bucket_key h cls v) = h # cls # split_on (\<lambda>c. c = CHR ''|'') v"
    using assms by (simp add: bucket_key_def split_on_append)
  then show ?thesis by (simp add: key_class_def)
qed

subsection \<open>Properties\<close>

text \<open>
  Whatever the readings of the clock are, in whatever order (a clock that stands
  still or runs backwards included), the calls a bucket grants up to an instant take at most what it
  held plus what its rate yields by then; a skewed clock never mints a token.
\<close>

theorem bucket_window:
  assumes "spec_ok spec" and "bucket_ok spec st" and "lastMs st = Some l" and "l \<le> T"
    and "\<forall>q\<in>set qs. 0 \<le> fst q \<and> snd q \<le> T"
  shows "of_int (fst (run_takes spec qs st)) \<le> tokens st + of_int (T - l) * ratePerMs spec"
  using run_takes_bound [OF assms] by linarith

theorem bucket_window_witness:
  "of_int (fst (run_takes (tier_spec \<lparr>perMinute = 60, burst = 2\<rparr>) [(1, 500), (1, 0), (1, 1000), (1, 900)]
      \<lparr>tokens = 2, lastMs = Some 0\<rparr>)) \<le> (2 + of_int 1000 * ratePerMs (tier_spec \<lparr>perMinute = 60, burst = 2\<rparr>) :: rat) \<and>
   fst (run_takes (tier_spec \<lparr>perMinute = 60, burst = 2\<rparr>) [(1, 500), (1, 0), (1, 1000), (1, 900)]
      \<lparr>tokens = 2, lastMs = Some 0\<rparr>) = 2"
proof -
  let ?sp = "tier_spec \<lparr>perMinute = 60, burst = 2\<rparr>"
  have ok: "spec_ok ?sp" "bucket_ok ?sp \<lparr>tokens = 2, lastMs = Some 0\<rparr>"
    by (simp_all add: spec_ok_def tier_spec_def interval_ms_def bucket_ok_def)
  have "fst (run_takes ?sp [(1, 500), (1, 0), (1, 1000), (1, 900)] \<lparr>tokens = 2, lastMs = Some 0\<rparr>) = 2"
    by (simp add: takeFromBucket_def refill_def Let_def tier_spec_def interval_ms_def ratePerMs_def)
  moreover note bucket_window [OF ok, of 0 1000 "[(1, 500), (1, 0), (1, 1000), (1, 900)]"]
  ultimately show ?thesis by simp
qed

text \<open>
  When a bucket refuses a call it could ever serve, the number of milliseconds
  it answers is exact: the same call after that long (with nothing taken in between) is granted,
  and any earlier it is refused again.
\<close>

theorem retry_after_exact:
  assumes "spec_ok spec" and "bucket_ok spec st" and "n \<le> capacity spec"
    and "case lastMs st of None \<Rightarrow> True | Some l \<Rightarrow> l \<le> now"
    and "\<not> granted (fst (takeFromBucket st spec n now))" and "0 \<le> d"
  shows "\<exists>w. retryAfterMs (fst (takeFromBucket st spec n now)) = Some w \<and>
    (granted (fst (takeFromBucket (snd (takeFromBucket st spec n now)) spec n (now + d))) \<longleftrightarrow> w \<le> d)"
proof -
  define st1 where "st1 = refill spec now st"
  have low: "\<not> of_int n \<le> tokens st1" using assms(5) by (simp add: take_granted st1_def)
  have s: "snd (takeFromBucket st spec n now) = st1"
    using low by (simp add: takeFromBucket_def Let_def st1_def)
  have l: "lastMs st1 = Some now"
    using assms(4) by (auto simp: st1_def refill_last max_def split: option.splits)
  have ok: "bucket_ok spec st1" unfolding st1_def by (rule refill_ok [OF assms(1,2)])
  have r: "0 < ratePerMs spec" using assms(1) by (rule rate_pos)
  have w: "retryAfterMs (fst (takeFromBucket st spec n now)) =
      Some \<lceil>(of_int n - tokens st1) / ratePerMs spec\<rceil>"
    using low r by (simp add: takeFromBucket_def Let_def st1_def)
  have "granted (fst (takeFromBucket st1 spec n (now + d))) \<longleftrightarrow>
      of_int n \<le> min (of_int (capacity spec)) (tokens st1 + of_int d * ratePerMs spec)"
    using refill_later [OF l _ ok, of "now + d"] assms(6) by (simp add: take_granted)
  also have "\<dots> \<longleftrightarrow> (of_int n - tokens st1) / ratePerMs spec \<le> of_int d"
    using r assms(3) by (simp add: divide_le_eq algebra_simps)
  also have "\<dots> \<longleftrightarrow> \<lceil>(of_int n - tokens st1) / ratePerMs spec\<rceil> \<le> d"
    by (simp add: ceiling_le_iff)
  finally show ?thesis using w s by auto
qed

theorem retry_after_exact_witness:
  "\<exists>w. retryAfterMs (fst (takeFromBucket \<lparr>tokens = 0, lastMs = Some 0\<rparr> (tier_spec \<lparr>perMinute = 60, burst = 2\<rparr>) 1 100)) = Some w \<and>
    (granted (fst (takeFromBucket (snd (takeFromBucket \<lparr>tokens = 0, lastMs = Some 0\<rparr>
        (tier_spec \<lparr>perMinute = 60, burst = 2\<rparr>) 1 100)) (tier_spec \<lparr>perMinute = 60, burst = 2\<rparr>) 1 (100 + 900))) \<longleftrightarrow> w \<le> 900)"
  by (rule retry_after_exact)
    (simp_all add: spec_ok_def bucket_ok_def tier_spec_def interval_ms_def takeFromBucket_def refill_def Let_def ratePerMs_def)

text \<open>
  C34: with the built-in tiers and the memory backend, whatever ran before and whatever
  the idle sweep dropped in the meantime, the calls granted to one caller in one scope class and
  vault during a period are at most the burst of the tier plus its rate times the period.
\<close>

theorem caller_window:
  assumes "timely t0 qs0 t" and "timely t qs T"
  shows "of_int (granted_to k qs (fst (run_calls (mem_take default_mem_opts default_key_spec) qs
      (snd (run_calls (mem_take default_mem_opts default_key_spec) qs0 empty_backend)))))
    \<le> of_int (capacity (default_key_spec k)) + of_int (T - t) * ratePerMs (default_key_spec k)"
proof -
  have "mem_ok default_key_spec t0 empty_backend" by (simp add: mem_ok_def empty_backend_def)
  from built_in.mem.clock_after [OF this assms(1)]
  show ?thesis by (rule built_in.mem.window_bound [OF _ assms(2)])
qed

theorem caller_window_witness:
  "of_int (granted_to (bucket_key ''c'' ''execute'' ''v'') [(bucket_key ''c'' ''execute'' ''v'', 1, 100)]
      (fst (run_calls (mem_take default_mem_opts default_key_spec) [(bucket_key ''c'' ''execute'' ''v'', 1, 100)]
      (snd (run_calls (mem_take default_mem_opts default_key_spec)
        [(bucket_key ''c'' ''execute'' ''v'', 1, 0)] empty_backend)))))
    \<le> of_int (capacity (default_key_spec (bucket_key ''c'' ''execute'' ''v''))) +
      of_int (12000 - 50) * ratePerMs (default_key_spec (bucket_key ''c'' ''execute'' ''v''))"
  by (rule caller_window [of 0 _ 50]) (simp_all add: call_at_def call_n_def)

text \<open>
  A shared backend that fails is an outage, never a throttle. While it lasts the
  backend is not called before the retry instant; the call is then decided by the failure policy
  (the local buckets, or a refusal that says so and counts no hit), and each outage is reported once
  when it begins and once when it ends.
\<close>

theorem outage_policy:
  assumes "map_of (lc_tiers lc) cls = Some tier"
    and "downs l = ups l + (if inOutage l then 1 else 0)"
  shows "(case limiter_check lc (Some consume) h cls v now n l of (d, l') \<Rightarrow>
      downs l' = ups l' + (if inOutage l' then 1 else 0) \<and>
      (inOutage l \<and> now < retryAtMs l \<longrightarrow>
         lim_shared l' = lim_shared l \<and> inOutage l' \<and> retryAtMs l' = retryAtMs l) \<and>
      (d_backend_unavailable d \<longrightarrow>
         lc_failurePolicy lc = Fail_closed \<and> inOutage l' \<and> \<not> d_ok d \<and> lim_hits l' = lim_hits l) \<and>
      (inOutage l' \<and> lc_failurePolicy lc = Fail_open \<longrightarrow>
         d_ok d = granted (fst (mem_consume (lc_opts lc) (bucket_key h cls v) (tier_spec tier) n now (lim_local l)))))"
  using assms
  by (auto simp: limiter_check_def limiter_consume_def duringOutage_def Let_def split_beta
      split: option.splits failure_policy.splits prod.splits if_splits)

theorem outage_policy_witness:
  "(case limiter_check \<lparr>lc_tiers = default_throttle_tiers, lc_opts = default_mem_opts,
          lc_failurePolicy = Fail_closed, lc_backendRetryMs = 5000\<rparr>
        (Some (\<lambda>key spec n now (s::nat). (None, s + 1))) ''c'' ''read'' ''v'' 7 1
        \<lparr>lim_local = empty_backend, lim_shared = 0, inOutage = False, retryAtMs = 0, lim_hits = [],
         downs = 0, ups = 0\<rparr> of (d, l') \<Rightarrow> downs l' = ups l' + (if inOutage l' then 1 else 0))"
  using outage_policy [where cls = "''read''" and tier = "\<lparr>perMinute = 600, burst = 100\<rparr>"
      and lc = "\<lparr>lc_tiers = default_throttle_tiers, lc_opts = default_mem_opts,
          lc_failurePolicy = Fail_closed, lc_backendRetryMs = 5000\<rparr>"
      and l = "\<lparr>lim_local = empty_backend, lim_shared = 0, inOutage = False, retryAtMs = 0, lim_hits = [],
         downs = 0, ups = 0\<rparr>" and consume = "\<lambda>key spec n now (s::nat). (None, s + 1)"
      and h = "''c''" and v = "''v''" and now = 7 and n = 1]
  by (auto simp: default_throttle_tiers_def)

text \<open>
  The idle time does not cover every tier the configuration accepts. With a tier of 1 per minute and
  a burst of 20, twenty calls at the start and one of another caller ten minutes later drop the
  bucket when it holds 10 tokens; at that instant the caller is granted 20 more.
\<close>

lemma sweep_drops_unfilled:
  "(let sp = (\<lambda>k. tier_spec \<lparr>perMinute = 1, burst = 20\<rparr>);
        qs = [(''a'', 20, 0), (''b'', 1, 600000), (''a'', 20, 600000)] in
    \<not> fullRefillMs (sp ''a'') \<le> idleTtlMs default_mem_opts \<and>
    map granted (fst (run_calls (mem_take default_mem_opts sp) qs empty_backend)) = [True, True, True] \<and>
    of_int (granted_to ''a'' qs (fst (run_calls (mem_take default_mem_opts sp) qs empty_backend))) >
      (of_int (capacity (sp ''a'')) + of_int (600000 - 0) * ratePerMs (sp ''a'') :: rat))"
  by (simp add: Let_def call_key_def call_n_def call_at_def mem_take_def mem_consume_def entry_for_def
      new_bucket_def takeFromBucket_def refill_def tier_spec_def interval_ms_def ratePerMs_def
      sweep_def default_mem_opts_def empty_backend_def fullRefillMs_def)

end
