(* ===== verification/Job_Queue.thy ===== *)
theory Job_Queue
  imports Tc_Prelude
begin

text \<open>
  The durable job queue, \<open>packages/server/src/scheduler/job-queue.ts\<close>: the rows of the table \<open>jobs\<close>,
  every method of \<open>JobQueue\<close> as a function from the queue to its result and the queue it leaves, and
  \<open>runJob\<close> as the pieces its asynchronous code consists of (\<open>run_start\<close> before the handler, \<open>run_beat\<close>
  at each interval, \<open>run_return\<close> and \<open>run_throw\<close> when the handler settles), so that other workers may
  act between them.

  A table is the list of its rows in the order they were inserted. The reading of the clock a method
  takes, the random id of a new row and the parse function of JSON are arguments; JSON columns are
  their text. A column that is \<open>NULL\<close> is \<^const>\<open>None\<close>, and a comparison with \<open>NULL\<close> is false.
  The listeners of a queue are closures of the transport and cannot change it: what they are told is
  the list \<open>q_feed\<close>.
\<close>

subsection \<open>Rows\<close>

datatype job_state = Job_queued | Job_running | Job_retrying | Job_complete | Job_failed

record job_row =
  j_id :: str
  j_type :: str
  j_class :: str
  j_state :: job_state
  j_attempt :: int
  j_max_attempts :: int
  j_next_attempt_at :: "int option"
  j_lease_owner :: "str option"
  j_lease_expires_at :: "int option"
  j_cancel_requested :: bool
  j_checkpoint :: "str option"
  j_payload :: "str option"
  j_idempotency_key :: "str option"
  j_last_error :: "str option"
  j_created_at :: int
  j_updated_at :: int
  j_vault_id :: "str option"
  j_caller :: "str option"
  j_outcome :: "str option"

text \<open>The outcome of a task: unreadable text is no outcome.\<close>

definition parseOutcome :: "(str \<Rightarrow> json option) \<Rightarrow> str option \<Rightarrow> json option" where
  "parseOutcome parse raw =
     (case raw of
        None \<Rightarrow> None
      | Some s \<Rightarrow>
          if length s = 0 then None
          else (case parse s of
                  Some (JObj ob) \<Rightarrow> (case get_field ''ok'' ob of Some (JBool _) \<Rightarrow> Some (JObj ob) | _ \<Rightarrow> None)
                | _ \<Rightarrow> None))"

record job_progress =
  progress :: int
  total :: "int option"
  message :: "str option"

record job_queue =
  q_rows :: "job_row list"
  q_progress :: "(str \<times> job_progress) list"
  q_listening :: bool
  q_feed :: "job_row list"

record queue_options =
  o_leaseMs :: int
  o_maxAttempts :: int
  o_backoffBaseMs :: int
  o_maxBackoffMs :: int

definition default_queue_options :: queue_options where
  "default_queue_options =
     \<lparr>o_leaseMs = 30000, o_maxAttempts = 5, o_backoffBaseMs = 1000, o_maxBackoffMs = 5 * 60000\<rparr>"

definition claim_scan_limit :: nat where
  "claim_scan_limit = 50"

record enqueue_options =
  e_owner :: "(str \<times> str option) option"
  e_class :: "str option"
  e_maxAttempts :: "int option"
  e_idempotencyKey :: "str option"
  e_payload :: "str option"
  e_replaceIfTerminal :: bool
  e_replaceIfFailed :: bool

record claim_options =
  c_leaseOwner :: str
  c_types :: "str list"
  c_leaseMs :: "int option"
  c_classLimits :: "str \<Rightarrow> int option"

subsection \<open>Statements\<close>

definition find_job :: "str \<Rightarrow> job_row list \<Rightarrow> job_row option" where
  "find_job i rows = find (\<lambda>r. j_id r = i) rows"

definition find_keyed :: "str \<Rightarrow> job_row list \<Rightarrow> job_row option" where
  "find_keyed k rows = find (\<lambda>r. j_idempotency_key r = Some k) rows"

text \<open>\<open>UPDATE jobs SET ... WHERE p\<close>: the number of rows changed, and the table.\<close>

definition update_jobs :: "(job_row \<Rightarrow> bool) \<Rightarrow> (job_row \<Rightarrow> job_row) \<Rightarrow> job_row list \<Rightarrow> nat \<times> job_row list" where
  "update_jobs p f rows = (length (filter p rows), map (\<lambda>r. if p r then f r else r) rows)"

text \<open>The primary key and the unique index on the idempotency key.\<close>

definition insert_job :: "job_row \<Rightarrow> job_row list \<Rightarrow> job_row list option" where
  "insert_job r rows =
     (if find_job (j_id r) rows \<noteq> None then None
      else case j_idempotency_key r of
        None \<Rightarrow> Some (rows @ [r])
      | Some k \<Rightarrow> if find_keyed k rows \<noteq> None then None else Some (rows @ [r]))"

definition terminal_state :: "job_state \<Rightarrow> bool" where
  "terminal_state st \<longleftrightarrow> st = Job_complete \<or> st = Job_failed"

definition announce :: "str \<Rightarrow> job_queue \<Rightarrow> job_queue" where
  "announce i q =
     (if \<not> q_listening q then q
      else case find_job i (q_rows q) of
        None \<Rightarrow> q
      | Some job \<Rightarrow> if j_vault_id job = None then q else q\<lparr>q_feed := q_feed q @ [job]\<rparr>)"

definition drop_progress :: "str \<Rightarrow> job_queue \<Rightarrow> job_queue" where
  "drop_progress i q = q\<lparr>q_progress := AList.delete i (q_progress q)\<rparr>"

subsection \<open>Enqueue\<close>

definition new_job :: "queue_options \<Rightarrow> str \<Rightarrow> enqueue_options \<Rightarrow> str \<Rightarrow> int \<Rightarrow> job_row" where
  "new_job o1 typ e uuid t =
     \<lparr>j_id = uuid, j_type = typ, j_class = (case e_class e of None \<Rightarrow> typ | Some c \<Rightarrow> c),
      j_state = Job_queued, j_attempt = 0,
      j_max_attempts = (case e_maxAttempts e of None \<Rightarrow> o_maxAttempts o1 | Some n \<Rightarrow> n),
      j_next_attempt_at = Some t, j_lease_owner = None, j_lease_expires_at = None,
      j_cancel_requested = False, j_checkpoint = None, j_payload = e_payload e,
      j_idempotency_key = e_idempotencyKey e, j_last_error = None, j_created_at = t, j_updated_at = t,
      j_vault_id = map_option fst (e_owner e),
      j_caller = (case e_owner e of None \<Rightarrow> None | Some (v, c) \<Rightarrow> c), j_outcome = None\<rparr>"

definition insert_or_winner ::
    "str option \<Rightarrow> job_row \<Rightarrow> job_queue \<Rightarrow> job_row option \<times> job_queue" where
  "insert_or_winner key r q =
     (case insert_job r (q_rows q) of
        Some rows \<Rightarrow> (Some r, q\<lparr>q_rows := rows\<rparr>)
      | None \<Rightarrow>
          (case key of
             Some k \<Rightarrow> (find_keyed k (q_rows q), q)
           | None \<Rightarrow> (None, q)))"

definition replaceable :: "enqueue_options \<Rightarrow> job_row \<Rightarrow> bool" where
  "replaceable e existing \<longleftrightarrow>
     (e_replaceIfTerminal e \<and> terminal_state (j_state existing)) \<or>
     (e_replaceIfFailed e \<and> j_state existing = Job_failed)"

text \<open>\<^const>\<open>None\<close>: the insert throws (a clash of random ids).\<close>

definition enqueue ::
    "queue_options \<Rightarrow> str \<Rightarrow> enqueue_options \<Rightarrow> str \<Rightarrow> int \<Rightarrow> job_queue \<Rightarrow> job_row option \<times> job_queue" where
  "enqueue o1 typ e uuid t q =
     (let key = (case e_idempotencyKey e of Some k \<Rightarrow> if k = [] then None else Some k | None \<Rightarrow> None);
          r = new_job o1 typ e uuid t in
      case (case key of None \<Rightarrow> None | Some k \<Rightarrow> find_keyed k (q_rows q)) of
        Some existing \<Rightarrow>
          if replaceable e existing
          then insert_or_winner key r (q\<lparr>q_rows := filter (\<lambda>x. j_id x \<noteq> j_id existing) (q_rows q)\<rparr>)
          else (Some existing, q)
      | None \<Rightarrow> insert_or_winner key r q)"

subsection \<open>Claim\<close>

definition at_or_before :: "int option \<Rightarrow> int \<Rightarrow> bool" where
  "at_or_before v t \<longleftrightarrow> (case v of None \<Rightarrow> False | Some x \<Rightarrow> x \<le> t)"

definition lease_lapsed :: "int \<Rightarrow> job_row \<Rightarrow> bool" where
  "lease_lapsed t r \<longleftrightarrow> j_state r = Job_running \<and> at_or_before (j_lease_expires_at r) t"

definition cancelled_unstarted :: "int \<Rightarrow> job_row \<Rightarrow> bool" where
  "cancelled_unstarted t r \<longleftrightarrow>
     j_cancel_requested r \<and> (j_state r = Job_queued \<or> j_state r = Job_retrying \<or> lease_lapsed t r)"

definition cancelled_row :: "int \<Rightarrow> job_row \<Rightarrow> job_row" where
  "cancelled_row t r =
     r\<lparr>j_state := Job_failed, j_lease_owner := None, j_lease_expires_at := None,
       j_next_attempt_at := None, j_last_error := Some ''cancelled before it started'', j_updated_at := t\<rparr>"

definition finalizeCancelled :: "int \<Rightarrow> (job_row \<Rightarrow> bool) \<Rightarrow> job_queue \<Rightarrow> str list \<times> job_queue" where
  "finalizeCancelled t extra q =
     (let ids = map j_id (filter (\<lambda>r. cancelled_unstarted t r \<and> extra r) (q_rows q)) in
      (ids, fold (\<lambda>i q. drop_progress i (q\<lparr>q_rows := snd (update_jobs (\<lambda>r. j_id r = i) (cancelled_row t) (q_rows q))\<rparr>))
              ids q))"

definition of_types :: "str list \<Rightarrow> job_row \<Rightarrow> bool" where
  "of_types types r \<longleftrightarrow> (if types = [] then True else j_type r \<in> set types)"

definition due :: "int \<Rightarrow> job_row \<Rightarrow> bool" where
  "due t r \<longleftrightarrow> j_state r = Job_queued \<or> (j_state r = Job_retrying \<and> at_or_before (j_next_attempt_at r) t) \<or>
     lease_lapsed t r"

definition claim_order :: "job_row \<Rightarrow> int" where
  "claim_order r = (case j_next_attempt_at r of Some t \<Rightarrow> t | None \<Rightarrow> j_created_at r)"

definition candidates :: "int \<Rightarrow> str list \<Rightarrow> job_row list \<Rightarrow> job_row list" where
  "candidates t types rows =
     take claim_scan_limit (sort_key claim_order (filter (\<lambda>r. due t r \<and> of_types types r) rows))"

definition live_in_class :: "int \<Rightarrow> str \<Rightarrow> job_row list \<Rightarrow> nat" where
  "live_in_class t c rows =
     length (filter (\<lambda>r. j_class r = c \<and> j_state r = Job_running \<and>
       (case j_lease_expires_at r of None \<Rightarrow> False | Some x \<Rightarrow> x > t)) rows)"

definition leased_row :: "str \<Rightarrow> int \<Rightarrow> int \<Rightarrow> job_row \<Rightarrow> job_row" where
  "leased_row leaseOwner leaseMs t r =
     r\<lparr>j_state := Job_running, j_attempt := j_attempt r + 1, j_lease_owner := Some leaseOwner,
       j_lease_expires_at := Some (t + leaseMs), j_updated_at := t\<rparr>"

fun claim_scan ::
    "claim_options \<Rightarrow> int \<Rightarrow> int \<Rightarrow> job_row list \<Rightarrow> job_queue \<Rightarrow> job_row option \<times> job_queue" where
  "claim_scan c leaseMs t [] q = (None, q)"
| "claim_scan c leaseMs t (row # rows) q =
     (if (case c_classLimits c (j_class row) of
            None \<Rightarrow> False
          | Some limit \<Rightarrow> int (live_in_class t (j_class row) (q_rows q)) \<ge> limit)
      then claim_scan c leaseMs t rows q
      else
        (case update_jobs (\<lambda>r. j_id r = j_id row) (leased_row (c_leaseOwner c) leaseMs t) (q_rows q) of
           (changes, rows') \<Rightarrow>
             if changes = 1 then (find_job (j_id row) rows', q\<lparr>q_rows := rows'\<rparr>)
             else claim_scan c leaseMs t rows (q\<lparr>q_rows := rows'\<rparr>)))"

definition claim_job :: "queue_options \<Rightarrow> claim_options \<Rightarrow> int \<Rightarrow> job_queue \<Rightarrow> job_row option \<times> job_queue" where
  "claim_job o1 c t q =
     (let leaseMs = (case c_leaseMs c of None \<Rightarrow> o_leaseMs o1 | Some n \<Rightarrow> n);
          (cancelled, q1) = finalizeCancelled t (of_types (c_types c)) q;
          (claimed, q2) = claim_scan c leaseMs t (candidates t (c_types c) (q_rows q1)) q1 in
      (claimed, fold announce cancelled q2))"

definition claimById ::
    "queue_options \<Rightarrow> str \<Rightarrow> str \<Rightarrow> int option \<Rightarrow> int \<Rightarrow> job_queue \<Rightarrow> job_row option \<times> job_queue" where
  "claimById o1 i leaseOwner leaseMs t q =
     (let lease = (case leaseMs of None \<Rightarrow> o_leaseMs o1 | Some n \<Rightarrow> n);
          (cancelled, q1) = finalizeCancelled t (\<lambda>r. j_id r = i) q;
          (changes, rows) = update_jobs (\<lambda>r. j_id r = i \<and> j_state r = Job_queued)
                              (leased_row leaseOwner lease t) (q_rows q1) in
      (if changes = 1 then find_job i rows else None, fold announce cancelled (q1\<lparr>q_rows := rows\<rparr>)))"

subsection \<open>What the owner of a lease does\<close>

definition owned :: "str \<Rightarrow> str \<Rightarrow> job_row \<Rightarrow> bool" where
  "owned i leaseOwner r \<longleftrightarrow> j_id r = i \<and> j_lease_owner r = Some leaseOwner \<and> j_state r = Job_running"

definition heartbeat ::
    "queue_options \<Rightarrow> str \<Rightarrow> str \<Rightarrow> int option \<Rightarrow> int \<Rightarrow> job_queue \<Rightarrow> bool \<times> job_queue" where
  "heartbeat o1 i leaseOwner leaseMs t q =
     (case update_jobs (owned i leaseOwner)
             (\<lambda>r. r\<lparr>j_lease_expires_at := Some (t + (case leaseMs of None \<Rightarrow> o_leaseMs o1 | Some n \<Rightarrow> n)),
                    j_updated_at := t\<rparr>) (q_rows q) of
        (n, rows) \<Rightarrow> (n = 1, q\<lparr>q_rows := rows\<rparr>))"

definition checkpoint_job :: "str \<Rightarrow> str \<Rightarrow> str \<Rightarrow> int \<Rightarrow> job_queue \<Rightarrow> bool \<times> job_queue" where
  "checkpoint_job i leaseOwner data t q =
     (case update_jobs (owned i leaseOwner) (\<lambda>r. r\<lparr>j_checkpoint := Some data, j_updated_at := t\<rparr>) (q_rows q) of
        (n, rows) \<Rightarrow> (n = 1, q\<lparr>q_rows := rows\<rparr>))"

definition recordOutcome :: "str \<Rightarrow> str \<Rightarrow> str \<Rightarrow> int \<Rightarrow> job_queue \<Rightarrow> bool \<times> job_queue" where
  "recordOutcome i outcome leaseOwner t q =
     (case update_jobs (owned i leaseOwner) (\<lambda>r. r\<lparr>j_outcome := Some outcome, j_updated_at := t\<rparr>) (q_rows q) of
        (n, rows) \<Rightarrow> (n = 1, if n = 1 then announce i (q\<lparr>q_rows := rows\<rparr>) else q\<lparr>q_rows := rows\<rparr>))"

definition complete_job :: "str \<Rightarrow> str \<Rightarrow> int \<Rightarrow> job_queue \<Rightarrow> bool \<times> job_queue" where
  "complete_job i leaseOwner t q =
     (case update_jobs (owned i leaseOwner)
             (\<lambda>r. r\<lparr>j_state := Job_complete, j_lease_owner := None, j_lease_expires_at := None, j_updated_at := t\<rparr>)
             (q_rows q) of
        (n, rows) \<Rightarrow>
          (n = 1, if n = 1 then announce i (drop_progress i (q\<lparr>q_rows := rows\<rparr>)) else q\<lparr>q_rows := rows\<rparr>))"

definition backoff :: "queue_options \<Rightarrow> int \<Rightarrow> int" where
  "backoff o1 attempt = min (o_backoffBaseMs o1 * 2 ^ nat (max 0 (attempt - 1))) (o_maxBackoffMs o1)"

definition failed_row :: "queue_options \<Rightarrow> str \<Rightarrow> bool \<Rightarrow> int \<Rightarrow> job_row \<Rightarrow> job_row" where
  "failed_row o1 msg deadLetter t r =
     r\<lparr>j_state := (if deadLetter then Job_failed else Job_retrying), j_lease_owner := None,
       j_lease_expires_at := None,
       j_next_attempt_at := (if deadLetter then None else Some (t + backoff o1 (j_attempt r))),
       j_last_error := Some msg, j_updated_at := t\<rparr>"

definition fail_job ::
    "queue_options \<Rightarrow> str \<Rightarrow> str \<Rightarrow> str \<Rightarrow> bool \<Rightarrow> int \<Rightarrow> job_queue \<Rightarrow> bool \<times> job_queue" where
  "fail_job o1 i leaseOwner msg terminal t q =
     (case find_job i (q_rows q) of
        None \<Rightarrow> (False, q)
      | Some row \<Rightarrow>
          if j_lease_owner row \<noteq> Some leaseOwner \<or> j_state row \<noteq> Job_running then (False, q)
          else
            (let deadLetter = (terminal \<or> j_attempt row \<ge> j_max_attempts row) in
             case update_jobs (\<lambda>r. j_id r = i \<and> j_lease_owner r = Some leaseOwner)
                    (failed_row o1 msg deadLetter t) (q_rows q) of
               (n, rows) \<Rightarrow>
                 (let q1 = q\<lparr>q_rows := rows\<rparr>;
                      q2 = (if deadLetter then drop_progress i q1 else q1) in
                  (n = 1, announce i q2))))"

subsection \<open>Cancellation, progress, statistics\<close>

definition requestCancel :: "str \<Rightarrow> int \<Rightarrow> job_queue \<Rightarrow> bool \<times> job_queue" where
  "requestCancel i t q =
     (case update_jobs (\<lambda>r. j_id r = i) (\<lambda>r. r\<lparr>j_cancel_requested := True, j_updated_at := t\<rparr>) (q_rows q) of
        (n, rows) \<Rightarrow> (n = 1, announce i (q\<lparr>q_rows := rows\<rparr>)))"

definition isCancelRequested :: "str \<Rightarrow> job_queue \<Rightarrow> bool" where
  "isCancelRequested i q = (case find_job i (q_rows q) of None \<Rightarrow> False | Some r \<Rightarrow> j_cancel_requested r)"

definition reportProgress :: "str \<Rightarrow> job_progress \<Rightarrow> job_queue \<Rightarrow> job_queue" where
  "reportProgress i p q = q\<lparr>q_progress := AList.update i p (q_progress q)\<rparr>"

definition progressOf :: "str \<Rightarrow> job_queue \<Rightarrow> job_progress option" where
  "progressOf i q = map_of (q_progress q) i"

definition listByState :: "job_state \<Rightarrow> job_queue \<Rightarrow> job_row list" where
  "listByState st q = sort_key j_created_at (filter (\<lambda>r. j_state r = st) (q_rows q))"

definition job_count :: "job_state \<Rightarrow> job_queue \<Rightarrow> nat" where
  "job_count st q = length (filter (\<lambda>r. j_state r = st) (q_rows q))"

definition oldestQueuedAgeMs :: "int \<Rightarrow> job_queue \<Rightarrow> int option" where
  "oldestQueuedAgeMs t q =
     (case map j_created_at (filter (\<lambda>r. j_state r = Job_queued) (q_rows q)) of
        [] \<Rightarrow> None
      | x # xs \<Rightarrow> Some (max 0 (t - fold min xs x)))"

subsection \<open>Running a job\<close>

datatype run_outcome = Run_complete | Run_retrying | Run_failed | Run_lease_lost | Run_interrupted

record run_state =
  r_job :: job_row
  r_owner :: str
  r_leaseLost :: bool
  r_aborted :: bool
  r_shutdown :: bool

definition heartbeat_ms :: "queue_options \<Rightarrow> int option \<Rightarrow> int" where
  "heartbeat_ms o1 given = (case given of Some n \<Rightarrow> n | None \<Rightarrow> max 1 (o_leaseMs o1 div 3))"

text \<open>Before the handler: a job cancelled since its claim ends here, otherwise the run begins.\<close>

definition run_start ::
    "queue_options \<Rightarrow> job_row \<Rightarrow> str \<Rightarrow> bool \<Rightarrow> int \<Rightarrow> job_queue \<Rightarrow> (run_outcome + run_state) \<times> job_queue" where
  "run_start o1 job leaseOwner shutdown t q =
     (if isCancelRequested (j_id job) q
      then (case fail_job o1 (j_id job) leaseOwner ''cancelled before it started'' True t q of
              (recorded, q1) \<Rightarrow> (Inl (if recorded then Run_failed else Run_lease_lost), q1))
      else (Inr \<lparr>r_job = job, r_owner = leaseOwner, r_leaseLost = False, r_aborted = shutdown,
                 r_shutdown = shutdown\<rparr>, q))"

definition run_beat :: "queue_options \<Rightarrow> int \<Rightarrow> run_state \<Rightarrow> job_queue \<Rightarrow> run_state \<times> job_queue" where
  "run_beat o1 t s q =
     (if isCancelRequested (j_id (r_job s)) q then (s\<lparr>r_aborted := True\<rparr>, q)
      else case heartbeat o1 (j_id (r_job s)) (r_owner s) None t q of
        (alive, q1) \<Rightarrow> (if alive then s else s\<lparr>r_leaseLost := True, r_aborted := True\<rparr>, q1))"

definition run_shutdown :: "run_state \<Rightarrow> run_state" where
  "run_shutdown s = s\<lparr>r_aborted := True, r_shutdown := True\<rparr>"

text \<open>A fault of \<open>complete\<close> itself is not modelled; the handler's own throw is \<open>run_throw\<close>.\<close>

definition run_return :: "int \<Rightarrow> run_state \<Rightarrow> job_queue \<Rightarrow> run_outcome \<times> job_queue" where
  "run_return t s q =
     (case complete_job (j_id (r_job s)) (r_owner s) t q of
        (done, q1) \<Rightarrow> (if done then Run_complete else Run_lease_lost, q1))"

definition run_throw :: "queue_options \<Rightarrow> str \<Rightarrow> int \<Rightarrow> run_state \<Rightarrow> job_queue \<Rightarrow> run_outcome \<times> job_queue" where
  "run_throw o1 msg t s q =
     (if r_leaseLost s then (Run_lease_lost, q)
      else if r_shutdown s \<and> \<not> isCancelRequested (j_id (r_job s)) q then (Run_interrupted, q)
      else case fail_job o1 (j_id (r_job s)) (r_owner s) msg (r_aborted s) t q of
        (recorded, q1) \<Rightarrow>
          (if \<not> recorded then Run_lease_lost
           else if r_aborted s then Run_failed
           else if j_attempt (r_job s) \<ge> j_max_attempts (r_job s) then Run_failed
           else Run_retrying, q1))"

end
