(* ===== verification/Job_Queue_Safety.thy ===== *)
theory Job_Queue_Safety
  imports Job_Queue
begin

text \<open>
  The job queue as a state machine: every process that shares the database acts by one of the events
  below, in any order and at any reading of its clock. The invariant of the reachable queues, what a
  lease protects, and that a finished job stays as it finished.
\<close>

subsection \<open>Events\<close>

datatype queue_event =
    Ev_enqueue str enqueue_options str
  | Ev_claim claim_options
  | Ev_claim_by_id str str "int option"
  | Ev_heartbeat str str "int option"
  | Ev_checkpoint str str str
  | Ev_outcome str str str
  | Ev_complete str str
  | Ev_fail str str str bool
  | Ev_cancel str
  | Ev_progress str job_progress

fun apply_event :: "queue_options \<Rightarrow> queue_event \<Rightarrow> int \<Rightarrow> job_queue \<Rightarrow> job_queue" where
  "apply_event o1 (Ev_enqueue typ e uuid) t q = snd (enqueue o1 typ e uuid t q)"
| "apply_event o1 (Ev_claim c) t q = snd (claim_job o1 c t q)"
| "apply_event o1 (Ev_claim_by_id i tok lease) t q = snd (claimById o1 i tok lease t q)"
| "apply_event o1 (Ev_heartbeat i tok lease) t q = snd (heartbeat o1 i tok lease t q)"
| "apply_event o1 (Ev_checkpoint i tok data) t q = snd (checkpoint_job i tok data t q)"
| "apply_event o1 (Ev_outcome i v tok) t q = snd (recordOutcome i v tok t q)"
| "apply_event o1 (Ev_complete i tok) t q = snd (complete_job i tok t q)"
| "apply_event o1 (Ev_fail i tok msg terminal) t q = snd (fail_job o1 i tok msg terminal t q)"
| "apply_event o1 (Ev_cancel i) t q = snd (requestCancel i t q)"
| "apply_event o1 (Ev_progress i p) t q = reportProgress i p q"

inductive reachable_queue :: "queue_options \<Rightarrow> job_queue \<Rightarrow> bool" for o1 where
  fresh_queue: "q_rows q = [] \<Longrightarrow> reachable_queue o1 q"
| queue_step: "reachable_queue o1 q \<Longrightarrow> reachable_queue o1 (apply_event o1 ev t q)"

subsection \<open>What one event does to the rows\<close>

lemma announce_rows [simp]: "q_rows (announce i q) = q_rows q"
  by (simp add: announce_def split: option.splits)

lemma announces_rows [simp]: "q_rows (fold announce is q) = q_rows q"
  by (induction "is" arbitrary: q) simp_all

lemma drop_progress_rows [simp]: "q_rows (drop_progress i q) = q_rows q"
  by (simp add: drop_progress_def)

definition distinct_ids :: "job_row list \<Rightarrow> bool" where
  "distinct_ids rows \<longleftrightarrow> distinct (map j_id rows)"

lemma find_job_Some:
  "distinct_ids rows \<Longrightarrow> find_job i rows = Some r \<longleftrightarrow> r \<in> set rows \<and> j_id r = i"
  by (induction rows) (auto simp: find_job_def distinct_ids_def)

lemma find_job_None: "find_job i rows = None \<longleftrightarrow> i \<notin> j_id ` set rows"
  by (induction rows) (auto simp: find_job_def)

lemma same_id: "distinct_ids rows \<Longrightarrow> r \<in> set rows \<Longrightarrow> r' \<in> set rows \<Longrightarrow> j_id r = j_id r' \<Longrightarrow> r = r'"
  by (metis find_job_Some option.inject)

lemma update_count:
  assumes "distinct_ids rows" and "\<And>r. p r \<Longrightarrow> j_id r = i"
  shows "fst (update_jobs p f rows) = (if \<exists>r\<in>set rows. p r then 1 else 0)"
proof -
  have "distinct (map j_id (filter p rows))"
    using assms(1) by (simp add: distinct_ids_def distinct_map_filter)
  moreover have "set (map j_id (filter p rows)) \<subseteq> {i}" using assms(2) by auto
  ultimately have "length (map j_id (filter p rows)) \<le> card {i}"
    by (metis card_mono distinct_card finite.emptyI finite_insert)
  then have "length (filter p rows) \<le> 1" by simp
  moreover have "length (filter p rows) = 0 \<longleftrightarrow> \<not> (\<exists>r\<in>set rows. p r)"
    by (simp add: filter_empty_conv)
  ultimately show ?thesis by (auto simp: update_jobs_def le_Suc_eq)
qed

lemma snd_update_jobs: "snd (update_jobs p f rows) = map (\<lambda>r. if p r then f r else r) rows"
  by (simp add: update_jobs_def)

lemma cancelled_row_sel [simp]: "j_id (cancelled_row t r) = j_id r"
  by (simp add: cancelled_row_def)

lemma leased_row_sel [simp]: "j_id (leased_row tok ms t r) = j_id r"
  by (simp add: leased_row_def)

lemma finalize_fold:
  "q_rows (fold (\<lambda>i q. drop_progress i
      (q\<lparr>q_rows := snd (update_jobs (\<lambda>r. j_id r = i) (cancelled_row t) (q_rows q))\<rparr>)) is q) =
   map (\<lambda>r. if j_id r \<in> set is then cancelled_row t r else r) (q_rows q)"
  unfolding snd_update_jobs
proof (induction "is" arbitrary: q)
  case (Cons i "is")
  show ?case unfolding fold_simps comp_def Cons by (auto simp: cancelled_row_def)
qed simp

lemma finalize_rows:
  assumes "distinct_ids (q_rows q)"
  shows "q_rows (snd (finalizeCancelled t extra q)) =
    map (\<lambda>r. if cancelled_unstarted t r \<and> extra r then cancelled_row t r else r) (q_rows q)"
  using assms same_id by (fastforce simp: finalizeCancelled_def Let_def finalize_fold)

text \<open>A scan leases the first candidate whose class has room.\<close>

definition class_full :: "claim_options \<Rightarrow> int \<Rightarrow> job_row list \<Rightarrow> job_row \<Rightarrow> bool" where
  "class_full c t rows row \<longleftrightarrow> (case c_classLimits c (j_class row) of
      None \<Rightarrow> False
    | Some limit \<Rightarrow> int (live_in_class t (j_class row) rows) \<ge> limit)"

lemma claim_scan_find:
  assumes "distinct_ids (q_rows q)" and "set cands \<subseteq> set (q_rows q)"
  shows "claim_scan c ms t cands q =
    (case find (\<lambda>r. \<not> class_full c t (q_rows q) r) cands of
       None \<Rightarrow> (None, q)
     | Some row \<Rightarrow> (Some (leased_row (c_leaseOwner c) ms t row),
         q\<lparr>q_rows := map (\<lambda>r. if j_id r = j_id row then leased_row (c_leaseOwner c) ms t r else r) (q_rows q)\<rparr>))"
  using assms(2)
proof (induction cands)
  case (Cons row cands)
  show ?case
  proof (cases "class_full c t (q_rows q) row")
    case True
    with Cons show ?thesis by (simp add: class_full_def)
  next
    case False
    let ?f = "leased_row (c_leaseOwner c) ms t"
    let ?rows = "map (\<lambda>r. if j_id r = j_id row then ?f r else r) (q_rows q)"
    have ids: "distinct_ids ?rows"
      using assms(1) by (simp add: distinct_ids_def o_def if_distrib cong: if_cong)
    have "fst (update_jobs (\<lambda>r. j_id r = j_id row) ?f (q_rows q)) = 1"
      using Cons.prems assms(1) by (auto simp: update_count [where i = "j_id row"])
    moreover have "find_job (j_id row) ?rows = Some (?f row)"
      using Cons.prems ids by (auto simp: find_job_Some intro!: image_eqI [of _ _ row])
    ultimately show ?thesis
      using False by (simp add: class_full_def update_jobs_def)
  qed
qed simp

lemma candidates_subset: "set (candidates t types rows) \<subseteq> {r \<in> set rows. due t r \<and> of_types types r}"
  using set_take_subset by (fastforce simp: candidates_def)


subsection \<open>The life of one row\<close>

text \<open>The moves of a row, with the lease tokens that claims may hand out.\<close>

inductive row_step :: "str set \<Rightarrow> job_row \<Rightarrow> job_row \<Rightarrow> bool" for toks where
  row_same: "row_step toks r r"
| row_cancelled: "cancelled_unstarted t r \<Longrightarrow> row_step toks r (cancelled_row t r)"
| row_leased: "due t r \<Longrightarrow> \<not> j_cancel_requested r \<Longrightarrow> tok \<in> toks \<Longrightarrow> row_step toks r (leased_row tok ms t r)"
| row_beat: "owned (j_id r) tok r \<Longrightarrow>
    row_step toks r (r\<lparr>j_lease_expires_at := Some x, j_updated_at := t\<rparr>)"
| row_checkpoint: "owned (j_id r) tok r \<Longrightarrow> row_step toks r (r\<lparr>j_checkpoint := Some v, j_updated_at := t\<rparr>)"
| row_outcome: "owned (j_id r) tok r \<Longrightarrow> row_step toks r (r\<lparr>j_outcome := Some v, j_updated_at := t\<rparr>)"
| row_complete: "owned (j_id r) tok r \<Longrightarrow> row_step toks r
    (r\<lparr>j_state := Job_complete, j_lease_owner := None, j_lease_expires_at := None, j_updated_at := t\<rparr>)"
| row_failed: "owned (j_id r) tok r \<Longrightarrow> dead \<longleftrightarrow> terminal \<or> j_attempt r \<ge> j_max_attempts r \<Longrightarrow>
    row_step toks r (failed_row o1 msg dead t r)"
| row_cancel: "row_step toks r (r\<lparr>j_cancel_requested := True, j_updated_at := t\<rparr>)"

inductive_cases row_stepE: "row_step toks r r'"

fun event_tokens :: "queue_event \<Rightarrow> str set" where
  "event_tokens (Ev_claim c) = {c_leaseOwner c}"
| "event_tokens (Ev_claim_by_id i tok lease) = {tok}"
| "event_tokens _ = {}"

fun is_enqueue :: "queue_event \<Rightarrow> bool" where
  "is_enqueue (Ev_enqueue typ e uuid) = True"
| "is_enqueue _ = False"

abbreviation row_steps :: "str set \<Rightarrow> job_row \<Rightarrow> job_row \<Rightarrow> bool" where
  "row_steps toks \<equiv> (row_step toks)\<^sup>*\<^sup>*"

lemma map_row_steps:
  assumes "\<And>r. r \<in> set rows \<Longrightarrow> row_steps toks r (f r)"
  shows "list_all2 (row_steps toks) rows (map f rows)"
  using assms by (simp add: list_all2_map2 list_all2_same)

lemma finalize_ids:
  "distinct_ids (q_rows q) \<Longrightarrow> distinct_ids (q_rows (snd (finalizeCancelled t extra q)))"
  by (simp add: finalize_rows) (simp add: distinct_ids_def o_def if_distrib cong: if_cong)

lemma claim_job_rows:
  assumes "distinct_ids (q_rows q)"
  shows "\<exists>sel ms. q_rows (snd (claim_job o1 c t q)) = map (\<lambda>r.
      if cancelled_unstarted t r \<and> of_types (c_types c) r then cancelled_row t r
      else if j_id r \<in> sel \<and> due t r \<and> of_types (c_types c) r then leased_row (c_leaseOwner c) ms t r else r) (q_rows q)"
proof -
  let ?q1 = "snd (finalizeCancelled t (of_types (c_types c)) q)"
  let ?ms = "case c_leaseMs c of None \<Rightarrow> o_leaseMs o1 | Some n \<Rightarrow> n"
  let ?cands = "candidates t (c_types c) (q_rows ?q1)"
  have ids: "distinct_ids (q_rows ?q1)" by (rule finalize_ids [OF assms])
  have sub: "set ?cands \<subseteq> set (q_rows ?q1)" using candidates_subset by blast
  note scan = claim_scan_find [OF ids sub, of c ?ms t]
  have rows: "q_rows (snd (claim_job o1 c t q)) = q_rows (snd (claim_scan c ?ms t ?cands ?q1))"
    by (simp add: claim_job_def Let_def split: prod.splits)
  have fin: "\<not> due t (cancelled_row t r)" for r
    by (simp add: due_def lease_lapsed_def cancelled_row_def)
  show ?thesis
  proof (cases "find (\<lambda>r. \<not> class_full c t (q_rows ?q1) r) ?cands")
    case None
    then show ?thesis
      unfolding rows scan by (intro exI [of _ "{}"]) (auto simp: finalize_rows [OF assms])
  next
    case (Some row)
    then have "row \<in> set ?cands" by (metis find_Some_iff nth_mem)
    then have row: "row \<in> set (q_rows ?q1)" "due t row" "of_types (c_types c) row"
      using candidates_subset [of t "c_types c" "q_rows ?q1"] by auto
    have orig: "row \<in> set (q_rows q)" "\<not> (cancelled_unstarted t row \<and> of_types (c_types c) row)"
      using row fin by (auto simp: finalize_rows [OF assms] split: if_splits)
    have uniq: "r' = row" if "r' \<in> set (q_rows q)" "j_id r' = j_id row" for r'
      using same_id [OF assms that(1) orig(1) that(2)] .
    show ?thesis
    proof (intro exI)
      show "q_rows (snd (claim_job o1 c t q)) = map (\<lambda>r.
        if cancelled_unstarted t r \<and> of_types (c_types c) r then cancelled_row t r
        else if j_id r \<in> {j_id row} \<and> due t r \<and> of_types (c_types c) r then leased_row (c_leaseOwner c) ?ms t r else r) (q_rows q)"
        unfolding rows scan Some option.case snd_conv
        using uniq row orig by (auto simp: finalize_rows [OF assms])
    qed
  qed
qed

lemma claim_by_id_rows:
  assumes "distinct_ids (q_rows q)"
  shows "\<exists>ms. q_rows (snd (claimById o1 i tok lease t q)) = map (\<lambda>r.
      if cancelled_unstarted t r \<and> j_id r = i then cancelled_row t r
      else if j_id r = i \<and> j_state r = Job_queued then leased_row tok ms t r else r) (q_rows q)"
  by (auto simp: claimById_def Let_def split_beta finalize_rows [OF assms] cancelled_row_def update_jobs_def
      intro!: exI [of _ "case lease of None \<Rightarrow> o_leaseMs o1 | Some n \<Rightarrow> n"])


lemma update_steps:
  assumes "\<And>r. r \<in> set rows \<Longrightarrow> p r \<Longrightarrow> row_step toks r (f r)"
  shows "list_all2 (row_steps toks) rows (map (\<lambda>r. if p r then f r else r) rows)"
  using assms by (intro map_row_steps) auto

lemma fail_rows:
  assumes "distinct_ids (q_rows q)"
  shows "\<exists>dead. q_rows (snd (fail_job o1 i tok msg terminal t q)) = map (\<lambda>r.
      if owned i tok r then failed_row o1 msg (dead r) t r else r) (q_rows q) \<and>
    (\<forall>r. dead r \<longleftrightarrow> terminal \<or> j_attempt r \<ge> j_max_attempts r)"
proof (intro exI conjI allI)
  let ?dead = "\<lambda>r. terminal \<or> j_attempt r \<ge> j_max_attempts r"
  show "q_rows (snd (fail_job o1 i tok msg terminal t q)) = map (\<lambda>r.
      if owned i tok r then failed_row o1 msg (?dead r) t r else r) (q_rows q)"
  proof (cases "find_job i (q_rows q)")
    case None
    then have "\<not> owned i tok r" if "r \<in> set (q_rows q)" for r
      using that by (auto simp: find_job_None owned_def)
    with None show ?thesis by (simp add: fail_job_def map_idI)
  next
    case (Some row)
    then have row: "row \<in> set (q_rows q)" "j_id row = i" using assms by (simp_all add: find_job_Some)
    have uniq: "r = row" if "r \<in> set (q_rows q)" "j_id r = i" for r
      using same_id [OF assms that(1) row(1)] that(2) row(2) by simp
    show ?thesis
    proof (cases "owned i tok row")
      case True
      then have "snd (fail_job o1 i tok msg terminal t q) = announce i
          (let q1 = q\<lparr>q_rows := map (\<lambda>r. if j_id r = i \<and> j_lease_owner r = Some tok then failed_row o1 msg (?dead row) t r else r) (q_rows q)\<rparr>
           in if ?dead row then drop_progress i q1 else q1)"
        using Some by (simp add: fail_job_def owned_def Let_def update_jobs_def)
      then show ?thesis using True uniq by (simp add: Let_def) (auto simp: owned_def)
    next
      case False
      then have "snd (fail_job o1 i tok msg terminal t q) = q"
        using Some row by (auto simp: fail_job_def owned_def)
      moreover have "map (\<lambda>r. if owned i tok r then failed_row o1 msg (?dead r) t r else r) (q_rows q) = q_rows q"
        by (rule map_idI) (use False uniq in \<open>auto simp: owned_def\<close>)
      ultimately show ?thesis by simp
    qed
  qed
qed simp

lemma event_rows:
  assumes "distinct_ids (q_rows q)" and "event_tokens ev \<subseteq> toks" and "\<not> is_enqueue ev"
  shows "list_all2 (row_steps toks) (q_rows q) (q_rows (apply_event o1 ev t q))"
proof (cases ev)
  case (Ev_claim c)
  from claim_job_rows [OF assms(1), of o1 c t] obtain sel ms where
    e: "q_rows (snd (claim_job o1 c t q)) = map (\<lambda>r.
      if cancelled_unstarted t r \<and> of_types (c_types c) r then cancelled_row t r
      else if j_id r \<in> sel \<and> due t r \<and> of_types (c_types c) r then leased_row (c_leaseOwner c) ms t r else r) (q_rows q)"
    by blast
  show ?thesis
    unfolding Ev_claim apply_event.simps e
    by (rule map_row_steps)
      (use assms(2) in \<open>auto simp: Ev_claim cancelled_unstarted_def due_def intro!: r_into_rtranclp row_cancelled row_leased\<close>)
next
  case (Ev_claim_by_id i tok lease)
  from claim_by_id_rows [OF assms(1), of o1 i tok lease t] obtain ms where
    e: "q_rows (snd (claimById o1 i tok lease t q)) = map (\<lambda>r.
      if cancelled_unstarted t r \<and> j_id r = i then cancelled_row t r
      else if j_id r = i \<and> j_state r = Job_queued then leased_row tok ms t r else r) (q_rows q)"
    by blast
  show ?thesis
    unfolding Ev_claim_by_id apply_event.simps e
    by (rule map_row_steps)
      (use assms(2) in \<open>auto simp: Ev_claim_by_id cancelled_unstarted_def due_def intro!: r_into_rtranclp row_cancelled row_leased\<close>)
next
  case (Ev_fail i tok msg terminal)
  from fail_rows [OF assms(1), of o1 i tok msg terminal t] obtain dead where
    e: "q_rows (snd (fail_job o1 i tok msg terminal t q)) =
      map (\<lambda>r. if owned i tok r then failed_row o1 msg (dead r) t r else r) (q_rows q)"
    and d: "\<forall>r. dead r \<longleftrightarrow> terminal \<or> j_attempt r \<ge> j_max_attempts r" by blast
  show ?thesis
    unfolding Ev_fail apply_event.simps e
    by (rule update_steps) (use d in \<open>auto simp: owned_def intro!: row_failed [where terminal = terminal]\<close>)
qed (use assms(3) in \<open>auto simp: heartbeat_def checkpoint_job_def recordOutcome_def complete_job_def requestCancel_def
      reportProgress_def update_jobs_def list_all2_same owned_def
      intro!: update_steps row_beat row_checkpoint row_outcome row_complete row_cancel\<close>)

lemma find_keyed_None: "find_keyed k rows = None \<longleftrightarrow> (\<forall>r\<in>set rows. j_idempotency_key r \<noteq> Some k)"
  by (induction rows) (auto simp: find_keyed_def)

lemma find_keyed_Some: "find_keyed k rows = Some r \<Longrightarrow> r \<in> set rows \<and> j_idempotency_key r = Some k"
  by (induction rows) (auto simp: find_keyed_def split: if_splits)

definition insertable :: "job_row \<Rightarrow> job_row list \<Rightarrow> bool" where
  "insertable r rows \<longleftrightarrow> j_id r \<notin> j_id ` set rows \<and>
     (\<forall>k. j_idempotency_key r = Some k \<longrightarrow> (\<forall>x\<in>set rows. j_idempotency_key x \<noteq> Some k))"

lemma insert_job_rows:
  "insert_job r rows = (if insertable r rows then Some (rows @ [r]) else None)"
  by (auto simp: insert_job_def insertable_def find_job_None find_keyed_None split: option.splits)

lemma winner_rows:
  "snd (insert_or_winner key r q) = (if insertable r (q_rows q) then q\<lparr>q_rows := q_rows q @ [r]\<rparr> else q)"
  by (simp add: insert_or_winner_def insert_job_rows split: option.splits)

lemma replaceable_terminal: "replaceable e r \<Longrightarrow> terminal_state (j_state r)"
  by (auto simp: replaceable_def terminal_state_def)

text \<open>The rows an enqueue starts from: all of them, or all but one finished job with its key.\<close>

definition enqueue_base :: "enqueue_options \<Rightarrow> job_row list \<Rightarrow> job_row list" where
  "enqueue_base e rows =
     (case (case e_idempotencyKey e of Some k \<Rightarrow> if k = [] then None else Some k | None \<Rightarrow> None) of
        None \<Rightarrow> rows
      | Some k \<Rightarrow> (case find_keyed k rows of
          None \<Rightarrow> rows
        | Some x \<Rightarrow> if replaceable e x then filter (\<lambda>r. j_id r \<noteq> j_id x) rows else rows))"

lemma base_cases:
  "enqueue_base e rows = rows \<or>
   (\<exists>x\<in>set rows. terminal_state (j_state x) \<and> enqueue_base e rows = filter (\<lambda>r. j_id r \<noteq> j_id x) rows)"
  by (auto simp: enqueue_base_def dest: find_keyed_Some replaceable_terminal split: option.splits)

lemma enqueue_rows:
  "q_rows (snd (enqueue o1 typ e uuid t q)) =
    (if insertable (new_job o1 typ e uuid t) (enqueue_base e (q_rows q))
     then enqueue_base e (q_rows q) @ [new_job o1 typ e uuid t] else enqueue_base e (q_rows q))"
  apply (auto simp: enqueue_def enqueue_base_def Let_def winner_rows split: option.splits)
  apply (auto simp: insertable_def new_job_def dest: find_keyed_Some)
  done


subsection \<open>The invariant\<close>

definition row_ok :: "job_row \<Rightarrow> bool" where
  "row_ok r \<longleftrightarrow>
     (j_state r = Job_running \<longleftrightarrow> j_lease_owner r \<noteq> None) \<and>
     (j_lease_owner r = None \<longleftrightarrow> j_lease_expires_at r = None) \<and>
     0 \<le> j_attempt r \<and> (j_state r = Job_running \<longrightarrow> 1 \<le> j_attempt r) \<and>
     (j_state r = Job_retrying \<longrightarrow> j_next_attempt_at r \<noteq> None \<and> j_attempt r < j_max_attempts r)"

definition keys_unique :: "job_row list \<Rightarrow> bool" where
  "keys_unique rows \<longleftrightarrow> (\<forall>r\<in>set rows. \<forall>r'\<in>set rows.
     j_idempotency_key r \<noteq> None \<and> j_idempotency_key r = j_idempotency_key r' \<longrightarrow> j_id r = j_id r')"

definition queue_ok :: "job_queue \<Rightarrow> bool" where
  "queue_ok q \<longleftrightarrow> distinct_ids (q_rows q) \<and> keys_unique (q_rows q) \<and> (\<forall>r\<in>set (q_rows q). row_ok r)"

lemmas row_defs = cancelled_row_def leased_row_def failed_row_def

lemma row_step_fixed:
  assumes "row_step toks r r'"
  shows "j_id r' = j_id r \<and> j_idempotency_key r' = j_idempotency_key r \<and> j_type r' = j_type r \<and>
    j_max_attempts r' = j_max_attempts r \<and> j_created_at r' = j_created_at r"
  using assms by (cases rule: row_step.cases) (auto simp: row_defs)

lemma row_steps_fixed:
  assumes "row_steps toks r r'"
  shows "j_id r' = j_id r \<and> j_idempotency_key r' = j_idempotency_key r \<and> j_type r' = j_type r \<and>
    j_max_attempts r' = j_max_attempts r \<and> j_created_at r' = j_created_at r"
  using assms by (induction rule: rtranclp_induct) (auto dest: row_step_fixed)

lemma row_step_ok: "row_step toks r r' \<Longrightarrow> row_ok r \<Longrightarrow> row_ok r'"
  by (erule row_step.cases) (auto simp: row_ok_def row_defs owned_def)

lemma row_steps_ok: "row_steps toks r r' \<Longrightarrow> row_ok r \<Longrightarrow> row_ok r'"
  by (induction rule: rtranclp_induct) (auto intro: row_step_ok)

lemma steps_ids: "list_all2 (row_steps toks) rows rows' \<Longrightarrow> map j_id rows' = map j_id rows"
  by (induction rule: list_all2_induct) (auto dest: row_steps_fixed)

lemma steps_in:
  assumes "list_all2 (row_steps toks) rows rows'" and "r' \<in> set rows'"
  obtains r where "r \<in> set rows" and "row_steps toks r r'"
  using assms by (metis list_all2_conv_all_nth in_set_conv_nth)

lemma steps_queue_ok:
  assumes "queue_ok q" and "list_all2 (row_steps toks) (q_rows q) (q_rows q')"
  shows "queue_ok q'"
proof -
  have "distinct_ids (q_rows q')"
    using assms steps_ids [OF assms(2)] by (simp add: queue_ok_def distinct_ids_def)
  moreover have "keys_unique (q_rows q')"
    unfolding keys_unique_def
  proof (intro ballI impI)
    fix r r' assume "r \<in> set (q_rows q')" "r' \<in> set (q_rows q')"
      and k: "j_idempotency_key r \<noteq> None \<and> j_idempotency_key r = j_idempotency_key r'"
    then obtain s s' where "s \<in> set (q_rows q)" "row_steps toks s r" "s' \<in> set (q_rows q)" "row_steps toks s' r'"
      using assms(2) by (meson steps_in)
    with assms(1) k show "j_id r = j_id r'"
      unfolding queue_ok_def keys_unique_def by (metis row_steps_fixed)
  qed
  moreover have "\<forall>r\<in>set (q_rows q'). row_ok r"
    using assms by (meson queue_ok_def row_steps_ok steps_in)
  ultimately show ?thesis by (simp add: queue_ok_def)
qed

lemma base_subset: "set (enqueue_base e rows) \<subseteq> set rows"
  using base_cases [of e rows] by auto

lemma base_ids: "distinct_ids rows \<Longrightarrow> distinct_ids (enqueue_base e rows)"
  using base_cases [of e rows] by (auto simp: distinct_ids_def distinct_map_filter)

lemma new_job_ok: "row_ok (new_job o1 typ e uuid t)"
  by (simp add: row_ok_def new_job_def)

lemma keys_unique_append:
  assumes "keys_unique rows" and "insertable r rows"
  shows "keys_unique (rows @ [r])"
  unfolding keys_unique_def
proof (intro ballI impI)
  fix a b assume ab: "a \<in> set (rows @ [r])" "b \<in> set (rows @ [r])"
    and k: "j_idempotency_key a \<noteq> None \<and> j_idempotency_key a = j_idempotency_key b"
  have "j_idempotency_key x \<noteq> j_idempotency_key r" if "x \<in> set rows" "j_idempotency_key x \<noteq> None" for x
    using assms(2) that by (auto simp: insertable_def)
  note no = this
  consider "a = r" "b = r" | "a = r" "b \<in> set rows" | "a \<in> set rows" "b = r" | "a \<in> set rows" "b \<in> set rows"
    using ab by auto
  then show "j_id a = j_id b"
  proof cases
    case 2
    with no [of b] k show ?thesis by metis
  next
    case 3
    with no [of a] k show ?thesis by metis
  next
    case 4
    with assms(1) k show ?thesis unfolding keys_unique_def by blast
  qed simp
qed

lemma keys_unique_subset: "keys_unique rows \<Longrightarrow> set rows' \<subseteq> set rows \<Longrightarrow> keys_unique rows'"
  unfolding keys_unique_def by blast

lemma enqueue_ok:
  assumes "queue_ok q"
  shows "queue_ok (snd (enqueue o1 typ e uuid t q))"
proof -
  let ?b = "enqueue_base e (q_rows q)" and ?r = "new_job o1 typ e uuid t"
  have b: "distinct_ids ?b" "keys_unique ?b" "\<forall>r\<in>set ?b. row_ok r"
    using assms base_ids base_subset [of e "q_rows q"] keys_unique_subset
    by (auto simp: queue_ok_def)
  show ?thesis
  proof (cases "insertable ?r ?b")
    case True
    then have "keys_unique (?b @ [?r])"
      by (rule keys_unique_append [OF b(2)])
    moreover have "distinct_ids (?b @ [?r])"
      using b(1) True by (auto simp: distinct_ids_def insertable_def)
    ultimately show ?thesis
      using True b new_job_ok by (simp add: queue_ok_def enqueue_rows)
  next
    case False
    with b show ?thesis by (simp add: queue_ok_def enqueue_rows)
  qed
qed

lemma event_ok: "queue_ok q \<Longrightarrow> queue_ok (apply_event o1 ev t q)"
proof (cases "is_enqueue ev")
  case True
  then show "queue_ok q \<Longrightarrow> queue_ok (apply_event o1 ev t q)" by (cases ev) (auto intro: enqueue_ok)
next
  case False
  assume "queue_ok q"
  then show "queue_ok (apply_event o1 ev t q)"
    using steps_queue_ok event_rows [OF _ order_refl False] by (metis queue_ok_def)
qed

lemma reachable_ok: "reachable_queue o1 q \<Longrightarrow> queue_ok q"
proof (induction rule: reachable_queue.induct)
  case (fresh_queue q)
  then show ?case by (simp add: queue_ok_def distinct_ids_def keys_unique_def)
qed (rule event_ok)

subsection \<open>Properties\<close>

text \<open>
  C31: in every queue that any interleaving of the operations of any number of processes
  can reach, job ids are unique, an idempotency key names at most one job, and a row has a lease owner
  and a lease expiry exactly while it is running; a running job has been attempted, and a retrying
  one knows when and has attempts left.
\<close>

theorem queue_invariant:
  assumes "reachable_queue o1 q"
  shows "distinct (map j_id (q_rows q)) \<and>
    (\<forall>r\<in>set (q_rows q). \<forall>r'\<in>set (q_rows q).
       j_idempotency_key r \<noteq> None \<and> j_idempotency_key r = j_idempotency_key r' \<longrightarrow> j_id r = j_id r') \<and>
    (\<forall>r\<in>set (q_rows q).
       (j_state r = Job_running \<longleftrightarrow> j_lease_owner r \<noteq> None) \<and>
       (j_lease_owner r = None \<longleftrightarrow> j_lease_expires_at r = None) \<and>
       (j_state r = Job_running \<longrightarrow> 1 \<le> j_attempt r) \<and>
       (j_state r = Job_retrying \<longrightarrow> j_next_attempt_at r \<noteq> None \<and> j_attempt r < j_max_attempts r))"
  using reachable_ok [OF assms] unfolding queue_ok_def distinct_ids_def keys_unique_def row_ok_def by blast


definition job_opts :: enqueue_options where
  "job_opts = \<lparr>e_owner = Some (''v1'', Some ''ann''), e_class = None, e_maxAttempts = Some 2,
     e_idempotencyKey = Some ''weekly'', e_payload = None, e_replaceIfTerminal = False, e_replaceIfFailed = True\<rparr>"

definition claim_any :: "str \<Rightarrow> claim_options" where
  "claim_any tok = \<lparr>c_leaseOwner = tok, c_types = [], c_leaseMs = None, c_classLimits = (\<lambda>_. None)\<rparr>"

definition empty_queue :: job_queue where
  "empty_queue = \<lparr>q_rows = [], q_progress = [], q_listening = True, q_feed = []\<rparr>"

primrec run_events :: "queue_options \<Rightarrow> (queue_event \<times> int) list \<Rightarrow> job_queue \<Rightarrow> job_queue" where
  "run_events o1 [] q = q"
| "run_events o1 (e # es) q = run_events o1 es (apply_event o1 (fst e) (snd e) q)"

lemma run_reachable: "reachable_queue o1 q \<Longrightarrow> reachable_queue o1 (run_events o1 es q)"
  by (induction es arbitrary: q) (auto intro: queue_step)

definition sample_run :: "(queue_event \<times> int) list" where
  "sample_run = [(Ev_enqueue ''synthesis'' job_opts ''u1'', 0), (Ev_claim (claim_any ''a''), 10)]"

theorem queue_invariant_witness:
  "\<exists>r. q_rows (run_events default_queue_options sample_run empty_queue) = [r] \<and> j_state r = Job_running \<and>
     j_lease_owner r \<noteq> None \<and> 1 \<le> j_attempt r"
proof -
  let ?q = "run_events default_queue_options sample_run empty_queue"
  have q: "reachable_queue default_queue_options ?q"
    by (rule run_reachable) (simp add: fresh_queue empty_queue_def)
  have "length (q_rows ?q) = 1 \<and> j_state (hd (q_rows ?q)) = Job_running" by code_simp
  then obtain r where r: "q_rows ?q = [r]" "j_state r = Job_running"
    by (cases "q_rows ?q") auto
  from queue_invariant [OF q] r show ?thesis by auto
qed

lemma terminal_step:
  assumes "row_step toks r r'" and "terminal_state (j_state r)"
  shows "\<exists>b t. r' = r\<lparr>j_cancel_requested := b, j_updated_at := t\<rparr>"
  using assms
proof (cases rule: row_step.cases)
  case row_same
  then have "r' = r\<lparr>j_cancel_requested := j_cancel_requested r, j_updated_at := j_updated_at r\<rparr>" by simp
  then show ?thesis by blast
next
  case (row_cancel t)
  then show ?thesis by blast
qed (auto simp: terminal_state_def cancelled_unstarted_def due_def lease_lapsed_def owned_def)

lemma terminal_steps:
  assumes "row_steps toks r r'" and "terminal_state (j_state r)"
  shows "\<exists>b t. r' = r\<lparr>j_cancel_requested := b, j_updated_at := t\<rparr>"
  using assms
proof (induction rule: rtranclp_induct)
  case base
  then show ?case using terminal_step row_same by blast
next
  case (step r1 r2)
  then obtain b t where "r1 = r\<lparr>j_cancel_requested := b, j_updated_at := t\<rparr>" by blast
  with step terminal_step [OF step(2)] show ?case by auto
qed

lemma find_steps:
  assumes "distinct_ids rows" and "list_all2 (row_steps toks) rows rows'" and "find_job i rows = Some r"
  obtains r' where "find_job i rows' = Some r'" and "row_steps toks r r'"
proof -
  from assms(1,3) have "r \<in> set rows" "j_id r = i" by (simp_all add: find_job_Some)
  with assms(2) obtain r' where r': "r' \<in> set rows'" "row_steps toks r r'"
    by (metis list_all2_conv_all_nth in_set_conv_nth)
  moreover have "distinct_ids rows'"
    using assms(1) steps_ids [OF assms(2)] by (simp add: distinct_ids_def)
  ultimately have "find_job i rows' = Some r'"
    using \<open>j_id r = i\<close> by (auto simp: find_job_Some dest: row_steps_fixed)
  with r' that show ?thesis by blast
qed

lemma find_append_new: "find_job i (rows @ [x]) = (case find_job i rows of None \<Rightarrow> if j_id x = i then Some x else None | Some r \<Rightarrow> Some r)"
  by (induction rows) (auto simp: find_job_def)

lemma enqueue_find:
  assumes "distinct_ids (q_rows q)" and "find_job i (q_rows q) = Some r" and "uuid \<noteq> i"
  shows "find_job i (q_rows (snd (enqueue o1 typ e uuid t q))) = Some r \<or>
    find_job i (q_rows (snd (enqueue o1 typ e uuid t q))) = None \<and> terminal_state (j_state r)"
proof -
  have r: "r \<in> set (q_rows q)" "j_id r = i" using assms by (simp_all add: find_job_Some)
  have "find_job i (enqueue_base e (q_rows q)) = Some r \<or>
    find_job i (enqueue_base e (q_rows q)) = None \<and> terminal_state (j_state r)"
    using base_cases [of e "q_rows q"]
  proof (elim disjE bexE conjE)
    fix x assume x: "x \<in> set (q_rows q)" "terminal_state (j_state x)"
      "enqueue_base e (q_rows q) = filter (\<lambda>r. j_id r \<noteq> j_id x) (q_rows q)"
    show ?thesis
    proof (cases "j_id x = i")
      case True
      then have "x = r" using same_id [OF assms(1) x(1) r(1)] r(2) by simp
      with x True show ?thesis by (auto simp: find_job_None)
    next
      case False
      have "distinct_ids (filter (\<lambda>r. j_id r \<noteq> j_id x) (q_rows q))"
        using assms(1) by (simp add: distinct_ids_def distinct_map_filter)
      with r False x show ?thesis by (simp add: find_job_Some)
    qed
  qed (use assms(2) in simp)
  then show ?thesis
    using assms(3) by (auto simp: enqueue_rows find_append_new new_job_def)
qed

lemma row_self: "\<exists>b u. r = r\<lparr>j_cancel_requested := b, j_updated_at := u\<rparr>"
  by (rule exI [of _ "j_cancel_requested r"], rule exI [of _ "j_updated_at r"]) simp

text \<open>
  A job that is complete or failed stays as it finished, whatever any process
  does next: nothing but its cancel flag and its time of change is ever written again, unless an
  enqueue of its own key replaces the row as a whole.
\<close>

theorem finished_jobs_stay:
  assumes "reachable_queue o1 q" and "find_job i (q_rows q) = Some r" and "terminal_state (j_state r)"
    and "\<And>typ e. ev \<noteq> Ev_enqueue typ e i"
  shows "find_job i (q_rows (apply_event o1 ev t q)) = None \<or>
    (\<exists>b u. find_job i (q_rows (apply_event o1 ev t q)) = Some (r\<lparr>j_cancel_requested := b, j_updated_at := u\<rparr>))"
proof (cases "is_enqueue ev")
  case True
  then obtain ty e uuid where ev: "ev = Ev_enqueue ty e uuid" by (cases ev) auto
  have "uuid \<noteq> i" using assms(4) [of ty e] ev by auto
  with enqueue_find [of q i r uuid o1 ty e t] assms(2) reachable_ok [OF assms(1)]
  have "find_job i (q_rows (apply_event o1 ev t q)) = Some r \<or> find_job i (q_rows (apply_event o1 ev t q)) = None"
    unfolding ev by (auto simp: queue_ok_def)
  with row_self [of r] show ?thesis by metis
next
  case False
  have ids: "distinct_ids (q_rows q)" using reachable_ok [OF assms(1)] by (simp add: queue_ok_def)
  from find_steps [OF ids event_rows [OF ids order_refl False] assms(2), of o1 t] terminal_steps assms(3)
  show ?thesis by metis
qed


theorem finished_jobs_stay_witness:
  "(let q = run_events default_queue_options
       [(Ev_enqueue ''synthesis'' job_opts ''u1'', 0), (Ev_claim (claim_any ''a''), 10), (Ev_complete ''u1'' ''a'', 20)] empty_queue in
    \<exists>r b u. find_job ''u1'' (q_rows q) = Some r \<and> j_state r = Job_complete \<and>
      find_job ''u1'' (q_rows (apply_event default_queue_options (Ev_fail ''u1'' ''a'' ''late'' False) 30 q)) =
        Some (r\<lparr>j_cancel_requested := b, j_updated_at := u\<rparr>))"
proof -
  let ?q = "run_events default_queue_options
       [(Ev_enqueue ''synthesis'' job_opts ''u1'', 0), (Ev_claim (claim_any ''a''), 10), (Ev_complete ''u1'' ''a'', 20)] empty_queue"
  let ?ev = "Ev_fail ''u1'' ''a'' ''late'' False"
  have q: "reachable_queue default_queue_options ?q"
    by (rule run_reachable) (simp add: fresh_queue empty_queue_def)
  have "(case find_job ''u1'' (q_rows ?q) of None \<Rightarrow> False | Some r \<Rightarrow> j_state r = Job_complete) \<and>
      find_job ''u1'' (q_rows (apply_event default_queue_options ?ev 30 ?q)) \<noteq> None" by code_simp
  then obtain r where r: "find_job ''u1'' (q_rows ?q) = Some r" "j_state r = Job_complete"
    "find_job ''u1'' (q_rows (apply_event default_queue_options ?ev 30 ?q)) \<noteq> None"
    by (auto split: option.splits)
  have "terminal_state (j_state r)" by (simp add: r terminal_state_def)
  from finished_jobs_stay [OF q r(1) this, of ?ev 30] r show ?thesis by (auto simp: Let_def)
qed

lemma unowned_step:
  assumes "row_step toks r r'" and "tok \<notin> toks" and "\<not> owned i tok r"
  shows "\<not> owned i tok r'"
  using assms by (cases rule: row_step.cases) (auto simp: owned_def row_defs)

lemma unowned_steps:
  assumes "row_steps toks r r'" and "tok \<notin> toks" and "\<not> owned i tok r"
  shows "\<not> owned i tok r'"
  using assms by (induction rule: rtranclp_induct) (auto dest: unowned_step)

definition unheld :: "str \<Rightarrow> str \<Rightarrow> job_row list \<Rightarrow> bool" where
  "unheld i tok rows \<longleftrightarrow> (\<forall>r\<in>set rows. \<not> owned i tok r)"

lemma event_unheld:
  assumes "queue_ok q" and "unheld i tok (q_rows q)" and "tok \<notin> event_tokens ev"
  shows "unheld i tok (q_rows (apply_event o1 ev t q))"
proof (cases "is_enqueue ev")
  case True
  then obtain ty e uuid where "ev = Ev_enqueue ty e uuid" by (cases ev) auto
  then show ?thesis
    using assms(2) base_subset [of e "q_rows q"]
    by (auto simp: enqueue_rows unheld_def owned_def new_job_def)
next
  case False
  have ids: "distinct_ids (q_rows q)" using assms(1) by (simp add: queue_ok_def)
  show ?thesis
    unfolding unheld_def
    using event_rows [OF ids order_refl False, of o1 t] assms(2,3)
    by (metis steps_in unheld_def unowned_steps)
qed

lemma events_unheld:
  "queue_ok q \<Longrightarrow> unheld i tok (q_rows q) \<Longrightarrow> \<forall>e\<in>set es. tok \<notin> event_tokens (fst e) \<Longrightarrow>
    unheld i tok (q_rows (run_events o1 es q))"
  by (induction es arbitrary: q) (auto intro: event_ok event_unheld)

lemma unheld_update: "unheld i tok rows \<Longrightarrow> update_jobs (owned i tok) f rows = (0, rows)"
  by (auto simp: update_jobs_def unheld_def filter_empty_conv intro!: map_idI)

lemma find_job_in: "find_job i rows = Some r \<Longrightarrow> r \<in> set rows \<and> j_id r = i"
  by (induction rows) (auto simp: find_job_def split: if_splits)

lemma unheld_fail: "unheld i tok (q_rows q) \<Longrightarrow> fail_job o1 i tok msg terminal t q = (False, q)"
  by (auto simp: fail_job_def unheld_def owned_def dest: find_job_in split: option.splits)

text \<open>
  C32: a lease token that does not hold a job (because the job was never claimed
  with it, or the lease lapsed and another claim took the job over) writes nothing to it, ever again:
  after any further events in which no claim hands out that token, every write of its holder reports
  failure and leaves the table as it was.
\<close>

theorem stale_lease_powerless:
  assumes "reachable_queue o1 q" and "\<forall>r\<in>set (q_rows q). \<not> owned i tok r"
    and "\<forall>e\<in>set es. tok \<notin> event_tokens (fst e)"
  shows "let q' = run_events o1 es q in
    heartbeat o1 i tok ms t q' = (False, q') \<and> checkpoint_job i tok data t q' = (False, q') \<and>
    recordOutcome i v tok t q' = (False, q') \<and> complete_job i tok t q' = (False, q') \<and>
    fail_job o1 i tok msg terminal t q' = (False, q')"
proof -
  have "unheld i tok (q_rows (run_events o1 es q))"
    using events_unheld [OF reachable_ok [OF assms(1)] _ assms(3)] assms(2) by (simp add: unheld_def)
  then show ?thesis
    by (simp add: Let_def heartbeat_def checkpoint_job_def recordOutcome_def complete_job_def unheld_update unheld_fail)
qed

theorem stale_lease_powerless_witness:
  "let q = run_events default_queue_options (sample_run @ [(Ev_claim (claim_any ''b''), 400000)]) empty_queue;
       q' = run_events default_queue_options [(Ev_cancel ''u1'', 400010)] q in
   complete_job ''u1'' ''a'' 400020 q' = (False, q') \<and> fst (complete_job ''u1'' ''b'' 400020 q')"
proof -
  let ?q = "run_events default_queue_options (sample_run @ [(Ev_claim (claim_any ''b''), 400000)]) empty_queue"
  have q: "reachable_queue default_queue_options ?q"
    by (rule run_reachable) (simp add: fresh_queue empty_queue_def)
  have "list_all (\<lambda>r. \<not> owned ''u1'' ''a'' r) (q_rows ?q) \<and>
      fst (complete_job ''u1'' ''b'' 400020 (run_events default_queue_options [(Ev_cancel ''u1'', 400010)] ?q))"
    by code_simp
  then have "\<forall>r\<in>set (q_rows ?q). \<not> owned ''u1'' ''a'' r"
    and b: "fst (complete_job ''u1'' ''b'' 400020 (run_events default_queue_options [(Ev_cancel ''u1'', 400010)] ?q))"
    by (simp_all add: list_all_iff)
  from stale_lease_powerless [OF q this(1), of "[(Ev_cancel ''u1'', 400010)]"] b show ?thesis
    by (simp add: Let_def)
qed

end
