(* ===== verification/Job_Runner.thy ===== *)
theory Job_Runner
  imports Job_Queue_Safety
begin

text \<open>
  The worker of the job queue: \<open>runJob\<close> of \<open>packages/server/src/scheduler/job-queue.ts\<close> composed from
  its pieces, and the tick of \<open>packages/server/src/scheduler/job-runner.ts\<close> (\<open>makeJobRunner\<close>,
  \<open>drainOnce\<close>). A handler is code of the caller: what it does to the queue while it runs, what other
  processes do meanwhile and when the heartbeat timer fires are one list of actions, and its result is
  \<^const>\<open>None\<close> when it resolves and the message it throws otherwise. The readings of the clock and
  the random suffixes of lease tokens are arguments.

  Then what a claim serves, that a class limit holds, and that a worker with a handler for every type
  brings every job to an end.
\<close>

subsection \<open>A run and a tick\<close>

datatype run_action =
    Act_beat int
  | Act_checkpoint str int
  | Act_outcome str int
  | Act_progress job_progress
  | Act_shutdown
  | Act_others queue_event int

fun run_act :: "queue_options \<Rightarrow> run_action \<Rightarrow> run_state \<times> job_queue \<Rightarrow> run_state \<times> job_queue" where
  "run_act o1 (Act_beat t) (s, q) = run_beat o1 t s q"
| "run_act o1 (Act_checkpoint data t) (s, q) = (s, snd (checkpoint_job (j_id (r_job s)) (r_owner s) data t q))"
| "run_act o1 (Act_outcome v t) (s, q) = (s, snd (recordOutcome (j_id (r_job s)) v (r_owner s) t q))"
| "run_act o1 (Act_progress p) (s, q) = (s, reportProgress (j_id (r_job s)) p q)"
| "run_act o1 Act_shutdown (s, q) = (run_shutdown s, q)"
| "run_act o1 (Act_others ev t) (s, q) = (s, apply_event o1 ev t q)"

type_synonym job_handler = "job_row \<Rightarrow> run_action list \<times> str option"

definition runJob ::
    "queue_options \<Rightarrow> job_row \<Rightarrow> str \<Rightarrow> job_handler \<Rightarrow> bool \<Rightarrow> int \<Rightarrow> int \<Rightarrow> job_queue \<Rightarrow> run_outcome \<times> job_queue" where
  "runJob o1 job leaseOwner handler shutdown t0 t1 q =
     (case run_start o1 job leaseOwner shutdown t0 q of
        (Inl oc, q1) \<Rightarrow> (oc, q1)
      | (Inr s, q1) \<Rightarrow>
          (case fold (run_act o1) (fst (handler job)) (s, q1) of
             (s2, q2) \<Rightarrow>
               (case snd (handler job) of
                  None \<Rightarrow> run_return t1 s2 q2
                | Some msg \<Rightarrow> run_throw o1 msg t1 s2 q2)))"

record job_runner =
  n_leaseOwner :: str
  n_handlers :: "(str \<times> job_handler) list"
  n_maxPerTick :: nat
  n_leaseMs :: "int option"
  n_classLimits :: "str \<Rightarrow> int option"

definition default_max_per_tick :: nat where
  "default_max_per_tick = 32"

definition newLeaseToken :: "str \<Rightarrow> str \<Rightarrow> str" where
  "newLeaseToken owner uuid = owner @ ''#'' @ uuid"

definition runner_claim :: "job_runner \<Rightarrow> str \<Rightarrow> claim_options" where
  "runner_claim d lease =
     \<lparr>c_leaseOwner = lease, c_types = map fst (n_handlers d), c_leaseMs = n_leaseMs d,
      c_classLimits = n_classLimits d\<rparr>"

text \<open>One turn of the loop; the \<open>i\<close>-th reads the clock at its claim, its start and its end.\<close>

definition serve_job ::
    "queue_options \<Rightarrow> job_runner \<Rightarrow> str \<Rightarrow> int \<Rightarrow> int \<Rightarrow> int \<Rightarrow> job_queue \<Rightarrow> (str \<times> run_outcome) option \<times> job_queue" where
  "serve_job o1 d lease t t0 t1 q =
     (case claim_job o1 (runner_claim d lease) t q of
        (None, q1) \<Rightarrow> (None, q1)
      | (Some job, q1) \<Rightarrow>
          (case map_of (n_handlers d) (j_type job) of
             None \<Rightarrow>
               (Some (j_type job, Run_failed),
                snd (fail_job o1 (j_id job) lease (''no handler for job type '' @ j_type job) True t1 q1))
           | Some handler \<Rightarrow>
               (case runJob o1 job lease handler False t0 t1 q1 of
                  (oc, q2) \<Rightarrow> (Some (j_type job, oc), q2))))"

primrec drain_loop ::
    "queue_options \<Rightarrow> job_runner \<Rightarrow> (nat \<Rightarrow> str) \<Rightarrow> (nat \<Rightarrow> int) \<Rightarrow> (nat \<Rightarrow> bool) \<Rightarrow> nat \<Rightarrow> nat \<Rightarrow> job_queue
      \<Rightarrow> (str \<times> run_outcome) list \<times> job_queue" where
  "drain_loop o1 d uuid clock aborted 0 i q = ([], q)"
| "drain_loop o1 d uuid clock aborted (Suc n) i q =
     (if aborted i then ([], q)
      else case serve_job o1 d (newLeaseToken (n_leaseOwner d) (uuid i)) (clock (3 * i)) (clock (3 * i + 1))
                  (clock (3 * i + 2)) q of
        (None, q1) \<Rightarrow> ([], q1)
      | (Some oc, q1) \<Rightarrow>
          (case drain_loop o1 d uuid clock aborted n (Suc i) q1 of
             (ocs, q2) \<Rightarrow> (oc # ocs, q2)))"

definition drainOnce ::
    "queue_options \<Rightarrow> job_runner \<Rightarrow> (nat \<Rightarrow> str) \<Rightarrow> (nat \<Rightarrow> int) \<Rightarrow> (nat \<Rightarrow> bool) \<Rightarrow> job_queue
      \<Rightarrow> (str \<times> run_outcome) list \<times> job_queue" where
  "drainOnce o1 d uuid clock aborted q =
     (if length (n_handlers d) = 0 then ([], q)
      else drain_loop o1 d uuid clock aborted (n_maxPerTick d) 0 q)"

subsection \<open>What a claim serves\<close>

definition claimable :: "claim_options \<Rightarrow> int \<Rightarrow> job_row \<Rightarrow> bool" where
  "claimable c t r \<longleftrightarrow> due t r \<and> of_types (c_types c) r \<and> \<not> j_cancel_requested r"

definition claim_ms :: "queue_options \<Rightarrow> claim_options \<Rightarrow> int" where
  "claim_ms o1 c = (case c_leaseMs c of None \<Rightarrow> o_leaseMs o1 | Some n \<Rightarrow> n)"

definition settle_cancelled :: "claim_options \<Rightarrow> int \<Rightarrow> job_row \<Rightarrow> job_row" where
  "settle_cancelled c t r =
     (if cancelled_unstarted t r \<and> of_types (c_types c) r then cancelled_row t r else r)"

lemma settle_same [simp]: "claimable c t r \<Longrightarrow> settle_cancelled c t r = r"
  by (simp add: claimable_def settle_cancelled_def cancelled_unstarted_def)

lemma settle_id [simp]: "j_id (settle_cancelled c t r) = j_id r"
  by (simp add: settle_cancelled_def)

lemma due_settled: "due t (settle_cancelled c t r) \<and> of_types (c_types c) (settle_cancelled c t r) \<longleftrightarrow> claimable c t r"
  by (auto simp: claimable_def settle_cancelled_def cancelled_row_def cancelled_unstarted_def due_def
      lease_lapsed_def of_types_def)

lemma candidates_settled:
  "candidates t (c_types c) (map (settle_cancelled c t) rows) =
    take claim_scan_limit (sort_key claim_order (filter (claimable c t) rows))"
proof -
  have "filter (\<lambda>r. due t r \<and> of_types (c_types c) r) (map (settle_cancelled c t) rows) =
      map (settle_cancelled c t) (filter (claimable c t) rows)"
    by (simp add: filter_map o_def due_settled)
  also have "\<dots> = filter (claimable c t) rows"
    by (rule map_idI) simp
  finally show ?thesis by (simp add: candidates_def)
qed

definition served :: "claim_options \<Rightarrow> int \<Rightarrow> job_row list \<Rightarrow> job_row option" where
  "served c t rows = find (\<lambda>r. \<not> class_full c t (map (settle_cancelled c t) rows) r)
     (take claim_scan_limit (sort_key claim_order (filter (claimable c t) rows)))"

lemma claim_unfold:
  assumes "distinct_ids (q_rows q)"
  shows "fst (claim_job o1 c t q) =
      map_option (leased_row (c_leaseOwner c) (claim_ms o1 c) t) (served c t (q_rows q)) \<and>
    q_rows (snd (claim_job o1 c t q)) = (case served c t (q_rows q) of
      None \<Rightarrow> map (settle_cancelled c t) (q_rows q)
    | Some row \<Rightarrow> map (\<lambda>r. if j_id r = j_id row then leased_row (c_leaseOwner c) (claim_ms o1 c) t r else r)
        (map (settle_cancelled c t) (q_rows q)))"
proof -
  let ?q1 = "snd (finalizeCancelled t (of_types (c_types c)) q)"
  have rows: "q_rows ?q1 = map (settle_cancelled c t) (q_rows q)"
    unfolding finalize_rows [OF assms(1)] settle_cancelled_def by (rule refl)
  have ids: "distinct_ids (q_rows ?q1)" by (rule finalize_ids [OF assms(1)])
  have sub: "set (candidates t (c_types c) (q_rows ?q1)) \<subseteq> set (q_rows ?q1)" using candidates_subset by blast
  have scan: "claim_scan c (claim_ms o1 c) t (candidates t (c_types c) (q_rows ?q1)) ?q1 =
    (case served c t (q_rows q) of
       None \<Rightarrow> (None, ?q1)
     | Some row \<Rightarrow> (Some (leased_row (c_leaseOwner c) (claim_ms o1 c) t row),
         ?q1\<lparr>q_rows := map (\<lambda>r. if j_id r = j_id row then leased_row (c_leaseOwner c) (claim_ms o1 c) t r else r)
           (map (settle_cancelled c t) (q_rows q))\<rparr>))"
    by (simp only: claim_scan_find [OF ids sub]) (simp only: served_def candidates_settled rows)
  have "fst (claim_job o1 c t q) = fst (claim_scan c (claim_ms o1 c) t (candidates t (c_types c) (q_rows ?q1)) ?q1)"
    "q_rows (snd (claim_job o1 c t q)) =
      q_rows (snd (claim_scan c (claim_ms o1 c) t (candidates t (c_types c) (q_rows ?q1)) ?q1))"
    by (simp_all add: claim_job_def Let_def claim_ms_def split_beta)
  then show ?thesis unfolding scan by (simp add: rows split: option.splits)
qed

lemma find_in: "find p xs = Some x \<Longrightarrow> x \<in> set xs \<and> p x"
  by (induction xs) (auto split: if_splits)

lemma served_claimable: "served c t rows = Some r \<Longrightarrow> r \<in> set rows \<and> claimable c t r"
  by (metis (no_types, lifting) served_def find_in in_set_takeD set_sort mem_Collect_eq set_filter)

lemma served_room: "served c t rows = Some r \<Longrightarrow> \<not> class_full c t (map (settle_cancelled c t) rows) r"
  unfolding served_def by (drule find_in) blast

lemma sort_key_hd: "sort_key f xs = y # ys \<Longrightarrow> x \<in> set xs \<Longrightarrow> f y \<le> f x"
proof -
  assume y: "sort_key f xs = y # ys" and "x \<in> set xs"
  then have "x \<in> set (y # ys)" by (metis set_sort)
  moreover have "sorted (map f (y # ys))" using sorted_sort_key [of f xs] y by simp
  ultimately show ?thesis by auto
qed

lemma served_unlimited:
  assumes "c_classLimits c = (\<lambda>_. None)"
  shows "served c t rows = (case sort_key claim_order (filter (claimable c t) rows) of [] \<Rightarrow> None | r # rs \<Rightarrow> Some r)"
  by (simp add: served_def class_full_def assms claim_scan_limit_def split: list.splits)

text \<open>
  C30: a claim without class limits serves exactly the job it should. It finds nothing
  only when no row of its types is due and uncancelled; otherwise it leases, to its token and until its
  lease ends, one due uncancelled row of its types that no other such row precedes in the claim order,
  as the table then shows it.
\<close>

theorem claim_serves_next:
  assumes "reachable_queue o1 q" and "c_classLimits c = (\<lambda>_. None)"
  shows "case claim_job o1 c t q of
      (None, q') \<Rightarrow> \<not> (\<exists>r\<in>set (q_rows q). due t r \<and> of_types (c_types c) r \<and> \<not> j_cancel_requested r)
    | (Some job, q') \<Rightarrow> \<exists>r\<in>set (q_rows q). due t r \<and> of_types (c_types c) r \<and> \<not> j_cancel_requested r \<and>
        (\<forall>x\<in>set (q_rows q). due t x \<and> of_types (c_types c) x \<and> \<not> j_cancel_requested x \<longrightarrow>
           claim_order r \<le> claim_order x) \<and>
        job = leased_row (c_leaseOwner c) (claim_ms o1 c) t r \<and> find_job (j_id r) (q_rows q') = Some job"
proof -
  have ids: "distinct_ids (q_rows q)" using reachable_ok [OF assms(1)] by (simp add: queue_ok_def)
  note cl = claim_unfold [OF ids, of o1 c t]
  have ids': "distinct_ids (q_rows (snd (claim_job o1 c t q)))"
    using event_ok [OF reachable_ok [OF assms(1)], of o1 "Ev_claim c" t] by (simp add: queue_ok_def)
  note sv = served_unlimited [OF assms(2), of t "q_rows q"]
  show ?thesis
  proof (cases "sort_key claim_order (filter (claimable c t) (q_rows q))")
    case Nil
    then have "filter (claimable c t) (q_rows q) = []" by (metis set_empty set_sort)
    with Nil sv cl show ?thesis by (auto simp: claimable_def filter_empty_conv split: prod.splits)
  next
    case (Cons r rs)
    then have s: "served c t (q_rows q) = Some r" by (simp add: sv)
    note r = served_claimable [OF s]
    have "leased_row (c_leaseOwner c) (claim_ms o1 c) t r \<in> set (q_rows (snd (claim_job o1 c t q)))"
      using cl s r by (auto simp: o_def intro!: image_eqI [of _ _ r])
    then have "find_job (j_id r) (q_rows (snd (claim_job o1 c t q))) = Some (leased_row (c_leaseOwner c) (claim_ms o1 c) t r)"
      by (simp add: find_job_Some [OF ids'])
    moreover have "fst (claim_job o1 c t q) = Some (leased_row (c_leaseOwner c) (claim_ms o1 c) t r)"
      using cl s by simp
    moreover have "\<forall>x\<in>set (q_rows q). claimable c t x \<longrightarrow> claim_order r \<le> claim_order x"
      using sort_key_hd [OF Cons] by simp
    ultimately show ?thesis using r by (auto simp: claimable_def split: prod.splits)
  qed
qed

theorem claim_serves_next_witness:
  "(let q = run_events default_queue_options [(Ev_enqueue ''synthesis'' job_opts ''u1'', 0),
        (Ev_enqueue ''indexing'' (job_opts\<lparr>e_idempotencyKey := None\<rparr>) ''u2'', 5)] empty_queue in
    \<exists>job q'. claim_job default_queue_options (claim_any ''a'') 10 q = (Some job, q') \<and> j_id job = ''u1'' \<and>
      j_state job = Job_running \<and> find_job ''u1'' (q_rows q') = Some job)"
proof -
  let ?q = "run_events default_queue_options [(Ev_enqueue ''synthesis'' job_opts ''u1'', 0),
        (Ev_enqueue ''indexing'' (job_opts\<lparr>e_idempotencyKey := None\<rparr>) ''u2'', 5)] empty_queue"
  have q: "reachable_queue default_queue_options ?q"
    by (rule run_reachable) (simp add: fresh_queue empty_queue_def)
  have "(case fst (claim_job default_queue_options (claim_any ''a'') 10 ?q) of None \<Rightarrow> False
      | Some job \<Rightarrow> j_id job = ''u1'')" by code_simp
  then obtain job q' where j: "claim_job default_queue_options (claim_any ''a'') 10 ?q = (Some job, q')" "j_id job = ''u1''"
    by (cases "claim_job default_queue_options (claim_any ''a'') 10 ?q") (auto split: option.splits)
  have "c_classLimits (claim_any ''a'') = (\<lambda>_. None)" by (simp add: claim_any_def)
  from claim_serves_next [OF q this, of 10] j show ?thesis
    by (auto simp: Let_def leased_row_def)
qed

subsection \<open>Class limits\<close>

definition live_row :: "int \<Rightarrow> str \<Rightarrow> job_row \<Rightarrow> bool" where
  "live_row t c r \<longleftrightarrow> j_class r = c \<and> j_state r = Job_running \<and>
     (case j_lease_expires_at r of None \<Rightarrow> False | Some x \<Rightarrow> x > t)"

lemma live_in_class_row: "live_in_class t c rows = length (filter (live_row t c) rows)"
  by (simp add: live_in_class_def live_row_def [abs_def])

lemma filter_map_le:
  assumes "\<And>x. x \<in> set xs \<Longrightarrow> p (f x) \<longrightarrow> p x"
  shows "length (filter p (map f xs)) \<le> length (filter p xs)"
  using assms by (induction xs) auto

lemma live_settled: "live_in_class t k (map (settle_cancelled c t) rows) = live_in_class t k rows"
proof -
  have e: "live_row t k (settle_cancelled c t r) = live_row t k r" for r
    by (auto simp: live_row_def settle_cancelled_def cancelled_unstarted_def cancelled_row_def lease_lapsed_def
        at_or_before_def split: option.splits)
  show ?thesis by (simp add: live_in_class_row filter_map o_def e)
qed

lemma live_update:
  assumes "distinct_ids rows"
  shows "live_in_class t k (map (\<lambda>r. if j_id r = i then f r else r) rows) \<le> live_in_class t k rows + 1"
  using assms
proof (induction rows)
  case (Cons a rows)
  show ?case
  proof (cases "j_id a = i")
    case True
    with Cons.prems have "j_id x \<noteq> i" if "x \<in> set rows" for x
      using that by (metis distinct.simps(2) distinct_ids_def imageI list.set_map list.simps(9))
    then have "map (\<lambda>r. if j_id r = i then f r else r) rows = rows"
      by (intro map_idI) simp
    with True show ?thesis by (simp add: live_in_class_row)
  next
    case False
    with Cons show ?thesis by (simp add: live_in_class_row distinct_ids_def)
  qed
qed (simp add: live_in_class_row)

text \<open>
  A claim never takes a class past its limit. With a limit for a class, the rows of
  the class that are running under an unexpired lease after the claim are no more than the limit, or no
  more than before.
\<close>

theorem class_limit_holds:
  assumes "reachable_queue o1 q" and "c_classLimits c k = Some limit"
  shows "int (live_in_class t k (q_rows (snd (claim_job o1 c t q)))) \<le> max limit (int (live_in_class t k (q_rows q)))"
proof -
  have ids: "distinct_ids (q_rows q)" using reachable_ok [OF assms(1)] by (simp add: queue_ok_def)
  let ?rows = "map (settle_cancelled c t) (q_rows q)"
  have ids': "distinct_ids ?rows" using ids by (simp add: distinct_ids_def o_def)
  note cl = claim_unfold [OF ids, of o1 c t]
  show ?thesis
  proof (cases "served c t (q_rows q)")
    case None
    with cl show ?thesis by (simp add: live_settled)
  next
    case (Some r)
    let ?f = "leased_row (c_leaseOwner c) (claim_ms o1 c) t"
    have rows: "q_rows (snd (claim_job o1 c t q)) = map (\<lambda>x. if j_id x = j_id r then ?f x else x) ?rows"
      using cl Some by simp
    show ?thesis
    proof (cases "j_class r = k")
      case True
      with served_room [OF Some] assms(2) have "int (live_in_class t k (q_rows q)) < limit"
        by (simp add: class_full_def live_settled)
      with live_update [OF ids', of t k "j_id r" ?f] show ?thesis by (simp add: rows live_settled)
    next
      case False
      have "live_row t k (if j_id x = j_id r then ?f x else x) \<longrightarrow> live_row t k x" if "x \<in> set ?rows" for x
      proof -
        have "r \<in> set ?rows"
          using served_claimable [OF Some] by (auto intro!: image_eqI [of _ _ r])
        with that same_id [OF ids'] have "j_id x = j_id r \<Longrightarrow> x = r" by blast
        with False show ?thesis by (auto simp: live_row_def leased_row_def)
      qed
      then have "live_in_class t k (map (\<lambda>x. if j_id x = j_id r then ?f x else x) ?rows) \<le> live_in_class t k ?rows"
        unfolding live_in_class_row by (rule filter_map_le)
      then show ?thesis by (simp add: rows live_settled)
    qed
  qed
qed

subsection \<open>A worker ends every job\<close>

definition weight :: "job_row \<Rightarrow> nat" where
  "weight r = (if terminal_state (j_state r) then 0 else 1 + nat (j_max_attempts r - j_attempt r))"

definition backlog :: "job_row list \<Rightarrow> nat" where
  "backlog rows = sum_list (map weight rows)"

definition ripe :: "int \<Rightarrow> job_row \<Rightarrow> bool" where
  "ripe t r \<longleftrightarrow> terminal_state (j_state r) \<or> due t r"

definition others_kept :: "str \<Rightarrow> job_row list \<Rightarrow> job_row list \<Rightarrow> bool" where
  "others_kept i = list_all2 (\<lambda>r r'. j_id r' = j_id r \<and> (j_id r \<noteq> i \<longrightarrow> r' = r))"

lemma others_refl [simp]: "others_kept i rows rows"
  by (simp add: others_kept_def list_all2_refl)

lemma others_trans [trans]: "others_kept i a b \<Longrightarrow> others_kept i b c \<Longrightarrow> others_kept i a c"
  unfolding others_kept_def by (erule (1) list_all2_trans [rotated 1]) auto

lemma others_update:
  assumes "\<And>r. p r \<Longrightarrow> j_id r = i" and "\<And>r. j_id (f r) = j_id r"
  shows "others_kept i rows (map (\<lambda>r. if p r then f r else r) rows)"
  using assms by (auto simp: others_kept_def list_all2_map2 list_all2_same)

lemma others_owned:
  "(\<And>r. j_id (f r) = j_id r) \<Longrightarrow> others_kept i rows (map (\<lambda>r. if owned i tok r then f r else r) rows)"
  by (rule others_update) (simp_all add: owned_def)

lemma others_ids: "others_kept i rows rows' \<Longrightarrow> map j_id rows' = map j_id rows"
  unfolding others_kept_def by (induction rule: list_all2_induct) auto

lemma others_map:
  assumes "distinct_ids rows'" and "others_kept i rows rows'" and "find_job i rows' = Some r'"
  shows "rows' = map (\<lambda>r. if j_id r = i then r' else r) rows"
proof (rule nth_equalityI)
  show "length rows' = length (map (\<lambda>r. if j_id r = i then r' else r) rows)"
    using assms(2) by (simp add: others_kept_def list_all2_lengthD)
  fix n assume n: "n < length rows'"
  with assms(2) have o: "n < length rows" "j_id (rows' ! n) = j_id (rows ! n)"
    "j_id (rows ! n) \<noteq> i \<Longrightarrow> rows' ! n = rows ! n"
    by (auto simp: others_kept_def list_all2_conv_all_nth)
  have "rows' ! n = r'" if "j_id (rows ! n) = i"
    using assms(3) n that o by (metis find_job_Some [OF assms(1)] nth_mem option.inject)
  with o show "rows' ! n = map (\<lambda>r. if j_id r = i then r' else r) rows ! n" by auto
qed

text \<open>What a run keeps while its handler works: its own row under its lease, and the rows of the others.\<close>

definition held :: "str \<Rightarrow> str \<Rightarrow> job_row \<Rightarrow> job_row list \<Rightarrow> bool" where
  "held i tok r0 rows \<longleftrightarrow> distinct_ids rows \<and> (\<exists>r. find_job i rows = Some r \<and> owned i tok r \<and>
     \<not> j_cancel_requested r \<and> j_attempt r = j_attempt r0 \<and> j_max_attempts r = j_max_attempts r0 \<and> j_type r = j_type r0)"

lemma find_update:
  assumes "find_job i rows = Some r" and "\<And>x. j_id (f x) = j_id x"
  shows "find_job i (map (\<lambda>x. if p x then f x else x) rows) = Some (if p r then f r else r)"
  using assms by (induction rows) (auto simp: find_job_def split: if_splits)

lemma ids_update: "(\<And>x. j_id (f x) = j_id x) \<Longrightarrow> distinct_ids rows \<Longrightarrow> distinct_ids (map (\<lambda>x. if p x then f x else x) rows)"
  by (simp add: distinct_ids_def o_def if_distrib cong: if_cong)

lemma held_update:
  assumes "held i tok r0 rows" and "\<And>r. j_id (f r) = j_id r \<and> j_cancel_requested (f r) = j_cancel_requested r \<and>
    j_attempt (f r) = j_attempt r \<and> j_max_attempts (f r) = j_max_attempts r \<and> j_type (f r) = j_type r \<and>
    j_lease_owner (f r) = j_lease_owner r \<and> j_state (f r) = j_state r"
  shows "held i tok r0 (map (\<lambda>x. if owned i tok x then f x else x) rows)"
proof -
  from assms(1) obtain r where r: "find_job i rows = Some r" "owned i tok r" "\<not> j_cancel_requested r"
    "j_attempt r = j_attempt r0" "j_max_attempts r = j_max_attempts r0" "j_type r = j_type r0" "distinct_ids rows"
    by (auto simp: held_def)
  have "owned i tok (f r)" using r(2) assms(2) by (simp add: owned_def)
  with r assms(2) show ?thesis
    by (simp add: held_def ids_update find_update)
qed

lemma held_count: "held i tok r0 rows \<Longrightarrow> fst (update_jobs (owned i tok) f rows) = 1"
  by (subst update_count [where i = i]) (auto simp: held_def owned_def find_job_Some)

lemma held_alive: "held i tok r0 (q_rows q) \<Longrightarrow> \<not> isCancelRequested i q"
  by (auto simp: held_def isCancelRequested_def)

fun own_act :: "run_action \<Rightarrow> bool" where
  "own_act Act_shutdown = False"
| "own_act (Act_others ev t) = False"
| "own_act _ = True"

definition going :: "str \<Rightarrow> str \<Rightarrow> run_state \<Rightarrow> bool" where
  "going i tok s \<longleftrightarrow> j_id (r_job s) = i \<and> r_owner s = tok \<and> \<not> r_leaseLost s \<and> \<not> r_aborted s \<and> \<not> r_shutdown s"

lemma own_act_held:
  assumes "own_act a" and "going i tok s" and "held i tok r0 (q_rows q)"
  shows "case run_act o1 a (s, q) of (s', q') \<Rightarrow>
    going i tok s' \<and> held i tok r0 (q_rows q') \<and> others_kept i (q_rows q) (q_rows q')"
proof -
  have id: "j_id (r_job s) = i" "r_owner s = tok" using assms(2) by (simp_all add: going_def)
  note upd = held_update [OF assms(3)] others_owned
  show ?thesis
  proof (cases a)
    case (Act_beat t)
    then show ?thesis
      using held_count [OF assms(3)] assms(2) held_alive [OF assms(3)]
      by (auto simp: run_beat_def id heartbeat_def update_jobs_def intro!: upd)
  next
    case (Act_progress p)
    then show ?thesis using assms by (simp add: id reportProgress_def)
  qed (use assms in \<open>auto simp: id checkpoint_job_def recordOutcome_def update_jobs_def intro!: upd\<close>)
qed

lemma own_acts_held:
  assumes "list_all own_act as" and "going i tok s" and "held i tok r0 (q_rows q)"
  shows "case fold (run_act o1) as (s, q) of (s', q') \<Rightarrow>
    going i tok s' \<and> held i tok r0 (q_rows q') \<and> others_kept i (q_rows q) (q_rows q')"
  using assms
proof (induction "as" arbitrary: s q)
  case (Cons a "as")
  obtain s1 q1 where st: "run_act o1 a (s, q) = (s1, q1)" by fastforce
  with own_act_held [OF _ Cons.prems(2,3), of a o1] Cons.prems(1)
  have "going i tok s1" "held i tok r0 (q_rows q1)" "others_kept i (q_rows q) (q_rows q1)" by auto
  with Cons.IH [of s1 q1] Cons.prems(1) st show ?case by (auto split: prod.splits intro: others_trans)
qed simp

text \<open>How a row may be left by the run of a claim that took it at \<open>r0\<close>.\<close>

definition released :: "queue_options \<Rightarrow> int \<Rightarrow> job_row \<Rightarrow> job_row \<Rightarrow> bool" where
  "released o1 t r0 r \<longleftrightarrow> j_type r = j_type r0 \<and> (terminal_state (j_state r) \<or>
     j_state r = Job_retrying \<and> j_attempt r = j_attempt r0 \<and> j_max_attempts r = j_max_attempts r0 \<and>
     j_attempt r0 < j_max_attempts r0 \<and> j_next_attempt_at r = Some (t + backoff o1 (j_attempt r0)))"

definition ended :: "queue_options \<Rightarrow> int \<Rightarrow> str \<Rightarrow> job_row \<Rightarrow> job_row list \<Rightarrow> job_row list \<Rightarrow> bool" where
  "ended o1 t i r0 rows rows' \<longleftrightarrow> others_kept i rows rows' \<and> distinct_ids rows' \<and>
     (\<exists>r'. find_job i rows' = Some r' \<and> released o1 t r0 r')"

lemma complete_ended:
  assumes "held i tok r0 (q_rows q)"
  shows "ended o1 t i r0 (q_rows q) (q_rows (snd (complete_job i tok t q)))"
proof -
  let ?f = "\<lambda>r. r\<lparr>j_state := Job_complete, j_lease_owner := None, j_lease_expires_at := None, j_updated_at := t\<rparr>"
  have rows: "q_rows (snd (complete_job i tok t q)) = map (\<lambda>r. if owned i tok r then ?f r else r) (q_rows q)"
    by (simp add: complete_job_def update_jobs_def)
  from assms obtain r where r: "find_job i (q_rows q) = Some r" "owned i tok r" "j_type r = j_type r0" "distinct_ids (q_rows q)"
    by (auto simp: held_def)
  then show ?thesis
    unfolding ended_def rows
    by (auto simp: others_owned ids_update find_update released_def terminal_state_def)
qed

lemma failed_row_id [simp]: "j_id (failed_row o1 msg dead t r) = j_id r"
  by (simp add: failed_row_def)

lemma fail_ended:
  assumes "held i tok r0 (q_rows q)"
  shows "ended o1 t i r0 (q_rows q) (q_rows (snd (fail_job o1 i tok msg terminal t q)))"
proof -
  from assms obtain r where r: "find_job i (q_rows q) = Some r" "owned i tok r" "j_attempt r = j_attempt r0"
    "j_max_attempts r = j_max_attempts r0" "j_type r = j_type r0" "distinct_ids (q_rows q)"
    by (auto simp: held_def)
  let ?f = "failed_row o1 msg (terminal \<or> j_attempt r \<ge> j_max_attempts r) t"
  let ?p = "\<lambda>r. j_id r = i \<and> j_lease_owner r = Some tok"
  have rows: "q_rows (snd (fail_job o1 i tok msg terminal t q)) = map (\<lambda>r. if ?p r then ?f r else r) (q_rows q)"
    using r by (simp add: fail_job_def owned_def update_jobs_def Let_def)
  have "released o1 t r0 (?f r)"
    using r by (auto simp: released_def failed_row_def terminal_state_def)
  moreover have "?p r" using r(2) by (simp add: owned_def)
  ultimately show ?thesis
    unfolding ended_def rows using r
    by (auto simp: ids_update find_update intro!: others_update)
qed

lemma ended_trans: "others_kept i a b \<Longrightarrow> ended o1 t i r0 b c \<Longrightarrow> ended o1 t i r0 a c"
  unfolding ended_def by (blast intro: others_trans)

lemma runJob_ended:
  assumes "held i tok r0 (q_rows q)" and "j_id job = i" and "list_all own_act (fst (handler job))"
  shows "ended o1 t1 i r0 (q_rows q) (q_rows (snd (runJob o1 job tok handler False t0 t1 q)))"
proof -
  let ?s = "\<lparr>r_job = job, r_owner = tok, r_leaseLost = False, r_aborted = False, r_shutdown = False\<rparr>"
  have st: "run_start o1 job tok False t0 q = (Inr ?s, q)"
    using held_alive [OF assms(1)] assms(2) by (simp add: run_start_def)
  have g: "going i tok ?s" using assms(2) by (simp add: going_def)
  obtain s2 q2 where f: "fold (run_act o1) (fst (handler job)) (?s, q) = (s2, q2)" by fastforce
  with own_acts_held [OF assms(3) g assms(1), of o1]
  have e: "going i tok s2" "held i tok r0 (q_rows q2)" "others_kept i (q_rows q) (q_rows q2)" by auto
  have "ended o1 t1 i r0 (q_rows q2) (q_rows (snd (case snd (handler job) of
      None \<Rightarrow> run_return t1 s2 q2 | Some msg \<Rightarrow> run_throw o1 msg t1 s2 q2)))"
    using e(1) complete_ended [OF e(2)] fail_ended [OF e(2)]
    by (simp add: going_def run_return_def run_throw_def split_beta split: option.splits)
  with e(3) show ?thesis by (auto simp: runJob_def st f intro: ended_trans)
qed

lemma serve_none:
  assumes "queue_ok q" and "c_classLimits (runner_claim d lease) = (\<lambda>_. None)"
    and "fst (serve_job o1 d lease t t0 t1 q) = None"
  shows "q_rows (snd (serve_job o1 d lease t t0 t1 q)) = map (settle_cancelled (runner_claim d lease) t) (q_rows q) \<and>
    filter (claimable (runner_claim d lease) t) (q_rows q) = []"
proof -
  let ?c = "runner_claim d lease"
  have ids: "distinct_ids (q_rows q)" using assms(1) by (simp add: queue_ok_def)
  have n: "fst (claim_job o1 ?c t q) = None"
    using assms(3) by (auto simp: serve_job_def split: prod.splits option.splits)
  with claim_unfold [OF ids, of o1 ?c t] have "served ?c t (q_rows q) = None" by simp
  moreover from this have "filter (claimable ?c t) (q_rows q) = []"
    unfolding served_unlimited [OF assms(2)] by (metis list.exhaust list.simps(5) option.discI set_empty set_sort)
  ultimately show ?thesis
    using claim_unfold [OF ids, of o1 ?c t] n by (auto simp: serve_job_def split: prod.splits)
qed

lemma serve_some:
  assumes "queue_ok q" and "fst (serve_job o1 d lease t t0 t1 q) = Some oc"
    and "\<forall>(ty, h)\<in>set (n_handlers d). \<forall>job. list_all own_act (fst (h job))"
  shows "\<exists>r. r \<in> set (q_rows q) \<and> claimable (runner_claim d lease) t r \<and>
    ended o1 t1 (j_id r) (r\<lparr>j_attempt := j_attempt r + 1\<rparr>) (map (settle_cancelled (runner_claim d lease) t) (q_rows q))
      (q_rows (snd (serve_job o1 d lease t t0 t1 q)))"
proof -
  let ?c = "runner_claim d lease"
  let ?rows = "map (settle_cancelled ?c t) (q_rows q)"
  let ?f = "leased_row lease (claim_ms o1 ?c) t"
  have ids: "distinct_ids (q_rows q)" using assms(1) by (simp add: queue_ok_def)
  obtain job q1 where cl: "claim_job o1 ?c t q = (Some job, q1)"
    using assms(2) by (auto simp: serve_job_def split: prod.splits option.splits)
  with claim_unfold [OF ids, of o1 ?c t] obtain r where s: "served ?c t (q_rows q) = Some r"
    and job: "job = ?f r" and rows: "q_rows q1 = map (\<lambda>x. if j_id x = j_id r then ?f x else x) ?rows"
    by (auto simp: runner_claim_def split: option.splits)
  note r = served_claimable [OF s]
  have ids': "distinct_ids ?rows" using ids by (simp add: distinct_ids_def o_def)
  have "find_job (j_id r) ?rows = Some r"
    using r ids' by (auto simp: find_job_Some intro!: image_eqI [of _ _ r])
  then have "find_job (j_id r) (q_rows q1) = Some (?f r)"
    using find_update [of "j_id r" ?rows r ?f "\<lambda>x. j_id x = j_id r"] rows by simp
  then have h: "held (j_id r) lease (r\<lparr>j_attempt := j_attempt r + 1\<rparr>) (q_rows q1)"
    using r ids_update [OF _ ids', of ?f] by (simp add: held_def rows owned_def leased_row_def claimable_def del: list.map_comp)
  have "others_kept (j_id r) ?rows (q_rows q1)"
    unfolding rows by (rule others_update) simp_all
  moreover have "ended o1 t1 (j_id r) (r\<lparr>j_attempt := j_attempt r + 1\<rparr>) (q_rows q1)
      (q_rows (snd (serve_job o1 d lease t t0 t1 q)))"
  proof (cases "map_of (n_handlers d) (j_type job)")
    case None
    then show ?thesis using fail_ended [OF h] job by (simp add: serve_job_def cl)
  next
    case (Some handler)
    then have own: "list_all own_act (fst (handler job))" using assms(3) map_of_SomeD [OF Some] by auto
    have "j_id job = j_id r" by (simp add: job)
    from runJob_ended [where handler = handler and job = job, OF h this own, of o1 t1 t0] Some show ?thesis
      by (simp add: serve_job_def cl split_beta)
  qed
  ultimately show ?thesis using r ended_trans by blast
qed

lemma sum_list_less:
  fixes f g :: "'a \<Rightarrow> nat"
  assumes "\<And>x. x \<in> set xs \<Longrightarrow> f x \<le> g x" and "y \<in> set xs" and "f y < g y"
  shows "sum_list (map f xs) < sum_list (map g xs)"
proof -
  obtain as bs where xs: "xs = as @ y # bs" using assms(2) by (meson split_list)
  have "sum_list (map f as) \<le> sum_list (map g as)" "sum_list (map f bs) \<le> sum_list (map g bs)"
    using assms(1) by (auto simp: xs intro!: sum_list_mono)
  with assms(3) show ?thesis by (simp add: xs)
qed

lemma weight_settled: "weight (settle_cancelled c t r) \<le> weight r"
  by (simp add: weight_def settle_cancelled_def cancelled_row_def terminal_state_def)

lemma ripe_settled: "ripe t r \<Longrightarrow> ripe t (settle_cancelled c u r)"
  by (simp add: ripe_def settle_cancelled_def cancelled_row_def terminal_state_def)

lemma ripe_later: "ripe t r \<Longrightarrow> t \<le> u \<Longrightarrow> ripe u r"
  by (auto simp: ripe_def due_def lease_lapsed_def at_or_before_def split: option.splits)

lemma settle_type [simp]: "j_type (settle_cancelled c t r) = j_type r"
  by (simp add: settle_cancelled_def cancelled_row_def)

text \<open>A queue a worker can empty by time \<open>T\<close>: nothing is leased or waits beyond \<open>T\<close>.\<close>

definition drainable :: "str set \<Rightarrow> int \<Rightarrow> job_queue \<Rightarrow> bool" where
  "drainable types T q \<longleftrightarrow> queue_ok q \<and> (\<forall>r\<in>set (q_rows q). ripe T r \<and> j_type r \<in> types)"

text \<open>Whatever a worker does to the queue is a sequence of its events.\<close>

definition by_events :: "queue_options \<Rightarrow> job_queue \<Rightarrow> job_queue \<Rightarrow> bool" where
  "by_events o1 q q' \<longleftrightarrow> (\<exists>es. q' = run_events o1 es q)"

lemma run_events_append: "run_events o1 (es @ fs) q = run_events o1 fs (run_events o1 es q)"
  by (induction es arbitrary: q) simp_all

lemma by_refl [simp]: "by_events o1 q q"
  unfolding by_events_def by (rule exI [of _ "[]"]) simp

lemma by_trans: "by_events o1 q q1 \<Longrightarrow> by_events o1 q1 q2 \<Longrightarrow> by_events o1 q q2"
  unfolding by_events_def by (metis run_events_append)

lemma by_event: "by_events o1 q (apply_event o1 ev t q)"
  unfolding by_events_def by (rule exI [of _ "[(ev, t)]"]) simp

lemmas by_claim = by_event [where ev = "Ev_claim _", simplified]
lemmas by_beat = by_event [where ev = "Ev_heartbeat _ _ _", simplified]
lemmas by_checkpoint = by_event [where ev = "Ev_checkpoint _ _ _", simplified]
lemmas by_outcome = by_event [where ev = "Ev_outcome _ _ _", simplified]
lemmas by_complete = by_event [where ev = "Ev_complete _ _", simplified]
lemmas by_fail = by_event [where ev = "Ev_fail _ _ _ _", simplified]
lemmas by_progress = by_event [where ev = "Ev_progress _ _", simplified]

lemma run_act_by: "by_events o1 (snd sq) (snd (run_act o1 a sq))"
  by (cases sq; cases a) (auto simp: run_beat_def split_beta by_beat by_checkpoint by_outcome by_progress by_event)

lemma run_acts_by: "by_events o1 (snd sq) (snd (fold (run_act o1) as sq))"
proof (induction "as" arbitrary: sq)
  case (Cons a "as")
  show ?case using by_trans [OF run_act_by [of o1 sq a] Cons [of "run_act o1 a sq"]] by simp
qed simp

lemma run_start_by: "by_events o1 q (snd (run_start o1 job tok sd t q))"
  by (simp add: run_start_def split_beta by_fail)

lemma run_return_by: "by_events o1 q (snd (run_return t s q))"
  by (simp add: run_return_def split_beta by_complete)

lemma run_throw_by: "by_events o1 q (snd (run_throw o1 msg t s q))"
  by (simp add: run_throw_def split_beta by_fail)

lemma runJob_by: "by_events o1 q (snd (runJob o1 job tok h sd t0 t1 q))"
proof (cases "run_start o1 job tok sd t0 q")
  case (Pair r q1)
  then have q1: "by_events o1 q q1" using run_start_by [of o1 q job tok sd t0] by simp
  show ?thesis
  proof (cases r)
    case (Inr s)
    obtain s2 q2 where f: "fold (run_act o1) (fst (h job)) (s, q1) = (s2, q2)" by fastforce
    with run_acts_by [of o1 "(s, q1)" "fst (h job)"] q1 have "by_events o1 q q2" by (auto intro: by_trans)
    then show ?thesis
      using Pair Inr f run_return_by [of o1 q2 t1 s2] run_throw_by [of o1 q2 _ t1 s2]
      by (auto simp: runJob_def split: option.splits intro: by_trans)
  qed (use q1 Pair in \<open>simp add: runJob_def\<close>)
qed

lemma serve_by: "by_events o1 q (snd (serve_job o1 d lease t t0 t1 q))"
proof (cases "claim_job o1 (runner_claim d lease) t q")
  case (Pair j q1)
  then have q1: "by_events o1 q q1" using by_claim [of o1 q "runner_claim d lease" t] by simp
  then show ?thesis
    using Pair by_trans [OF q1 runJob_by] by_trans [OF q1 by_fail]
    by (auto simp: serve_job_def split_beta split: option.splits)
qed

lemma by_events_ok: "by_events o1 q q' \<Longrightarrow> queue_ok q \<Longrightarrow> queue_ok q'"
proof -
  have "queue_ok q \<Longrightarrow> queue_ok (run_events o1 es q)" for es
    by (induction es arbitrary: q) (auto intro: event_ok)
  then show "by_events o1 q q' \<Longrightarrow> queue_ok q \<Longrightarrow> queue_ok q'" by (auto simp: by_events_def)
qed

text \<open>A worker that may run every job: a handler per type, no class limit, handlers that act for themselves.\<close>

definition full_worker :: "str set \<Rightarrow> job_runner \<Rightarrow> bool" where
  "full_worker types d \<longleftrightarrow> types \<subseteq> fst ` set (n_handlers d) \<and> n_handlers d \<noteq> [] \<and>
     n_classLimits d = (\<lambda>_. None) \<and> 0 < n_maxPerTick d \<and>
     (\<forall>(ty, h)\<in>set (n_handlers d). \<forall>job. list_all own_act (fst (h job)))"

lemma backoff_cap: "backoff o1 n \<le> o_maxBackoffMs o1"
  by (simp add: backoff_def)

lemma serve_some_rows:
  assumes "full_worker types d" and "drainable types T q" and "t1 + o_maxBackoffMs o1 \<le> T"
    and "fst (serve_job o1 d lease t t0 t1 q) = Some oc"
  shows "drainable types T (snd (serve_job o1 d lease t t0 t1 q)) \<and>
    backlog (q_rows (snd (serve_job o1 d lease t t0 t1 q))) < backlog (q_rows q)"
proof -
  let ?c = "runner_claim d lease" and ?q = "snd (serve_job o1 d lease t t0 t1 q)"
  have ok: "queue_ok q" and own: "\<forall>(ty, h)\<in>set (n_handlers d). \<forall>job. list_all own_act (fst (h job))"
    using assms(1,2) by (auto simp: drainable_def full_worker_def)
  from serve_some [OF ok assms(4) own] obtain r where r: "r \<in> set (q_rows q)" "claimable ?c t r"
    and e: "ended o1 t1 (j_id r) (r\<lparr>j_attempt := j_attempt r + 1\<rparr>) (map (settle_cancelled ?c t) (q_rows q)) (q_rows ?q)"
    by blast
  then obtain r' where r': "find_job (j_id r) (q_rows ?q) = Some r'" "distinct_ids (q_rows ?q)"
    and rel: "released o1 t1 (r\<lparr>j_attempt := j_attempt r + 1\<rparr>) r'"
    and oth: "others_kept (j_id r) (map (settle_cancelled ?c t) (q_rows q)) (q_rows ?q)"
    by (auto simp: ended_def)
  let ?g = "\<lambda>x. if j_id x = j_id r then r' else settle_cancelled ?c t x"
  have rows: "q_rows ?q = map ?g (q_rows q)"
    using others_map [OF r'(2) oth r'(1)] by simp
  have "\<not> terminal_state (j_state r)"
    using r(2) by (auto simp: claimable_def due_def lease_lapsed_def terminal_state_def)
  with rel have w: "weight r' < weight r"
    by (auto simp: released_def weight_def)
  have "ripe T r'"
    using rel assms(3) backoff_cap [of o1 "j_attempt r + 1"]
    by (auto simp: released_def ripe_def due_def at_or_before_def)
  moreover have "j_type r' = j_type r" using rel by (simp add: released_def)
  ultimately have "drainable types T ?q"
    using assms(2) r(1) by_events_ok [OF serve_by ok] by (auto simp: drainable_def rows intro: ripe_settled)
  moreover have "backlog (q_rows ?q) < backlog (q_rows q)"
  proof -
    have "weight (?g x) \<le> weight x" if "x \<in> set (q_rows q)" for x
    proof (cases "j_id x = j_id r")
      case True
      with ok same_id [OF _ that r(1)] have "x = r" by (simp add: queue_ok_def)
      with w show ?thesis by simp
    qed (simp add: weight_settled)
    with r(1) w show ?thesis
      unfolding rows backlog_def map_map o_def by (intro sum_list_less [where y = r]) auto
  qed
  ultimately show ?thesis ..
qed

lemma serve_none_rows:
  assumes "full_worker types d" and "drainable types T q" and "fst (serve_job o1 d lease t t0 t1 q) = None"
  shows "drainable types T (snd (serve_job o1 d lease t t0 t1 q)) \<and>
    backlog (q_rows (snd (serve_job o1 d lease t t0 t1 q))) \<le> backlog (q_rows q) \<and>
    (T \<le> t \<longrightarrow> backlog (q_rows (snd (serve_job o1 d lease t t0 t1 q))) = 0)"
proof -
  let ?c = "runner_claim d lease" and ?q = "snd (serve_job o1 d lease t t0 t1 q)"
  have ok: "queue_ok q" and lim: "c_classLimits ?c = (\<lambda>_. None)"
    using assms(1,2) by (auto simp: drainable_def full_worker_def runner_claim_def)
  note rows = serve_none [OF ok lim assms(3)]
  have "drainable types T ?q"
    using assms(2) rows by_events_ok [OF serve_by ok] by (auto simp: drainable_def intro: ripe_settled)
  moreover have "backlog (q_rows ?q) \<le> backlog (q_rows q)"
    using rows weight_settled by (auto simp: backlog_def o_def intro!: sum_list_mono)
  moreover have "weight (settle_cancelled ?c t x) = 0" if "T \<le> t" "x \<in> set (q_rows q)" for x
  proof -
    have "ripe t x" "j_type x \<in> types" using assms(2) that by (auto simp: drainable_def intro: ripe_later)
    moreover have "\<not> claimable ?c t x" using rows that(2) by (auto simp: filter_empty_conv)
    moreover have "of_types (c_types ?c) x"
      using assms(1) \<open>j_type x \<in> types\<close> by (auto simp: of_types_def runner_claim_def full_worker_def)
    ultimately show ?thesis
      by (auto simp: ripe_def claimable_def settle_cancelled_def cancelled_unstarted_def cancelled_row_def
          weight_def terminal_state_def due_def)
  qed
  ultimately show ?thesis using rows by (auto simp: backlog_def o_def)
qed

lemma drain_loop_rows:
  assumes "full_worker types d" and "drainable types T q" and "\<And>j. clock j + o_maxBackoffMs o1 \<le> T"
  shows "drainable types T (snd (drain_loop o1 d uuid clock ab n i q)) \<and>
    backlog (q_rows (snd (drain_loop o1 d uuid clock ab n i q))) \<le> backlog (q_rows q)"
  using assms(2)
proof (induction n arbitrary: i q)
  case (Suc n)
  let ?s = "serve_job o1 d (newLeaseToken (n_leaseOwner d) (uuid i)) (clock (3 * i)) (clock (3 * i + 1)) (clock (3 * i + 2)) q"
  show ?case
  proof (cases "fst ?s")
    case None
    with serve_none_rows [OF assms(1) Suc.prems None] Suc.prems show ?thesis by (auto split: prod.splits)
  next
    case (Some oc)
    from serve_some_rows [OF assms(1) Suc.prems assms(3) Some] Suc.IH [of "snd ?s" "Suc i"] Some Suc.prems
    show ?thesis by (auto split: prod.splits)
  qed
qed simp

lemma drain_once_rows:
  assumes "full_worker types d" and "drainable types (clock 0) q"
    and "\<And>j. clock j + o_maxBackoffMs o1 \<le> T" and "0 \<le> o_maxBackoffMs o1"
  shows "drainable types T (snd (drainOnce o1 d uuid clock (\<lambda>_. False) q)) \<and>
    backlog (q_rows (snd (drainOnce o1 d uuid clock (\<lambda>_. False) q))) \<le> backlog (q_rows q) - 1"
proof -
  let ?s = "serve_job o1 d (newLeaseToken (n_leaseOwner d) (uuid 0)) (clock 0) (clock (Suc 0)) (clock (Suc (Suc 0))) q"
  obtain n where n: "n_maxPerTick d = Suc n" using assms(1) by (auto simp: full_worker_def gr0_conv_Suc)
  have hs: "length (n_handlers d) \<noteq> 0" using assms(1) by (simp add: full_worker_def)
  have "clock 0 \<le> T" using assms(3) [of 0] assms(4) by simp
  then have dr: "drainable types T q" using assms(2) by (auto simp: drainable_def intro: ripe_later)
  show ?thesis
  proof (cases "fst ?s")
    case None
    with serve_none_rows [OF assms(1) dr None] serve_none_rows [OF assms(1,2) None] hs show ?thesis
      by (auto simp: drainOnce_def n split: prod.splits)
  next
    case (Some oc)
    from serve_some_rows [OF assms(1) dr assms(3) Some] hs Some
      drain_loop_rows [where clock = clock and q = "snd ?s" and n = n and i = 1 and uuid = uuid and ab = "\<lambda>_. False",
        OF assms(1) _ assms(3)]
    show ?thesis by (fastforce simp: drainOnce_def n split: prod.splits)
  qed
qed

primrec run_ticks ::
    "queue_options \<Rightarrow> job_runner \<Rightarrow> (nat \<Rightarrow> nat \<Rightarrow> str) \<Rightarrow> (nat \<Rightarrow> nat \<Rightarrow> int) \<Rightarrow> nat \<Rightarrow> nat \<Rightarrow> job_queue \<Rightarrow> job_queue" where
  "run_ticks o1 d uuid clock 0 k q = q"
| "run_ticks o1 d uuid clock (Suc n) k q =
     run_ticks o1 d uuid clock n (Suc k) (snd (drainOnce o1 d (uuid k) (clock k) (\<lambda>_. False) q))"

lemma ticks_backlog:
  assumes "full_worker types d" and "\<And>k i j. clock k i + o_maxBackoffMs o1 \<le> clock (Suc k) j" and "0 \<le> o_maxBackoffMs o1"
  shows "drainable types (clock k 0) q \<Longrightarrow> backlog (q_rows (run_ticks o1 d uuid clock n k q)) \<le> backlog (q_rows q) - n"
proof (induction n arbitrary: k q)
  case (Suc n)
  from drain_once_rows [where clock = "clock k" and T = "clock (Suc k) 0", OF assms(1) Suc.prems assms(2,3)]
    Suc.IH [of "Suc k"]
  show ?case by (fastforce intro: le_trans)
qed simp

lemma backlog_zero: "backlog rows = 0 \<longleftrightarrow> (\<forall>r\<in>set rows. terminal_state (j_state r))"
  by (auto simp: backlog_def weight_def)

text \<open>
  C29: a worker brings every job to an end. Take a reachable queue, a worker with a
  handler for each type in it and no class limits, whose handlers may throw as often as they like, and
  ticks that are at least the longest backoff apart, the first of them after every lease and every
  waiting time of the queue. After as many ticks as the unfinished jobs have attempts left (one more
  each), every job is complete or failed.
\<close>

theorem worker_drains_queue:
  assumes "reachable_queue o1 q"
    and "\<And>r. r \<in> set (q_rows q) \<Longrightarrow> j_type r \<in> fst ` set (n_handlers d)"
    and "\<And>r. r \<in> set (q_rows q) \<Longrightarrow> terminal_state (j_state r) \<or> due (clock 0 0) r"
    and "n_classLimits d = (\<lambda>_. None)" and "0 < n_maxPerTick d" and "n_handlers d \<noteq> []"
    and "\<And>ty h job. (ty, h) \<in> set (n_handlers d) \<Longrightarrow> list_all own_act (fst (h job))"
    and "\<And>k i j. clock k i + o_maxBackoffMs o1 \<le> clock (Suc k) j" and "0 \<le> o_maxBackoffMs o1"
    and "sum_list (map (\<lambda>r. if terminal_state (j_state r) then 0 else 1 + nat (j_max_attempts r - j_attempt r)) (q_rows q)) \<le> n"
  shows "\<forall>r\<in>set (q_rows (run_ticks o1 d uuid clock n 0 q)). terminal_state (j_state r)"
proof -
  have w: "full_worker (fst ` set (n_handlers d)) d"
    using assms(4-7) by (auto simp: full_worker_def)
  have dr: "drainable (fst ` set (n_handlers d)) (clock 0 0) q"
    using assms(2,3) reachable_ok [OF assms(1)] by (auto simp: drainable_def ripe_def)
  have "backlog (q_rows q) \<le> n"
    using assms(10) by (simp add: backlog_def weight_def [abs_def])
  with ticks_backlog [where clock = clock and n = n and uuid = uuid, OF w assms(8,9) dr] show ?thesis
    by (simp add: backlog_zero [symmetric])
qed

definition failing_worker :: job_runner where
  "failing_worker = \<lparr>n_leaseOwner = ''serve:1'',
     n_handlers = [(''synthesis'', \<lambda>_. ([Act_checkpoint ''{}'' 5], Some ''no model''))],
     n_maxPerTick = 1, n_leaseMs = None, n_classLimits = (\<lambda>_. None)\<rparr>"

definition two_jobs :: job_queue where
  "two_jobs = run_events default_queue_options [(Ev_enqueue ''synthesis'' job_opts ''u1'', 0),
     (Ev_enqueue ''synthesis'' (job_opts\<lparr>e_idempotencyKey := None\<rparr>) ''u2'', 5), (Ev_cancel ''u2'', 6)] empty_queue"

lemma two_jobs_reachable: "reachable_queue default_queue_options two_jobs"
  unfolding two_jobs_def by (rule run_reachable) (simp add: fresh_queue empty_queue_def)

theorem worker_drains_queue_witness:
  "list_all (\<lambda>r. terminal_state (j_state r))
     (q_rows (run_ticks default_queue_options failing_worker (\<lambda>k i. ''x'') (\<lambda>k i. int k * 400000) 6 0 two_jobs)) \<and>
   map j_id (q_rows (run_ticks default_queue_options failing_worker (\<lambda>k i. ''x'') (\<lambda>k i. int k * 400000) 6 0 two_jobs)) =
     [''u1'', ''u2'']"
proof
  have q: "list_all (\<lambda>r. j_type r = ''synthesis'' \<and> j_state r = Job_queued) (q_rows two_jobs)" by code_simp
  have n: "sum_list (map (\<lambda>r. if terminal_state (j_state r) then 0 else 1 + nat (j_max_attempts r - j_attempt r)) (q_rows two_jobs)) \<le> 6"
    by code_simp
  show "list_all (\<lambda>r. terminal_state (j_state r))
     (q_rows (run_ticks default_queue_options failing_worker (\<lambda>k i. ''x'') (\<lambda>k i. int k * 400000) 6 0 two_jobs))"
    unfolding list_all_iff
    by (rule worker_drains_queue [OF two_jobs_reachable _ _ _ _ _ _ _ _ n])
      (use q in \<open>auto simp: failing_worker_def default_queue_options_def list_all_iff due_def algebra_simps\<close>)
  show "map j_id (q_rows (run_ticks default_queue_options failing_worker (\<lambda>k i. ''x'') (\<lambda>k i. int k * 400000) 6 0 two_jobs)) =
     [''u1'', ''u2'']" by code_simp
qed

theorem class_limit_holds_witness:
  "(let c = (claim_any ''a'')\<lparr>c_classLimits := [''synthesis'' \<mapsto> 1]\<rparr>;
        q = snd (claim_job default_queue_options c 10 (run_events default_queue_options
          [(Ev_enqueue ''synthesis'' job_opts ''u1'', 0),
           (Ev_enqueue ''synthesis'' (job_opts\<lparr>e_idempotencyKey := None\<rparr>) ''u2'', 5)] empty_queue)) in
    int (live_in_class 20 ''synthesis'' (q_rows (snd (claim_job default_queue_options c 20 q)))) \<le> 1 \<and>
    live_in_class 20 ''synthesis'' (q_rows q) = 1)"
proof -
  let ?c = "(claim_any ''a'')\<lparr>c_classLimits := [''synthesis'' \<mapsto> 1]\<rparr>"
  let ?start = "run_events default_queue_options
          [(Ev_enqueue ''synthesis'' job_opts ''u1'', 0),
           (Ev_enqueue ''synthesis'' (job_opts\<lparr>e_idempotencyKey := None\<rparr>) ''u2'', 5)] empty_queue"
  let ?q = "snd (claim_job default_queue_options ?c 10 ?start)"
  have "reachable_queue default_queue_options ?start"
    by (rule run_reachable) (simp add: fresh_queue empty_queue_def)
  then have "reachable_queue default_queue_options (apply_event default_queue_options (Ev_claim ?c) 10 ?start)"
    by (rule queue_step)
  then have q: "reachable_queue default_queue_options ?q" unfolding apply_event.simps .
  have "live_in_class 20 ''synthesis'' (q_rows ?q) = 1" by code_simp
  with class_limit_holds [OF q, of ?c "''synthesis''" 1 20] show ?thesis by (simp add: Let_def)
qed

end
