(* ===== verification/Oauth_Clients.thy ===== *)
theory Oauth_Clients
  imports Scopes
begin

text \<open>
  Who may ask the authorization server for a token and where its answer may go:
  \<open>packages/server/src/auth/as-clients.ts\<close>, \<open>resource-set.ts\<close>, \<open>as-client-auth.ts\<close> and the
  validation of an authorization request, \<open>as-request.ts\<close>. The URL parser, SHA-256 and the Base64
  reader are the platform's: the record \<open>platform\<close> holds them, and no theorem here assumes anything of
  them. A query or form field is absent, sent once, or repeated.
\<close>

subsection \<open>The platform\<close>

record url_parts =
  url_href :: str
  url_protocol :: str
  url_hostname :: str
  url_username :: str
  url_password :: str
  url_origin :: str
  url_pathname :: str
  url_search :: str
  url_hash :: str
  url_href_without_port :: str

record replayed_response =
  rp_token :: str
  rp_jti :: str
  rp_exp :: int
  rp_scope :: str
  rp_vault :: "str option"

record platform =
  pf_url :: "str \<Rightarrow> url_parts option"
  pf_loopback_host :: "str \<Rightarrow> bool"
  pf_sha256 :: "str \<Rightarrow> str"
  pf_s256 :: "str \<Rightarrow> str"
  pf_basic :: "str \<Rightarrow> (str \<times> str) option"
  pf_env :: "str \<Rightarrow> str option"
  pf_successor :: "str \<Rightarrow> str \<Rightarrow> str"
  pf_generation :: "str \<Rightarrow> str"
  pf_open :: "str \<Rightarrow> str \<Rightarrow> str \<Rightarrow> replayed_response option"

datatype field = Absent | Once str | Repeated

subsection \<open>Clients and redirects\<close>

record as_client =
  ac_clientId :: str
  ac_name :: str
  ac_redirectUris :: "str list"
  ac_secretEnv :: "str option"
  ac_secretHash :: "str option"
  ac_cimd :: bool
  ac_dcr :: bool
  ac_grantTypes :: "str list option"

definition findStaticClient :: "as_client list \<Rightarrow> str \<Rightarrow> as_client option" where
  "findStaticClient clients i = find (\<lambda>c. ac_clientId c = i) clients"

definition loopback_hosts :: "str list" where
  "loopback_hosts = [''127.0.0.1'', ''[::1]'', ''localhost'']"

definition parseHttpLoopback :: "platform \<Rightarrow> str \<Rightarrow> url_parts option" where
  "parseHttpLoopback pf uri =
     (case pf_url pf uri of
        None \<Rightarrow> None
      | Some u \<Rightarrow>
          if url_protocol u = ''http:'' \<and> url_hostname u \<in> set loopback_hosts \<and>
             url_username u = [] \<and> url_password u = []
          then Some u else None)"

definition isLoopbackUri :: "platform \<Rightarrow> str \<Rightarrow> bool" where
  "isLoopbackUri pf uri \<longleftrightarrow> parseHttpLoopback pf uri \<noteq> None"

definition isLoopbackRedirect :: "platform \<Rightarrow> str \<Rightarrow> bool" where
  "isLoopbackRedirect pf uri \<longleftrightarrow>
     (case pf_url pf uri of
        None \<Rightarrow> False
      | Some u \<Rightarrow> (url_protocol u = ''http:'' \<or> url_protocol u = ''https:'') \<and> pf_loopback_host pf (url_hostname u))"

definition redirectUriAllowed :: "platform \<Rightarrow> str list \<Rightarrow> str \<Rightarrow> bool" where
  "redirectUriAllowed pf registered requested \<longleftrightarrow>
     (if requested \<in> set registered then True
      else case parseHttpLoopback pf requested of
        None \<Rightarrow> False
      | Some want \<Rightarrow>
          if CHR ''#'' \<in> set requested then False
          else list_ex (\<lambda>r. case parseHttpLoopback pf r of
                 None \<Rightarrow> False
               | Some have \<Rightarrow> url_hostname have = url_hostname want \<and> url_pathname have = url_pathname want \<and>
                   url_search have = url_search want) registered)"

definition redirectKey :: "platform \<Rightarrow> str \<Rightarrow> str" where
  "redirectKey pf uri =
     (case parseHttpLoopback pf uri of None \<Rightarrow> uri | Some u \<Rightarrow> url_href_without_port u)"

definition sameResource :: "platform \<Rightarrow> str \<Rightarrow> str \<Rightarrow> bool" where
  "sameResource pf a b \<longleftrightarrow>
     (case (pf_url pf a, pf_url pf b) of (Some u, Some v) \<Rightarrow> url_href u = url_href v | _ \<Rightarrow> False)"

definition secretsEqual :: "platform \<Rightarrow> str \<Rightarrow> str \<Rightarrow> bool" where
  "secretsEqual pf a b \<longleftrightarrow> pf_sha256 pf a = pf_sha256 pf b"

subsection \<open>Scopes of a request\<close>

text \<open>\<open>[...new Set((raw ?? "").split(/\s+/).filter(Boolean))]\<close>\<close>

definition splitScope :: "str \<Rightarrow> scope list" where
  "splitScope raw = js_set (filter (\<lambda>w. w \<noteq> []) (split_on js_space raw))"

datatype scope_outcome = Scopes_known "scope list" | Scopes_unknown

definition offline_access :: scope where
  "offline_access = ''offline_access''"

definition resolveScopes :: "scope list \<Rightarrow> scope list option \<Rightarrow> scope_outcome" where
  "resolveScopes requested supported =
     (let named = filter (\<lambda>s. s \<noteq> offline_access) requested;
          vocab = filter (\<lambda>s. s \<noteq> offline_access) (case supported of None \<Rightarrow> [] | Some ss \<Rightarrow> ss);
          known = filter (\<lambda>s. if length vocab > 0 then grantsScope vocab s else isQualifiedScope s) named in
      if length named > 0 \<and> length known = 0 then Scopes_unknown
      else if length known > 0 then Scopes_known known
      else Scopes_known (if length vocab > 0 then vocab else [''read:*'']))"

definition scopesCovered :: "scope list \<Rightarrow> scope list \<Rightarrow> bool" where
  "scopesCovered granted wanted = list_all (grantsScope granted) wanted"

subsection \<open>The resource set\<close>

definition url_surface_names :: "str list" where
  "url_surface_names = [''triad'', ''domain'', ''full'', ''core'', ''essentials'']"

text \<open>\<open>pathname.replace(/\/+$/, "")\<close>\<close>

definition trim_slashes :: "str \<Rightarrow> str" where
  "trim_slashes s = rev (dropWhile (\<lambda>c. c = CHR ''/'') (rev s))"

definition surfaceResource :: "platform \<Rightarrow> str \<Rightarrow> str \<Rightarrow> str option" where
  "surfaceResource pf res surface =
     (if surface \<notin> set url_surface_names then None
      else case pf_url pf res of
        None \<Rightarrow> None
      | Some u \<Rightarrow>
          if url_search u \<noteq> [] \<or> url_hash u \<noteq> [] then None
          else (let base = trim_slashes (url_pathname u) in
                if base = [] \<or> after_last CHR ''/'' base \<in> set url_surface_names then None
                else Some (url_origin u @ base @ ''/'' @ surface)))"

definition allowedResources :: "platform \<Rightarrow> str \<Rightarrow> str list" where
  "allowedResources pf res = res # List.map_filter (surfaceResource pf res) url_surface_names"

text \<open>\<open>/^([a-z][a-z0-9+.-]*:\/\/[^/?#]*)/i\<close>, its match lower-cased.\<close>

definition scheme_char :: "char \<Rightarrow> bool" where
  "scheme_char c \<longleftrightarrow> (let n = (of_char (char_lower c) :: nat) in
     (97 \<le> n \<and> n \<le> 122) \<or> (48 \<le> n \<and> n \<le> 57) \<or> c \<in> set ''+.-'')"

definition letter_char :: "char \<Rightarrow> bool" where
  "letter_char c \<longleftrightarrow> (let n = (of_char c :: nat) in (65 \<le> n \<and> n \<le> 90) \<or> (97 \<le> n \<and> n \<le> 122))"

definition folded :: "str \<Rightarrow> str" where
  "folded url =
     (let scheme = takeWhile scheme_char url;
          rest = dropWhile scheme_char url in
      if scheme \<noteq> [] \<and> letter_char (hd scheme) \<and> take 3 rest = ''://''
      then (let host = takeWhile (\<lambda>c. c \<notin> set ''/?#'') (drop 3 rest) in
            lower (scheme @ ''://'' @ host) @ drop (length host) (drop 3 rest))
      else url)"

definition spelledAs :: "str \<Rightarrow> str \<Rightarrow> bool" where
  "spelledAs bare m \<longleftrightarrow> folded bare = folded m"

definition ends_with :: "str \<Rightarrow> str \<Rightarrow> bool" where
  "ends_with suf s \<longleftrightarrow> suffix suf s"

definition matchResource :: "platform \<Rightarrow> str \<Rightarrow> str \<Rightarrow> str option" where
  "matchResource pf requested res =
     (let members = allowedResources pf res in
      case find (sameResource pf requested) members of
        Some exact \<Rightarrow> Some exact
      | None \<Rightarrow>
          if \<not> ends_with ''/'' requested \<or> ends_with ''//'' requested \<or> CHR 0x5C \<in> set requested then None
          else (let bare = butlast requested in
                find (\<lambda>r. spelledAs bare r \<and> sameResource pf bare r) members))"

subsection \<open>Client authentication\<close>

datatype client_lookup = Client_found as_client | Client_unknown | Client_unavailable str

datatype client_auth = Authenticated as_client | Auth_failed str bool

record auth_form =
  af_client_id :: field
  af_has_secret :: bool
  af_has_assertion :: bool
  af_has_assertion_type :: bool

text \<open>\<open>pf_basic\<close> is \<open>parseBasic\<close>, which reads Base64 and percent encoding.\<close>

definition authenticateClient ::
    "platform \<Rightarrow> (str \<Rightarrow> str) \<Rightarrow> (str \<Rightarrow> client_lookup) \<Rightarrow> auth_form \<Rightarrow> str option \<Rightarrow> client_auth" where
  "authenticateClient pf hashClientSecret resolve form authorization =
     (let basic = pf_basic pf (case authorization of None \<Rightarrow> [] | Some h \<Rightarrow> h);
          bodyId = af_client_id form in
      if bodyId = Repeated \<or> af_has_secret form \<or> af_has_assertion form \<or> af_has_assertion_type form
      then Auth_failed ''client authentication is malformed'' False
      else if (case (basic, bodyId) of (Some (i, _), Once b) \<Rightarrow> b \<noteq> i | _ \<Rightarrow> False)
      then Auth_failed ''client authentication is malformed'' False
      else
        (case (case basic of Some (i, _) \<Rightarrow> Some i | None \<Rightarrow> (case bodyId of Once b \<Rightarrow> Some b | _ \<Rightarrow> None)) of
           None \<Rightarrow> Auth_failed ''unknown client'' False
         | Some i \<Rightarrow>
             (case resolve i of
                Client_unknown \<Rightarrow> Auth_failed ''unknown client'' False
              | Client_unavailable why \<Rightarrow> Auth_failed why True
              | Client_found client \<Rightarrow>
                  (case ac_secretEnv client of
                     Some var \<Rightarrow>
                       (case (pf_env pf var, basic) of
                          (Some expected, Some (_, secret)) \<Rightarrow>
                            if expected = [] \<or> \<not> secretsEqual pf secret expected
                            then Auth_failed ''client authentication failed'' False
                            else Authenticated client
                        | _ \<Rightarrow> Auth_failed ''client authentication failed'' False)
                   | None \<Rightarrow>
                       (case ac_secretHash client of
                          Some h \<Rightarrow>
                            (case basic of
                               None \<Rightarrow> Auth_failed ''client authentication failed'' False
                             | Some (_, secret) \<Rightarrow>
                                 if secretsEqual pf (hashClientSecret secret) h then Authenticated client
                                 else Auth_failed ''client authentication failed'' False)
                        | None \<Rightarrow>
                            if authorization \<noteq> None then Auth_failed ''this client does not authenticate'' False
                            else Authenticated client)))))"

definition clientFailureStatus :: "bool \<Rightarrow> nat \<times> str" where
  "clientFailureStatus unavailable = (if unavailable then (503, ''temporarily_unavailable'') else (401, ''invalid_client''))"

subsection \<open>An authorization request\<close>

record authorize_query =
  aq_client_id :: field
  aq_redirect_uri :: field
  aq_state :: field
  aq_response_type :: field
  aq_code_challenge :: field
  aq_code_challenge_method :: field
  aq_resource :: field
  aq_scope :: field

record pending_request =
  clientId :: str
  redirectUri :: str
  p_scopes :: "scope list"
  p_target :: str
  codeChallenge :: str
  p_client_state :: "str option"

text \<open>The client lookup is told whether it may only use what it has cached.\<close>

record authorize_rules =
  resolveClient :: "bool \<Rightarrow> str \<Rightarrow> client_lookup"
  served_resource :: str
  scopesSupported :: "scope list option"

record fault =
  fault_error :: str
  fault_description :: str

datatype authorize_outcome =
    Local_error str
  | Redirect_error str "str option" str str
  | Authorize_ok as_client pending_request

definition base64url_char :: "char \<Rightarrow> bool" where
  "base64url_char c \<longleftrightarrow> (let n = (of_char c :: nat) in
     (48 \<le> n \<and> n \<le> 57) \<or> (65 \<le> n \<and> n \<le> 90) \<or> (97 \<le> n \<and> n \<le> 122) \<or> n = 95 \<or> n = 45)"

text \<open>\<open>/^[A-Za-z0-9_-]{43}$/\<close>: a challenge, and a refresh token as this server mints it.\<close>

definition base64url43 :: "str \<Rightarrow> bool" where
  "base64url43 s \<longleftrightarrow> length s = 43 \<and> list_all base64url_char s"

definition state_max :: nat where
  "state_max = 4096"

definition client_unusable :: str where
  "client_unusable = ''This client cannot be used. If it should work, try again shortly.''"

definition queryFault ::
    "platform \<Rightarrow> authorize_rules \<Rightarrow> authorize_query \<Rightarrow> fault + str \<times> str \<times> scope list" where
  "queryFault pf rules q =
     (if (case aq_state q of Repeated \<Rightarrow> True | Absent \<Rightarrow> False | Once s \<Rightarrow> length s > state_max)
      then Inl \<lparr>fault_error = ''invalid_request'', fault_description = ''state is repeated or too long''\<rparr>
      else if aq_response_type q \<noteq> Once ''code''
      then Inl \<lparr>fault_error = (case aq_response_type q of Once _ \<Rightarrow> ''unsupported_response_type'' | _ \<Rightarrow> ''invalid_request''),
                fault_description = ''response_type must be code''\<rparr>
      else case aq_code_challenge q of
        Once challenge \<Rightarrow>
          (if \<not> base64url43 challenge
           then Inl \<lparr>fault_error = ''invalid_request'',
                     fault_description = ''a code_challenge (S256, 43 base64url characters) is required''\<rparr>
           else if aq_code_challenge_method q \<noteq> Once ''S256''
           then Inl \<lparr>fault_error = ''invalid_request'', fault_description = ''code_challenge_method must be S256''\<rparr>
           else
             (case (case aq_resource q of Once asked \<Rightarrow> matchResource pf asked (served_resource rules) | _ \<Rightarrow> None) of
                None \<Rightarrow> Inl \<lparr>fault_error = ''invalid_target'',
                             fault_description = ''resource must be this server's resource URL''\<rparr>
              | Some res \<Rightarrow>
                  if aq_scope q = Repeated
                  then Inl \<lparr>fault_error = ''invalid_scope'', fault_description = ''scope is repeated''\<rparr>
                  else
                    (case resolveScopes (case aq_scope q of Once raw \<Rightarrow> splitScope raw | _ \<Rightarrow> []) (scopesSupported rules) of
                       Scopes_unknown \<Rightarrow> Inl \<lparr>fault_error = ''invalid_scope'',
                         fault_description = ''none of the requested scopes is supported''\<rparr>
                     | Scopes_known scopes \<Rightarrow> Inr (challenge, res, scopes))))
      | _ \<Rightarrow> Inl \<lparr>fault_error = ''invalid_request'',
                  fault_description = ''a code_challenge (S256, 43 base64url characters) is required''\<rparr>)"

definition plausibleRedirect :: "platform \<Rightarrow> str \<Rightarrow> bool" where
  "plausibleRedirect pf uri \<longleftrightarrow> CHR ''#'' \<notin> set uri \<and> pf_url pf uri \<noteq> None"

definition parseAuthorizeRequest :: "platform \<Rightarrow> authorize_rules \<Rightarrow> authorize_query \<Rightarrow> authorize_outcome" where
  "parseAuthorizeRequest pf rules q =
     (case aq_client_id q of
        Once (c # cs) \<Rightarrow>
          (case aq_redirect_uri q of
             Once (r # rs) \<Rightarrow>
               (if \<not> plausibleRedirect pf (r # rs)
                then Local_error ''This redirect address is not registered for the client.''
                else
                  (case resolveClient rules (case queryFault pf rules q of Inl _ \<Rightarrow> True | Inr _ \<Rightarrow> False) (c # cs) of
                     Client_unknown \<Rightarrow> Local_error ''This client is not registered.''
                   | Client_unavailable _ \<Rightarrow> Local_error client_unusable
                   | Client_found client \<Rightarrow>
                       if \<not> redirectUriAllowed pf (ac_redirectUris client) (r # rs)
                       then Local_error ''This redirect address is not registered for the client.''
                       else
                         (case queryFault pf rules q of
                            Inl f \<Rightarrow>
                              Redirect_error (r # rs)
                                (case aq_state q of Once s \<Rightarrow> if length s \<le> state_max then Some s else None | _ \<Rightarrow> None)
                                (fault_error f) (fault_description f)
                          | Inr (challenge, res, scopes) \<Rightarrow>
                              Authorize_ok client
                                \<lparr>clientId = ac_clientId client, redirectUri = r # rs, p_scopes = scopes, p_target = res,
                                 codeChallenge = challenge,
                                 p_client_state = (case aq_state q of Once s \<Rightarrow> Some s | _ \<Rightarrow> None)\<rparr>)))
           | _ \<Rightarrow> Local_error ''The request does not name a redirect address.'')
      | _ \<Rightarrow> Local_error ''The request does not name a client.'')"

subsection \<open>What a checked request guarantees\<close>

definition supported_scope :: "scope list option \<Rightarrow> scope \<Rightarrow> bool" where
  "supported_scope supported s \<longleftrightarrow>
     (case supported of Some vocab \<Rightarrow> grantsScope vocab s | None \<Rightarrow> False) \<or> isQualifiedScope s \<and>
       (case supported of Some vocab \<Rightarrow> filter (\<lambda>s. s \<noteq> offline_access) vocab = [] | None \<Rightarrow> True)"

lemma grants_self: "s \<in> set v \<Longrightarrow> grantsScope v s"
  by (auto simp: grantsScope_iff intro: bexI [where x = s] scope_covers_refl)

lemma grants_filter: "grantsScope (filter p v) s \<Longrightarrow> grantsScope v s"
  by (rule grantsScope_mono [rotated]) auto

lemma read_all_qualified: "isQualifiedScope ''read:*''"
  by code_simp

lemma resolveScopes_known:
  assumes "resolveScopes requested supported = Scopes_known scopes"
  shows "scopes \<noteq> [] \<and> (\<forall>s\<in>set scopes. supported_scope supported s)"
proof -
  define vocab where "vocab = filter (\<lambda>s. s \<noteq> offline_access) (case supported of None \<Rightarrow> [] | Some ss \<Rightarrow> ss)"
  define named where "named = filter (\<lambda>s. s \<noteq> offline_access) requested"
  define known where "known = filter (\<lambda>s. if length vocab > 0 then grantsScope vocab s else isQualifiedScope s) named"
  have sup: "supported_scope supported s"
    if "if length vocab > 0 then grantsScope vocab s else isQualifiedScope s" for s
    using that by (auto simp: supported_scope_def vocab_def split: option.splits if_splits dest: grants_filter)
  have "scopes = known \<and> known \<noteq> [] \<or> scopes = vocab \<and> vocab \<noteq> [] \<or> scopes = [''read:*''] \<and> vocab = []"
    using assms unfolding resolveScopes_def Let_def vocab_def [symmetric] named_def [symmetric] known_def [symmetric]
    by (auto split: if_splits)
  moreover have "\<forall>s\<in>set known. supported_scope supported s"
    using sup by (auto simp: known_def)
  moreover have "\<forall>s\<in>set vocab. supported_scope supported s"
    by (intro ballI sup) (auto intro: grants_self)
  moreover have "vocab = [] \<Longrightarrow> supported_scope supported ''read:*''"
    by (rule sup) (simp add: read_all_qualified)
  ultimately show ?thesis by auto
qed

lemma matchResource_member: "matchResource pf requested res = Some m \<Longrightarrow> m \<in> set (allowedResources pf res)"
  by (auto simp: matchResource_def Let_def find_Some_iff in_set_conv_nth split: option.splits if_splits)

lemma queryFault_ok:
  assumes "queryFault pf rules q = Inr (challenge, res, scopes)"
  shows "aq_response_type q = Once ''code'' \<and> aq_code_challenge q = Once challenge \<and> base64url43 challenge \<and>
    aq_code_challenge_method q = Once ''S256'' \<and> res \<in> set (allowedResources pf (served_resource rules)) \<and>
    scopes \<noteq> [] \<and> (\<forall>s\<in>set scopes. supported_scope (scopesSupported rules) s)"
  using assms
  by (auto simp: queryFault_def split: if_splits field.splits option.splits scope_outcome.splits
      dest: matchResource_member resolveScopes_known)

text \<open>Where a registered client may be answered.\<close>

definition registered_redirect :: "platform \<Rightarrow> as_client \<Rightarrow> str \<Rightarrow> bool" where
  "registered_redirect pf client uri \<longleftrightarrow>
     uri \<in> set (ac_redirectUris client) \<or>
     (\<exists>r\<in>set (ac_redirectUris client). \<exists>u v. parseHttpLoopback pf r = Some u \<and> parseHttpLoopback pf uri = Some v \<and>
        url_hostname u = url_hostname v \<and> url_pathname u = url_pathname v \<and> url_search u = url_search v)"

lemma allowed_registered: "redirectUriAllowed pf (ac_redirectUris client) uri \<Longrightarrow> registered_redirect pf client uri"
  by (auto simp: redirectUriAllowed_def registered_redirect_def list_ex_iff split: if_splits option.splits)

text \<open>
  The authorization endpoint is no open redirector. Whatever the query,
  the browser is sent away only to a redirect URI that the named client registered (exactly, or on
  loopback with another port) and that carries no fragment; an error redirect returns the client's state
  unchanged or not at all; and a request is accepted only for the code flow with an S256 challenge, for a
  resource this server answers to and for scopes it supports.
\<close>

theorem authorize_redirects_registered:
  "case parseAuthorizeRequest pf rules q of
     Local_error m \<Rightarrow> True
   | Redirect_error uri st e d \<Rightarrow>
       (\<exists>i client. aq_client_id q = Once i \<and> resolveClient rules True i = Client_found client \<and>
          registered_redirect pf client uri \<and> CHR ''#'' \<notin> set uri \<and>
          (case st of None \<Rightarrow> True | Some s \<Rightarrow> aq_state q = Once s))
   | Authorize_ok client p \<Rightarrow>
       (\<exists>i. aq_client_id q = Once i \<and> resolveClient rules False i = Client_found client) \<and>
       registered_redirect pf client (redirectUri p) \<and> CHR ''#'' \<notin> set (redirectUri p) \<and>
       aq_response_type q = Once ''code'' \<and> aq_code_challenge_method q = Once ''S256'' \<and> base64url43 (codeChallenge p) \<and>
       p_target p \<in> set (allowedResources pf (served_resource rules)) \<and>
       p_scopes p \<noteq> [] \<and> list_all (supported_scope (scopesSupported rules)) (p_scopes p)"
  by (auto simp: parseAuthorizeRequest_def plausibleRedirect_def list_all_iff
      split: field.splits list.splits if_splits client_lookup.splits sum.splits
      dest: allowed_registered queryFault_ok)

end
