(* ===== verification/Oauth_Store.thy ===== *)
theory Oauth_Store
  imports Oauth_Clients "HOL-Library.Char_ord" "HOL-Library.List_Lexorder" "HOL-Library.Product_Lexorder"
begin

text \<open>
  The state of the bundled authorization server: the tables of \<open>oauth.db\<close>, the token table of the
  registry (\<open>auth.db\<close>), and the operations of \<open>packages/server/src/auth/as-grants.ts\<close>,
  \<open>as-refresh.ts\<close>, \<open>as-account.ts\<close>, \<open>as-operator-store.ts\<close>, the reset of \<open>as-passkey-store.ts\<close> and
  \<open>oauth-db.ts\<close> (\<open>recordIssuedAccess\<close>, \<open>gcOauthDb\<close>).

  A table is the list of its rows in the order they were inserted. A write transaction is a function
  from the store to its result and the store it leaves; \<^const>\<open>None\<close> is a statement that throws (a
  primary key that exists), and the store is then as before, because the transaction rolls back.
  SHA-256, the random handles, codes, ids and tokens, and the readings of the clock are arguments.
\<close>

subsection \<open>Tables\<close>

record pending_row =
  p_handle_hash :: str
  p_client_id :: str
  p_redirect_uri :: str
  p_scope :: str
  p_resource :: str
  p_code_challenge :: str
  p_state :: "str option"
  p_created_at :: int
  p_expires_at :: int
  p_source_hash :: "str option"

record grant_row =
  g_id :: str
  g_sub :: str
  g_client_id :: str
  g_redirect_uri :: str
  g_scope :: str
  g_resource :: str
  g_persona :: "str option"
  g_vault :: "str option"
  g_created_at :: int
  g_revoked_at :: "int option"

record code_row =
  k_code_hash :: str
  k_grant_id :: str
  k_request_scope :: str
  k_redirect_uri :: str
  k_resource :: str
  k_code_challenge :: str
  k_expires_at :: int
  k_used_at :: "int option"

record refresh_row =
  f_token_hash :: str
  f_family_id :: str
  f_grant_id :: str
  f_parent_hash :: "str option"
  f_scope :: str
  f_issued_at :: int
  f_successor_first_used_at :: "int option"
  f_family_expires_at :: int
  f_revoked_at :: "int option"
  f_secret_gen :: "str option"
  f_replay :: "str option"

record access_row =
  a_jti :: str
  a_family_id :: str
  a_grant_id :: str
  a_expires_at :: int

record owed_row =
  w_jti :: str
  w_reason :: str
  w_created_at :: int

record user_row =
  u_sub :: str
  u_username :: str
  u_password_hash :: str
  u_scopes_allowed :: "str option"
  u_vaults_allowed :: "str option"
  u_created_at :: int
  u_disabled_at :: "int option"
  u_credential_gen :: int

record session_row =
  s_id_hash :: str
  s_sub :: str
  s_created_at :: int
  s_last_seen_at :: int
  s_expires_at :: int
  s_credential_gen :: int

record oauth_db =
  pendings :: "pending_row list"
  grants :: "grant_row list"
  codes :: "code_row list"
  refreshes :: "refresh_row list"
  accesses :: "access_row list"
  outbox :: "owed_row list"
  users :: "user_row list"
  sessions :: "session_row list"
  setup_token_used :: "str option"
  burned_resets :: "(str \<times> int) list"

text \<open>The registry's token table: a jti with the time it was revoked, if it was.\<close>

type_synonym registry = "(str \<times> int option) list"

type_synonym 'a txn = "oauth_db \<Rightarrow> 'a option \<times> oauth_db"

text \<open>\<open>INSERT\<close> under a primary key.\<close>

definition insert_row :: "('r \<Rightarrow> str) \<Rightarrow> 'r \<Rightarrow> 'r list \<Rightarrow> 'r list option" where
  "insert_row key r rows = (if key r \<in> key ` set rows then None else Some (rows @ [r]))"

text \<open>A row that references another: the foreign key must be there (\<open>foreign_keys = ON\<close>).\<close>

definition insert_ref :: "bool \<Rightarrow> ('r \<Rightarrow> str) \<Rightarrow> 'r \<Rightarrow> 'r list \<Rightarrow> 'r list option" where
  "insert_ref referenced key r rows = (if referenced then insert_row key r rows else None)"

definition update_rows :: "('r \<Rightarrow> bool) \<Rightarrow> ('r \<Rightarrow> 'r) \<Rightarrow> 'r list \<Rightarrow> 'r list" where
  "update_rows p f rows = map (\<lambda>r. if p r then f r else r) rows"

subsection \<open>Pending requests\<close>

definition pending_ttl_ms :: int where "pending_ttl_ms = 10 * 60000"
definition code_ttl_ms :: int where "code_ttl_ms = 60000"
definition fresh_login_ms :: int where "fresh_login_ms = 5 * 60000"

record admission_limits =
  l_global :: int
  l_reserved :: int
  l_perClient :: int
  l_perSource :: int

definition default_limits :: admission_limits where
  "default_limits = \<lparr>l_global = 1000, l_reserved = 100, l_perClient = 250, l_perSource = 20\<rparr>"

definition pendingOf :: "pending_row \<Rightarrow> pending_request" where
  "pendingOf r =
     \<lparr>clientId = p_client_id r, redirectUri = p_redirect_uri r, p_scopes = splitScope (p_scope r),
      p_target = p_resource r, codeChallenge = p_code_challenge r, p_client_state = p_state r\<rparr>"

definition createPending ::
    "(str \<Rightarrow> str) \<Rightarrow> str \<Rightarrow> pending_request \<Rightarrow> int \<Rightarrow> str option \<Rightarrow> admission_limits \<Rightarrow> str option txn" where
  "createPending sha random p t source limits db =
     (let sourceHash = map_option (\<lambda>s. sha (''as-source:'' @ s)) source;
          db1 = db\<lparr>pendings := filter (\<lambda>r. \<not> p_expires_at r \<le> t) (pendings db)\<rparr>;
          n_total = int (length (pendings db1));
          n_client = int (length (filter (\<lambda>r. p_client_id r = clientId p) (pendings db1)));
          n_source = int (length (filter (\<lambda>r. p_source_hash r = sourceHash) (pendings db1))) in
      if n_total \<ge> l_global limits then (Some None, db1)
      else if n_client \<ge> l_perClient limits then (Some None, db1)
      else if sourceHash \<noteq> None \<and> n_source \<ge> l_perSource limits then (Some None, db1)
      else if n_total \<ge> l_global limits - l_reserved limits \<and> n_source > 0 then (Some None, db1)
      else
        (case insert_row p_handle_hash
                \<lparr>p_handle_hash = sha random, p_client_id = clientId p, p_redirect_uri = redirectUri p,
                 p_scope = join_with '' '' (p_scopes p), p_resource = p_target p,
                 p_code_challenge = codeChallenge p, p_state = p_client_state p, p_created_at = t,
                 p_expires_at = t + pending_ttl_ms, p_source_hash = sourceHash\<rparr> (pendings db1) of
           None \<Rightarrow> (None, db)
         | Some rows \<Rightarrow> (Some (Some random), db1\<lparr>pendings := rows\<rparr>)))"

definition live_pending :: "str \<Rightarrow> int \<Rightarrow> pending_row \<Rightarrow> bool" where
  "live_pending handleHash t r \<longleftrightarrow> p_handle_hash r = handleHash \<and> p_expires_at r > t"

definition loadPending :: "(str \<Rightarrow> str) \<Rightarrow> str \<Rightarrow> int \<Rightarrow> oauth_db \<Rightarrow> pending_request option" where
  "loadPending sha handle t db = map_option pendingOf (find (live_pending (sha handle) t) (pendings db))"

definition discardPending :: "(str \<Rightarrow> str) \<Rightarrow> str \<Rightarrow> int \<Rightarrow> oauth_db \<Rightarrow> pending_request option \<times> oauth_db" where
  "discardPending sha handle t db =
     (loadPending sha handle t db,
      db\<lparr>pendings := filter (\<lambda>r. \<not> live_pending (sha handle) t r) (pendings db)\<rparr>)"

subsection \<open>Sessions and users\<close>

definition session_idle_ms :: int where "session_idle_ms = 30 * 60000"
definition session_absolute_ms :: int where "session_absolute_ms = 12 * 3600000"

record session_guard =
  sg_idHash :: str
  sg_sub :: str
  sg_credentialGen :: int

definition find_user :: "str \<Rightarrow> oauth_db \<Rightarrow> user_row option" where
  "find_user sub db = find (\<lambda>u. u_sub u = sub) (users db)"

definition sessionIsCurrent :: "session_guard \<Rightarrow> int \<Rightarrow> oauth_db \<Rightarrow> bool" where
  "sessionIsCurrent g t db \<longleftrightarrow>
     list_ex (\<lambda>s. s_id_hash s = sg_idHash g \<and> s_sub s = sg_sub g \<and> s_credential_gen s = sg_credentialGen g \<and>
        s_expires_at s > t \<and>
        list_ex (\<lambda>u. u_sub u = s_sub s \<and> u_credential_gen u = s_credential_gen s \<and> u_disabled_at u = None) (users db))
       (sessions db)"

definition isClaimed :: "oauth_db \<Rightarrow> bool" where
  "isClaimed db = list_ex (\<lambda>u. u_disabled_at u = None) (users db)"

definition tokenBurned :: "str \<Rightarrow> oauth_db \<Rightarrow> bool" where
  "tokenBurned tokenHash db \<longleftrightarrow> setup_token_used db = Some tokenHash"

definition resetTokenBurned :: "str \<Rightarrow> oauth_db \<Rightarrow> bool" where
  "resetTokenBurned tokenHash db \<longleftrightarrow> tokenHash \<in> fst ` set (burned_resets db)"

datatype claim_refusal = Already_claimed | Token_used | Username_taken

definition claimOperator ::
    "str \<Rightarrow> str \<Rightarrow> str \<Rightarrow> int \<Rightarrow> str option \<Rightarrow> (claim_refusal + str) txn" where
  "claimOperator random username passwordHash t setupTokenHash db =
     (if isClaimed db then (Some (Inl Already_claimed), db)
      else if (case setupTokenHash of None \<Rightarrow> False | Some h \<Rightarrow> tokenBurned h db) then (Some (Inl Token_used), db)
      else if username \<in> u_username ` set (users db) then (Some (Inl Username_taken), db)
      else
        (let sub = ''usr_'' @ random in
         case insert_row u_sub
                \<lparr>u_sub = sub, u_username = username, u_password_hash = passwordHash, u_scopes_allowed = None,
                 u_vaults_allowed = None, u_created_at = t, u_disabled_at = None, u_credential_gen = 0\<rparr> (users db) of
           None \<Rightarrow> (None, db)
         | Some rows \<Rightarrow>
             (Some (Inr sub),
              db\<lparr>users := rows,
                 setup_token_used := (case setupTokenHash of Some h \<Rightarrow> Some h | None \<Rightarrow> setup_token_used db)\<rparr>)))"

definition findOperator :: "str \<Rightarrow> oauth_db \<Rightarrow> user_row option" where
  "findOperator username db = find (\<lambda>u. u_username u = username \<and> u_disabled_at u = None) (users db)"

definition soleOperator :: "oauth_db \<Rightarrow> user_row option" where
  "soleOperator db = (case filter (\<lambda>u. u_disabled_at u = None) (users db) of [u] \<Rightarrow> Some u | _ \<Rightarrow> None)"

definition setOperatorPassword :: "str \<Rightarrow> str \<Rightarrow> oauth_db \<Rightarrow> oauth_db" where
  "setOperatorPassword sub passwordHash db =
     db\<lparr>users := update_rows (\<lambda>u. u_sub u = sub)
          (\<lambda>u. u\<lparr>u_password_hash := passwordHash, u_credential_gen := u_credential_gen u + 1\<rparr>) (users db),
        sessions := filter (\<lambda>s. s_sub s \<noteq> sub) (sessions db)\<rparr>"

definition createSession :: "(str \<Rightarrow> str) \<Rightarrow> str \<Rightarrow> str \<Rightarrow> int \<Rightarrow> str txn" where
  "createSession sha random sub t db =
     (case insert_ref (find_user sub db \<noteq> None) s_id_hash
             \<lparr>s_id_hash = sha random, s_sub = sub, s_created_at = t, s_last_seen_at = t,
              s_expires_at = t + session_absolute_ms,
              s_credential_gen = (case find_user sub db of None \<Rightarrow> 0 | Some u \<Rightarrow> u_credential_gen u)\<rparr> (sessions db) of
        None \<Rightarrow> (None, db)
      | Some rows \<Rightarrow> (Some random, db\<lparr>sessions := rows\<rparr>))"

definition deleteSession :: "(str \<Rightarrow> str) \<Rightarrow> str \<Rightarrow> oauth_db \<Rightarrow> oauth_db" where
  "deleteSession sha i db = db\<lparr>sessions := filter (\<lambda>s. s_id_hash s \<noteq> sha i) (sessions db)\<rparr>"

definition finalizeLogin ::
    "(str \<Rightarrow> str) \<Rightarrow> str \<Rightarrow> str \<Rightarrow> str \<Rightarrow> str option \<Rightarrow> str option \<Rightarrow> int \<Rightarrow> str option txn" where
  "finalizeLogin sha random sub verifiedHash upgradedHash replaces t db =
     (if \<not> list_ex (\<lambda>u. u_sub u = sub \<and> u_password_hash u = verifiedHash \<and> u_disabled_at u = None) (users db)
      then (Some None, db)
      else
        (let db1 = (case upgradedHash of None \<Rightarrow> db
               | Some h \<Rightarrow> db\<lparr>users := update_rows (\<lambda>u. u_sub u = sub) (\<lambda>u. u\<lparr>u_password_hash := h\<rparr>) (users db)\<rparr>);
             db2 = (case replaces of None \<Rightarrow> db1 | Some i \<Rightarrow> deleteSession sha i db1) in
         case createSession sha random sub t db2 of
           (None, _) \<Rightarrow> (None, db)
         | (Some i, db3) \<Rightarrow> (Some (Some i), db3)))"

record session_info =
  si_sub :: str
  si_username :: str
  si_idHash :: str
  si_createdAt :: int
  si_credentialGen :: int

definition live_session :: "str \<Rightarrow> int \<Rightarrow> oauth_db \<Rightarrow> session_row \<Rightarrow> bool" where
  "live_session idHash t db s \<longleftrightarrow>
     s_id_hash s = idHash \<and> s_expires_at s > t \<and> s_last_seen_at s > t - session_idle_ms \<and>
     list_ex (\<lambda>u. u_sub u = s_sub s \<and> u_disabled_at u = None \<and> u_credential_gen u = s_credential_gen s) (users db)"

definition lookupSession :: "(str \<Rightarrow> str) \<Rightarrow> str \<Rightarrow> int \<Rightarrow> oauth_db \<Rightarrow> session_info option \<times> oauth_db" where
  "lookupSession sha i t db =
     (let idHash = sha i in
      if idHash \<notin> s_id_hash ` set (sessions db) then (None, db)
      else case find (live_session idHash t db) (sessions db) of
        None \<Rightarrow> (None, db\<lparr>sessions := filter (\<lambda>s. s_id_hash s \<noteq> idHash) (sessions db)\<rparr>)
      | Some s \<Rightarrow>
          (Some \<lparr>si_sub = s_sub s,
                 si_username = (case find_user (s_sub s) db of None \<Rightarrow> [] | Some u \<Rightarrow> u_username u),
                 si_idHash = idHash, si_createdAt = s_created_at s, si_credentialGen = s_credential_gen s\<rparr>,
           db\<lparr>sessions := update_rows (live_session idHash t db) (\<lambda>s. s\<lparr>s_last_seen_at := t\<rparr>) (sessions db)\<rparr>))"

subsection \<open>Grants and authorization codes\<close>

record grant =
  gr_id :: str
  gr_scopes :: "scope list"
  gr_persona :: "str option"
  gr_vault :: "str option"

definition grantOf :: "grant_row \<Rightarrow> grant" where
  "grantOf r = \<lparr>gr_id = g_id r, gr_scopes = splitScope (g_scope r), gr_persona = g_persona r, gr_vault = g_vault r\<rparr>"

record grant_key =
  gk_sub :: str
  gk_clientId :: str
  gk_redirectKey :: str
  gk_resource :: str

definition keyed_grant :: "grant_key \<Rightarrow> grant_row \<Rightarrow> bool" where
  "keyed_grant k r \<longleftrightarrow> g_sub r = gk_sub k \<and> g_client_id r = gk_clientId k \<and> g_redirect_uri r = gk_redirectKey k \<and>
     g_resource r = gk_resource k \<and> g_revoked_at r = None"

definition liveGrants :: "grant_key \<Rightarrow> oauth_db \<Rightarrow> grant list" where
  "liveGrants k db = map grantOf (sort_key (\<lambda>r. - g_created_at r) (filter (keyed_grant k) (grants db)))"

definition find_grant :: "str \<Rightarrow> oauth_db \<Rightarrow> grant_row option" where
  "find_grant i db = find (\<lambda>g. g_id g = i) (grants db)"

definition everApproved :: "str \<Rightarrow> oauth_db \<Rightarrow> bool" where
  "everApproved client db \<longleftrightarrow> client \<in> g_client_id ` set (grants db)"

record approval =
  ap_handle :: str
  ap_session :: session_guard
  ap_key :: grant_key
  ap_scopes :: "scope list"
  ap_persona :: "str option"
  ap_vault :: "str option"
  ap_now :: int
  ap_reuse :: "grant option"

record approved =
  ad_code :: str
  ad_pending :: pending_request
  ad_grantId :: str

datatype approve_result = Session_ended | Request_gone | Approved approved

text \<open>The grant an approval uses: the remembered one, the live one it extends, or a new one.\<close>

definition grant_for :: "str \<Rightarrow> approval \<Rightarrow> oauth_db \<Rightarrow> (str \<times> oauth_db) option" where
  "grant_for newId a db =
     (case ap_reuse a of
        Some g \<Rightarrow> Some (gr_id g, db)
      | None \<Rightarrow>
          (case find (\<lambda>g. gr_persona g = ap_persona a \<and> gr_vault g = ap_vault a) (liveGrants (ap_key a) db) of
             Some same \<Rightarrow>
               Some (gr_id same,
                 db\<lparr>grants := update_rows (\<lambda>r. g_id r = gr_id same)
                      (\<lambda>r. r\<lparr>g_scope := join_with '' '' (js_set (gr_scopes same @ ap_scopes a))\<rparr>) (grants db)\<rparr>)
           | None \<Rightarrow>
               (case insert_row g_id
                       \<lparr>g_id = newId, g_sub = gk_sub (ap_key a), g_client_id = gk_clientId (ap_key a),
                        g_redirect_uri = gk_redirectKey (ap_key a), g_scope = join_with '' '' (ap_scopes a),
                        g_resource = gk_resource (ap_key a), g_persona = ap_persona a, g_vault = ap_vault a,
                        g_created_at = ap_now a, g_revoked_at = None\<rparr> (grants db) of
                  None \<Rightarrow> None
                | Some rows \<Rightarrow> Some (newId, db\<lparr>grants := rows\<rparr>))))"

definition approveRequest :: "(str \<Rightarrow> str) \<Rightarrow> str \<Rightarrow> str \<Rightarrow> approval \<Rightarrow> approve_result txn" where
  "approveRequest sha newId newCode a db =
     (if \<not> sessionIsCurrent (ap_session a) (ap_now a) db then (Some Session_ended, db)
      else case discardPending sha (ap_handle a) (ap_now a) db of
        (None, _) \<Rightarrow> (Some Request_gone, db)
      | (Some taken, db1) \<Rightarrow>
          (case grant_for newId a db1 of
             None \<Rightarrow> (None, db)
           | Some (grantId, db2) \<Rightarrow>
               (case insert_ref (find_grant grantId db2 \<noteq> None) k_code_hash
                       \<lparr>k_code_hash = sha newCode, k_grant_id = grantId, k_request_scope = join_with '' '' (ap_scopes a),
                        k_redirect_uri = redirectUri taken, k_resource = p_target taken,
                        k_code_challenge = codeChallenge taken, k_expires_at = ap_now a + code_ttl_ms,
                        k_used_at = None\<rparr> (codes db2) of
                  None \<Rightarrow> (None, db)
                | Some rows \<Rightarrow>
                    (Some (Approved \<lparr>ad_code = newCode, ad_pending = taken, ad_grantId = grantId\<rparr>),
                     db2\<lparr>codes := rows\<rparr>))))"

record code_record =
  cr_codeHash :: str
  cr_grantId :: str
  cr_clientId :: str
  cr_sub :: str
  cr_persona :: "str option"
  cr_vault :: "str option"
  cr_scope :: str
  cr_redirectUri :: str
  cr_resource :: str
  cr_codeChallenge :: str
  cr_expiresAt :: int
  cr_usedAt :: "int option"
  cr_grantRevoked :: bool

definition loadCode :: "(str \<Rightarrow> str) \<Rightarrow> str \<Rightarrow> oauth_db \<Rightarrow> code_record option" where
  "loadCode sha code db =
     (case find (\<lambda>k. k_code_hash k = sha code) (codes db) of
        None \<Rightarrow> None
      | Some k \<Rightarrow>
          (case find_grant (k_grant_id k) db of
             None \<Rightarrow> None
           | Some g \<Rightarrow>
               Some \<lparr>cr_codeHash = k_code_hash k, cr_grantId = k_grant_id k, cr_clientId = g_client_id g,
                     cr_sub = g_sub g, cr_persona = g_persona g, cr_vault = g_vault g,
                     cr_scope = k_request_scope k, cr_redirectUri = k_redirect_uri k,
                     cr_resource = k_resource k, cr_codeChallenge = k_code_challenge k,
                     cr_expiresAt = k_expires_at k, cr_usedAt = k_used_at k,
                     cr_grantRevoked = (g_revoked_at g \<noteq> None)\<rparr>))"

definition usable_code :: "str \<Rightarrow> int \<Rightarrow> code_row \<Rightarrow> bool" where
  "usable_code codeHash t k \<longleftrightarrow> k_code_hash k = codeHash \<and> k_used_at k = None \<and> k_expires_at k > t"

definition consumeCode :: "str \<Rightarrow> int \<Rightarrow> oauth_db \<Rightarrow> bool \<times> oauth_db" where
  "consumeCode codeHash t db =
     (length (filter (usable_code codeHash t) (codes db)) = 1,
      db\<lparr>codes := update_rows (usable_code codeHash t) (\<lambda>k. k\<lparr>k_used_at := Some t\<rparr>) (codes db)\<rparr>)"

subsection \<open>Revocation\<close>

text \<open>\<open>INSERT ... SELECT ... ON CONFLICT (jti) DO NOTHING\<close>.\<close>

definition owe :: "str \<Rightarrow> int \<Rightarrow> access_row list \<Rightarrow> owed_row list \<Rightarrow> owed_row list" where
  "owe reason t as owed =
     fold (\<lambda>a ws. if a_jti a \<in> w_jti ` set ws then ws
        else ws @ [\<lparr>w_jti = a_jti a, w_reason = reason, w_created_at = t\<rparr>]) as owed"

definition queueFamilyRevocation :: "str \<Rightarrow> str \<Rightarrow> int \<Rightarrow> oauth_db \<Rightarrow> nat \<times> oauth_db" where
  "queueFamilyRevocation familyId reason t db =
     (let issued = filter (\<lambda>a. a_family_id a = familyId) (accesses db) in
      (length issued,
       db\<lparr>refreshes := update_rows (\<lambda>r. f_family_id r = familyId \<and> f_revoked_at r = None)
            (\<lambda>r. r\<lparr>f_revoked_at := Some t\<rparr>) (refreshes db),
          outbox := owe reason t issued (outbox db)\<rparr>))"

text \<open>
  The registry's \<open>revoke\<close>: an issued row is marked, an unknown jti gets a tombstone, a revoked one stays.
  \<open>fault\<close> says for which jtis the write throws (a busy or full file, a lost registry).
\<close>

definition reg_revoke :: "str \<Rightarrow> int \<Rightarrow> registry \<Rightarrow> registry" where
  "reg_revoke jti t reg =
     (case map_of reg jti of
        None \<Rightarrow> reg @ [(jti, Some t)]
      | Some None \<Rightarrow> AList.update jti (Some t) reg
      | Some (Some u) \<Rightarrow> reg)"

definition isRevoked :: "str \<Rightarrow> registry \<Rightarrow> bool" where
  "isRevoked jti reg \<longleftrightarrow> (case map_of reg jti of Some (Some u) \<Rightarrow> True | _ \<Rightarrow> False)"

fun drain_rows ::
    "(str \<Rightarrow> bool) \<Rightarrow> int \<Rightarrow> owed_row list \<Rightarrow> oauth_db \<times> registry \<Rightarrow> (nat \<times> bool) \<times> oauth_db \<times> registry" where
  "drain_rows fault t [] (db, reg) = ((0, False), db, reg)"
| "drain_rows fault t (w # ws) (db, reg) =
     (if fault (w_jti w)
      then (case drain_rows fault t ws (db, reg) of ((n, failed), s) \<Rightarrow> ((n, True), s))
      else case drain_rows fault t ws (db\<lparr>outbox := filter (\<lambda>x. w_jti x \<noteq> w_jti w) (outbox db)\<rparr>,
                                       reg_revoke (w_jti w) t reg) of
        ((n, failed), s) \<Rightarrow> ((Suc n, failed), s))"

text \<open>How many it paid, or \<^const>\<open>None\<close> when a write failed (rethrown after the pass).\<close>

definition drainRevocations ::
    "(str \<Rightarrow> bool) \<Rightarrow> int \<Rightarrow> oauth_db \<times> registry \<Rightarrow> nat option \<times> oauth_db \<times> registry" where
  "drainRevocations fault t s =
     (case drain_rows fault t (sort_key (\<lambda>w. (w_created_at w, w_jti w)) (outbox (fst s))) s of
        ((n, failed), s1) \<Rightarrow> (if failed then None else Some n, s1))"

definition revokeFamily ::
    "(str \<Rightarrow> bool) \<Rightarrow> str \<Rightarrow> str \<Rightarrow> int \<Rightarrow> oauth_db \<times> registry \<Rightarrow> nat option \<times> oauth_db \<times> registry" where
  "revokeFamily fault familyId reason t s =
     (case queueFamilyRevocation familyId reason t (fst s) of
        (jtis, db) \<Rightarrow>
          (case drainRevocations fault t (db, snd s) of
             (paid, s1) \<Rightarrow> (if paid = None then None else Some jtis, s1)))"

datatype revocation_status = Revoked | Already_revoked | Not_found

record grant_revocation =
  gv_status :: revocation_status
  gv_families :: nat
  gv_accessTokens :: nat

definition families_of :: "str \<Rightarrow> oauth_db \<Rightarrow> str list" where
  "families_of grantId db =
     remdups (map f_family_id (filter (\<lambda>r. f_grant_id r = grantId) (refreshes db)) @
              map a_family_id (filter (\<lambda>a. a_grant_id a = grantId) (accesses db)))"

definition queueGrantRevocation :: "str \<Rightarrow> str \<Rightarrow> int \<Rightarrow> oauth_db \<Rightarrow> grant_revocation \<times> oauth_db" where
  "queueGrantRevocation grantId reason t db =
     (case find_grant grantId db of
        None \<Rightarrow> (\<lparr>gv_status = Not_found, gv_families = 0, gv_accessTokens = 0\<rparr>, db)
      | Some g \<Rightarrow>
          (let db1 = db\<lparr>grants := update_rows (\<lambda>r. g_id r = grantId)
                  (\<lambda>r. r\<lparr>g_revoked_at := (case g_revoked_at r of None \<Rightarrow> Some t | Some u \<Rightarrow> Some u)\<rparr>) (grants db)\<rparr>;
               families = families_of grantId db1;
               (accessTokens, db2) = fold (\<lambda>f (n, d). case queueFamilyRevocation f reason t d of (k, d') \<Rightarrow> (n + k, d'))
                 families (0, db1) in
           (\<lparr>gv_status = (if g_revoked_at g = None then Revoked else Already_revoked),
             gv_families = length families, gv_accessTokens = accessTokens\<rparr>, db2)))"

definition revokeGrant ::
    "(str \<Rightarrow> bool) \<Rightarrow> str \<Rightarrow> str \<Rightarrow> int \<Rightarrow> oauth_db \<times> registry \<Rightarrow> grant_revocation option \<times> oauth_db \<times> registry" where
  "revokeGrant fault grantId reason t s =
     (case queueGrantRevocation grantId reason t (fst s) of
        (out, db) \<Rightarrow>
          (case drainRevocations fault t (db, snd s) of
             (paid, s1) \<Rightarrow> (if paid = None then None else Some out, s1)))"

record grant_summary =
  gs_row :: grant_row
  gs_username :: "str option"
  gs_liveFamilies :: nat

definition listGrants :: "int \<Rightarrow> bool \<Rightarrow> oauth_db \<Rightarrow> grant_summary list" where
  "listGrants t everyOne db =
     map (\<lambda>g. \<lparr>gs_row = g, gs_username = map_option u_username (find_user (g_sub g) db),
            gs_liveFamilies = length (remdups (map f_family_id (filter (\<lambda>r. f_grant_id r = g_id g \<and>
              f_revoked_at r = None \<and> f_family_expires_at r > t) (refreshes db))))\<rparr>)
       (sort_key (\<lambda>g. - g_created_at g)
         (rev (filter (\<lambda>g. everyOne \<or> g_revoked_at g = None) (grants db))))"

subsection \<open>Refresh-token families\<close>

definition day_ms :: int where "day_ms = 86400000"

record new_family =
  nf_codeHash :: str
  nf_grantId :: str
  nf_token :: "str option"
  nf_scope :: str
  nf_now :: int
  nf_days :: int
  nf_secretGen :: str

definition consumeCodeAndStartFamily :: "(str \<Rightarrow> str) \<Rightarrow> new_family \<Rightarrow> bool txn" where
  "consumeCodeAndStartFamily sha f db =
     (case find_grant (nf_grantId f) db of
        None \<Rightarrow> (Some False, db)
      | Some g \<Rightarrow>
          if g_revoked_at g \<noteq> None then (Some False, db)
          else case consumeCode (nf_codeHash f) (nf_now f) db of
            (False, db1) \<Rightarrow> (Some False, db1)
          | (True, db1) \<Rightarrow>
              (case nf_token f of
                 None \<Rightarrow> (Some True, db1)
               | Some token \<Rightarrow>
                   (case insert_ref (find_grant (nf_grantId f) db1 \<noteq> None) f_token_hash
                           \<lparr>f_token_hash = sha token, f_family_id = nf_codeHash f, f_grant_id = nf_grantId f,
                            f_parent_hash = None, f_scope = nf_scope f, f_issued_at = nf_now f,
                            f_successor_first_used_at = None, f_family_expires_at = nf_now f + nf_days f * day_ms,
                            f_revoked_at = None, f_secret_gen = Some (nf_secretGen f), f_replay = None\<rparr>
                           (refreshes db1) of
                      None \<Rightarrow> (None, db)
                    | Some rows \<Rightarrow> (Some True, db1\<lparr>refreshes := rows\<rparr>))))"

record refresh_record =
  rr_row :: refresh_row
  rr_clientId :: str
  rr_sub :: str
  rr_persona :: "str option"
  rr_vault :: "str option"
  rr_resource :: str
  rr_grantRevoked :: bool

definition loadRefresh :: "(str \<Rightarrow> str) \<Rightarrow> str \<Rightarrow> oauth_db \<Rightarrow> refresh_record option" where
  "loadRefresh sha token db =
     (case find (\<lambda>r. f_token_hash r = sha token) (refreshes db) of
        None \<Rightarrow> None
      | Some r \<Rightarrow>
          (case find_grant (f_grant_id r) db of
             None \<Rightarrow> None
           | Some g \<Rightarrow>
               Some \<lparr>rr_row = r, rr_clientId = g_client_id g, rr_sub = g_sub g, rr_persona = g_persona g,
                     rr_vault = g_vault g, rr_resource = g_resource g, rr_grantRevoked = (g_revoked_at g \<noteq> None)\<rparr>))"

definition child_of :: "str \<Rightarrow> oauth_db \<Rightarrow> refresh_row option" where
  "child_of parentHash db = find (\<lambda>r. f_parent_hash r = Some parentHash) (refreshes db)"

definition loadReplay :: "str \<Rightarrow> oauth_db \<Rightarrow> str option" where
  "loadReplay parentHash db = (case child_of parentHash db of None \<Rightarrow> None | Some r \<Rightarrow> f_replay r)"

datatype refresh_standing = Rotate | Retry | Reuse | Foreign | Dead

definition standing ::
    "(str \<Rightarrow> str) \<Rightarrow> refresh_record \<Rightarrow> str \<Rightarrow> str \<Rightarrow> int \<Rightarrow> int \<Rightarrow> oauth_db \<Rightarrow> refresh_standing" where
  "standing sha cur successor secretGen t graceMs db =
     (let r = rr_row cur in
      if f_revoked_at r \<noteq> None \<or> rr_grantRevoked cur \<or> f_family_expires_at r \<le> t then Dead
      else if f_secret_gen r \<noteq> Some secretGen then Foreign
      else case child_of (f_token_hash r) db of
        None \<Rightarrow> Rotate
      | Some child \<Rightarrow>
          (let age = (case f_successor_first_used_at r of None \<Rightarrow> - 1 | Some u \<Rightarrow> t - u);
               graced = (graceMs > 0 \<and> f_successor_first_used_at child = None \<and> age \<ge> 0 \<and> age < graceMs) in
           if f_successor_first_used_at r \<noteq> None \<and> \<not> graced then Reuse
           else if f_token_hash child = sha successor then Retry
           else Dead))"

record refresh_use =
  ru_token :: str
  ru_successor :: str
  ru_secretGen :: str
  ru_replay :: str
  ru_now :: int
  ru_graceMs :: int

definition useRefresh :: "(str \<Rightarrow> str) \<Rightarrow> refresh_use \<Rightarrow> refresh_standing txn" where
  "useRefresh sha a db =
     (case loadRefresh sha (ru_token a) db of
        None \<Rightarrow> (Some Dead, db)
      | Some cur \<Rightarrow>
          (let st = standing sha cur (ru_successor a) (ru_secretGen a) (ru_now a) (ru_graceMs a) db;
               r = rr_row cur in
           if st \<noteq> Rotate then (Some st, db)
           else case insert_ref (find_grant (f_grant_id r) db \<noteq> None) f_token_hash
                  \<lparr>f_token_hash = sha (ru_successor a), f_family_id = f_family_id r, f_grant_id = f_grant_id r,
                   f_parent_hash = Some (f_token_hash r), f_scope = f_scope r, f_issued_at = ru_now a,
                   f_successor_first_used_at = None, f_family_expires_at = f_family_expires_at r,
                   f_revoked_at = None, f_secret_gen = Some (ru_secretGen a), f_replay = Some (ru_replay a)\<rparr>
                  (refreshes db) of
             None \<Rightarrow> (None, db)
           | Some rows \<Rightarrow>
               (let spent = (if ru_graceMs a > 0 then f_parent_hash r else Some (f_token_hash r));
                    rows1 = (case spent of None \<Rightarrow> rows
                      | Some h \<Rightarrow> update_rows (\<lambda>x. f_token_hash x = h) (\<lambda>x. x\<lparr>f_replay := None\<rparr>) rows);
                    rows2 = (case f_parent_hash r of None \<Rightarrow> rows1
                      | Some h \<Rightarrow> update_rows (\<lambda>x. f_token_hash x = h)
                          (\<lambda>x. x\<lparr>f_successor_first_used_at :=
                             (case f_successor_first_used_at x of None \<Rightarrow> Some (ru_now a) | Some u \<Rightarrow> Some u)\<rparr>) rows1) in
                (Some st, db\<lparr>refreshes := rows2\<rparr>))))"

subsection \<open>The bounds of an account\<close>

record account_bounds =
  b_scopes :: "scope list option"
  b_vaults :: "str list option"

text \<open>\<open>raw.split(/[\s,]+/).filter(Boolean)\<close>\<close>

definition bound_list :: "str option \<Rightarrow> str list option" where
  "bound_list raw = map_option (\<lambda>s. filter (\<lambda>w. w \<noteq> []) (split_on (\<lambda>c. js_space c \<or> c = CHR '','') s)) raw"

definition accountBounds :: "str \<Rightarrow> oauth_db \<Rightarrow> account_bounds option" where
  "accountBounds sub db =
     (case find (\<lambda>u. u_sub u = sub \<and> u_disabled_at u = None) (users db) of
        None \<Rightarrow> None
      | Some u \<Rightarrow> Some \<lparr>b_scopes = bound_list (u_scopes_allowed u), b_vaults = bound_list (u_vaults_allowed u)\<rparr>)"

definition narrowScopes :: "account_bounds \<Rightarrow> scope list \<Rightarrow> scope list" where
  "narrowScopes bounds scopes =
     (case b_scopes bounds of None \<Rightarrow> scopes | Some allowed \<Rightarrow> filter (grantsScope allowed) scopes)"

datatype bounded = Bounded_vault | Bounded_scopes | Bounded_ok "scope list" "str option"

definition applyBounds :: "account_bounds \<Rightarrow> scope list \<Rightarrow> str option \<Rightarrow> bounded" where
  "applyBounds bounds scopes wantVault =
     (let vault = (case b_vaults bounds of
              None \<Rightarrow> Some wantVault
            | Some vaults \<Rightarrow>
                (case (case wantVault of Some v \<Rightarrow> Some v
                        | None \<Rightarrow> if length vaults = 1 then Some (hd vaults) else None) of
                   None \<Rightarrow> None
                 | Some v \<Rightarrow> if v \<in> set vaults then Some (Some v) else None)) in
      case vault of
        None \<Rightarrow> Bounded_vault
      | Some v \<Rightarrow>
          (let left = narrowScopes bounds scopes in
           if length left = 0 then Bounded_scopes else Bounded_ok left v))"

subsection \<open>Issued access tokens and housekeeping\<close>

definition as_key_skew_ms :: int where "as_key_skew_ms = 60 * 1000"
definition used_code_keep_ms :: int where "used_code_keep_ms = 3600000 + as_key_skew_ms"

record issued_token =
  it_jti :: str
  it_familyId :: str
  it_grantId :: str
  it_iat :: int
  it_exp :: int

definition numeric_date :: "int \<Rightarrow> bool" where
  "numeric_date n \<longleftrightarrow> 0 < n \<and> n < 10 ^ 11"

text \<open>
  The registry row, then the row of \<open>issued_access\<close>; a throw after the first leaves it. \<open>fault\<close>: the
  registry refuses (it is lost, busy or full).
\<close>

definition recordIssuedAccess ::
    "bool \<Rightarrow> issued_token \<Rightarrow> oauth_db \<times> registry \<Rightarrow> bool \<times> oauth_db \<times> registry" where
  "recordIssuedAccess fault k s =
     (case s of (db, reg) \<Rightarrow>
        if \<not> (numeric_date (it_exp k) \<and> numeric_date (it_iat k)) then (False, db, reg)
        else if fault \<or> it_jti k \<in> fst ` set reg then (False, db, reg)
        else
          (let reg1 = reg @ [(it_jti k, None)] in
           case insert_ref (find_grant (it_grantId k) db \<noteq> None) a_jti
                  \<lparr>a_jti = it_jti k, a_family_id = it_familyId k, a_grant_id = it_grantId k,
                   a_expires_at = it_exp k * 1000\<rparr> (accesses db) of
             None \<Rightarrow> (False, db, reg1)
           | Some rows \<Rightarrow> (True, db\<lparr>accesses := rows\<rparr>, reg1)))"

definition gcOauthDb :: "int \<Rightarrow> oauth_db \<Rightarrow> oauth_db" where
  "gcOauthDb t db =
     db\<lparr>sessions := filter (\<lambda>s. \<not> s_expires_at s \<le> t) (sessions db),
        pendings := filter (\<lambda>r. \<not> p_expires_at r \<le> t) (pendings db),
        codes := filter (\<lambda>k. \<not> (k_expires_at k \<le> t \<and>
          (case k_used_at k of None \<Rightarrow> True | Some u \<Rightarrow> u \<le> t - used_code_keep_ms))) (codes db),
        refreshes := filter (\<lambda>r. \<not> f_family_expires_at r \<le> t) (refreshes db),
        accesses := filter (\<lambda>a. \<not> a_expires_at a \<le> t - as_key_skew_ms) (accesses db)\<rparr>"

subsection \<open>The reset of the operator's credentials\<close>

record reset_options =
  ro_revoke :: "(str \<times> int) option"
  ro_burn :: "(str \<times> int \<times> int) option"

text \<open>
  The transaction of \<open>resetOperatorCredentials\<close>; \<^const>\<open>None\<close> is the burned reset token. Passkeys and
  their challenges are not modelled.
\<close>

definition resetOperatorCredentials :: "str \<Rightarrow> str \<Rightarrow> reset_options \<Rightarrow> unit txn" where
  "resetOperatorCredentials sub passwordHash opts db =
     (let refused = (case ro_burn opts of None \<Rightarrow> False
            | Some (tokenHash, t, startedAt) \<Rightarrow> resetTokenBurned tokenHash db \<or> tokenBurned tokenHash db \<or>
                list_ex (\<lambda>(h, u). u \<ge> startedAt) (burned_resets db)) in
      if refused then (None, db)
      else
        (let db1 = (case ro_burn opts of None \<Rightarrow> db
               | Some (tokenHash, t, startedAt) \<Rightarrow> db\<lparr>burned_resets := burned_resets db @ [(tokenHash, t)]\<rparr>);
             db2 = setOperatorPassword sub passwordHash db1 in
         case ro_revoke opts of
           None \<Rightarrow> (Some (), db2)
         | Some (reason, t) \<Rightarrow>
             (Some (), fold (\<lambda>i d. snd (queueGrantRevocation i reason t d))
                (map g_id (filter (\<lambda>g. g_sub g = sub \<and> g_revoked_at g = None) (grants db2))) db2)))"

end
