(* ===== verification/Oauth_Token.thy ===== *)
theory Oauth_Token
  imports Oauth_Store
begin

text \<open>
  The token endpoint of the authorization server: \<open>packages/server/src/auth/as-token-endpoint.ts\<close>
  (the exchange of an authorization code), \<open>as-refresh-grant.ts\<close> (a refresh), \<open>as-access.ts\<close>
  (minting) and \<open>as-revoke.ts\<close>.

  A handler is cut where another process may act: it decides on what it read (\<open>exchange_check\<close>,
  \<open>refresh_check\<close>), records the access token (\<open>mintAccessToken\<close>, whose signature is the platform's),
  and commits. \<open>exchange_code\<close> and \<open>refreshGrant\<close> are the whole handlers, run without interruption.
  What a client learns is a \<open>token_response\<close>; log lines and headers are not modelled.
\<close>

subsection \<open>Minting\<close>

record access_subject =
  as_sub :: str
  as_clientId :: str
  as_scope :: str
  as_persona :: "str option"
  as_vault :: "str option"
  as_familyId :: str
  as_grantId :: str
  as_resource :: str

text \<open>The record of a token minted at \<open>t\<close> that lives \<open>seconds\<close>, and its \<open>exp\<close>.\<close>

definition minted_exp :: "int \<Rightarrow> int \<Rightarrow> int" where
  "minted_exp seconds t = t div 1000 + seconds"

definition mintAccessToken ::
    "int \<Rightarrow> int \<Rightarrow> str \<Rightarrow> bool \<Rightarrow> access_subject \<Rightarrow> oauth_db \<times> registry \<Rightarrow> bool \<times> oauth_db \<times> registry" where
  "mintAccessToken seconds t jti fault s =
     recordIssuedAccess fault
       \<lparr>it_jti = jti, it_familyId = as_familyId s, it_grantId = as_grantId s, it_iat = t div 1000,
        it_exp = minted_exp seconds t\<rparr>"

subsection \<open>Answers\<close>

record token_answer =
  an_subject :: access_subject
  an_jti :: str
  an_refresh :: "str option"
  an_expiresIn :: int

datatype token_response = Token_error nat str str | Token_ok token_answer

definition invalid_code :: token_response where
  "invalid_code = Token_error 400 ''invalid_grant'' ''the authorization code is invalid''"

definition invalid_refresh :: token_response where
  "invalid_refresh = Token_error 400 ''invalid_grant'' ''the refresh token is invalid''"

definition not_issued :: token_response where
  "not_issued = Token_error 500 ''server_error'' ''the access token could not be issued''"

definition internal_error :: token_response where
  "internal_error = Token_error 500 ''internal_error'' []"

definition wrong_resource :: token_response where
  "wrong_resource = Token_error 400 ''invalid_target'' ''resource must be this server's resource URL''"

subsection \<open>The exchange of a code\<close>

record token_config =
  tc_resource :: str
  tc_accessTokenSeconds :: int
  tc_refreshTokenDays :: int
  tc_reuseGraceMs :: int
  tc_secret :: str

record code_form =
  cf_code :: field
  cf_redirect_uri :: field
  cf_resource :: field
  cf_code_verifier :: field

text \<open>\<open>/^[A-Za-z0-9._~-]{43,128}$/\<close>\<close>

definition verifier_re :: "str \<Rightarrow> bool" where
  "verifier_re s \<longleftrightarrow> 43 \<le> length s \<and> length s \<le> 128 \<and> list_all (\<lambda>c. base64url_char c \<or> c \<in> set ''.~'') s"

datatype exchange_verdict =
    Exchange_refuse token_response
  | Exchange_replay str
  | Exchange_go code_record access_subject

definition exchange_subject ::
    "token_config \<Rightarrow> as_client \<Rightarrow> code_record \<Rightarrow> str \<Rightarrow> oauth_db \<Rightarrow> access_subject option" where
  "exchange_subject cfg client rec granted db =
     (case accountBounds (cr_sub rec) db of
        None \<Rightarrow> None
      | Some bounds \<Rightarrow>
          (case applyBounds bounds (splitScope (cr_scope rec)) (cr_vault rec) of
             Bounded_ok scopes vault \<Rightarrow>
               Some \<lparr>as_sub = cr_sub rec, as_clientId = ac_clientId client, as_scope = join_with '' '' scopes,
                     as_persona = cr_persona rec, as_vault = vault, as_familyId = cr_codeHash rec,
                     as_grantId = cr_grantId rec, as_resource = granted\<rparr>
           | _ \<Rightarrow> None))"

definition verify_code ::
    "platform \<Rightarrow> token_config \<Rightarrow> as_client \<Rightarrow> code_form \<Rightarrow> str option \<Rightarrow> str \<Rightarrow> int \<Rightarrow> code_record \<Rightarrow> oauth_db
      \<Rightarrow> exchange_verdict" where
  "verify_code pf cfg client form askedMember uri t rec db =
     (if cr_clientId rec \<noteq> ac_clientId client then Exchange_refuse invalid_code
      else if cr_redirectUri rec \<noteq> uri then Exchange_refuse invalid_code
      else case matchResource pf (cr_resource rec) (tc_resource cfg) of
        None \<Rightarrow> Exchange_refuse invalid_code
      | Some granted \<Rightarrow>
          if askedMember \<noteq> None \<and> askedMember \<noteq> Some granted
          then Exchange_refuse (Token_error 400 ''invalid_target'' ''resource differs from the one the code was issued for'')
          else case cf_code_verifier form of
            Once verifier \<Rightarrow>
              (if \<not> verifier_re verifier then Exchange_refuse invalid_code
               else if \<not> secretsEqual pf (pf_s256 pf verifier) (cr_codeChallenge rec) then Exchange_refuse invalid_code
               else if cr_usedAt rec \<noteq> None then Exchange_replay (cr_codeHash rec)
               else if cr_expiresAt rec \<le> t then Exchange_refuse invalid_code
               else if cr_grantRevoked rec then Exchange_refuse invalid_code
               else case exchange_subject cfg client rec granted db of
                 None \<Rightarrow> Exchange_refuse invalid_code
               | Some subject \<Rightarrow> Exchange_go rec subject)
          | _ \<Rightarrow> Exchange_refuse invalid_code)"

definition exchange_check ::
    "platform \<Rightarrow> token_config \<Rightarrow> as_client \<Rightarrow> code_form \<Rightarrow> int \<Rightarrow> oauth_db \<Rightarrow> exchange_verdict" where
  "exchange_check pf cfg client form t db =
     (case (cf_code form, cf_redirect_uri form) of
        (Once (c # cs), Once (u # us)) \<Rightarrow>
          (let askedMember = (case cf_resource form of Once asked \<Rightarrow> matchResource pf asked (tc_resource cfg) | _ \<Rightarrow> None) in
           if cf_resource form = Repeated \<or> (cf_resource form \<noteq> Absent \<and> askedMember = None)
           then Exchange_refuse wrong_resource
           else case loadCode (pf_sha256 pf) (c # cs) db of
             None \<Rightarrow> Exchange_refuse invalid_code
           | Some rec \<Rightarrow> verify_code pf cfg client form askedMember (u # us) t rec db)
      | _ \<Rightarrow> Exchange_refuse (Token_error 400 ''invalid_request'' ''code and redirect_uri are required''))"

text \<open>A client that registered its grant types gets a refresh token only if it named that grant.\<close>

definition wants_refresh :: "as_client \<Rightarrow> bool" where
  "wants_refresh client \<longleftrightarrow>
     (case ac_grantTypes client of None \<Rightarrow> True | Some ts \<Rightarrow> ''refresh_token'' \<in> set ts)"

definition exchange_family ::
    "platform \<Rightarrow> token_config \<Rightarrow> as_client \<Rightarrow> str \<Rightarrow> access_subject \<Rightarrow> int \<Rightarrow> new_family" where
  "exchange_family pf cfg client newToken subject t =
     \<lparr>nf_codeHash = as_familyId subject, nf_grantId = as_grantId subject,
      nf_token = (if wants_refresh client then Some newToken else None), nf_scope = as_scope subject,
      nf_now = t, nf_days = tc_refreshTokenDays cfg, nf_secretGen = pf_generation pf (tc_secret cfg)\<rparr>"

definition exchange_commit ::
    "platform \<Rightarrow> token_config \<Rightarrow> as_client \<Rightarrow> str \<Rightarrow> access_subject \<Rightarrow> int \<Rightarrow> bool txn" where
  "exchange_commit pf cfg client newToken subject t =
     consumeCodeAndStartFamily (pf_sha256 pf) (exchange_family pf cfg client newToken subject t)"

definition exchange_answer :: "token_config \<Rightarrow> as_client \<Rightarrow> str \<Rightarrow> access_subject \<Rightarrow> str \<Rightarrow> token_answer" where
  "exchange_answer cfg client newToken subject jti =
     \<lparr>an_subject = subject, an_jti = jti, an_refresh = (if wants_refresh client then Some newToken else None),
      an_expiresIn = tc_accessTokenSeconds cfg\<rparr>"

text \<open>
  The handler without interruption. A revocation that cannot be paid into the registry rethrows: the
  framework answers 500. \<open>clock\<close> holds the readings in order, \<open>faults\<close> says which registry writes throw.
\<close>

definition revoke_then ::
    "(str \<Rightarrow> bool) \<Rightarrow> str \<Rightarrow> str \<Rightarrow> int \<Rightarrow> token_response \<Rightarrow> oauth_db \<times> registry \<Rightarrow> token_response \<times> oauth_db \<times> registry" where
  "revoke_then faults familyId reason t answer s =
     (case revokeFamily faults familyId reason t s of
        (None, s1) \<Rightarrow> (internal_error, s1)
      | (Some _, s1) \<Rightarrow> (answer, s1))"

definition exchange_code ::
    "platform \<Rightarrow> token_config \<Rightarrow> as_client \<Rightarrow> code_form \<Rightarrow> str \<Rightarrow> str \<Rightarrow> (nat \<Rightarrow> int) \<Rightarrow> (str \<Rightarrow> bool) \<Rightarrow> bool \<Rightarrow> bool
      \<Rightarrow> oauth_db \<times> registry \<Rightarrow> token_response \<times> oauth_db \<times> registry" where
  "exchange_code pf cfg client form jti newToken clock faults record_fails signing_fails s =
     (case exchange_check pf cfg client form (clock 0) (fst s) of
        Exchange_refuse r \<Rightarrow> (r, s)
      | Exchange_replay familyId \<Rightarrow> revoke_then faults familyId ''authorization_code_reuse'' (clock 1) invalid_code s
      | Exchange_go rec subject \<Rightarrow>
          (case mintAccessToken (tc_accessTokenSeconds cfg) (clock 1) jti record_fails subject s of
             (recorded, s1) \<Rightarrow>
               if \<not> recorded \<or> signing_fails then (not_issued, s1)
               else case exchange_commit pf cfg client newToken subject (clock 2) (fst s1) of
                 (None, db2) \<Rightarrow>
                   revoke_then faults (as_familyId subject) ''authorization_code_failed'' (clock 3) not_issued (db2, snd s1)
               | (Some False, db2) \<Rightarrow>
                   revoke_then faults (as_familyId subject) ''authorization_code_reuse'' (clock 3) invalid_code (db2, snd s1)
               | (Some True, db2) \<Rightarrow> (Token_ok (exchange_answer cfg client newToken subject jti), db2, snd s1)))"

subsection \<open>A refresh\<close>

record refresh_form =
  rf_refresh_token :: field
  rf_scope :: field
  rf_resource :: field

datatype refresh_verdict =
    Refresh_refuse token_response
  | Refresh_retire str str
  | Refresh_retry refresh_record access_subject
  | Refresh_go refresh_record access_subject

definition wanted_scopes :: "scope list \<Rightarrow> field \<Rightarrow> scope list" where
  "wanted_scopes held asked =
     (let named = filter (\<lambda>s. s \<noteq> offline_access) (case asked of Once raw \<Rightarrow> splitScope raw | _ \<Rightarrow> []) in
      if length named > 0 then named else held)"

definition refresh_subject ::
    "as_client \<Rightarrow> refresh_record \<Rightarrow> field \<Rightarrow> str \<Rightarrow> oauth_db \<Rightarrow> access_subject option" where
  "refresh_subject client rec asked res db =
     (let held = splitScope (f_scope (rr_row rec));
          wanted = wanted_scopes held asked in
      if \<not> scopesCovered held wanted then None
      else case accountBounds (rr_sub rec) db of
        None \<Rightarrow> None
      | Some bounds \<Rightarrow>
          (case applyBounds bounds wanted (rr_vault rec) of
             Bounded_ok scopes vault \<Rightarrow>
               Some \<lparr>as_sub = rr_sub rec, as_clientId = ac_clientId client, as_scope = join_with '' '' scopes,
                     as_persona = rr_persona rec, as_vault = vault, as_familyId = f_family_id (rr_row rec),
                     as_grantId = f_grant_id (rr_row rec), as_resource = res\<rparr>
           | _ \<Rightarrow> None))"

text \<open>The checks of the form alone: the token, and the member of the resource set it names.\<close>

definition refresh_fields :: "platform \<Rightarrow> token_config \<Rightarrow> refresh_form \<Rightarrow> token_response + str \<times> str option" where
  "refresh_fields pf cfg form =
     (case rf_refresh_token form of
        Once (c # cs) \<Rightarrow>
          (let askedMember = (case rf_resource form of Once asked \<Rightarrow> matchResource pf asked (tc_resource cfg) | _ \<Rightarrow> None) in
           if rf_scope form = Repeated then Inl (Token_error 400 ''invalid_request'' ''scope may be sent once'')
           else if rf_resource form = Repeated \<or> (rf_resource form \<noteq> Absent \<and> askedMember = None) then Inl wrong_resource
           else Inr (c # cs, askedMember))
      | _ \<Rightarrow> Inl (Token_error 400 ''invalid_request'' ''refresh_token is required''))"

definition refresh_check ::
    "platform \<Rightarrow> token_config \<Rightarrow> as_client \<Rightarrow> str \<Rightarrow> str option \<Rightarrow> field \<Rightarrow> int \<Rightarrow> oauth_db \<Rightarrow> refresh_verdict" where
  "refresh_check pf cfg client token askedMember askedScope t db =
     (if \<not> base64url43 token then Refresh_refuse invalid_refresh
      else case loadRefresh (pf_sha256 pf) token db of
        None \<Rightarrow> Refresh_refuse invalid_refresh
      | Some rec \<Rightarrow>
          if rr_clientId rec \<noteq> ac_clientId client then Refresh_refuse invalid_refresh
          else case matchResource pf (rr_resource rec) (tc_resource cfg) of
            None \<Rightarrow> Refresh_refuse invalid_refresh
          | Some res \<Rightarrow>
              if askedMember \<noteq> None \<and> askedMember \<noteq> Some res
              then Refresh_refuse
                (Token_error 400 ''invalid_target'' ''resource differs from the one the token was issued for'')
              else
                (let st = standing (pf_sha256 pf) rec (pf_successor pf (tc_secret cfg) token)
                            (pf_generation pf (tc_secret cfg)) t (tc_reuseGraceMs cfg) db in
                 if st = Reuse then Refresh_retire (f_family_id (rr_row rec)) ''refresh_token_reuse''
                 else if st = Foreign then Refresh_retire (f_family_id (rr_row rec)) ''refresh_token_foreign''
                 else if st = Dead then Refresh_refuse invalid_refresh
                 else case refresh_subject client rec askedScope res db of
                   None \<Rightarrow> Refresh_refuse invalid_refresh
                 | Some subject \<Rightarrow> if st = Retry then Refresh_retry rec subject else Refresh_go rec subject))"

text \<open>The stored first response, if it is still good for exactly what this request asks.\<close>

definition replayed ::
    "platform \<Rightarrow> token_config \<Rightarrow> str \<Rightarrow> refresh_record \<Rightarrow> access_subject \<Rightarrow> int \<Rightarrow> oauth_db \<times> registry \<Rightarrow> token_answer option" where
  "replayed pf cfg successor rec subject t s =
     (let h = f_token_hash (rr_row rec) in
      case (case loadReplay h (fst s) of None \<Rightarrow> None | Some sealed \<Rightarrow> pf_open pf (tc_secret cfg) h sealed) of
        None \<Rightarrow> None
      | Some stored \<Rightarrow>
          (let left = rp_exp stored * 1000 - t in
           if left \<le> 0 \<or> rp_vault stored \<noteq> as_vault subject \<or> rp_scope stored \<noteq> as_scope subject \<or>
              isRevoked (rp_jti stored) (snd s)
           then None
           else Some \<lparr>an_subject = subject, an_jti = rp_jti stored, an_refresh = Some successor,
                      an_expiresIn = - (- left div 1000)\<rparr>))"

definition refresh_use_of ::
    "platform \<Rightarrow> token_config \<Rightarrow> str \<Rightarrow> str \<Rightarrow> int \<Rightarrow> refresh_use" where
  "refresh_use_of pf cfg token sealed t =
     \<lparr>ru_token = token, ru_successor = pf_successor pf (tc_secret cfg) token,
      ru_secretGen = pf_generation pf (tc_secret cfg), ru_replay = sealed, ru_now = t, ru_graceMs = tc_reuseGraceMs cfg\<rparr>"

definition answer_or_bad :: "token_answer option \<Rightarrow> token_response" where
  "answer_or_bad r = (case r of None \<Rightarrow> invalid_refresh | Some a \<Rightarrow> Token_ok a)"

text \<open>
  Commit of a rotation: what the client gets, and the state. \<open>sealed\<close> is what \<open>sealResponse\<close> made of the
  minted response (its initialisation vector is random). Every outcome but a rotation revokes something,
  and a registry that cannot take the revocation rethrows.
\<close>

definition refresh_commit ::
    "platform \<Rightarrow> token_config \<Rightarrow> str \<Rightarrow> refresh_record \<Rightarrow> access_subject \<Rightarrow> str \<Rightarrow> str \<Rightarrow> int \<Rightarrow> int \<Rightarrow> (str \<Rightarrow> bool)
      \<Rightarrow> oauth_db \<times> registry \<Rightarrow> token_response \<times> oauth_db \<times> registry" where
  "refresh_commit pf cfg token rec subject jti sealed t t' faults s =
     (let successor = pf_successor pf (tc_secret cfg) token;
          fam = f_family_id (rr_row rec);
          own_revoked = (fst s, if faults jti then snd s else reg_revoke jti t' (snd s)) in
      case useRefresh (pf_sha256 pf) (refresh_use_of pf cfg token sealed t) (fst s) of
        (None, _) \<Rightarrow> (if faults jti then internal_error else not_issued, own_revoked)
      | (Some Rotate, db) \<Rightarrow>
          (Token_ok \<lparr>an_subject = subject, an_jti = jti, an_refresh = Some successor,
                    an_expiresIn = tc_accessTokenSeconds cfg\<rparr>, db, snd s)
      | (Some Retry, _) \<Rightarrow>
          (if faults jti then internal_error else answer_or_bad (replayed pf cfg successor rec subject t' own_revoked),
           own_revoked)
      | (Some Reuse, _) \<Rightarrow> revoke_then faults fam ''refresh_token_reuse'' t' invalid_refresh s
      | (Some Foreign, _) \<Rightarrow> revoke_then faults fam ''refresh_token_foreign'' t' invalid_refresh s
      | (Some Dead, _) \<Rightarrow> (if faults jti then internal_error else invalid_refresh, own_revoked))"

text \<open>The handler without interruption.\<close>

definition refreshGrant ::
    "platform \<Rightarrow> token_config \<Rightarrow> as_client \<Rightarrow> refresh_form \<Rightarrow> str \<Rightarrow> str \<Rightarrow> (nat \<Rightarrow> int) \<Rightarrow> (str \<Rightarrow> bool) \<Rightarrow> bool \<Rightarrow> bool
      \<Rightarrow> oauth_db \<times> registry \<Rightarrow> token_response \<times> oauth_db \<times> registry" where
  "refreshGrant pf cfg client form jti sealed clock faults record_fails signing_fails s0 =
     (case refresh_fields pf cfg form of
        Inl r \<Rightarrow> (r, s0)
      | Inr (token, askedMember) \<Rightarrow>
          (case drainRevocations faults (clock 0) s0 of
             (None, s) \<Rightarrow> (not_issued, s)
           | (Some _, s) \<Rightarrow>
               (case refresh_check pf cfg client token askedMember (rf_scope form) (clock 1) (fst s) of
                  Refresh_refuse r \<Rightarrow> (r, s)
                | Refresh_retire fam reason \<Rightarrow> revoke_then faults fam reason (clock 2) invalid_refresh s
                | Refresh_retry rec subject \<Rightarrow>
                    (answer_or_bad (replayed pf cfg (pf_successor pf (tc_secret cfg) token) rec subject (clock 2) s), s)
                | Refresh_go rec subject \<Rightarrow>
                    (case mintAccessToken (tc_accessTokenSeconds cfg) (clock 2) jti record_fails subject s of
                       (recorded, s1) \<Rightarrow>
                         if \<not> recorded \<or> signing_fails then (not_issued, s1)
                         else refresh_commit pf cfg token rec subject jti sealed (clock 3) (clock 4) faults s1))))"

subsection \<open>The route\<close>

definition token_route ::
    "platform \<Rightarrow> token_config \<Rightarrow> bool \<Rightarrow> client_auth \<Rightarrow> field \<Rightarrow> code_form \<Rightarrow> refresh_form \<Rightarrow> str \<Rightarrow> str \<Rightarrow> str \<Rightarrow> (nat \<Rightarrow> int)
      \<Rightarrow> (str \<Rightarrow> bool) \<Rightarrow> bool \<Rightarrow> bool \<Rightarrow> oauth_db \<times> registry \<Rightarrow> token_response \<times> oauth_db \<times> registry" where
  "token_route pf cfg is_form authed grantType code_fields refresh_fields' jti newToken sealed clock faults record_fails signing_fails s =
     (if \<not> is_form then (Token_error 415 ''invalid_request'' ''the body must be application/x-www-form-urlencoded'', s)
      else case authed of
        Auth_failed why unavailable \<Rightarrow>
          (case clientFailureStatus unavailable of (status, err) \<Rightarrow> (Token_error status err why, s))
      | Authenticated client \<Rightarrow>
          (case grantType of
             Once g \<Rightarrow>
               (if g = ''refresh_token''
                then refreshGrant pf cfg client refresh_fields' jti sealed clock faults record_fails signing_fails s
                else if g \<noteq> ''authorization_code''
                then (Token_error 400 ''unsupported_grant_type'' ''only authorization_code and refresh_token are supported'', s)
                else exchange_code pf cfg client code_fields jti newToken clock faults record_fails signing_fails s)
           | _ \<Rightarrow> (Token_error 400 ''invalid_request'' ''grant_type is required'', s)))"

subsection \<open>Revocation by a client\<close>

definition revokeRefresh ::
    "platform \<Rightarrow> (str \<Rightarrow> bool) \<Rightarrow> str \<Rightarrow> str \<Rightarrow> int \<Rightarrow> oauth_db \<times> registry \<Rightarrow> bool option \<times> oauth_db \<times> registry" where
  "revokeRefresh pf faults token client t s =
     (if \<not> base64url43 token then (Some False, s)
      else case loadRefresh (pf_sha256 pf) token (fst s) of
        None \<Rightarrow> (Some False, s)
      | Some rec \<Rightarrow>
          if rr_clientId rec \<noteq> client then (Some False, s)
          else (case revokeFamily faults (f_family_id (rr_row rec)) ''revoked_by_client'' t s of
                  (r, s1) \<Rightarrow> (if r = None then None else Some True, s1)))"

text \<open>\<open>accessJti\<close>: the jti of a token of this client that verifies, which the JWT library decides.\<close>

definition revokeAccess ::
    "(str \<Rightarrow> str \<Rightarrow> str option) \<Rightarrow> (str \<Rightarrow> bool) \<Rightarrow> str \<Rightarrow> str \<Rightarrow> int \<Rightarrow> oauth_db \<times> registry
      \<Rightarrow> bool option \<times> oauth_db \<times> registry" where
  "revokeAccess accessJti faults token client t s =
     (case accessJti token client of
        None \<Rightarrow> (Some False, s)
      | Some jti \<Rightarrow> if faults jti then (None, s) else (Some True, fst s, reg_revoke jti t (snd s)))"

text \<open>The route after client authentication: \<^const>\<open>None\<close> is a 500, otherwise the status.\<close>

definition revoke_route ::
    "platform \<Rightarrow> (str \<Rightarrow> str \<Rightarrow> str option) \<Rightarrow> (str \<Rightarrow> bool) \<Rightarrow> field \<Rightarrow> field \<Rightarrow> str \<Rightarrow> int \<Rightarrow> oauth_db \<times> registry
      \<Rightarrow> nat option \<times> oauth_db \<times> registry" where
  "revoke_route pf accessJti faults tokenField hint client t s =
     (case tokenField of
        Once (c # cs) \<Rightarrow>
          (let refresh = revokeRefresh pf faults (c # cs) client t;
               access = revokeAccess accessJti faults (c # cs) client t in
           case (if hint = Once ''access_token'' then access s else refresh s) of
             (None, s1) \<Rightarrow> (None, s1)
           | (Some True, s1) \<Rightarrow> (Some 200, s1)
           | (Some False, s1) \<Rightarrow>
               (case (if hint = Once ''access_token'' then refresh s1 else access s1) of
                  (None, s2) \<Rightarrow> (None, s2)
                | (Some b, s2) \<Rightarrow> (Some 200, s2)))
      | _ \<Rightarrow> (Some 400, s))"

end
