(* ===== verification/Oauth_Machine.thy ===== *)
theory Oauth_Machine
  imports Oauth_Token
begin

text \<open>
  The authorization server as any number of processes run it on one \<open>oauth.db\<close> and one registry: a step
  is one transaction, one statement or one decision of one of them, in any order and at any reading of
  its clock. A request in flight is what its handler holds between two steps; it is never removed, so it
  may also stop anywhere or be repeated, which only adds behaviours. The steps that pay the outbox and
  change accounts are wider than the code.

  The lists \<open>w_out\<close>, \<open>w_consents\<close>, \<open>w_tokens\<close>, \<open>w_spent\<close>, \<open>w_retired\<close> and \<open>w_swept\<close> record what happened
  and are read by no handler: answers that left, codes approved, refresh tokens created, codes
  exchanged, families revoked after their code was exchanged, and access-token records swept after
  their expiry. New codes and refresh tokens are 32 random bytes, or an HMAC: their hashes are assumed
  not to repeat (\<open>fresh\<close> premises).
\<close>

subsection \<open>Worlds\<close>

datatype flight =
    Exchanging as_client access_subject
  | Exchange_minted as_client access_subject str
  | Refreshing str refresh_record access_subject
  | Refresh_minted str refresh_record access_subject str
  | Replaying str refresh_record access_subject

record consent =
  co_approval :: approval
  co_pending :: pending_request
  co_grantId :: str

record world =
  w_db :: oauth_db
  w_reg :: registry
  w_flights :: "flight list"
  w_out :: "token_answer list"
  w_consents :: "(str \<times> consent) list"
  w_tokens :: "(str \<times> str) list"
  w_spent :: "(str \<times> str) list"
  w_retired :: "str list"
  w_swept :: "str list"

definition fly :: "flight \<Rightarrow> world \<Rightarrow> world" where
  "fly x w = w\<lparr>w_flights := x # w_flights w\<rparr>"

text \<open>A sealed response opens, under whatever secret and parent, to the one that was sealed.\<close>

definition seals :: "platform \<Rightarrow> str \<Rightarrow> access_subject \<Rightarrow> str \<Rightarrow> bool" where
  "seals pf sealed subject jti \<longleftrightarrow>
     (\<forall>secret parent r. pf_open pf secret parent sealed = Some r \<longrightarrow>
        rp_jti r = jti \<and> rp_scope r = as_scope subject \<and> rp_vault r = as_vault subject)"

definition with_accounts ::
    "user_row list \<Rightarrow> session_row list \<Rightarrow> pending_row list \<Rightarrow> str option \<Rightarrow> (str \<times> int) list \<Rightarrow> oauth_db \<Rightarrow> oauth_db" where
  "with_accounts us ss ps setup burned db =
     db\<lparr>users := us, sessions := ss, pendings := ps, setup_token_used := setup, burned_resets := burned\<rparr>"

inductive as_step :: "platform \<Rightarrow> token_config \<Rightarrow> world \<Rightarrow> world \<Rightarrow> bool" for pf cfg where
  exchange_begins:
    "exchange_check pf cfg client form t (w_db w) = Exchange_go rec subject \<Longrightarrow>
     as_step pf cfg w (fly (Exchanging client subject) w)"
| exchange_mints:
    "Exchanging client subject \<in> set (w_flights w) \<Longrightarrow>
     mintAccessToken (tc_accessTokenSeconds cfg) t jti fails subject (w_db w, w_reg w) = (ok, db, reg) \<Longrightarrow>
     as_step pf cfg w ((if ok then fly (Exchange_minted client subject jti) else (\<lambda>w. w)) (w\<lparr>w_db := db, w_reg := reg\<rparr>))"
| exchange_commits:
    "Exchange_minted client subject jti \<in> set (w_flights w) \<Longrightarrow>
     exchange_commit pf cfg client newToken subject t (w_db w) = (Some True, db) \<Longrightarrow>
     pf_sha256 pf newToken \<notin> fst ` set (w_tokens w) \<Longrightarrow>
     as_step pf cfg w (w\<lparr>w_db := db, w_out := exchange_answer cfg client newToken subject jti # w_out w,
       w_tokens := (if wants_refresh client then [(pf_sha256 pf newToken, as_familyId subject)] else []) @ w_tokens w,
       w_spent := (as_familyId subject, jti) # w_spent w\<rparr>)"
| refresh_begins:
    "refresh_check pf cfg client token askedMember askedScope t (w_db w) = Refresh_go rec subject \<Longrightarrow>
     as_step pf cfg w (fly (Refreshing token rec subject) w)"
| retry_begins:
    "refresh_check pf cfg client token askedMember askedScope t (w_db w) = Refresh_retry rec subject \<Longrightarrow>
     as_step pf cfg w (fly (Replaying token rec subject) w)"
| refresh_mints:
    "Refreshing token rec subject \<in> set (w_flights w) \<Longrightarrow>
     mintAccessToken (tc_accessTokenSeconds cfg) t jti fails subject (w_db w, w_reg w) = (ok, db, reg) \<Longrightarrow>
     as_step pf cfg w ((if ok then fly (Refresh_minted token rec subject jti) else (\<lambda>w. w)) (w\<lparr>w_db := db, w_reg := reg\<rparr>))"
| refresh_commits:
    "Refresh_minted token rec subject jti \<in> set (w_flights w) \<Longrightarrow> seals pf sealed subject jti \<Longrightarrow>
     useRefresh (pf_sha256 pf) (refresh_use_of pf cfg token sealed t) (w_db w) = (Some Rotate, db) \<Longrightarrow>
     pf_sha256 pf (pf_successor pf (tc_secret cfg) token) \<notin> fst ` set (w_tokens w) \<Longrightarrow>
     as_step pf cfg w (w\<lparr>w_db := db,
       w_out := \<lparr>an_subject = subject, an_jti = jti, an_refresh = Some (pf_successor pf (tc_secret cfg) token),
                 an_expiresIn = tc_accessTokenSeconds cfg\<rparr> # w_out w,
       w_tokens := (pf_sha256 pf (pf_successor pf (tc_secret cfg) token), f_family_id (rr_row rec)) # w_tokens w\<rparr>)"
| refresh_superseded:
    "Refresh_minted token rec subject jti \<in> set (w_flights w) \<Longrightarrow>
     useRefresh (pf_sha256 pf) (refresh_use_of pf cfg token sealed t) (w_db w) = (Some Retry, db) \<Longrightarrow>
     as_step pf cfg w (fly (Replaying token rec subject) w)"
| retry_answers:
    "Replaying token rec subject \<in> set (w_flights w) \<Longrightarrow>
     replayed pf cfg (pf_successor pf (tc_secret cfg) token) rec subject t (w_db w, w_reg w) = Some answer \<Longrightarrow>
     as_step pf cfg w (w\<lparr>w_out := answer # w_out w\<rparr>)"
| family_revoked:
    "as_step pf cfg w (w\<lparr>w_db := snd (queueFamilyRevocation familyId reason t (w_db w)),
       w_retired := (if familyId \<in> fst ` set (w_spent w) then [familyId] else []) @ w_retired w\<rparr>)"
| grant_revoked:
    "as_step pf cfg w (w\<lparr>w_db := snd (queueGrantRevocation grantId reason t (w_db w))\<rparr>)"
| registry_revokes: "as_step pf cfg w (w\<lparr>w_reg := reg_revoke jti t (w_reg w)\<rparr>)"
| registry_records: "jti \<notin> fst ` set (w_reg w) \<Longrightarrow> as_step pf cfg w (w\<lparr>w_reg := w_reg w @ [(jti, None)]\<rparr>)"
| outbox_paid:
    "isRevoked jti (w_reg w) \<Longrightarrow>
     as_step pf cfg w (w\<lparr>w_db := (w_db w)\<lparr>outbox := filter (\<lambda>x. w_jti x \<noteq> jti) (outbox (w_db w))\<rparr>\<rparr>)"
| approves:
    "approveRequest (pf_sha256 pf) newId newCode a (w_db w) = (Some (Approved ad), db) \<Longrightarrow>
     pf_sha256 pf newCode \<notin> fst ` set (w_consents w) \<Longrightarrow>
     as_step pf cfg w (w\<lparr>w_db := db, w_consents := (pf_sha256 pf newCode,
       \<lparr>co_approval = a, co_pending = ad_pending ad, co_grantId = ad_grantId ad\<rparr>) # w_consents w\<rparr>)"
| accounts_change: "as_step pf cfg w (w\<lparr>w_db := with_accounts us ss ps setup burned (w_db w)\<rparr>)"
| sweeps:
    "as_step pf cfg w (w\<lparr>w_db := gcOauthDb t (w_db w),
       w_swept := map a_jti (filter (\<lambda>a. a_expires_at a \<le> t - as_key_skew_ms) (accesses (w_db w))) @ w_swept w\<rparr>)"

definition fresh_world :: "registry \<Rightarrow> world" where
  "fresh_world reg =
     \<lparr>w_db = \<lparr>pendings = [], grants = [], codes = [], refreshes = [], accesses = [], outbox = [], users = [],
        sessions = [], setup_token_used = None, burned_resets = []\<rparr>,
      w_reg = reg, w_flights = [], w_out = [], w_consents = [], w_tokens = [], w_spent = [], w_retired = [], w_swept = []\<rparr>"

inductive as_reachable :: "platform \<Rightarrow> token_config \<Rightarrow> world \<Rightarrow> bool" for pf cfg where
  as_start: "as_reachable pf cfg (fresh_world reg)"
| as_next: "as_reachable pf cfg w \<Longrightarrow> as_step pf cfg w w' \<Longrightarrow> as_reachable pf cfg w'"

inductive_cases as_stepE: "as_step pf cfg w w'"

end
