(* ===== verification/Oauth_Families.thy ===== *)
theory Oauth_Families
  imports Oauth_Machine
begin

text \<open>
  The shape of the refresh-token families: which row is whose successor, and how each operation of
  \<open>Oauth_Store\<close> changes it. The lemmas are about the table alone; \<open>Oauth_Safety\<close> uses them for the
  reachable worlds.
\<close>

subsection \<open>Shape and marks of the table\<close>

definition hashes_ok :: "refresh_row list \<Rightarrow> bool" where
  "hashes_ok rows \<longleftrightarrow> distinct (map f_token_hash rows)"

definition lines_ok :: "refresh_row list \<Rightarrow> bool" where
  "lines_ok rows \<longleftrightarrow> (\<forall>r\<in>set rows. \<forall>s\<in>set rows. f_family_id r = f_family_id s \<longrightarrow>
     f_grant_id r = f_grant_id s \<and> f_family_expires_at r = f_family_expires_at s)"

definition parents_ok :: "refresh_row list \<Rightarrow> bool" where
  "parents_ok rows \<longleftrightarrow> (\<forall>r\<in>set rows. \<forall>h. f_parent_hash r = Some h \<longrightarrow>
     (\<exists>p\<in>set rows. f_token_hash p = h \<and> f_family_id p = f_family_id r))"

definition one_child :: "refresh_row list \<Rightarrow> bool" where
  "one_child rows \<longleftrightarrow> (\<forall>r\<in>set rows. \<forall>s\<in>set rows. \<forall>h. f_parent_hash r = Some h \<and> f_parent_hash s = Some h \<longrightarrow>
     f_token_hash r = f_token_hash s)"

definition one_root :: "refresh_row list \<Rightarrow> bool" where
  "one_root rows \<longleftrightarrow> (\<forall>r\<in>set rows. \<forall>s\<in>set rows. f_family_id r = f_family_id s \<and> f_parent_hash r = None \<and>
     f_parent_hash s = None \<longrightarrow> f_token_hash r = f_token_hash s) \<and>
     (\<forall>r\<in>set rows. \<exists>s\<in>set rows. f_family_id s = f_family_id r \<and> f_parent_hash s = None)"

definition has_grandchild :: "refresh_row list \<Rightarrow> str \<Rightarrow> bool" where
  "has_grandchild rows h \<longleftrightarrow>
     (\<exists>c\<in>set rows. \<exists>d\<in>set rows. f_parent_hash c = Some h \<and> f_parent_hash d = Some (f_token_hash c))"

definition revoked_together :: "refresh_row list \<Rightarrow> bool" where
  "revoked_together rows \<longleftrightarrow> (\<forall>r\<in>set rows. \<forall>s\<in>set rows. f_family_id r = f_family_id s \<and> f_revoked_at r = None \<longrightarrow>
     f_revoked_at s = None)"

definition uses_marked :: "refresh_row list \<Rightarrow> bool" where
  "uses_marked rows \<longleftrightarrow> (\<forall>p\<in>set rows. f_successor_first_used_at p \<noteq> None \<longleftrightarrow> has_grandchild rows (f_token_hash p))"

definition families_ok :: "refresh_row list \<Rightarrow> bool" where
  "families_ok rows \<longleftrightarrow> hashes_ok rows \<and> lines_ok rows \<and> parents_ok rows \<and> one_child rows \<and> one_root rows \<and>
     revoked_together rows \<and> uses_marked rows"

lemmas shape_defs = hashes_ok_def lines_ok_def parents_ok_def one_child_def one_root_def

definition same_shape :: "refresh_row \<Rightarrow> refresh_row \<Rightarrow> bool" where
  "same_shape r s \<longleftrightarrow> f_token_hash s = f_token_hash r \<and> f_parent_hash s = f_parent_hash r \<and>
     f_family_id s = f_family_id r \<and> f_grant_id s = f_grant_id r \<and> f_family_expires_at s = f_family_expires_at r"

lemma shape_map:
  assumes "\<And>r. same_shape r (f r)"
  shows "hashes_ok (map f rows) = hashes_ok rows" "lines_ok (map f rows) = lines_ok rows"
    "parents_ok (map f rows) = parents_ok rows" "one_child (map f rows) = one_child rows"
    "one_root (map f rows) = one_root rows" "has_grandchild (map f rows) h = has_grandchild rows h"
  using assms by (simp_all add: shape_defs has_grandchild_def same_shape_def o_def)

lemma update_rows_map: "update_rows p f rows = map (\<lambda>r. if p r then f r else r) rows"
  by (simp add: update_rows_def)

lemma find_hash:
  "distinct (map f_token_hash rows) \<Longrightarrow> find (\<lambda>r. f_token_hash r = h) rows = Some r \<longleftrightarrow> r \<in> set rows \<and> f_token_hash r = h"
  by (induction rows) auto

lemma same_hash: "hashes_ok rows \<Longrightarrow> r \<in> set rows \<Longrightarrow> s \<in> set rows \<Longrightarrow> f_token_hash r = f_token_hash s \<Longrightarrow> r = s"
  unfolding hashes_ok_def by (metis find_hash option.inject)

lemma child_of_Some: "child_of h db = Some c \<Longrightarrow> c \<in> set (refreshes db) \<and> f_parent_hash c = Some h"
  unfolding child_of_def by (drule find_in_set) simp

lemma child_of_None: "child_of h db = None \<longleftrightarrow> (\<forall>r\<in>set (refreshes db). f_parent_hash r \<noteq> Some h)"
  unfolding child_of_def find_None_iff by blast

subsection \<open>Revocation\<close>

lemma revocation_rows:
  "refreshes (snd (queueFamilyRevocation f reason t db)) =
     map (\<lambda>r. if f_family_id r = f \<and> f_revoked_at r = None then r\<lparr>f_revoked_at := Some t\<rparr> else r) (refreshes db)"
  by (simp add: queueFamilyRevocation_def Let_def update_rows_map)

lemma family_revocation_ok:
  assumes "families_ok (refreshes db)"
  shows "families_ok (refreshes (snd (queueFamilyRevocation f reason t db)))"
proof -
  have s: "same_shape r (if f_family_id r = f \<and> f_revoked_at r = None then r\<lparr>f_revoked_at := Some t\<rparr> else r)" for r
    by (simp add: same_shape_def)
  have "revoked_together (map (\<lambda>r. if f_family_id r = f \<and> f_revoked_at r = None then r\<lparr>f_revoked_at := Some t\<rparr> else r)
      (refreshes db))"
    unfolding revoked_together_def set_map ball_simps(9)
  proof (intro ballI impI)
    let ?g = "\<lambda>r. if f_family_id r = f \<and> f_revoked_at r = None then r\<lparr>f_revoked_at := Some t\<rparr> else r"
    fix r u assume ru: "r \<in> set (refreshes db)" "u \<in> set (refreshes db)"
      and xy: "f_family_id (?g r) = f_family_id (?g u) \<and> f_revoked_at (?g r) = None"
    have keep: "\<not> (f_family_id r = f \<and> f_revoked_at r = None)" using xy by (intro notI) simp
    then have r: "?g r = r" by (simp only: if_False)
    have "f_family_id (?g u) = f_family_id u" by simp
    with xy r have "f_family_id r = f_family_id u" "f_revoked_at r = None" by simp_all
    moreover from this have "f_revoked_at u = None"
      using assms ru unfolding families_ok_def revoked_together_def by blast
    ultimately show "f_revoked_at (?g u) = None" using keep by simp
  qed
  moreover have "uses_marked (map (\<lambda>r. if f_family_id r = f \<and> f_revoked_at r = None then r\<lparr>f_revoked_at := Some t\<rparr> else r)
      (refreshes db))"
    using assms unfolding families_ok_def uses_marked_def shape_map [OF s] set_map ball_simps(9) by simp
  ultimately show ?thesis
    using assms unfolding families_ok_def revocation_rows shape_map [OF s] by blast
qed

subsection \<open>A new family and a new successor\<close>

text \<open>A row with a new hash is nobody's parent.\<close>

lemma set_append_one: "set (rows @ [r]) = insert r (set rows)"
  by simp

lemma hashes_append:
  assumes "hashes_ok rows" and "\<And>x. x \<in> set rows \<Longrightarrow> f_token_hash x \<noteq> f_token_hash r"
  shows "hashes_ok (rows @ [r])"
proof -
  have "f_token_hash r \<notin> f_token_hash ` set rows"
    using assms(2) by (metis imageE)
  with assms(1) show ?thesis by (simp add: hashes_ok_def)
qed

lemma pairs_append:
  "(\<forall>a\<in>set (rows @ [r]). \<forall>b\<in>set (rows @ [r]). q a b) \<longleftrightarrow>
    (\<forall>a\<in>set rows. \<forall>b\<in>set rows. q a b) \<and> (\<forall>a\<in>set rows. q a r \<and> q r a) \<and> q r r"
  by auto

lemma one_child_append:
  assumes "one_child rows" and "\<And>x. x \<in> set rows \<Longrightarrow> f_parent_hash r = None \<or> f_parent_hash x \<noteq> f_parent_hash r"
  shows "one_child (rows @ [r])"
  unfolding one_child_def
proof (intro ballI allI impI)
  fix a b h assume ab: "a \<in> set (rows @ [r])" "b \<in> set (rows @ [r])"
    and e: "f_parent_hash a = Some h \<and> f_parent_hash b = Some h"
  show "f_token_hash a = f_token_hash b"
  proof (cases "a = r \<or> b = r")
    case True
    then have "f_parent_hash r = Some h" using e by auto
    with assms(2) e have "x = r" if "x \<in> set (rows @ [r])" "f_parent_hash x = Some h" for x
      using that by fastforce
    with ab e show ?thesis by blast
  next
    case False
    then have "a \<in> set rows" "b \<in> set rows" using ab by auto
    with e assms(1) show ?thesis unfolding one_child_def by blast
  qed
qed

lemma lines_append:
  assumes "lines_ok rows" and "cur \<in> set rows" and "f_family_id r = f_family_id cur" and "f_grant_id r = f_grant_id cur"
    and "f_family_expires_at r = f_family_expires_at cur"
  shows "lines_ok (rows @ [r])"
  unfolding lines_ok_def
proof (intro ballI impI)
  fix a b assume ab: "a \<in> set (rows @ [r])" "b \<in> set (rows @ [r])" and e: "f_family_id a = f_family_id b"
  have twin: "\<exists>y\<in>set rows. f_family_id y = f_family_id x \<and> f_grant_id y = f_grant_id x \<and>
      f_family_expires_at y = f_family_expires_at x" if "x \<in> set (rows @ [r])" for x
    using that assms(2-5) by auto
  from twin [OF ab(1)] twin [OF ab(2)] e assms(1)
  show "f_grant_id a = f_grant_id b \<and> f_family_expires_at a = f_family_expires_at b"
    unfolding lines_ok_def by metis
qed

lemma one_root_insert:
  assumes "one_root rows"
    and "f_parent_hash r = None \<and> (\<forall>x\<in>set rows. f_family_id x \<noteq> f_family_id r) \<or>
      f_parent_hash r \<noteq> None \<and> (\<exists>x\<in>set rows. f_family_id x = f_family_id r)"
  shows "one_root (rows @ [r])"
  unfolding one_root_def set_append_one
proof (intro conjI ballI impI)
  fix a b assume ab: "a \<in> insert r (set rows)" "b \<in> insert r (set rows)"
    and e: "f_family_id a = f_family_id b \<and> f_parent_hash a = None \<and> f_parent_hash b = None"
  show "f_token_hash a = f_token_hash b"
  proof (cases "a = r \<or> b = r")
    case True
    show ?thesis
    proof (cases "f_parent_hash r = None")
      case par: True
      then have "\<forall>x\<in>set rows. f_family_id x \<noteq> f_family_id r" using assms(2) by simp
      with True ab e have "a = r" "b = r" by auto
      then show ?thesis by simp
    qed (use True e in auto)
  next
    case False
    with ab e assms(1) show ?thesis unfolding one_root_def by blast
  qed
next
  fix a assume "a \<in> insert r (set rows)"
  then show "\<exists>s\<in>insert r (set rows). f_family_id s = f_family_id a \<and> f_parent_hash s = None"
    using assms unfolding one_root_def by (metis insertCI insertE)
qed

lemma new_hash_childless:
  "parents_ok rows \<Longrightarrow> (\<And>x. x \<in> set rows \<Longrightarrow> f_token_hash x \<noteq> h) \<Longrightarrow> x \<in> set rows \<Longrightarrow> f_parent_hash x \<noteq> Some h"
  unfolding parents_ok_def by blast

lemma new_family_ok:
  assumes ok: "families_ok rows" and fam: "\<And>x. x \<in> set rows \<Longrightarrow> f_family_id x \<noteq> f_family_id r"
    and new: "\<And>x. x \<in> set rows \<Longrightarrow> f_token_hash x \<noteq> f_token_hash r" and root: "f_parent_hash r = None"
    and fresh: "f_successor_first_used_at r = None"
  shows "families_ok (rows @ [r])"
proof -
  have parts: "hashes_ok rows" "lines_ok rows" "parents_ok rows" "one_child rows" "one_root rows"
    "revoked_together rows" "uses_marked rows"
    using ok by (simp_all add: families_ok_def)
  note np = new_hash_childless [OF parts(3) new]
  have fam': "\<And>x. x \<in> set rows \<Longrightarrow> f_family_id r \<noteq> f_family_id x" using fam by metis
  have g: "has_grandchild (rows @ [r]) h = has_grandchild rows h" for h
    using root by (auto simp: has_grandchild_def)
  have "hashes_ok (rows @ [r])" by (rule hashes_append [OF parts(1) new])
  moreover have "lines_ok (rows @ [r])" using parts(2) fam fam'
    unfolding lines_ok_def pairs_append by blast
  moreover have "parents_ok (rows @ [r])" using parts(3) root by (fastforce simp: parents_ok_def)
  moreover have "one_child (rows @ [r])" by (rule one_child_append [OF parts(4)]) (use root in simp)
  moreover have "one_root (rows @ [r])" by (rule one_root_insert [OF parts(5)]) (use root fam in auto)
  moreover have "revoked_together (rows @ [r])" using parts(6) fam fam'
    unfolding revoked_together_def pairs_append by blast
  moreover have "\<not> has_grandchild rows (f_token_hash r)" using np by (auto simp: has_grandchild_def)
  then have "uses_marked (rows @ [r])"
    using parts(7) fresh by (simp add: uses_marked_def g)
  ultimately show ?thesis by (simp add: families_ok_def)
qed

lemma successor_ok:
  assumes "hashes_ok rows" and "lines_ok rows" and "parents_ok rows" and "one_child rows" and "one_root rows"
    and cur: "cur \<in> set rows" and nochild: "\<And>x. x \<in> set rows \<Longrightarrow> f_parent_hash x \<noteq> Some (f_token_hash cur)"
    and new: "\<And>x. x \<in> set rows \<Longrightarrow> f_token_hash x \<noteq> f_token_hash r" and par: "f_parent_hash r = Some (f_token_hash cur)"
    and line: "f_family_id r = f_family_id cur" "f_grant_id r = f_grant_id cur"
      "f_family_expires_at r = f_family_expires_at cur"
  shows "hashes_ok (rows @ [r])" and "lines_ok (rows @ [r])" and "parents_ok (rows @ [r])" and "one_child (rows @ [r])"
    and "one_root (rows @ [r])" and "has_grandchild (rows @ [r]) h \<longleftrightarrow> has_grandchild rows h \<or> f_parent_hash cur = Some h"
proof -
  note np = new_hash_childless [OF assms(3) new]
  have uniq: "x = cur" if "x \<in> set rows" "f_token_hash x = f_token_hash cur" for x
    using same_hash [OF assms(1) that(1) cur that(2)] .
  show "hashes_ok (rows @ [r])" by (rule hashes_append [OF assms(1) new])
  show "lines_ok (rows @ [r])"
    by (rule lines_append [OF assms(2) cur line])
  show "parents_ok (rows @ [r])"
    using assms(3) cur par line by (fastforce simp: parents_ok_def)
  show "one_child (rows @ [r])"
    by (rule one_child_append [OF assms(4)]) (use nochild par in simp)
  show "one_root (rows @ [r])"
    by (rule one_root_insert [OF assms(5)]) (use cur par line in auto)
  show "has_grandchild (rows @ [r]) h \<longleftrightarrow> has_grandchild rows h \<or> f_parent_hash cur = Some h"
  proof
    assume "has_grandchild (rows @ [r]) h"
    then show "has_grandchild rows h \<or> f_parent_hash cur = Some h"
      using par np uniq new [OF cur] by (auto simp: has_grandchild_def)
  next
    assume "has_grandchild rows h \<or> f_parent_hash cur = Some h"
    then show "has_grandchild (rows @ [r]) h"
      using par cur by (auto simp: has_grandchild_def)
  qed
qed

subsection \<open>Rotation\<close>

definition successor_row :: "(str \<Rightarrow> str) \<Rightarrow> refresh_use \<Rightarrow> refresh_row \<Rightarrow> refresh_row" where
  "successor_row sha a r =
     \<lparr>f_token_hash = sha (ru_successor a), f_family_id = f_family_id r, f_grant_id = f_grant_id r,
      f_parent_hash = Some (f_token_hash r), f_scope = f_scope r, f_issued_at = ru_now a,
      f_successor_first_used_at = None, f_family_expires_at = f_family_expires_at r,
      f_revoked_at = None, f_secret_gen = Some (ru_secretGen a), f_replay = Some (ru_replay a)\<rparr>"

text \<open>What the two updates of a rotation do to a row: the stored response goes, the parent is marked.\<close>

definition rotation_mark :: "refresh_use \<Rightarrow> refresh_row \<Rightarrow> refresh_row \<Rightarrow> refresh_row" where
  "rotation_mark a r x =
     (let x1 = (if (if ru_graceMs a > 0 then f_parent_hash r else Some (f_token_hash r)) = Some (f_token_hash x)
                then x\<lparr>f_replay := None\<rparr> else x) in
      if f_parent_hash r = Some (f_token_hash x)
      then x1\<lparr>f_successor_first_used_at :=
             (case f_successor_first_used_at x of None \<Rightarrow> Some (ru_now a) | Some u \<Rightarrow> Some u)\<rparr>
      else x1)"

definition rotated :: "(str \<Rightarrow> str) \<Rightarrow> refresh_use \<Rightarrow> refresh_row \<Rightarrow> refresh_row list \<Rightarrow> refresh_row list" where
  "rotated sha a r rows = map (rotation_mark a r) (rows @ [successor_row sha a r])"

lemma rotation_mark_shape: "same_shape x (rotation_mark a r x)"
  by (simp add: rotation_mark_def same_shape_def Let_def)

lemma rotation_mark_sel [simp]:
  "f_token_hash (rotation_mark a r x) = f_token_hash x" "f_parent_hash (rotation_mark a r x) = f_parent_hash x"
  "f_family_id (rotation_mark a r x) = f_family_id x" "f_grant_id (rotation_mark a r x) = f_grant_id x"
  "f_family_expires_at (rotation_mark a r x) = f_family_expires_at x" "f_revoked_at (rotation_mark a r x) = f_revoked_at x"
  "f_scope (rotation_mark a r x) = f_scope x"
  by (simp_all add: rotation_mark_def Let_def)

lemma rotation_mark_used:
  "f_successor_first_used_at (rotation_mark a r x) \<noteq> None \<longleftrightarrow>
     f_successor_first_used_at x \<noteq> None \<or> f_parent_hash r = Some (f_token_hash x)"
  by (simp add: rotation_mark_def Let_def split: option.splits)

lemma rotation_mark_replay: "f_replay (rotation_mark a r x) = Some z \<Longrightarrow> f_replay x = Some z"
  by (simp add: rotation_mark_def Let_def split: if_splits)

lemma rotation_mark_id: "f_parent_hash r = None \<Longrightarrow> 0 < ru_graceMs a \<Longrightarrow> rotation_mark a r = (\<lambda>x. x)"
  by (rule ext) (simp add: rotation_mark_def Let_def)

lemma useRefresh_rotates:
  assumes "useRefresh sha a db = (Some Rotate, db')"
  shows "\<exists>r g. r \<in> set (refreshes db) \<and> f_token_hash r = sha (ru_token a) \<and> find_grant (f_grant_id r) db = Some g \<and>
    g_revoked_at g = None \<and> f_revoked_at r = None \<and> child_of (f_token_hash r) db = None \<and>
    sha (ru_successor a) \<notin> f_token_hash ` set (refreshes db) \<and> db' = db\<lparr>refreshes := rotated sha a r (refreshes db)\<rparr>"
proof -
  from assms obtain cur where cur: "loadRefresh sha (ru_token a) db = Some cur"
    by (auto simp: useRefresh_def split: option.splits)
  then obtain r g where r: "find (\<lambda>r. f_token_hash r = sha (ru_token a)) (refreshes db) = Some r"
    "find_grant (f_grant_id r) db = Some g" "rr_row cur = r" "rr_grantRevoked cur \<longleftrightarrow> g_revoked_at g \<noteq> None"
    by (auto simp: loadRefresh_def split: option.splits)
  have st: "standing sha cur (ru_successor a) (ru_secretGen a) (ru_now a) (ru_graceMs a) db = Rotate"
    using assms cur by (auto simp: useRefresh_def Let_def split: if_splits option.splits)
  then have "f_revoked_at r = None" "g_revoked_at g = None" "child_of (f_token_hash r) db = None"
    using r by (auto simp: standing_def Let_def split: if_splits option.splits)
  moreover have "sha (ru_successor a) \<notin> f_token_hash ` set (refreshes db)"
    using assms cur st r by (auto simp: useRefresh_def Let_def insert_ref_def insert_row_def split: if_splits)
  moreover have "db' = db\<lparr>refreshes := rotated sha a r (refreshes db)\<rparr>"
    using assms cur st r
    by (cases "f_parent_hash r")
      (auto simp: useRefresh_def Let_def insert_ref_def insert_row_def update_rows_def rotated_def rotation_mark_def
        rotation_mark_id successor_row_def split: if_splits)
  ultimately show ?thesis using r find_in_set [OF r(1)] by blast
qed

lemma rotated_ok:
  assumes ok: "families_ok rows" and r: "r \<in> set rows" "f_revoked_at r = None"
    and nochild: "\<And>x. x \<in> set rows \<Longrightarrow> f_parent_hash x \<noteq> Some (f_token_hash r)"
    and new: "sha (ru_successor a) \<notin> f_token_hash ` set rows"
  shows "families_ok (rotated sha a r rows)"
proof -
  let ?n = "successor_row sha a r"
  have parts: "hashes_ok rows" "lines_ok rows" "parents_ok rows" "one_child rows" "one_root rows"
    "revoked_together rows" "uses_marked rows"
    using ok by (simp_all add: families_ok_def)
  have new': "f_token_hash x \<noteq> f_token_hash ?n" if "x \<in> set rows" for x
    using new that by (simp add: successor_row_def) (metis imageI)
  have line: "f_parent_hash ?n = Some (f_token_hash r)" "f_family_id ?n = f_family_id r" "f_grant_id ?n = f_grant_id r"
    "f_family_expires_at ?n = f_family_expires_at r"
    by (simp_all add: successor_row_def)
  note s = successor_ok [OF parts(1-5) r(1) nochild new' line]
  have gc: "has_grandchild (rows @ [?n]) h \<longleftrightarrow> has_grandchild rows h \<or> f_parent_hash r = Some h" for h
    by (rule successor_ok(6) [OF parts(1-5) r(1) nochild new' line])
  note sh = shape_map [of "rotation_mark a r", OF rotation_mark_shape]
  have live: "f_revoked_at x = None" if "x \<in> set rows" "f_family_id x = f_family_id r" for x
    using parts(6) r that unfolding revoked_together_def by metis
  have n: "f_revoked_at ?n = None" by (simp add: successor_row_def)
  have "revoked_together (rotated sha a r rows)"
    using parts(6) live n
    unfolding rotated_def revoked_together_def set_map ball_simps(9) pairs_append rotation_mark_sel line(2)
    by metis
  moreover
  have mark: "(f_successor_first_used_at x \<noteq> None \<or> f_parent_hash r = Some (f_token_hash x)) =
        has_grandchild (rows @ [?n]) (f_token_hash x)" if x: "x \<in> set (rows @ [?n])" for x
  proof (cases "x \<in> set rows")
    case True
    with parts(7) show ?thesis unfolding gc uses_marked_def by blast
  next
    case False
    with x have "x = ?n" by simp
    moreover have "\<not> has_grandchild rows (f_token_hash ?n)"
      using new_hash_childless [OF parts(3) new'] unfolding has_grandchild_def by blast
    ultimately show ?thesis unfolding gc by (simp add: successor_row_def)
  qed
  then have "uses_marked (rotated sha a r rows)"
    unfolding rotated_def uses_marked_def set_map ball_simps(9) rotation_mark_used rotation_mark_sel sh by blast
  ultimately show ?thesis
    using s(1-5) unfolding families_ok_def rotated_def sh by blast
qed

subsection \<open>Housekeeping\<close>

lemma filter_lines_ok:
  assumes ok: "families_ok rows"
  shows "families_ok (filter (\<lambda>r. \<not> f_family_expires_at r \<le> t) rows)"
proof -
  let ?p = "\<lambda>r. \<not> f_family_expires_at r \<le> t"
  have parts: "hashes_ok rows" "lines_ok rows" "parents_ok rows" "one_child rows" "one_root rows"
    "revoked_together rows" "uses_marked rows"
    using ok by (simp_all add: families_ok_def)
  have whole: "?p x" if "x \<in> set rows" "y \<in> set rows" "f_family_id x = f_family_id y" "?p y" for x y
    using parts(2) that unfolding lines_ok_def by metis
  have root: "\<exists>s\<in>set (filter ?p rows). f_family_id s = f_family_id r \<and> f_parent_hash s = None"
    if r: "r \<in> set rows" "?p r" for r
  proof -
    from parts(5) r(1) obtain s where s: "s \<in> set rows" "f_family_id s = f_family_id r" "f_parent_hash s = None"
      unfolding one_root_def by blast
    with whole [OF s(1) r(1) s(2) r(2)] show ?thesis by auto
  qed
  have par: "\<exists>p\<in>set (filter ?p rows). f_token_hash p = h \<and> f_family_id p = f_family_id r"
    if r: "r \<in> set rows" "?p r" "f_parent_hash r = Some h" for r h
  proof -
    from parts(3) r(1,3) obtain q where q: "q \<in> set rows" "f_token_hash q = h" "f_family_id q = f_family_id r"
      unfolding parents_ok_def by blast
    with whole [OF q(1) r(1) q(3) r(2)] show ?thesis by auto
  qed
  have child: "?p c" if "c \<in> set rows" "q \<in> set rows" "f_parent_hash c = Some (f_token_hash q)" "?p q" for c q
  proof -
    from parts(3) that(1,3) obtain q' where q': "q' \<in> set rows" "f_token_hash q' = f_token_hash q" "f_family_id q' = f_family_id c"
      unfolding parents_ok_def by blast
    then have "q' = q" using same_hash [OF parts(1)] that(2) by blast
    with q' show ?thesis using whole [OF that(1,2)] that(4) by simp
  qed
  have "uses_marked (filter ?p rows)"
    unfolding uses_marked_def
  proof
    fix q assume q: "q \<in> set (filter ?p rows)"
    then have q': "q \<in> set rows" "?p q" by simp_all
    have "has_grandchild (filter ?p rows) (f_token_hash q)" if gc: "has_grandchild rows (f_token_hash q)"
    proof -
      from gc obtain c d where c: "c \<in> set rows" "f_parent_hash c = Some (f_token_hash q)"
        and d: "d \<in> set rows" "f_parent_hash d = Some (f_token_hash c)"
        unfolding has_grandchild_def by blast
      have "?p c" by (rule child [OF c(1) q'(1) c(2) q'(2)])
      moreover from this have "?p d" by (rule child [OF d(1) c(1) d(2)])
      ultimately show ?thesis using c d unfolding has_grandchild_def by (metis (no_types, lifting) mem_Collect_eq set_filter)
    qed
    then have "has_grandchild rows (f_token_hash q) \<longleftrightarrow> has_grandchild (filter ?p rows) (f_token_hash q)"
      unfolding has_grandchild_def by (meson filter_is_subset subsetD)
    with q parts(7) show "(f_successor_first_used_at q \<noteq> None) = has_grandchild (filter ?p rows) (f_token_hash q)"
      by (simp add: uses_marked_def)
  qed
  moreover have "hashes_ok (filter ?p rows)" using parts(1) by (simp add: hashes_ok_def distinct_map_filter)
  moreover have "lines_ok (filter ?p rows)" using parts(2) unfolding lines_ok_def by (meson filter_is_subset subsetD)
  moreover have "parents_ok (filter ?p rows)"
    unfolding parents_ok_def
  proof (intro ballI allI impI)
    fix x h assume "x \<in> set (filter ?p rows)" "f_parent_hash x = Some h"
    with par show "\<exists>p\<in>set (filter ?p rows). f_token_hash p = h \<and> f_family_id p = f_family_id x"
      by (metis (no_types, lifting) mem_Collect_eq set_filter)
  qed
  moreover have "one_child (filter ?p rows)" using parts(4) unfolding one_child_def by (meson filter_is_subset subsetD)
  moreover have "one_root (filter ?p rows)"
    unfolding one_root_def
  proof (intro conjI ballI impI)
    fix x y assume "x \<in> set (filter ?p rows)" "y \<in> set (filter ?p rows)"
      "f_family_id x = f_family_id y \<and> f_parent_hash x = None \<and> f_parent_hash y = None"
    with parts(5) show "f_token_hash x = f_token_hash y"
      unfolding one_root_def by (meson filter_is_subset subsetD)
  next
    fix x assume "x \<in> set (filter ?p rows)"
    with root show "\<exists>s\<in>set (filter ?p rows). f_family_id s = f_family_id x \<and> f_parent_hash s = None" by simp
  qed
  moreover have "revoked_together (filter ?p rows)"
    using parts(6) unfolding revoked_together_def by (meson filter_is_subset subsetD)
  ultimately show ?thesis by (simp add: families_ok_def)
qed

end
