(* ===== verification/Oauth_Safety.thy ===== *)
theory Oauth_Safety
  imports Oauth_Families
begin

text \<open>
  What holds in every reachable world of the authorization server: the invariants behind the guarantees
  of the token endpoint, and the guarantees. The invariant is kept in four parts, for the codes, the
  refresh-token families, the answers that left, and the requests in flight.
\<close>

subsection \<open>Scope lists as strings\<close>

definition plain_word :: "str \<Rightarrow> bool" where
  "plain_word w \<longleftrightarrow> w \<noteq> [] \<and> (\<forall>c\<in>set w. \<not> js_space c)"

lemma plain_splitScope: "w \<in> set (splitScope s) \<Longrightarrow> plain_word w"
  using split_on_clean [of w js_space s] by (auto simp: splitScope_def plain_word_def)

lemma split_scopes:
  assumes "\<And>w. w \<in> set ws \<Longrightarrow> plain_word w"
  shows "set (splitScope (join_with '' '' ws)) = set ws"
proof (cases "ws = []")
  case False
  have "split_on js_space (join_with '' '' ws) = ws"
    by (rule split_join) (use assms False in \<open>auto simp: plain_word_def js_space_def\<close>)
  with assms show ?thesis by (auto simp: splitScope_def plain_word_def)
qed (simp add: splitScope_def)

lemma applyBounds_scopes: "applyBounds b scopes v = Bounded_ok left v' \<Longrightarrow> set left \<subseteq> set scopes"
  by (auto simp: applyBounds_def narrowScopes_def Let_def split: if_splits option.splits)

definition within :: "scope list \<Rightarrow> str \<Rightarrow> bool" where
  "within held scope \<longleftrightarrow> (\<forall>s\<in>set (splitScope scope). grantsScope held s)"

lemma grantsScope_member: "s \<in> set held \<Longrightarrow> grantsScope held s"
  using grantsScope_iff scope_covers_refl by blast

lemma within_refl: "within (splitScope s) s"
  unfolding within_def using grantsScope_member by blast

lemma within_trans: "within held a \<Longrightarrow> within (splitScope a) b \<Longrightarrow> within held b"
  unfolding within_def using grantsScope_through grantsAll_iff by metis

lemma within_join: "set ws \<subseteq> set (splitScope a) \<Longrightarrow> within (splitScope a) (join_with '' '' ws)"
  unfolding within_def using split_scopes [of ws] plain_splitScope grantsScope_member by (metis subsetD)

lemma wanted_plain: "w \<in> set (wanted_scopes (splitScope h) asked) \<Longrightarrow> plain_word w"
  by (auto simp: wanted_scopes_def Let_def intro: plain_splitScope split: if_splits field.splits)

subsection \<open>What a checked request carries\<close>

lemma exchange_subject_within:
  assumes "exchange_subject cfg client rec res db = Some subject"
  shows "as_familyId subject = cr_codeHash rec \<and> as_grantId subject = cr_grantId rec \<and>
    within (splitScope (cr_scope rec)) (as_scope subject)"
  using assms unfolding exchange_subject_def
  by (auto dest!: applyBounds_scopes intro: within_join split: option.splits bounded.splits)

lemma refresh_subject_within:
  assumes "refresh_subject client rec asked res db = Some subject"
  shows "as_familyId subject = f_family_id (rr_row rec) \<and> as_grantId subject = f_grant_id (rr_row rec) \<and>
    within (splitScope (f_scope (rr_row rec))) (as_scope subject)"
proof -
  let ?held = "splitScope (f_scope (rr_row rec))"
  from assms obtain scopes v b where c: "scopesCovered ?held (wanted_scopes ?held asked)"
    and b: "applyBounds b (wanted_scopes ?held asked) (rr_vault rec) = Bounded_ok scopes v"
    and s: "as_familyId subject = f_family_id (rr_row rec)" "as_grantId subject = f_grant_id (rr_row rec)"
      "as_scope subject = join_with '' '' scopes"
    unfolding refresh_subject_def Let_def by (auto split: if_splits option.splits bounded.splits)
  have "\<forall>w\<in>set scopes. plain_word w \<and> grantsScope ?held w"
    using applyBounds_scopes [OF b] c wanted_plain unfolding scopesCovered_def list_all_iff by blast
  then have "within ?held (as_scope subject)"
    unfolding within_def s(3) using split_scopes [of scopes] by blast
  with s show ?thesis by blast
qed

lemma exchange_check_go:
  assumes "exchange_check pf cfg client form t db = Exchange_go rec subject"
  shows "(\<exists>code. loadCode (pf_sha256 pf) code db = Some rec) \<and> as_familyId subject = cr_codeHash rec \<and>
    as_grantId subject = cr_grantId rec \<and> within (splitScope (cr_scope rec)) (as_scope subject)"
proof -
  from assms obtain code asked uri rec' where l: "loadCode (pf_sha256 pf) code db = Some rec'"
    and v: "verify_code pf cfg client form asked uri t rec' db = Exchange_go rec subject"
    unfolding exchange_check_def Let_def by (auto split: field.splits list.splits if_splits option.splits)
  from v have "rec' = rec" "\<exists>res. exchange_subject cfg client rec res db = Some subject"
    unfolding verify_code_def by (auto split: field.splits if_splits option.splits)
  with l exchange_subject_within show ?thesis by blast
qed

lemma refresh_check_subject:
  assumes "refresh_check pf cfg client token askedMember askedScope t db \<in> {Refresh_go rec subject, Refresh_retry rec subject}"
  shows "loadRefresh (pf_sha256 pf) token db = Some rec \<and> as_familyId subject = f_family_id (rr_row rec) \<and>
    as_grantId subject = f_grant_id (rr_row rec) \<and> within (splitScope (f_scope (rr_row rec))) (as_scope subject)"
proof -
  from assms obtain res where "loadRefresh (pf_sha256 pf) token db = Some rec"
    "refresh_subject client rec askedScope res db = Some subject"
    unfolding refresh_check_def Let_def by (auto split: if_splits option.splits)
  with refresh_subject_within show ?thesis by blast
qed

lemma loadRefresh_row: "loadRefresh sha token db = Some rec \<Longrightarrow> rr_row rec \<in> set (refreshes db) \<and> f_token_hash (rr_row rec) = sha token"
  by (auto simp: loadRefresh_def split: option.splits dest: find_in_set)

lemma loadCode_row: "loadCode sha code db = Some rec \<Longrightarrow>
    \<exists>k\<in>set (codes db). k_code_hash k = cr_codeHash rec \<and> k_grant_id k = cr_grantId rec \<and> k_request_scope k = cr_scope rec"
  by (auto simp: loadCode_def split: option.splits dest!: find_in_set)

subsection \<open>The invariant\<close>

definition consented :: "world \<Rightarrow> str \<Rightarrow> str \<Rightarrow> str \<Rightarrow> bool" where
  "consented w fam grantId scope \<longleftrightarrow>
     (\<exists>co. (fam, co) \<in> set (w_consents w) \<and> co_grantId co = grantId \<and>
        within (splitScope (join_with '' '' (ap_scopes (co_approval co)))) scope)"

definition recorded :: "world \<Rightarrow> str \<Rightarrow> str \<Rightarrow> str \<Rightarrow> bool" where
  "recorded w fam grantId jti \<longleftrightarrow> jti \<in> set (w_swept w) \<or>
     (\<exists>a\<in>set (accesses (w_db w)). a_jti a = jti \<and> a_family_id a = fam \<and> a_grant_id a = grantId)"

text \<open>A token that can no longer be used, or will not be once the outbox is paid.\<close>

definition settled :: "world \<Rightarrow> str \<Rightarrow> bool" where
  "settled w jti \<longleftrightarrow> isRevoked jti (w_reg w) \<or> jti \<in> w_jti ` set (outbox (w_db w)) \<or> jti \<in> set (w_swept w)"

definition grant_dead :: "world \<Rightarrow> str \<Rightarrow> bool" where
  "grant_dead w i \<longleftrightarrow> (\<exists>g\<in>set (grants (w_db w)). g_id g = i \<and> g_revoked_at g \<noteq> None)"

definition codes_inv :: "world \<Rightarrow> bool" where
  "codes_inv w \<longleftrightarrow> distinct (map g_id (grants (w_db w))) \<and> distinct (map fst (w_consents w)) \<and>
     distinct (map k_code_hash (codes (w_db w))) \<and> distinct (map fst (w_spent w)) \<and> fst ` set (w_spent w) \<subseteq> fst ` set (w_consents w) \<and>
     set (w_retired w) \<subseteq> fst ` set (w_spent w) \<and>
     (\<forall>k\<in>set (codes (w_db w)). consented w (k_code_hash k) (k_grant_id k) (k_request_scope k) \<and>
        (k_used_at k = None \<longrightarrow> k_code_hash k \<notin> fst ` set (w_spent w)))"

definition rows_inv :: "world \<Rightarrow> bool" where
  "rows_inv w \<longleftrightarrow> families_ok (refreshes (w_db w)) \<and> distinct (map fst (w_tokens w)) \<and>
     (\<forall>r\<in>set (refreshes (w_db w)). (f_token_hash r, f_family_id r) \<in> set (w_tokens w) \<and>
        f_family_id r \<in> fst ` set (w_spent w) \<and> consented w (f_family_id r) (f_grant_id r) (f_scope r) \<and>
        (f_family_id r \<in> set (w_retired w) \<longrightarrow> f_revoked_at r \<noteq> None))"

text \<open>A stored response is one that left, for the same family and grant.\<close>

definition stored_inv :: "platform \<Rightarrow> world \<Rightarrow> bool" where
  "stored_inv pf w \<longleftrightarrow> (\<forall>r\<in>set (refreshes (w_db w)). \<forall>sealed. f_replay r = Some sealed \<longrightarrow>
     (\<exists>y\<in>set (w_out w). as_familyId (an_subject y) = f_family_id r \<and> as_grantId (an_subject y) = f_grant_id r \<and>
        seals pf sealed (an_subject y) (an_jti y)))"

definition answer_ok :: "world \<Rightarrow> access_subject \<Rightarrow> str \<Rightarrow> bool" where
  "answer_ok w s jti \<longleftrightarrow> as_familyId s \<in> fst ` set (w_spent w) \<and>
     consented w (as_familyId s) (as_grantId s) (as_scope s) \<and> recorded w (as_familyId s) (as_grantId s) jti \<and>
     (as_familyId s \<in> set (w_retired w) \<or> grant_dead w (as_grantId s) \<longrightarrow> settled w jti)"

definition out_inv :: "world \<Rightarrow> bool" where
  "out_inv w \<longleftrightarrow> (\<forall>y\<in>set (w_out w). answer_ok w (an_subject y) (an_jti y))"

fun flight_ok :: "platform \<Rightarrow> world \<Rightarrow> flight \<Rightarrow> bool" where
  "flight_ok pf w (Exchanging client s) = consented w (as_familyId s) (as_grantId s) (as_scope s)"
| "flight_ok pf w (Exchange_minted client s jti) =
     (consented w (as_familyId s) (as_grantId s) (as_scope s) \<and> recorded w (as_familyId s) (as_grantId s) jti)"
| "flight_ok pf w (Refreshing token rec s) =
     ((pf_sha256 pf token, as_familyId s) \<in> set (w_tokens w) \<and> f_family_id (rr_row rec) = as_familyId s \<and>
      f_token_hash (rr_row rec) = pf_sha256 pf token \<and> consented w (as_familyId s) (as_grantId s) (as_scope s))"
| "flight_ok pf w (Refresh_minted token rec s jti) =
     ((pf_sha256 pf token, as_familyId s) \<in> set (w_tokens w) \<and> f_family_id (rr_row rec) = as_familyId s \<and>
      f_token_hash (rr_row rec) = pf_sha256 pf token \<and> consented w (as_familyId s) (as_grantId s) (as_scope s) \<and>
      recorded w (as_familyId s) (as_grantId s) jti)"
| "flight_ok pf w (Replaying token rec s) =
     ((pf_sha256 pf token, as_familyId s) \<in> set (w_tokens w) \<and> f_family_id (rr_row rec) = as_familyId s \<and>
      f_token_hash (rr_row rec) = pf_sha256 pf token \<and> consented w (as_familyId s) (as_grantId s) (as_scope s))"

definition as_inv :: "platform \<Rightarrow> world \<Rightarrow> bool" where
  "as_inv pf w \<longleftrightarrow> codes_inv w \<and> rows_inv w \<and> stored_inv pf w \<and> out_inv w \<and> (\<forall>x\<in>set (w_flights w). flight_ok pf w x)"

subsection \<open>Steps that leave the tables of the flow alone\<close>

lemma consented_mono:
  "set (w_consents w) \<subseteq> set (w_consents w') \<Longrightarrow> consented w f g s \<Longrightarrow> consented w' f g s"
  unfolding consented_def by blast

lemma flight_mono:
  assumes "set (w_consents w) \<subseteq> set (w_consents w')" and "set (w_tokens w) \<subseteq> set (w_tokens w')"
    and "\<And>f g j. recorded w f g j \<Longrightarrow> recorded w' f g j" and "flight_ok pf w x"
  shows "flight_ok pf w' x"
  using assms(4) assms(2,3) consented_mono [OF assms(1)] by (cases x) auto

lemma flights_mono:
  assumes "\<forall>x\<in>set (w_flights w). flight_ok pf w x" and "w_flights w' = w_flights w"
    and "set (w_consents w) \<subseteq> set (w_consents w')" and "set (w_tokens w) \<subseteq> set (w_tokens w')"
    and "\<And>f g j. recorded w f g j \<Longrightarrow> recorded w' f g j"
  shows "\<forall>x\<in>set (w_flights w'). flight_ok pf w' x"
proof
  fix x assume "x \<in> set (w_flights w')"
  with assms(1,2) have x: "flight_ok pf w x" by simp
  show "flight_ok pf w' x" by (rule flight_mono [OF assms(3,4) _ x]) (rule assms(5))
qed

definition same_flow :: "world \<Rightarrow> world \<Rightarrow> bool" where
  "same_flow w w' \<longleftrightarrow> grants (w_db w') = grants (w_db w) \<and> codes (w_db w') = codes (w_db w) \<and>
     refreshes (w_db w') = refreshes (w_db w) \<and> w_out w' = w_out w \<and> w_consents w' = w_consents w \<and>
     w_tokens w' = w_tokens w \<and> w_spent w' = w_spent w \<and> w_retired w' = w_retired w"

definition keeps_records :: "world \<Rightarrow> world \<Rightarrow> bool" where
  "keeps_records w w' \<longleftrightarrow> (\<forall>f g j. recorded w f g j \<longrightarrow> recorded w' f g j) \<and> (\<forall>j. settled w j \<longrightarrow> settled w' j)"

lemma quiet_step:
  assumes inv: "as_inv pf w" and same: "same_flow w w'" and keep: "keeps_records w w'"
    and new: "\<And>x. x \<in> set (w_flights w') \<Longrightarrow> x \<in> set (w_flights w) \<or> flight_ok pf w' x"
  shows "as_inv pf w'"
proof -
  note s = same [unfolded same_flow_def]
  have c: "consented w' = consented w" using s by (simp add: consented_def fun_eq_iff)
  have g: "grant_dead w' = grant_dead w" using s by (simp add: grant_dead_def fun_eq_iff)
  have "codes_inv w'" "rows_inv w'" "stored_inv pf w'"
    using inv s c unfolding as_inv_def codes_inv_def rows_inv_def stored_inv_def by simp_all
  moreover have "out_inv w'"
    using inv keep unfolding as_inv_def out_inv_def answer_ok_def keeps_records_def c g using s by metis
  moreover have "flight_ok pf w' x" if x: "x \<in> set (w_flights w')" for x
  proof (cases "x \<in> set (w_flights w)")
    case True
    with inv have ok: "flight_ok pf w x" by (simp add: as_inv_def)
    show ?thesis by (rule flight_mono [OF _ _ _ ok]) (use s keep in \<open>auto simp: keeps_records_def\<close>)
  qed (use new [OF x] in simp)
  ultimately show ?thesis by (simp add: as_inv_def)
qed

lemma fly_inv: "as_inv pf w \<Longrightarrow> flight_ok pf w x \<Longrightarrow> as_inv pf (fly x w)"
proof (rule quiet_step [where w = w])
  assume x: "flight_ok pf w x"
  show "y \<in> set (w_flights w) \<or> flight_ok pf (fly x w) y" if "y \<in> set (w_flights (fly x w))" for y
  proof (cases "y = x")
    case True
    have "flight_ok pf (fly x w) x"
      by (rule flight_mono [OF _ _ _ x]) (simp_all add: fly_def recorded_def)
    with True show ?thesis by simp
  qed (use that in \<open>simp add: fly_def\<close>)
qed (simp_all add: same_flow_def keeps_records_def fly_def recorded_def settled_def)

lemma isRevoked_append: "isRevoked j reg \<Longrightarrow> isRevoked j (reg @ xs)"
  by (simp add: isRevoked_def map_add_def split: option.splits)

lemma isRevoked_revoke: "isRevoked j reg \<Longrightarrow> isRevoked j (reg_revoke jti t reg)"
  by (auto simp: isRevoked_def reg_revoke_def map_add_def update_conv' split: option.splits)

lemma mint_effect:
  assumes "mintAccessToken n t jti fails s (db, reg) = (ok, db', reg')"
  shows "\<exists>as. db' = db\<lparr>accesses := accesses db @ as\<rparr> \<and> (\<exists>xs. reg' = reg @ xs) \<and>
    (ok \<longrightarrow> (\<exists>a\<in>set as. a_jti a = jti \<and> a_family_id a = as_familyId s \<and> a_grant_id a = as_grantId s))"
  using assms
  by (auto simp: mintAccessToken_def recordIssuedAccess_def Let_def insert_ref_def insert_row_def
      split: if_splits option.splits intro: exI [where x = "[]"])

lemma mint_inv:
  assumes inv: "as_inv pf w" and m: "mintAccessToken n t jti fails s (w_db w, w_reg w) = (ok, db, reg)"
  shows "as_inv pf (w\<lparr>w_db := db, w_reg := reg\<rparr>)"
    and "ok \<Longrightarrow> recorded (w\<lparr>w_db := db, w_reg := reg\<rparr>) (as_familyId s) (as_grantId s) jti"
    and "keeps_records w (w\<lparr>w_db := db, w_reg := reg\<rparr>)"
proof -
  obtain as xs where e: "db = (w_db w)\<lparr>accesses := accesses (w_db w) @ as\<rparr>" "reg = w_reg w @ xs"
    and a: "ok \<longrightarrow> (\<exists>a\<in>set as. a_jti a = jti \<and> a_family_id a = as_familyId s \<and> a_grant_id a = as_grantId s)"
    using mint_effect [OF m] by blast
  show k: "keeps_records w (w\<lparr>w_db := db, w_reg := reg\<rparr>)"
    by (auto simp: keeps_records_def recorded_def settled_def e isRevoked_append)
  show "as_inv pf (w\<lparr>w_db := db, w_reg := reg\<rparr>)"
    by (rule quiet_step [OF inv _ k]) (simp_all add: same_flow_def e)
  show "recorded (w\<lparr>w_db := db, w_reg := reg\<rparr>) (as_familyId s) (as_grantId s) jti" if ok
    using a that by (auto simp: recorded_def e)
qed

lemma minted_flight:
  assumes inv: "as_inv pf w" and m: "mintAccessToken n t jti fails s (w_db w, w_reg w) = (ok, db, reg)"
    and x: "\<And>v. set (w_consents v) = set (w_consents w) \<Longrightarrow> set (w_tokens v) = set (w_tokens w) \<Longrightarrow>
      recorded v (as_familyId s) (as_grantId s) jti \<Longrightarrow> flight_ok pf v x"
  shows "as_inv pf ((if ok then fly x else (\<lambda>w. w)) (w\<lparr>w_db := db, w_reg := reg\<rparr>))"
  using mint_inv(1) [OF inv m] mint_inv(2) [OF inv m] x by (auto intro!: fly_inv)

subsection \<open>Steps of the token endpoint\<close>

lemma begins_inv:
  assumes inv: "as_inv pf w"
  shows "exchange_check pf cfg client form t (w_db w) = Exchange_go rec subject \<Longrightarrow> as_inv pf (fly (Exchanging client subject) w)"
    and "refresh_check pf cfg client token asked scope t (w_db w) = Refresh_go rr subject \<Longrightarrow>
      as_inv pf (fly (Refreshing token rr subject) w)"
    and "refresh_check pf cfg client token asked scope t (w_db w) = Refresh_retry rr subject \<Longrightarrow>
      as_inv pf (fly (Replaying token rr subject) w)"
proof -
  assume "exchange_check pf cfg client form t (w_db w) = Exchange_go rec subject"
  then obtain k where k: "k \<in> set (codes (w_db w))" "k_code_hash k = as_familyId subject" "k_grant_id k = as_grantId subject"
    "within (splitScope (k_request_scope k)) (as_scope subject)"
    using exchange_check_go loadCode_row by metis
  with inv have "consented w (as_familyId subject) (as_grantId subject) (as_scope subject)"
    unfolding as_inv_def codes_inv_def consented_def by (metis within_trans)
  then show "as_inv pf (fly (Exchanging client subject) w)" using inv by (intro fly_inv) simp_all
next
  have "consented w (as_familyId subject) (as_grantId subject) (as_scope subject) \<and>
      (pf_sha256 pf token, as_familyId subject) \<in> set (w_tokens w) \<and> f_family_id (rr_row rr) = as_familyId subject \<and>
      f_token_hash (rr_row rr) = pf_sha256 pf token"
    if c: "refresh_check pf cfg client token asked scope t (w_db w) \<in> {Refresh_go rr subject, Refresh_retry rr subject}"
  proof -
    note s = refresh_check_subject [OF c]
    then have r: "rr_row rr \<in> set (refreshes (w_db w))" "f_token_hash (rr_row rr) = pf_sha256 pf token"
      using loadRefresh_row by blast+
    with inv have "(pf_sha256 pf token, f_family_id (rr_row rr)) \<in> set (w_tokens w)"
      "consented w (f_family_id (rr_row rr)) (f_grant_id (rr_row rr)) (f_scope (rr_row rr))"
      unfolding as_inv_def rows_inv_def by metis+
    with s r show ?thesis unfolding consented_def by (metis within_trans)
  qed
  then show "refresh_check pf cfg client token asked scope t (w_db w) = Refresh_go rr subject \<Longrightarrow>
      as_inv pf (fly (Refreshing token rr subject) w)"
    and "refresh_check pf cfg client token asked scope t (w_db w) = Refresh_retry rr subject \<Longrightarrow>
      as_inv pf (fly (Replaying token rr subject) w)"
    using inv by (auto intro!: fly_inv)
qed

lemma find_grant_row:
  "find_grant i db = Some g \<Longrightarrow> g \<in> set (grants db) \<and> g_id g = i"
  unfolding find_grant_def by (rule find_in_set)

lemma live_grant_alive:
  assumes "distinct (map g_id (grants (w_db w)))" and "find_grant i (w_db w) = Some g" and "g_revoked_at g = None"
  shows "\<not> grant_dead w i"
proof
  assume "grant_dead w i"
  then obtain h where h: "h \<in> set (grants (w_db w))" "g_id h = i" "g_revoked_at h \<noteq> None"
    unfolding grant_dead_def by blast
  with assms(1) find_grant_row [OF assms(2)] have "h = g" by (metis distinct_map inj_onD)
  with h(3) assms(3) show False by simp
qed

lemma consented_grant:
  assumes "codes_inv w" and "consented w f g s" and "consented w f g' s'"
  shows "g = g'"
  using assms unfolding codes_inv_def consented_def by (metis map_of_eq_Some_iff option.inject)

lemma token_family:
  assumes "rows_inv w" and "(h, f) \<in> set (w_tokens w)" and "(h, f') \<in> set (w_tokens w)"
  shows "f = f'"
  using assms unfolding rows_inv_def by (metis map_of_eq_Some_iff option.inject)

text \<open>The row a flight spends, or replays from, is of the family and grant the flight is about.\<close>

lemma flight_row:
  assumes inv: "as_inv pf w" and tok: "(h, as_familyId s) \<in> set (w_tokens w)"
    and con: "consented w (as_familyId s) (as_grantId s) (as_scope s)"
    and r: "r \<in> set (refreshes (w_db w))" "f_token_hash r = h"
  shows "f_family_id r = as_familyId s" and "f_grant_id r = as_grantId s"
proof -
  have i: "rows_inv w" "codes_inv w" using inv by (simp_all add: as_inv_def)
  from i(1) r have t: "(h, f_family_id r) \<in> set (w_tokens w)"
    and c: "consented w (f_family_id r) (f_grant_id r) (f_scope r)"
    unfolding rows_inv_def by blast+
  show f: "f_family_id r = as_familyId s" by (rule token_family [OF i(1) t tok])
  show "f_grant_id r = as_grantId s" using consented_grant [OF i(2)] c con unfolding f by blast
qed

lemma retry_inv:
  assumes inv: "as_inv pf w" and fl: "Replaying token rec s \<in> set (w_flights w)"
    and a: "replayed pf cfg suc rec s t (w_db w, w_reg w) = Some answer"
  shows "as_inv pf (w\<lparr>w_out := answer # w_out w\<rparr>)"
proof -
  from inv fl have ok: "(pf_sha256 pf token, as_familyId s) \<in> set (w_tokens w)"
    "f_token_hash (rr_row rec) = pf_sha256 pf token" "consented w (as_familyId s) (as_grantId s) (as_scope s)"
    unfolding as_inv_def by force+
  from a obtain c sealed stored where c: "child_of (f_token_hash (rr_row rec)) (w_db w) = Some c" "f_replay c = Some sealed"
    and st: "pf_open pf (tc_secret cfg) (f_token_hash (rr_row rec)) sealed = Some stored"
    and an: "an_subject answer = s" "an_jti answer = rp_jti stored"
    by (auto simp: replayed_def loadReplay_def Let_def split: option.splits if_splits)
  note cr = child_of_Some [OF c(1)]
  have "parents_ok (refreshes (w_db w))" using inv by (simp add: as_inv_def rows_inv_def families_ok_def)
  with cr ok(2) obtain p where p: "p \<in> set (refreshes (w_db w))" "f_token_hash p = pf_sha256 pf token"
    "f_family_id p = f_family_id c" unfolding parents_ok_def by metis
  have fam: "f_family_id c = as_familyId s" using flight_row(1) [OF inv ok(1,3) p(1,2)] p(3) by simp
  have "consented w (f_family_id c) (f_grant_id c) (f_scope c)" "codes_inv w"
    using inv cr by (simp_all add: as_inv_def rows_inv_def)
  then have gr: "f_grant_id c = as_grantId s" using consented_grant ok(3) unfolding fam by blast
  from inv cr c(2) obtain y where y: "y \<in> set (w_out w)" "as_familyId (an_subject y) = as_familyId s"
    "as_grantId (an_subject y) = as_grantId s" "seals pf sealed (an_subject y) (an_jti y)"
    unfolding as_inv_def stored_inv_def fam [symmetric] gr [symmetric] by blast
  with st have j: "an_jti answer = an_jti y" using an by (simp add: seals_def)
  let ?w = "w\<lparr>w_out := answer # w_out w\<rparr>"
  have frame: "consented ?w = consented w" "recorded ?w = recorded w" "settled ?w = settled w" "grant_dead ?w = grant_dead w"
    by (simp_all add: consented_def recorded_def settled_def grant_dead_def fun_eq_iff)
  have frame': "answer_ok ?w = answer_ok w" unfolding fun_eq_iff answer_ok_def frame by simp
  have "answer_ok w (an_subject y) (an_jti y)" using inv y(1) unfolding as_inv_def out_inv_def by blast
  then have "answer_ok w s (an_jti y)" using ok(3) unfolding answer_ok_def y(2,3) by blast
  then have "out_inv ?w"
    using inv unfolding as_inv_def out_inv_def frame' by (simp add: an(1) j)
  moreover have "codes_inv ?w" "rows_inv ?w" "stored_inv pf ?w"
    using inv unfolding as_inv_def codes_inv_def rows_inv_def stored_inv_def frame by auto
  moreover have "\<forall>x\<in>set (w_flights ?w). flight_ok pf ?w x"
    by (rule flights_mono [where w = w]) (use inv in \<open>simp_all add: as_inv_def frame\<close>)
  ultimately show ?thesis by (simp add: as_inv_def)
qed

definition first_row :: "(str \<Rightarrow> str) \<Rightarrow> new_family \<Rightarrow> str \<Rightarrow> refresh_row" where
  "first_row sha f token =
     \<lparr>f_token_hash = sha token, f_family_id = nf_codeHash f, f_grant_id = nf_grantId f, f_parent_hash = None,
      f_scope = nf_scope f, f_issued_at = nf_now f, f_successor_first_used_at = None,
      f_family_expires_at = nf_now f + nf_days f * day_ms, f_revoked_at = None, f_secret_gen = Some (nf_secretGen f),
      f_replay = None\<rparr>"

lemma consume_effect:
  assumes "consumeCodeAndStartFamily sha f db = (Some True, db')"
  shows "\<exists>g k. find_grant (nf_grantId f) db = Some g \<and> g_revoked_at g = None \<and>
    k \<in> set (codes db) \<and> usable_code (nf_codeHash f) (nf_now f) k \<and>
    db' = db\<lparr>codes := update_rows (usable_code (nf_codeHash f) (nf_now f)) (\<lambda>k. k\<lparr>k_used_at := Some (nf_now f)\<rparr>) (codes db),
      refreshes := refreshes db @ (case nf_token f of None \<Rightarrow> [] | Some token \<Rightarrow> [first_row sha f token])\<rparr>"
proof -
  from assms obtain g where g: "find_grant (nf_grantId f) db = Some g" "g_revoked_at g = None"
    and n: "length (filter (usable_code (nf_codeHash f) (nf_now f)) (codes db)) = 1"
    by (auto simp: consumeCodeAndStartFamily_def consumeCode_def split: option.splits if_splits prod.splits bool.splits)
  from n have "filter (usable_code (nf_codeHash f) (nf_now f)) (codes db) \<noteq> []" by auto
  then obtain k where "k \<in> set (codes db)" "usable_code (nf_codeHash f) (nf_now f) k"
    unfolding filter_empty_conv by blast
  moreover have "db' = db\<lparr>codes := update_rows (usable_code (nf_codeHash f) (nf_now f)) (\<lambda>k. k\<lparr>k_used_at := Some (nf_now f)\<rparr>) (codes db),
      refreshes := refreshes db @ (case nf_token f of None \<Rightarrow> [] | Some token \<Rightarrow> [first_row sha f token])\<rparr>"
    using assms g n
    by (auto simp: consumeCodeAndStartFamily_def consumeCode_def insert_ref_def insert_row_def first_row_def
        split: option.splits if_splits)
  ultimately show ?thesis using g by blast
qed

lemma family_starts_ok:
  assumes inv: "as_inv pf w" and f: "as_familyId s \<notin> fst ` set (w_spent w)"
    and new: "sha token \<notin> fst ` set (w_tokens w)"
    and n: "nf_codeHash nf = as_familyId s"
  shows "families_ok (refreshes (w_db w) @ [first_row sha nf token])"
proof (rule new_family_ok)
  have r: "rows_inv w" using inv by (simp add: as_inv_def)
  then show "families_ok (refreshes (w_db w))" by (simp add: rows_inv_def)
  fix x assume x: "x \<in> set (refreshes (w_db w))"
  with r have "f_family_id x \<in> fst ` set (w_spent w)" "f_token_hash x \<in> fst ` set (w_tokens w)"
    unfolding rows_inv_def by force+
  with f new n show "f_family_id x \<noteq> f_family_id (first_row sha nf token)" "f_token_hash x \<noteq> f_token_hash (first_row sha nf token)"
    unfolding first_row_def by (metis refresh_row.select_convs(1,2))+
qed (simp_all add: first_row_def)

lemma exchange_inv:
  assumes inv: "as_inv pf w" and fl: "Exchange_minted client s jti \<in> set (w_flights w)"
    and c: "exchange_commit pf cfg client newToken s t (w_db w) = (Some True, db)"
    and new: "pf_sha256 pf newToken \<notin> fst ` set (w_tokens w)"
  shows "as_inv pf (w\<lparr>w_db := db, w_out := exchange_answer cfg client newToken s jti # w_out w,
       w_tokens := (if wants_refresh client then [(pf_sha256 pf newToken, as_familyId s)] else []) @ w_tokens w,
       w_spent := (as_familyId s, jti) # w_spent w\<rparr>)" (is "as_inv pf ?w")
proof -
  let ?f = "exchange_family pf cfg client newToken s t"
  have nf: "nf_codeHash ?f = as_familyId s" "nf_grantId ?f = as_grantId s" "nf_scope ?f = as_scope s" "nf_now ?f = t"
    "nf_token ?f = (if wants_refresh client then Some newToken else None)"
    by (simp_all add: exchange_family_def)
  obtain g k where g: "find_grant (as_grantId s) (w_db w) = Some g" "g_revoked_at g = None"
    and k: "k \<in> set (codes (w_db w))" "usable_code (as_familyId s) t k"
    and db: "db = (w_db w)\<lparr>codes := update_rows (usable_code (as_familyId s) t) (\<lambda>k. k\<lparr>k_used_at := Some t\<rparr>) (codes (w_db w)),
      refreshes := refreshes (w_db w) @ (if wants_refresh client then [first_row (pf_sha256 pf) ?f newToken] else [])\<rparr>"
    using consume_effect [OF c [unfolded exchange_commit_def]] unfolding nf by (auto split: if_splits)
  have i: "codes_inv w" "rows_inv w" "stored_inv pf w" "out_inv w" "\<forall>x\<in>set (w_flights w). flight_ok pf w x"
    using inv by (simp_all add: as_inv_def)
  from i(5) fl have con: "consented w (as_familyId s) (as_grantId s) (as_scope s)"
    and rec: "recorded w (as_familyId s) (as_grantId s) jti" by force+
  from k i(1) have unspent: "as_familyId s \<notin> fst ` set (w_spent w)"
    unfolding codes_inv_def usable_code_def by metis
  then have live: "as_familyId s \<notin> set (w_retired w)" using i(1) unfolding codes_inv_def by blast
  have frame: "consented ?w = consented w" "recorded ?w = recorded w" "settled ?w = settled w" "grant_dead ?w = grant_dead w"
    by (simp_all add: consented_def recorded_def settled_def grant_dead_def fun_eq_iff db)
  have alive: "\<not> grant_dead w (as_grantId s)"
    by (rule live_grant_alive [OF _ g]) (use i(1) in \<open>simp add: codes_inv_def\<close>)
  have "answer_ok ?w s jti" unfolding answer_ok_def frame using con rec live alive by simp
  moreover have "answer_ok ?w y j" if "answer_ok w y j" for y j
    using that unfolding answer_ok_def frame by simp
  ultimately have "out_inv ?w" using i(4) by (simp add: out_inv_def exchange_answer_def)
  moreover have "codes_inv ?w"
  proof -
    have one: "k' = k" if "k' \<in> set (codes (w_db w))" "k_code_hash k' = as_familyId s" for k'
      using that k i(1) unfolding codes_inv_def usable_code_def by (metis distinct_map inj_onD)
    have "as_familyId s \<in> fst ` set (w_consents w)" using con unfolding consented_def by force
    moreover have "map k_code_hash (codes db) = map k_code_hash (codes (w_db w))"
      by (simp add: db update_rows_map)
    moreover have "consented w (k_code_hash x) (k_grant_id x) (k_request_scope x) \<and>
        (k_used_at x = None \<longrightarrow> k_code_hash x \<notin> fst ` set (w_spent w) \<and> k_code_hash x \<noteq> as_familyId s)"
      if x: "x \<in> set (codes db)" for x
    proof -
      from x obtain x0 where x0: "x0 \<in> set (codes (w_db w))"
        "x = (if usable_code (as_familyId s) t x0 then x0\<lparr>k_used_at := Some t\<rparr> else x0)"
        by (auto simp: db update_rows_map)
      with i(1) have "consented w (k_code_hash x0) (k_grant_id x0) (k_request_scope x0)"
        "k_used_at x0 = None \<Longrightarrow> k_code_hash x0 \<notin> fst ` set (w_spent w)"
        unfolding codes_inv_def by blast+
      with x0 one [of x0] k(2) show ?thesis by auto
    qed
    ultimately show ?thesis using i(1) unspent unfolding codes_inv_def frame by (auto simp: db)
  qed
  moreover have "rows_inv ?w \<and> stored_inv pf ?w"
  proof (cases "wants_refresh client")
    case False
    then show ?thesis using i(2,3) unfolding rows_inv_def stored_inv_def frame by (auto simp: db)
  next
    case True
    have "families_ok (refreshes db)"
      using family_starts_ok [where sha = "pf_sha256 pf" and token = newToken, OF inv unspent new nf(1)] True by (simp add: db)
    moreover have "f_family_id (first_row (pf_sha256 pf) ?f newToken) = as_familyId s"
      "f_grant_id (first_row (pf_sha256 pf) ?f newToken) = as_grantId s" "f_scope (first_row (pf_sha256 pf) ?f newToken) = as_scope s"
      "f_token_hash (first_row (pf_sha256 pf) ?f newToken) = pf_sha256 pf newToken" "f_replay (first_row (pf_sha256 pf) ?f newToken) = None"
      by (simp_all add: first_row_def nf)
    ultimately show ?thesis
      using True i(2,3) new con live unfolding rows_inv_def stored_inv_def frame by (auto simp: db)
  qed
  moreover have "\<forall>x\<in>set (w_flights ?w). flight_ok pf ?w x"
    by (rule flights_mono [where w = w]) (use i(5) in \<open>auto simp: frame\<close>)
  ultimately show ?thesis by (simp add: as_inv_def)
qed

lemma rotated_rows:
  assumes "x \<in> set (rotated sha a r rows)"
  shows "(\<exists>x0\<in>set rows. x = rotation_mark a r x0) \<or> x = rotation_mark a r (successor_row sha a r)"
  using assms by (auto simp: rotated_def)

lemma rotation_inv:
  assumes inv: "as_inv pf w" and fl: "Refresh_minted token rec s jti \<in> set (w_flights w)" and seal: "seals pf sealed s jti"
    and u: "useRefresh (pf_sha256 pf) (refresh_use_of pf cfg token sealed t) (w_db w) = (Some Rotate, db)"
    and new: "pf_sha256 pf (pf_successor pf (tc_secret cfg) token) \<notin> fst ` set (w_tokens w)"
    and an: "an_subject answer = s" "an_jti answer = jti"
  shows "as_inv pf (w\<lparr>w_db := db, w_out := answer # w_out w,
    w_tokens := (pf_sha256 pf (pf_successor pf (tc_secret cfg) token), f_family_id (rr_row rec)) # w_tokens w\<rparr>)"
    (is "as_inv pf ?w")
proof -
  let ?a = "refresh_use_of pf cfg token sealed t" and ?sha = "pf_sha256 pf"
  have a: "ru_token ?a = token" "ru_successor ?a = pf_successor pf (tc_secret cfg) token" "ru_replay ?a = sealed"
    by (simp_all add: refresh_use_of_def)
  obtain r g where r: "r \<in> set (refreshes (w_db w))" "f_token_hash r = ?sha token" "f_revoked_at r = None"
    and g: "find_grant (f_grant_id r) (w_db w) = Some g" "g_revoked_at g = None"
    and nochild: "child_of (f_token_hash r) (w_db w) = None"
    and fresh: "?sha (ru_successor ?a) \<notin> f_token_hash ` set (refreshes (w_db w))"
    and db: "db = (w_db w)\<lparr>refreshes := rotated ?sha ?a r (refreshes (w_db w))\<rparr>"
    using useRefresh_rotates [OF u] unfolding a by blast
  have i: "codes_inv w" "rows_inv w" "stored_inv pf w" "out_inv w" "\<forall>x\<in>set (w_flights w). flight_ok pf w x"
    using inv by (simp_all add: as_inv_def)
  from i(5) fl have tok: "(?sha token, as_familyId s) \<in> set (w_tokens w)" and fr: "f_family_id (rr_row rec) = as_familyId s"
    and con: "consented w (as_familyId s) (as_grantId s) (as_scope s)" and rec: "recorded w (as_familyId s) (as_grantId s) jti"
    by force+
  note row = flight_row [OF inv tok con r(1,2)]
  have frame: "consented ?w = consented w" "recorded ?w = recorded w" "settled ?w = settled w" "grant_dead ?w = grant_dead w"
    by (simp_all add: consented_def recorded_def settled_def grant_dead_def fun_eq_iff db)
  have old: "f_family_id r \<in> fst ` set (w_spent w)" "consented w (f_family_id r) (f_grant_id r) (f_scope r)"
    "f_family_id r \<notin> set (w_retired w)"
    using i(2) r unfolding rows_inv_def by blast+
  have alive: "\<not> grant_dead w (as_grantId s)"
    using live_grant_alive [OF _ g] i(1) unfolding row(2) codes_inv_def by blast
  have frame': "answer_ok ?w = answer_ok w" unfolding fun_eq_iff answer_ok_def frame by simp
  have "answer_ok w s jti" unfolding answer_ok_def using con rec old(1,3) alive row by simp
  then have out: "out_inv ?w" using i(4) unfolding out_inv_def frame' by (simp add: an)
  have mark: "f_replay (rotation_mark ?a r x) = Some z \<Longrightarrow> f_replay x = Some z" for x z by (rule rotation_mark_replay)
  have nrow: "f_token_hash (successor_row ?sha ?a r) = ?sha (ru_successor ?a)"
    "f_family_id (successor_row ?sha ?a r) = f_family_id r" "f_grant_id (successor_row ?sha ?a r) = f_grant_id r"
    "f_scope (successor_row ?sha ?a r) = f_scope r" "f_replay (successor_row ?sha ?a r) = Some sealed"
    by (simp_all add: successor_row_def a)
  have "families_ok (refreshes db)"
    unfolding db using i(2) r nochild fresh rotated_ok [where sha = ?sha and a = ?a and r = r]
    unfolding rows_inv_def child_of_None by simp
  moreover have "(f_token_hash x, f_family_id x) \<in> set (w_tokens ?w) \<and> f_family_id x \<in> fst ` set (w_spent w) \<and>
      consented w (f_family_id x) (f_grant_id x) (f_scope x) \<and> (f_family_id x \<in> set (w_retired w) \<longrightarrow> f_revoked_at x \<noteq> None)"
    if x: "x \<in> set (refreshes db)" for x
  proof -
    from x have "(\<exists>x0\<in>set (refreshes (w_db w)). x = rotation_mark ?a r x0) \<or> x = rotation_mark ?a r (successor_row ?sha ?a r)"
      unfolding db by (intro rotated_rows [where sha = ?sha]) simp
    then show ?thesis
    proof
      assume "\<exists>x0\<in>set (refreshes (w_db w)). x = rotation_mark ?a r x0"
      then obtain x0 where x0: "x0 \<in> set (refreshes (w_db w))" "x = rotation_mark ?a r x0" by blast
      with i(2) show ?thesis unfolding rows_inv_def by simp
    next
      assume "x = rotation_mark ?a r (successor_row ?sha ?a r)"
      then show ?thesis using old row fr by (simp add: nrow a)
    qed
  qed
  ultimately have rows: "rows_inv ?w"
    using i(2) new unfolding rows_inv_def frame by simp
  have "\<exists>y\<in>set (w_out ?w). as_familyId (an_subject y) = f_family_id x \<and> as_grantId (an_subject y) = f_grant_id x \<and>
      seals pf z (an_subject y) (an_jti y)" if x: "x \<in> set (refreshes db)" "f_replay x = Some z" for x z
  proof -
    from x(1) have "(\<exists>x0\<in>set (refreshes (w_db w)). x = rotation_mark ?a r x0) \<or> x = rotation_mark ?a r (successor_row ?sha ?a r)"
      unfolding db by (intro rotated_rows [where sha = ?sha]) simp
    then show ?thesis
    proof
      assume "\<exists>x0\<in>set (refreshes (w_db w)). x = rotation_mark ?a r x0"
      then obtain x0 where x0: "x0 \<in> set (refreshes (w_db w))" "x = rotation_mark ?a r x0" by blast
      with mark x(2) have "f_replay x0 = Some z" by blast
      with i(3) x0(1) have "\<exists>y\<in>set (w_out w). as_familyId (an_subject y) = f_family_id x0 \<and>
          as_grantId (an_subject y) = f_grant_id x0 \<and> seals pf z (an_subject y) (an_jti y)"
        unfolding stored_inv_def by blast
      then show ?thesis unfolding x0(2) by simp
    next
      assume xn: "x = rotation_mark ?a r (successor_row ?sha ?a r)"
      with mark x(2) nrow(5) have "z = sealed" by (metis option.inject)
      with xn seal row show ?thesis by (simp add: nrow an)
    qed
  qed
  then have "stored_inv pf ?w" unfolding stored_inv_def by simp
  moreover have "codes_inv ?w" using i(1) unfolding codes_inv_def frame by (simp add: db)
  moreover have "\<forall>x\<in>set (w_flights ?w). flight_ok pf ?w x"
    by (rule flights_mono [where w = w]) (use i(5) in \<open>auto simp: frame\<close>)
  ultimately show ?thesis using out rows by (simp add: as_inv_def)
qed

subsection \<open>Revocations\<close>

lemma owe_jtis: "w_jti ` set (owe reason t as owed) = w_jti ` set owed \<union> a_jti ` set as"
proof (induction as arbitrary: owed)
  case (Cons a as)
  have "owe reason t (a # as) owed = owe reason t as (if a_jti a \<in> w_jti ` set owed then owed
      else owed @ [\<lparr>w_jti = a_jti a, w_reason = reason, w_created_at = t\<rparr>])"
    by (simp add: owe_def)
  then show ?case using Cons.IH by auto
qed (simp add: owe_def)

lemma queue_family_effect:
  "grants (snd (queueFamilyRevocation f reason t db)) = grants db"
  "codes (snd (queueFamilyRevocation f reason t db)) = codes db"
  "accesses (snd (queueFamilyRevocation f reason t db)) = accesses db"
  "w_jti ` set (outbox (snd (queueFamilyRevocation f reason t db))) =
    w_jti ` set (outbox db) \<union> a_jti ` {a \<in> set (accesses db). a_family_id a = f}"
  "refreshes (snd (queueFamilyRevocation f reason t db)) =
    map (\<lambda>r. if f_family_id r = f \<and> f_revoked_at r = None then r\<lparr>f_revoked_at := Some t\<rparr> else r) (refreshes db)"
  by (simp_all add: queueFamilyRevocation_def Let_def owe_jtis update_rows_map)

lemma family_revoked_inv:
  assumes inv: "as_inv pf w"
    and retired: "retired = w_retired w \<or> retired = f # w_retired w \<and> f \<in> fst ` set (w_spent w)"
  shows "as_inv pf (w\<lparr>w_db := snd (queueFamilyRevocation f reason t (w_db w)), w_retired := retired\<rparr>)" (is "as_inv pf ?w")
proof -
  note q = queue_family_effect [of f reason t "w_db w"]
  have i: "codes_inv w" "rows_inv w" "stored_inv pf w" "out_inv w" "\<forall>x\<in>set (w_flights w). flight_ok pf w x"
    using inv by (simp_all add: as_inv_def)
  have frame: "consented ?w = consented w" "recorded ?w = recorded w" "grant_dead ?w = grant_dead w"
    by (simp_all add: consented_def recorded_def grant_dead_def fun_eq_iff q)
  have settles: "settled ?w j" if "settled w j" for j using that by (auto simp: settled_def q(4))
  have owed: "settled ?w j" if "recorded w f g j" for g j
    using that by (auto simp: recorded_def settled_def q(4))
  have "set retired \<subseteq> insert f (set (w_retired w))" using retired by auto
  then have "answer_ok ?w s j" if "answer_ok w s j" for s j
    using that settles owed unfolding answer_ok_def frame by auto
  then have "out_inv ?w" using i(4) by (simp add: out_inv_def)
  moreover have "set (w_retired w) \<subseteq> fst ` set (w_spent w)" using i(1) unfolding codes_inv_def by blast
  with retired have "set retired \<subseteq> fst ` set (w_spent w)" by (metis insert_subset list.simps(15))
  then have "codes_inv ?w" using i(1) unfolding codes_inv_def frame by (simp add: q)
  moreover have "families_ok (refreshes (w_db ?w))"
    using family_revocation_ok i(2) by (simp add: rows_inv_def)
  then have "rows_inv ?w"
    using i(2) retired unfolding rows_inv_def frame by (auto simp: q(5))
  moreover have "stored_inv pf ?w"
    using i(3) unfolding stored_inv_def by (auto simp: q(5))
  moreover have "\<forall>x\<in>set (w_flights ?w). flight_ok pf ?w x"
    by (rule flights_mono [where w = w]) (use i(5) in \<open>auto simp: frame\<close>)
  ultimately show ?thesis by (simp add: as_inv_def)
qed

lemma fold_families:
  assumes "\<And>f d. P d \<Longrightarrow> P (snd (queueFamilyRevocation f reason t d))" and "P db"
  shows "P (snd (fold (\<lambda>f (n, d). case queueFamilyRevocation f reason t d of (k, d') \<Rightarrow> (n + k, d')) fs (n, db)))"
  using assms(2)
proof (induction fs arbitrary: n db)
  case (Cons f fs)
  then show ?case using assms(1) [of db f] by (simp add: case_prod_beta)
qed simp

lemma fold_families_owed:
  assumes "f \<in> set fs" and "a \<in> set (accesses db)" and "a_family_id a = f"
  shows "a_jti a \<in> w_jti ` set (outbox (snd (fold (\<lambda>f (n, d). case queueFamilyRevocation f reason t d of (k, d') \<Rightarrow> (n + k, d')) fs (n, db))))"
  using assms(1,2)
proof (induction fs arbitrary: n db)
  case (Cons g fs)
  let ?d = "snd (queueFamilyRevocation g reason t db)"
  have acc: "accesses ?d = accesses db" by (rule queue_family_effect)
  show ?case
  proof (cases "f \<in> set fs")
    case True
    with Cons acc show ?thesis by (simp add: case_prod_unfold)
  next
    case False
    with Cons.prems have "g = f" by simp
    then have "a_jti a \<in> w_jti ` set (outbox ?d)"
      using Cons.prems(2) assms(3) by (auto simp: queue_family_effect(4))
    then have "a_jti a \<in> w_jti ` set (outbox (snd (fold (\<lambda>f (n, d). case queueFamilyRevocation f reason t d of (k, d') \<Rightarrow> (n + k, d')) fs (m, ?d))))" for m
      by (rule fold_families [where P = "\<lambda>d. a_jti a \<in> w_jti ` set (outbox d)", rotated]) (simp add: queue_family_effect(4))
    then show ?thesis by (simp add: case_prod_unfold)
  qed
qed simp

corollary family_queued_inv:
  "as_inv pf w \<Longrightarrow> as_inv pf (w\<lparr>w_db := snd (queueFamilyRevocation f reason t (w_db w))\<rparr>)"
  using family_revoked_inv [of pf w "w_retired w" f reason t] by (cases w) simp

definition mark_grant :: "str \<Rightarrow> int \<Rightarrow> grant_row \<Rightarrow> grant_row" where
  "mark_grant i t r =
     (if g_id r = i then r\<lparr>g_revoked_at := (case g_revoked_at r of None \<Rightarrow> Some t | Some u \<Rightarrow> Some u)\<rparr> else r)"

lemma grants_marked:
  assumes inv: "as_inv pf w" and paid: "\<And>y. y \<in> set (w_out w) \<Longrightarrow> as_grantId (an_subject y) = i \<Longrightarrow> settled w (an_jti y)"
  shows "as_inv pf (w\<lparr>w_db := (w_db w)\<lparr>grants := map (mark_grant i t) (grants (w_db w))\<rparr>\<rparr>)" (is "as_inv pf ?w")
proof -
  have m: "g_id (mark_grant i t g) = g_id g" "g_revoked_at (mark_grant i t g) \<noteq> None \<longleftrightarrow> g_revoked_at g \<noteq> None \<or> g_id g = i" for g
    by (auto simp: mark_grant_def split: option.splits)
  have i: "codes_inv w" "rows_inv w" "stored_inv pf w" "out_inv w" "\<forall>x\<in>set (w_flights w). flight_ok pf w x"
    using inv by (simp_all add: as_inv_def)
  have frame: "consented ?w = consented w" "recorded ?w = recorded w" "settled ?w = settled w"
    by (simp_all add: consented_def recorded_def settled_def fun_eq_iff)
  have dead: "grant_dead ?w j \<Longrightarrow> grant_dead w j \<or> j = i" for j
    unfolding grant_dead_def by (simp add: m del: not_None_eq) blast
  have "answer_ok ?w (an_subject y) (an_jti y)" if y: "y \<in> set (w_out w)" for y
  proof -
    from y i(4) have "answer_ok w (an_subject y) (an_jti y)" by (simp add: out_inv_def)
    with paid [OF y] dead show ?thesis unfolding answer_ok_def frame by auto
  qed
  then have "out_inv ?w" by (simp add: out_inv_def)
  moreover have "codes_inv ?w" using i(1) unfolding codes_inv_def frame by (simp add: o_def m)
  moreover have "rows_inv ?w" "stored_inv pf ?w" using i(2,3) unfolding rows_inv_def stored_inv_def frame by simp_all
  moreover have "\<forall>x\<in>set (w_flights ?w). flight_ok pf ?w x"
    by (rule flights_mono [where w = w]) (use i(5) in \<open>auto simp: frame\<close>)
  ultimately show ?thesis by (simp add: as_inv_def)
qed

lemma queue_family_grants:
  "snd (queueFamilyRevocation f reason t (d\<lparr>grants := gs\<rparr>)) = (snd (queueFamilyRevocation f reason t d))\<lparr>grants := gs\<rparr>"
  by (simp add: queueFamilyRevocation_def Let_def)

lemma grant_revoked_inv:
  assumes inv: "as_inv pf w"
  shows "as_inv pf (w\<lparr>w_db := snd (queueGrantRevocation i reason t (w_db w))\<rparr>)"
proof (cases "find_grant i (w_db w)")
  case None
  then show ?thesis using inv by (cases w) (simp add: queueGrantRevocation_def)
next
  case (Some g)
  let ?gs = "grants (w_db w)"
  let ?db1 = "(w_db w)\<lparr>grants := map (mark_grant i t) ?gs\<rparr>"
  let ?fs = "families_of i ?db1"
  let ?fold = "snd (fold (\<lambda>f (n, d). case queueFamilyRevocation f reason t d of (k, d') \<Rightarrow> (n + k, d')) ?fs (0, ?db1))"
  have "snd (queueGrantRevocation i reason t (w_db w)) = ?fold"
    using Some unfolding queueGrantRevocation_def Let_def update_rows_map mark_grant_def [abs_def] case_prod_unfold by simp
  moreover
  have p: "grants ?fold = map (mark_grant i t) ?gs \<and> accesses ?fold = accesses (w_db w) \<and> as_inv pf (w\<lparr>w_db := ?fold\<lparr>grants := ?gs\<rparr>\<rparr>)"
  proof (rule fold_families [where P = "\<lambda>d. grants d = map (mark_grant i t) ?gs \<and> accesses d = accesses (w_db w) \<and>
        as_inv pf (w\<lparr>w_db := d\<lparr>grants := ?gs\<rparr>\<rparr>)"])
    fix f d assume d: "grants d = map (mark_grant i t) ?gs \<and> accesses d = accesses (w_db w) \<and> as_inv pf (w\<lparr>w_db := d\<lparr>grants := ?gs\<rparr>\<rparr>)"
    then have "as_inv pf (w\<lparr>w_db := snd (queueFamilyRevocation f reason t (d\<lparr>grants := ?gs\<rparr>))\<rparr>)"
      using family_queued_inv [of pf "w\<lparr>w_db := d\<lparr>grants := ?gs\<rparr>\<rparr>"] by simp
    with d show "grants (snd (queueFamilyRevocation f reason t d)) = map (mark_grant i t) ?gs \<and>
        accesses (snd (queueFamilyRevocation f reason t d)) = accesses (w_db w) \<and>
        as_inv pf (w\<lparr>w_db := (snd (queueFamilyRevocation f reason t d))\<lparr>grants := ?gs\<rparr>\<rparr>)"
      by (simp add: queue_family_effect queue_family_grants)
  next
    show "grants ?db1 = map (mark_grant i t) ?gs \<and> accesses ?db1 = accesses (w_db w) \<and> as_inv pf (w\<lparr>w_db := ?db1\<lparr>grants := ?gs\<rparr>\<rparr>)"
      using inv by (cases w) simp
  qed
  let ?w = "w\<lparr>w_db := ?fold\<lparr>grants := ?gs\<rparr>\<rparr>"
  have "settled ?w (an_jti y)" if y: "y \<in> set (w_out ?w)" "as_grantId (an_subject y) = i" for y
  proof -
    from p y have "recorded ?w (as_familyId (an_subject y)) i (an_jti y)"
      unfolding as_inv_def out_inv_def answer_ok_def by blast
    then consider "an_jti y \<in> set (w_swept w)" | a where "a \<in> set (accesses (w_db w))" "a_jti a = an_jti y" "a_grant_id a = i"
      using p unfolding recorded_def by auto
    then show ?thesis
    proof cases
      case 2
      then have "a_family_id a \<in> set ?fs" by (simp add: families_of_def)
      then have "a_jti a \<in> w_jti ` set (outbox ?fold)" by (rule fold_families_owed) (use 2 in simp_all)
      with 2 show ?thesis by (simp add: settled_def)
    qed (simp add: settled_def)
  qed
  then have "as_inv pf (?w\<lparr>w_db := (w_db ?w)\<lparr>grants := map (mark_grant i t) (grants (w_db ?w))\<rparr>\<rparr>)"
    using p by (intro grants_marked) blast+
  moreover have "?fold\<lparr>grants := map (mark_grant i t) ?gs\<rparr> = ?fold"
    using p by (metis (no_types, lifting) oauth_db.surjective oauth_db.update_convs(2))
  ultimately show ?thesis by simp
qed

subsection \<open>Approvals and housekeeping\<close>

lemma keyed_live: "g \<in> set (liveGrants k db) \<Longrightarrow> \<exists>r\<in>set (grants db). g_id r = gr_id g"
  by (auto simp: liveGrants_def grantOf_def)

lemma grants_kept:
  assumes "\<And>g. g_id (u g) = g_id g" and "\<And>g. g_revoked_at (u g) = g_revoked_at g"
    and "db' = db\<lparr>grants := map u (grants db)\<rparr>"
  shows "\<exists>gs. db' = db\<lparr>grants := gs\<rparr> \<and> (distinct (map g_id (grants db)) \<longrightarrow> distinct (map g_id gs)) \<and>
    (\<forall>j. (\<exists>g\<in>set gs. g_id g = j \<and> g_revoked_at g \<noteq> None) \<longrightarrow> (\<exists>g\<in>set (grants db). g_id g = j \<and> g_revoked_at g \<noteq> None))"
  by (rule exI [where x = "map u (grants db)"]) (simp add: assms o_def)

lemma grant_for_effect:
  assumes "grant_for newId a db = Some (i, db')"
  shows "\<exists>gs. db' = db\<lparr>grants := gs\<rparr> \<and> (distinct (map g_id (grants db)) \<longrightarrow> distinct (map g_id gs)) \<and>
    (\<forall>j. (\<exists>g\<in>set gs. g_id g = j \<and> g_revoked_at g \<noteq> None) \<longrightarrow> (\<exists>g\<in>set (grants db). g_id g = j \<and> g_revoked_at g \<noteq> None))"
proof (cases "ap_reuse a")
  case None
  show ?thesis
  proof (cases "find (\<lambda>g. gr_persona g = ap_persona a \<and> gr_vault g = ap_vault a) (liveGrants (ap_key a) db)")
    case n: None
    let ?r = "\<lparr>g_id = newId, g_sub = gk_sub (ap_key a), g_client_id = gk_clientId (ap_key a),
        g_redirect_uri = gk_redirectKey (ap_key a), g_scope = join_with '' '' (ap_scopes a),
        g_resource = gk_resource (ap_key a), g_persona = ap_persona a, g_vault = ap_vault a,
        g_created_at = ap_now a, g_revoked_at = None\<rparr>"
    from n None assms have "newId \<notin> g_id ` set (grants db)" "db' = db\<lparr>grants := grants db @ [?r]\<rparr>"
      by (auto simp: grant_for_def insert_row_def split: if_splits)
    then show ?thesis by (intro exI [where x = "grants db @ [?r]"]) auto
  next
    case (Some same)
    let ?u = "\<lambda>r. if g_id r = gr_id same then r\<lparr>g_scope := join_with '' '' (js_set (gr_scopes same @ ap_scopes a))\<rparr> else r"
    have "db' = db\<lparr>grants := map ?u (grants db)\<rparr>"
      using None Some assms by (auto simp: grant_for_def update_rows_map)
    then show ?thesis by (intro grants_kept [where u = ?u]) simp_all
  qed
qed (use assms in \<open>auto simp: grant_for_def intro: exI [where x = "grants db"]\<close>)

lemma approval_effect:
  assumes "approveRequest sha newId newCode a db = (Some (Approved ad), db')"
  shows "\<exists>gs ps k. db' = db\<lparr>pendings := ps, grants := gs, codes := codes db @ [k]\<rparr> \<and>
    (distinct (map g_id (grants db)) \<longrightarrow> distinct (map g_id gs)) \<and>
    (\<forall>j. (\<exists>g\<in>set gs. g_id g = j \<and> g_revoked_at g \<noteq> None) \<longrightarrow> (\<exists>g\<in>set (grants db). g_id g = j \<and> g_revoked_at g \<noteq> None)) \<and>
    k_code_hash k = sha newCode \<and> k_grant_id k = ad_grantId ad \<and> k_request_scope k = join_with '' '' (ap_scopes a) \<and>
    k_used_at k = None \<and> sha newCode \<notin> k_code_hash ` set (codes db)"
proof -
  let ?db1 = "db\<lparr>pendings := filter (\<lambda>r. \<not> live_pending (sha (ap_handle a)) (ap_now a) r) (pendings db)\<rparr>"
  have d: "snd (discardPending sha (ap_handle a) (ap_now a) db) = ?db1" by (simp add: discardPending_def)
  from assms obtain taken where "fst (discardPending sha (ap_handle a) (ap_now a) db) = Some taken"
    by (auto simp: approveRequest_def split: if_splits option.splits prod.splits)
  then have p: "discardPending sha (ap_handle a) (ap_now a) db = (Some taken, ?db1)" using d by (metis prod.collapse)
  from assms obtain db2 where g: "grant_for newId a ?db1 = Some (ad_grantId ad, db2)"
    and k: "db' = db2\<lparr>codes := codes db2 @ [\<lparr>k_code_hash = sha newCode, k_grant_id = ad_grantId ad,
        k_request_scope = join_with '' '' (ap_scopes a), k_redirect_uri = redirectUri taken, k_resource = p_target taken,
        k_code_challenge = codeChallenge taken, k_expires_at = ap_now a + code_ttl_ms, k_used_at = None\<rparr>]\<rparr>"
    and new: "sha newCode \<notin> k_code_hash ` set (codes db2)"
    unfolding approveRequest_def p by (auto simp: insert_ref_def insert_row_def split: if_splits option.splits prod.splits)
  from grant_for_effect [OF g] obtain gs where gs: "db2 = ?db1\<lparr>grants := gs\<rparr>"
    "distinct (map g_id (grants db)) \<longrightarrow> distinct (map g_id gs)"
    "\<forall>j. (\<exists>g\<in>set gs. g_id g = j \<and> g_revoked_at g \<noteq> None) \<longrightarrow> (\<exists>g\<in>set (grants db). g_id g = j \<and> g_revoked_at g \<noteq> None)"
    by auto
  then obtain r where r: "db' = db2\<lparr>codes := codes db2 @ [r]\<rparr>" "k_code_hash r = sha newCode" "k_grant_id r = ad_grantId ad"
    "k_request_scope r = join_with '' '' (ap_scopes a)" "k_used_at r = None"
    using k by fastforce
  show ?thesis
    by (rule exI [where x = gs], rule exI [where x = "pendings ?db1"], rule exI [where x = r]) (use r new gs in simp)
qed

lemma approves_inv:
  assumes inv: "as_inv pf w" and ap: "approveRequest (pf_sha256 pf) newId newCode a (w_db w) = (Some (Approved ad), db)"
    and new: "pf_sha256 pf newCode \<notin> fst ` set (w_consents w)"
  shows "as_inv pf (w\<lparr>w_db := db, w_consents := (pf_sha256 pf newCode,
       \<lparr>co_approval = a, co_pending = ad_pending ad, co_grantId = ad_grantId ad\<rparr>) # w_consents w\<rparr>)" (is "as_inv pf ?w")
proof -
  obtain gs ps k where db: "db = (w_db w)\<lparr>pendings := ps, grants := gs, codes := codes (w_db w) @ [k]\<rparr>"
    and gs: "distinct (map g_id (grants (w_db w))) \<longrightarrow> distinct (map g_id gs)"
      "\<forall>j. (\<exists>g\<in>set gs. g_id g = j \<and> g_revoked_at g \<noteq> None) \<longrightarrow> (\<exists>g\<in>set (grants (w_db w)). g_id g = j \<and> g_revoked_at g \<noteq> None)"
    and k: "k_code_hash k = pf_sha256 pf newCode" "k_grant_id k = ad_grantId ad"
      "k_request_scope k = join_with '' '' (ap_scopes a)" "k_used_at k = None"
      "pf_sha256 pf newCode \<notin> k_code_hash ` set (codes (w_db w))"
    using approval_effect [OF ap] by blast
  have i: "codes_inv w" "rows_inv w" "stored_inv pf w" "out_inv w" "\<forall>x\<in>set (w_flights w). flight_ok pf w x"
    using inv by (simp_all add: as_inv_def)
  have frame: "recorded ?w = recorded w" "settled ?w = settled w"
    by (simp_all add: recorded_def settled_def fun_eq_iff db)
  have con: "consented ?w f g s" if "consented w f g s" for f g s
    by (rule consented_mono [OF _ that]) auto
  have dead: "grant_dead ?w j \<Longrightarrow> grant_dead w j" for j using gs(2) by (simp add: grant_dead_def db)
  have "answer_ok ?w s j" if "answer_ok w s j" for s j
    using that dead con unfolding answer_ok_def frame by auto
  then have "out_inv ?w" using i(4) by (simp add: out_inv_def)
  moreover have "consented ?w (k_code_hash k) (k_grant_id k) (k_request_scope k)"
    unfolding consented_def k using within_refl by force
  moreover have "pf_sha256 pf newCode \<notin> fst ` set (w_spent w)"
    using i(1) new unfolding codes_inv_def by blast
  ultimately have "codes_inv ?w"
    using i(1) gs(1) k(1,5) new con unfolding codes_inv_def by (auto simp: db)
  moreover have "rows_inv ?w" "stored_inv pf ?w"
    using i(2,3) con unfolding rows_inv_def stored_inv_def by (simp_all add: db)
  moreover have "\<forall>x\<in>set (w_flights ?w). flight_ok pf ?w x"
    by (rule flights_mono [where w = w]) (use i(5) in \<open>auto simp: frame\<close>)
  ultimately show ?thesis using \<open>out_inv ?w\<close> by (simp add: as_inv_def)
qed

lemma sweeps_inv:
  assumes inv: "as_inv pf w"
  shows "as_inv pf (w\<lparr>w_db := gcOauthDb t (w_db w),
       w_swept := map a_jti (filter (\<lambda>a. a_expires_at a \<le> t - as_key_skew_ms) (accesses (w_db w))) @ w_swept w\<rparr>)"
    (is "as_inv pf ?w")
proof -
  have i: "codes_inv w" "rows_inv w" "stored_inv pf w" "out_inv w" "\<forall>x\<in>set (w_flights w). flight_ok pf w x"
    using inv by (simp_all add: as_inv_def)
  have frame: "consented ?w = consented w" "grant_dead ?w = grant_dead w"
    by (simp_all add: consented_def grant_dead_def fun_eq_iff gcOauthDb_def)
  have rec: "recorded ?w f g j" if "recorded w f g j" for f g j
    using that by (auto simp: recorded_def gcOauthDb_def)
  have set: "settled ?w j" if "settled w j" for j
    using that by (auto simp: settled_def gcOauthDb_def)
  have "answer_ok ?w s j" if "answer_ok w s j" for s j
    using that rec set unfolding answer_ok_def frame by auto
  then have "out_inv ?w" using i(4) by (simp add: out_inv_def)
  moreover have "codes_inv ?w"
    using i(1) unfolding codes_inv_def frame by (simp add: gcOauthDb_def distinct_map_filter)
  moreover have "families_ok (refreshes (w_db ?w))"
    using i(2) filter_lines_ok by (simp add: rows_inv_def gcOauthDb_def)
  then have "rows_inv ?w" using i(2) unfolding rows_inv_def frame by (simp add: gcOauthDb_def)
  moreover have "stored_inv pf ?w" using i(3) unfolding stored_inv_def by (simp add: gcOauthDb_def)
  moreover have "\<forall>x\<in>set (w_flights ?w). flight_ok pf ?w x"
    by (rule flights_mono [where w = w]) (use i(5) rec in \<open>auto simp: frame\<close>)
  ultimately show ?thesis by (simp add: as_inv_def)
qed

subsection \<open>Every reachable world\<close>

lemma fresh_inv: "as_inv pf (fresh_world reg)"
  by (simp add: as_inv_def codes_inv_def rows_inv_def stored_inv_def out_inv_def fresh_world_def families_ok_def
      shape_defs revoked_together_def uses_marked_def)

lemma step_inv:
  assumes "as_step pf cfg w w'" and inv: "as_inv pf w"
  shows "as_inv pf w'"
  using assms(1)
proof cases
  case (exchange_mints client subject t jti fails ok db reg)
  with inv have "consented w (as_familyId subject) (as_grantId subject) (as_scope subject)"
    unfolding as_inv_def by force
  then show ?thesis
    unfolding exchange_mints(1)
    by (intro minted_flight [OF inv exchange_mints(3)]) (auto simp: consented_def)
next
  case (refresh_mints token rec subject t jti fails ok db reg)
  with inv have "flight_ok pf w (Refreshing token rec subject)" unfolding as_inv_def by blast
  then show ?thesis
    unfolding refresh_mints(1)
    by (intro minted_flight [OF inv refresh_mints(3)]) (auto simp: consented_def)
next
  case (refresh_superseded token rec subject jti sealed t db)
  with inv have "flight_ok pf w (Refresh_minted token rec subject jti)" unfolding as_inv_def by blast
  then show ?thesis unfolding refresh_superseded(1) by (intro fly_inv [OF inv]) simp
next
  case (exchange_commits client subject jti newToken t db)
  then show ?thesis using exchange_inv [OF inv exchange_commits(2-4)] by simp
next
  case (refresh_commits token rec subject jti sealed t db)
  then show ?thesis using rotation_inv [OF inv refresh_commits(2-5)] by simp
next
  case (registry_revokes jti t)
  then show ?thesis
    by (intro quiet_step [OF inv])
      (auto simp: same_flow_def keeps_records_def recorded_def settled_def isRevoked_revoke)
next
  case (registry_records jti)
  then show ?thesis
    by (intro quiet_step [OF inv])
      (auto simp: same_flow_def keeps_records_def recorded_def settled_def isRevoked_append)
next
  case (outbox_paid jti)
  then show ?thesis
    by (intro quiet_step [OF inv]) (auto simp: same_flow_def keeps_records_def recorded_def settled_def)
next
  case (accounts_change us ss ps tok burned)
  then show ?thesis
    by (intro quiet_step [OF inv])
      (auto simp: same_flow_def keeps_records_def recorded_def settled_def with_accounts_def)
next
  case (family_revoked f reason t)
  then show ?thesis by (auto intro: family_revoked_inv [OF inv] family_queued_inv [OF inv])
qed (use inv in \<open>auto intro: begins_inv exchange_inv retry_inv grant_revoked_inv approves_inv sweeps_inv\<close>)

lemma reachable_inv: "as_reachable pf cfg w \<Longrightarrow> as_inv pf w"
  by (induction rule: as_reachable.induct) (auto intro: fresh_inv step_inv)

end
