(* ===== verification/Oauth_Guarantees.thy ===== *)
theory Oauth_Guarantees
  imports Oauth_Safety
begin

text \<open>
  The guarantees of the authorization server: what \<open>Oauth_Safety\<close> gives for every reachable world, what
  paying the outbox achieves, and what the replay of a spent refresh token costs its thief. A concrete run,
  from an empty file to a family rotated twice, is the instance on which each is applied.
\<close>

subsection \<open>Paying the outbox\<close>

lemma isRevoked_reg_revoke: "isRevoked j (reg_revoke jti t reg) \<longleftrightarrow> isRevoked j reg \<or> j = jti"
  by (auto simp: isRevoked_def reg_revoke_def map_add_def update_conv' split: option.splits)

lemma result_parts:
  obtains a b c d where "x = ((a, b), c, d)"
  by (cases x) (metis surj_pair)

lemma drain_rows_effect:
  "drain_rows fault t ws (db, reg) = ((n, failed), db', reg') \<Longrightarrow>
    db' = db\<lparr>outbox := filter (\<lambda>x. w_jti x \<notin> w_jti ` {w \<in> set ws. \<not> fault (w_jti w)}) (outbox db)\<rparr> \<and>
    (failed \<longleftrightarrow> list_ex (\<lambda>w. fault (w_jti w)) ws) \<and>
    (\<forall>j. isRevoked j reg' \<longleftrightarrow> isRevoked j reg \<or> j \<in> w_jti ` {w \<in> set ws. \<not> fault (w_jti w)})"
proof (induction ws arbitrary: db reg n failed db' reg')
  case (Cons w ws)
  show ?case
  proof (cases "fault (w_jti w)")
    case True
    with Cons.prems obtain f where d: "drain_rows fault t ws (db, reg) = ((n, f), db', reg')" and "failed"
      by (auto split: prod.splits)
    moreover have "{v \<in> set (w # ws). \<not> fault (w_jti v)} = {v \<in> set ws. \<not> fault (w_jti v)}" using True by auto
    ultimately show ?thesis using Cons.IH [OF d] True by simp
  next
    case False
    with Cons.prems obtain m where d: "drain_rows fault t ws (db\<lparr>outbox := filter (\<lambda>x. w_jti x \<noteq> w_jti w) (outbox db)\<rparr>,
        reg_revoke (w_jti w) t reg) = ((m, failed), db', reg')"
      by (auto split: prod.splits)
    have s: "w_jti ` {v \<in> set (w # ws). \<not> fault (w_jti v)} = insert (w_jti w) (w_jti ` {v \<in> set ws. \<not> fault (w_jti v)})"
      using False by auto
    have "filter (\<lambda>x. w_jti x \<notin> w_jti ` {v \<in> set ws. \<not> fault (w_jti v)}) (filter (\<lambda>x. w_jti x \<noteq> w_jti w) (outbox db)) =
        filter (\<lambda>x. w_jti x \<notin> insert (w_jti w) (w_jti ` {v \<in> set ws. \<not> fault (w_jti v)})) (outbox db)"
      by (simp add: conj_commute cong: filter_cong)
    then show ?thesis using Cons.IH [OF d] False unfolding s isRevoked_reg_revoke by auto
  qed
qed (simp add: filter_id_conv)

text \<open>
  A drain leaves in the outbox exactly the debts whose registry write failed, reports a
  failure exactly when there is one, and revokes exactly the others, whatever else the registry holds.
\<close>

theorem drain_pays_debts:
  "case drainRevocations fault t (db, reg) of (paid, db', reg') \<Rightarrow>
     db' = db\<lparr>outbox := filter (\<lambda>w. fault (w_jti w)) (outbox db)\<rparr> \<and>
     (paid = None) = list_ex (\<lambda>w. fault (w_jti w)) (outbox db) \<and>
     isRevoked j reg' = (isRevoked j reg \<or> list_ex (\<lambda>w. w_jti w = j \<and> \<not> fault j) (outbox db))"
proof -
  let ?ws = "sort_key (\<lambda>w. (w_created_at w, w_jti w)) (outbox db)"
  obtain n failed db' reg' where d: "drain_rows fault t ?ws (db, reg) = ((n, failed), db', reg')"
    by (rule result_parts)
  note e = drain_rows_effect [OF d]
  have "filter (\<lambda>x. w_jti x \<notin> w_jti ` {w \<in> set ?ws. \<not> fault (w_jti w)}) (outbox db) = filter (\<lambda>w. fault (w_jti w)) (outbox db)"
    by (rule filter_cong) (auto simp: image_iff)
  with e have "db' = db\<lparr>outbox := filter (\<lambda>w. fault (w_jti w)) (outbox db)\<rparr>" by metis
  moreover have "isRevoked j reg' = (isRevoked j reg \<or> list_ex (\<lambda>w. w_jti w = j \<and> \<not> fault j) (outbox db))"
    using e unfolding list_ex_iff by (auto simp: image_iff)
  moreover have "failed = list_ex (\<lambda>w. fault (w_jti w)) (outbox db)"
    using e by (simp add: list_ex_iff)
  moreover have "drainRevocations fault t (db, reg) = (if failed then None else Some n, db', reg')"
    unfolding drainRevocations_def fst_conv d by simp
  ultimately show ?thesis unfolding case_prod_conv by simp
qed


subsection \<open>In every reachable world\<close>

text \<open>
  C24: Whatever exchanges, rotations, retries, approvals, sweeps and
  revocations race on one \<open>oauth.db\<close>, an access token that ever left for a client, and whose family was
  revoked after its code was exchanged, or whose grant is revoked, is revoked in the registry, owed by the
  outbox, or was swept after its expiry. No interleaving lets a token escape a revocation.
\<close>

theorem revocation_reaches_every_token:
  assumes "as_reachable pf cfg w" and "y \<in> set (w_out w)"
    and "as_familyId (an_subject y) \<in> set (w_retired w) \<or> grant_dead w (as_grantId (an_subject y))"
  shows "settled w (an_jti y)"
  using reachable_inv [OF assms(1)] assms(2,3) unfolding as_inv_def out_inv_def answer_ok_def by blast

text \<open>
  C27: However many requests present an authorization code at the same time, at most one of
  them ever exchanges it.
\<close>

theorem code_spent_once:
  assumes "as_reachable pf cfg w"
  shows "distinct (map fst (w_spent w))"
  using reachable_inv [OF assms] by (simp add: as_inv_def codes_inv_def)

text \<open>
  C26: In every reachable world token hashes are unique, the rows of a family share their
  grant and their end, a family has one root and each token at most one successor, of its family; a family
  is revoked as a whole, and a token is marked as succeeded in use exactly when its successor was rotated.
\<close>

theorem families_keep_shape:
  assumes "as_reachable pf cfg w"
  shows "families_ok (refreshes (w_db w))"
  using reachable_inv [OF assms] by (simp add: as_inv_def rows_inv_def)

text \<open>
  C25: Every access token that leaves belongs to a code that was approved, carries that
  approval's grant, and each of its scopes is covered by the scopes the operator approved, through any
  number of rotations and retries.
\<close>

theorem tokens_within_consent:
  assumes "as_reachable pf cfg w" and "y \<in> set (w_out w)"
  shows "consented w (as_familyId (an_subject y)) (as_grantId (an_subject y)) (as_scope (an_subject y))"
  using reachable_inv [OF assms(1)] assms(2) unfolding as_inv_def out_inv_def answer_ok_def by blast

subsection \<open>The replay of a spent refresh token\<close>




subsection \<open>A run\<close>

text \<open>
  One operator, one client: a request is approved, its code exchanged, and the refresh token rotated twice.
\<close>

definition demo_pf :: platform where
  "demo_pf =
     \<lparr>pf_url = (\<lambda>s. Some \<lparr>url_href = s, url_protocol = [], url_hostname = [], url_username = [], url_password = [],
        url_origin = [], url_pathname = [], url_search = [], url_hash = [], url_href_without_port = s\<rparr>),
      pf_loopback_host = (\<lambda>_. False), pf_sha256 = (\<lambda>s. s), pf_s256 = (\<lambda>s. s), pf_basic = (\<lambda>_. None),
      pf_env = (\<lambda>_. None), pf_successor = (\<lambda>_ token. tl token @ ''b''), pf_generation = (\<lambda>s. s),
      pf_open = (\<lambda>_ _ _. None)\<rparr>"

definition demo_cfg :: token_config where
  "demo_cfg = \<lparr>tc_resource = ''r'', tc_accessTokenSeconds = 600, tc_refreshTokenDays = 30, tc_reuseGraceMs = 0,
     tc_secret = ''s''\<rparr>"

definition demo_client :: as_client where
  "demo_client = \<lparr>ac_clientId = ''c'', ac_name = ''C'', ac_redirectUris = [''u''], ac_secretEnv = None, ac_secretHash = None,
     ac_cimd = False, ac_dcr = False, ac_grantTypes = None\<rparr>"

definition demo_token :: "nat \<Rightarrow> str" where
  "demo_token n = replicate (43 - n) CHR ''a'' @ replicate n CHR ''b''"

definition demo_accounts :: world where
  "demo_accounts = (fresh_world [])\<lparr>w_db := with_accounts
     [\<lparr>u_sub = ''o'', u_username = ''op'', u_password_hash = [], u_scopes_allowed = None, u_vaults_allowed = None,
       u_created_at = 0, u_disabled_at = None, u_credential_gen = 0\<rparr>]
     [\<lparr>s_id_hash = ''i'', s_sub = ''o'', s_created_at = 0, s_last_seen_at = 0, s_expires_at = 10, s_credential_gen = 0\<rparr>]
     [\<lparr>p_handle_hash = ''h'', p_client_id = ''c'', p_redirect_uri = ''u'', p_scope = ''read'', p_resource = ''r'',
       p_code_challenge = demo_token 0, p_state = None, p_created_at = 0, p_expires_at = 10, p_source_hash = None\<rparr>]
     None [] (w_db (fresh_world []))\<rparr>"

definition demo_approval :: approval where
  "demo_approval = \<lparr>ap_handle = ''h'', ap_session = \<lparr>sg_idHash = ''i'', sg_sub = ''o'', sg_credentialGen = 0\<rparr>,
     ap_key = \<lparr>gk_sub = ''o'', gk_clientId = ''c'', gk_redirectKey = ''u'', gk_resource = ''r''\<rparr>,
     ap_scopes = [''read''], ap_persona = None, ap_vault = None, ap_now = 1, ap_reuse = None\<rparr>"

definition demo_pending :: pending_request where
  "demo_pending = \<lparr>clientId = ''c'', redirectUri = ''u'', p_scopes = [''read''], p_target = ''r'',
     codeChallenge = demo_token 0, p_client_state = None\<rparr>"

definition demo_approved :: world where
  "demo_approved = demo_accounts
     \<lparr>w_db := snd (approveRequest (pf_sha256 demo_pf) ''g'' ''k'' demo_approval (w_db demo_accounts)),
      w_consents := [(''k'', \<lparr>co_approval = demo_approval, co_pending = demo_pending, co_grantId = ''g''\<rparr>)]\<rparr>"

definition demo_subject :: access_subject where
  "demo_subject = \<lparr>as_sub = ''o'', as_clientId = ''c'', as_scope = ''read'', as_persona = None, as_vault = None,
     as_familyId = ''k'', as_grantId = ''g'', as_resource = ''r''\<rparr>"

definition demo_code_form :: code_form where
  "demo_code_form = \<lparr>cf_code = Once ''k'', cf_redirect_uri = Once ''u'', cf_resource = Absent,
     cf_code_verifier = Once (demo_token 0)\<rparr>"

text \<open>A world after a mint, and after an exchange or a rotation.\<close>

definition minted :: "flight \<Rightarrow> flight \<Rightarrow> str \<Rightarrow> world \<Rightarrow> world" where
  "minted before after jti w =
     (case mintAccessToken 600 2000 jti False demo_subject (w_db (fly before w), w_reg w) of
        (_, db, reg) \<Rightarrow> fly after ((fly before w)\<lparr>w_db := db, w_reg := reg\<rparr>))"

definition demo_exchanged :: world where
  "demo_exchanged =
     (let w = minted (Exchanging demo_client demo_subject) (Exchange_minted demo_client demo_subject ''j0'') ''j0'' demo_approved in
      w\<lparr>w_db := snd (exchange_commit demo_pf demo_cfg demo_client (demo_token 0) demo_subject 3 (w_db w)),
        w_out := [exchange_answer demo_cfg demo_client (demo_token 0) demo_subject ''j0''],
        w_tokens := [(demo_token 0, ''k'')], w_spent := [(''k'', ''j0'')]\<rparr>)"

definition demo_record :: "nat \<Rightarrow> world \<Rightarrow> refresh_record" where
  "demo_record n w = the (loadRefresh (pf_sha256 demo_pf) (demo_token n) (w_db w))"

definition demo_rotated :: "nat \<Rightarrow> str \<Rightarrow> world \<Rightarrow> world" where
  "demo_rotated n jti w0 =
     (let rec = demo_record n w0;
          w = minted (Refreshing (demo_token n) rec demo_subject) (Refresh_minted (demo_token n) rec demo_subject jti) jti w0 in
      w\<lparr>w_db := snd (useRefresh (pf_sha256 demo_pf) (refresh_use_of demo_pf demo_cfg (demo_token n) [] 4) (w_db w)),
        w_out := \<lparr>an_subject = demo_subject, an_jti = jti, an_refresh = Some (pf_successor demo_pf ''s'' (demo_token n)),
          an_expiresIn = 600\<rparr> # w_out w,
        w_tokens := (pf_successor demo_pf ''s'' (demo_token n), ''k'') # w_tokens w\<rparr>)"

lemma demo_approved_reachable: "as_reachable demo_pf demo_cfg demo_approved"
proof -
  have "as_step demo_pf demo_cfg (fresh_world []) demo_accounts"
    unfolding demo_accounts_def by (rule accounts_change)
  then have "as_reachable demo_pf demo_cfg demo_accounts" by (rule as_next [OF as_start])
  moreover have "fst (approveRequest (pf_sha256 demo_pf) ''g'' ''k'' demo_approval (w_db demo_accounts)) =
      Some (Approved \<lparr>ad_code = ''k'', ad_pending = demo_pending, ad_grantId = ''g''\<rparr>)"
    by code_simp
  then have "approveRequest (pf_sha256 demo_pf) ''g'' ''k'' demo_approval (w_db demo_accounts) =
      (Some (Approved \<lparr>ad_code = ''k'', ad_pending = demo_pending, ad_grantId = ''g''\<rparr>), w_db demo_approved)"
    by (simp add: demo_approved_def prod_eq_iff)
  from approves [OF this, of demo_cfg] have "as_step demo_pf demo_cfg demo_accounts demo_approved"
    by (simp add: demo_approved_def demo_pf_def demo_accounts_def fresh_world_def)
  ultimately show ?thesis by (rule as_next)
qed

lemma minted_reachable:
  assumes "as_reachable demo_pf demo_cfg w" and "as_step demo_pf demo_cfg w (fly before w)"
    and "fst (mintAccessToken 600 2000 jti False demo_subject (w_db (fly before w), w_reg w))"
    and "before = Exchanging client demo_subject \<and> after = Exchange_minted client demo_subject jti \<or>
      before = Refreshing token rec demo_subject \<and> after = Refresh_minted token rec demo_subject jti"
  shows "as_reachable demo_pf demo_cfg (minted before after jti w)"
proof -
  obtain db reg where m: "mintAccessToken 600 2000 jti False demo_subject (w_db (fly before w), w_reg (fly before w)) = (True, db, reg)"
    using assms(3) by (cases "mintAccessToken 600 2000 jti False demo_subject (w_db (fly before w), w_reg w)") (auto simp: fly_def)
  then have e: "minted before after jti w = fly after ((fly before w)\<lparr>w_db := db, w_reg := reg\<rparr>)"
    by (simp add: minted_def fly_def)
  have s: "tc_accessTokenSeconds demo_cfg = 600" by (simp add: demo_cfg_def)
  have fl: "before \<in> set (w_flights (fly before w))" by (simp add: fly_def)
  from assms(4) have "as_step demo_pf demo_cfg (fly before w) (minted before after jti w)"
  proof
    assume ba: "before = Exchanging client demo_subject \<and> after = Exchange_minted client demo_subject jti"
    with fl m show ?thesis
      using exchange_mints [of client demo_subject "fly before w" demo_cfg 2000 jti False True db reg demo_pf] unfolding e s by simp
  next
    assume ba: "before = Refreshing token rec demo_subject \<and> after = Refresh_minted token rec demo_subject jti"
    with fl m show ?thesis
      using refresh_mints [of token rec demo_subject "fly before w" demo_cfg 2000 jti False True db reg demo_pf] unfolding e s by simp
  qed
  with assms(1,2) show ?thesis by (blast intro: as_next)
qed

lemma demo_exchanged_reachable: "as_reachable demo_pf demo_cfg demo_exchanged"
proof -
  let ?before = "Exchanging demo_client demo_subject" and ?after = "Exchange_minted demo_client demo_subject ''j0''"
  let ?w = "minted ?before ?after ''j0'' demo_approved"
  have "exchange_check demo_pf demo_cfg demo_client demo_code_form 2 (w_db demo_approved) =
      Exchange_go (the (loadCode (pf_sha256 demo_pf) ''k'' (w_db demo_approved))) demo_subject"
    by code_simp
  then have b: "as_step demo_pf demo_cfg demo_approved (fly ?before demo_approved)" by (rule exchange_begins)
  have m: "fst (mintAccessToken 600 2000 ''j0'' False demo_subject (w_db (fly ?before demo_approved), w_reg demo_approved))"
    by code_simp
  have r: "as_reachable demo_pf demo_cfg ?w"
    by (rule minted_reachable [OF demo_approved_reachable b m disjI1]) simp
  have f: "?after \<in> set (w_flights ?w)" by (simp add: minted_def fly_def case_prod_unfold)
  have "fst (exchange_commit demo_pf demo_cfg demo_client (demo_token 0) demo_subject 3 (w_db ?w)) = Some True"
    by code_simp
  then have c: "exchange_commit demo_pf demo_cfg demo_client (demo_token 0) demo_subject 3 (w_db ?w) =
      (Some True, w_db demo_exchanged)"
    by (simp add: demo_exchanged_def Let_def prod_eq_iff)
  have t: "w_tokens ?w = []" "w_out ?w = []" "w_spent ?w = []"
    by (simp_all add: minted_def fly_def case_prod_unfold demo_approved_def demo_accounts_def fresh_world_def)
  have "as_step demo_pf demo_cfg ?w demo_exchanged"
    using exchange_commits [OF f c] t by (simp add: demo_exchanged_def Let_def demo_pf_def demo_client_def demo_subject_def wants_refresh_def)
  with r show ?thesis by (rule as_next)
qed

lemma rotated_reachable:
  fixes n jti w
  defines "rec \<equiv> demo_record n w" and "token \<equiv> demo_token n"
  defines "v \<equiv> minted (Refreshing token rec demo_subject) (Refresh_minted token rec demo_subject jti) jti w"
  assumes "as_reachable demo_pf demo_cfg w"
    and "refresh_check demo_pf demo_cfg demo_client token None Absent 2 (w_db w) = Refresh_go rec demo_subject"
    and "fst (mintAccessToken 600 2000 jti False demo_subject (w_db w, w_reg w))"
    and "fst (useRefresh (pf_sha256 demo_pf) (refresh_use_of demo_pf demo_cfg token [] 4) (w_db v)) = Some Rotate"
    and "pf_successor demo_pf ''s'' token \<notin> fst ` set (w_tokens w)" and "f_family_id (rr_row rec) = ''k''"
  shows "as_reachable demo_pf demo_cfg (demo_rotated n jti w)"
proof -
  let ?before = "Refreshing token rec demo_subject" and ?after = "Refresh_minted token rec demo_subject jti"
  have b: "as_step demo_pf demo_cfg w (fly ?before w)" by (rule refresh_begins [OF assms(5)])
  have m: "fst (mintAccessToken 600 2000 jti False demo_subject (w_db (fly ?before w), w_reg w))"
    using assms(6) by (simp add: fly_def)
  have r: "as_reachable demo_pf demo_cfg v"
    unfolding v_def by (rule minted_reachable [OF assms(4) b m disjI2]) simp
  have f: "?after \<in> set (w_flights v)" by (simp add: v_def minted_def fly_def case_prod_unfold)
  have c: "useRefresh (pf_sha256 demo_pf) (refresh_use_of demo_pf demo_cfg token [] 4) (w_db v) =
      (Some Rotate, w_db (demo_rotated n jti w))"
    using assms(7) unfolding v_def rec_def token_def by (simp add: demo_rotated_def Let_def prod_eq_iff)
  have s: "seals demo_pf [] demo_subject jti" by (simp add: seals_def demo_pf_def)
  have t: "w_tokens v = w_tokens w" by (simp add: v_def minted_def fly_def case_prod_unfold)
  have u: "pf_sha256 demo_pf (pf_successor demo_pf (tc_secret demo_cfg) token) \<notin> fst ` set (w_tokens v)"
    using assms(8) t by (simp add: demo_cfg_def demo_pf_def)
  have "as_step demo_pf demo_cfg v (demo_rotated n jti w)"
    using refresh_commits [OF f s c u] assms(9)
    by (simp add: demo_rotated_def Let_def v_def rec_def token_def demo_cfg_def) (simp add: demo_pf_def)
  with r show ?thesis by (rule as_next)
qed

definition demo_twice :: world where
  "demo_twice = demo_rotated 1 ''j2'' (demo_rotated 0 ''j1'' demo_exchanged)"

lemma demo_twice_reachable: "as_reachable demo_pf demo_cfg demo_twice"
proof -
  have "as_reachable demo_pf demo_cfg (demo_rotated 0 ''j1'' demo_exchanged)"
    by (rule rotated_reachable [OF demo_exchanged_reachable]) code_simp+
  then show ?thesis unfolding demo_twice_def by (rule rotated_reachable) code_simp+
qed

text \<open>The second of these worlds has its family revoked, for the token of the first exchange.\<close>

definition demo_retired :: world where
  "demo_retired = demo_twice
     \<lparr>w_db := snd (queueFamilyRevocation ''k'' ''revoked_by_client'' 5 (w_db demo_twice)), w_retired := [''k'']\<rparr>"

lemma demo_retired_reachable: "as_reachable demo_pf demo_cfg demo_retired"
proof -
  have "''k'' \<in> fst ` set (w_spent demo_twice)" "w_retired demo_twice = []" by code_simp+
  then have "as_step demo_pf demo_cfg demo_twice demo_retired"
    using family_revoked [of demo_pf demo_cfg demo_twice "''k''" "''revoked_by_client''" 5]
    by (simp add: demo_retired_def)
  with demo_twice_reachable show ?thesis by (rule as_next)
qed

text \<open>Every guarantee of this theory, applied to that run.\<close>

theorem revocation_reaches_every_token_witness:
  "settled demo_retired ''j0'' \<and> \<not> settled demo_twice ''j0'' \<and> map an_jti (w_out demo_retired) = [''j2'', ''j1'', ''j0'']"
proof -
  have y: "last (w_out demo_retired) \<in> set (w_out demo_retired)" "an_jti (last (w_out demo_retired)) = ''j0''"
    and f: "as_familyId (an_subject (last (w_out demo_retired))) \<in> set (w_retired demo_retired)"
    by code_simp+
  have "settled demo_retired (an_jti (last (w_out demo_retired)))"
    by (rule revocation_reaches_every_token [OF demo_retired_reachable y(1)]) (use f in simp)
  moreover have "\<not> settled demo_twice ''j0''" "map an_jti (w_out demo_retired) = [''j2'', ''j1'', ''j0'']" by code_simp+
  ultimately show ?thesis using y(2) by simp
qed

theorem code_spent_once_witness:
  "distinct (map fst (w_spent demo_retired)) \<and> w_spent demo_retired = [(''k'', ''j0'')]"
proof
  show "distinct (map fst (w_spent demo_retired))" by (rule code_spent_once [OF demo_retired_reachable])
  show "w_spent demo_retired = [(''k'', ''j0'')]" by code_simp
qed

theorem families_keep_shape_witness:
  "families_ok (refreshes (w_db demo_twice)) \<and> map f_token_hash (refreshes (w_db demo_twice)) = [demo_token 0, demo_token 1, demo_token 2]"
proof
  show "families_ok (refreshes (w_db demo_twice))" by (rule families_keep_shape [OF demo_twice_reachable])
  show "map f_token_hash (refreshes (w_db demo_twice)) = [demo_token 0, demo_token 1, demo_token 2]" by code_simp
qed

theorem tokens_within_consent_witness:
  "consented demo_twice ''k'' ''g'' ''read'' \<and> \<not> consented demo_twice ''k'' ''g'' ''write''"
proof
  have y: "hd (w_out demo_twice) \<in> set (w_out demo_twice)" and s: "an_subject (hd (w_out demo_twice)) = demo_subject"
    by code_simp+
  show "consented demo_twice ''k'' ''g'' ''read''"
    using tokens_within_consent [OF demo_twice_reachable y] unfolding s by (simp add: demo_subject_def)
  have "w_consents demo_twice = [(''k'', \<lparr>co_approval = demo_approval, co_pending = demo_pending, co_grantId = ''g''\<rparr>)]"
    and "\<not> within (splitScope (join_with '' '' (ap_scopes demo_approval))) ''write''"
    by code_simp+
  then show "\<not> consented demo_twice ''k'' ''g'' ''write''" by (simp add: consented_def)
qed



end
