(* ===== verification/File_Ops.thy ===== *)
theory File_Ops
  imports Act_Wp "HOL-Library.Sublist"
begin

text \<open>
  The note writers of \<open>packages/server/src/vault/notes-io.ts\<close>, \<open>temp-write.ts\<close> and
  \<open>no-follow-walk.ts\<close>, over a model of the file system: names lead to inodes, inodes hold bytes, and two
  names may lead to one inode (a hard link). Every system call may fail with any error code
  (\<open>io_fault\<close>, by the order of the calls), and a failing call changes nothing. What is modelled is the
  pure JavaScript path: no native module, no pinned folder and no symbolic link.

  An error of the platform is \<^const>\<open>Thrown\<close> of its code. The write gate, the rule of creatable names (it is
  \<open>assertCreatableName\<close> of \<open>Vault_Paths\<close>), UTF-8, SHA-256 and the redaction of secrets are the fields of \<open>note_env\<close>.
\<close>

subsection \<open>The file system\<close>

type_synonym path = "str list"

record disk =
  f_names :: "(path \<times> nat) list"
  f_dirs :: "path list"
  f_data :: "(nat \<times> str) list"
  f_next :: nat
  io_fault :: "nat \<Rightarrow> str option"
  io_calls :: nat
  io_rand :: "nat \<Rightarrow> str"
  io_drawn :: nat
  io_settled :: "nat list"
  io_staged :: nat
  io_effect :: bool

type_synonym 'a io = "(disk, 'a) act"

record note_env =
  ne_creatable :: "str \<Rightarrow> terror + unit"
  ne_gate :: "path \<Rightarrow> str \<Rightarrow> terror option"
  ne_decode :: "str \<Rightarrow> str"
  ne_encode :: "str \<Rightarrow> str"
  ne_hash :: "str \<Rightarrow> str"
  ne_redact :: "str \<Rightarrow> str"

definition enoent :: terror where "enoent = Thrown ''ENOENT''"
definition eexist :: terror where "eexist = Thrown ''EEXIST''"

definition bytes_of :: "disk \<Rightarrow> nat \<Rightarrow> str" where
  "bytes_of w i = (case map_of (f_data w) i of None \<Rightarrow> [] | Some d \<Rightarrow> d)"

definition bytes_at :: "disk \<Rightarrow> path \<Rightarrow> str option" where
  "bytes_at w p = map_option (bytes_of w) (map_of (f_names w) p)"

definition nlink :: "disk \<Rightarrow> nat \<Rightarrow> nat" where
  "nlink w i = length (filter (\<lambda>x. snd x = i) (f_names w))"

definition occupied :: "disk \<Rightarrow> path \<Rightarrow> bool" where
  "occupied w p \<longleftrightarrow> map_of (f_names w) p \<noteq> None \<or> p \<in> set (f_dirs w) \<or> p = []"

definition has_parent :: "disk \<Rightarrow> path \<Rightarrow> bool" where
  "has_parent w p \<longleftrightarrow> butlast p = [] \<or> butlast p \<in> set (f_dirs w)"

definition sys :: "'a io \<Rightarrow> 'a io" where
  "sys f w =
     (let w1 = w\<lparr>io_calls := Suc (io_calls w)\<rparr> in
      case io_fault w (io_calls w) of Some e \<Rightarrow> (Inl (Thrown e), w1) | None \<Rightarrow> f w1)"

subsection \<open>System calls\<close>

definition linkSync :: "path \<Rightarrow> path \<Rightarrow> unit io" where
  "linkSync a b = sys (\<lambda>w.
     case map_of (f_names w) a of
       None \<Rightarrow> (Inl enoent, w)
     | Some i \<Rightarrow> if occupied w b then (Inl eexist, w)
                else if \<not> has_parent w b then (Inl enoent, w)
                else (Inr (), w\<lparr>f_names := AList.update b i (f_names w)\<rparr>))"

definition unlinkSync :: "path \<Rightarrow> unit io" where
  "unlinkSync p = sys (\<lambda>w.
     if map_of (f_names w) p = None then (Inl enoent, w)
     else (Inr (), w\<lparr>f_names := AList.delete p (f_names w)\<rparr>))"

text \<open>A rename replaces a file at the target; of two names of one inode it does nothing.\<close>

definition renameSync :: "path \<Rightarrow> path \<Rightarrow> unit io" where
  "renameSync a b = sys (\<lambda>w.
     case map_of (f_names w) a of
       None \<Rightarrow> (Inl enoent, w)
     | Some i \<Rightarrow> if b \<in> set (f_dirs w) \<or> b = [] then (Inl (Thrown ''EISDIR''), w)
                else if \<not> has_parent w b then (Inl enoent, w)
                else if map_of (f_names w) b = Some i then (Inr (), w)
                else (Inr (), w\<lparr>f_names := AList.update b i (AList.delete a (f_names w))\<rparr>))"

text \<open>\<open>open\<close> with \<open>O_CREAT | O_EXCL\<close>: an empty file with an inode of its own, which is the descriptor.\<close>

definition openExclusive :: "path \<Rightarrow> nat io" where
  "openExclusive p = sys (\<lambda>w.
     if occupied w p then (Inl eexist, w)
     else if \<not> has_parent w p then (Inl enoent, w)
     else (Inr (f_next w), w\<lparr>f_names := AList.update p (f_next w) (f_names w),
       f_data := AList.update (f_next w) [] (f_data w), f_next := Suc (f_next w)\<rparr>))"

definition writeAll :: "nat \<Rightarrow> str \<Rightarrow> unit io" where
  "writeAll fd data = sys (\<lambda>w. (Inr (), w\<lparr>f_data := AList.update fd data (f_data w)\<rparr>))"

definition fsyncSync :: "nat \<Rightarrow> unit io" where "fsyncSync fd = sys (ret ())"
definition closeSync :: "nat \<Rightarrow> unit io" where "closeSync fd = sys (ret ())"

text \<open>\<^const>\<open>True\<close> for a directory.\<close>

definition lstatSync :: "path \<Rightarrow> bool io" where
  "lstatSync p = sys (\<lambda>w.
     if p \<in> set (f_dirs w) \<or> p = [] then (Inr True, w)
     else if map_of (f_names w) p \<noteq> None then (Inr False, w) else (Inl enoent, w))"

definition mkdirSync :: "path \<Rightarrow> unit io" where
  "mkdirSync p = sys (\<lambda>w.
     if occupied w p then (Inl eexist, w) else if \<not> has_parent w p then (Inl enoent, w)
     else (Inr (), w\<lparr>f_dirs := p # f_dirs w\<rparr>))"

definition rmdirSync :: "path \<Rightarrow> unit io" where
  "rmdirSync p = sys (\<lambda>w.
     if p \<notin> set (f_dirs w) then (Inl enoent, w)
     else if list_ex (\<lambda>q. q \<noteq> [] \<and> butlast q = p) (map fst (f_names w) @ f_dirs w) then (Inl (Thrown ''ENOTEMPTY''), w)
     else (Inr (), w\<lparr>f_dirs := removeAll p (f_dirs w)\<rparr>))"

text \<open>\<open>rmSync(abs, { force: true })\<close>\<close>

definition hardDelete :: "path \<Rightarrow> unit io" where
  "hardDelete p = sys (\<lambda>w. (Inr (), w\<lparr>f_names := AList.delete p (f_names w)\<rparr>))"

subsection \<open>Reading\<close>

text \<open>
  \<open>readFileChecked\<close>: the checked open (a regular file), then the single-link rule and the bytes.
\<close>

definition readFileChecked :: "path \<Rightarrow> str io" where
  "readFileChecked p = sys (\<lambda>w.
     if p \<in> set (f_dirs w) \<or> p = [] then (Inl (Tc Path_invalid ''not a regular file'' None), w)
     else case map_of (f_names w) p of
       None \<Rightarrow> (Inl enoent, w)
     | Some i \<Rightarrow>
         if nlink w i > 1 then (Inl (Tc Acl_denied ''refusing to read a hard-linked file (inode aliasing)'' None), w)
         else (Inr (bytes_of w i), w))"

text \<open>\<open>readNote\<close>: its text and the hash of its text.\<close>

definition readNote :: "note_env \<Rightarrow> path \<Rightarrow> (str \<times> str) io" where
  "readNote env p = abind (readFileChecked p) (\<lambda>b. ret (ne_decode env b, ne_hash env (ne_decode env b)))"

definition existsNoFollow :: "path \<Rightarrow> bool io" where
  "existsNoFollow p =
     abind (attempt (lstatSync p)) (\<lambda>r. case r of
       Inr _ \<Rightarrow> ret True
     | Inl e \<Rightarrow> if e = enoent then ret False else raise e)"

subsection \<open>Directories\<close>

fun walkDirectoriesNoFollow :: "note_env \<Rightarrow> bool \<Rightarrow> path \<Rightarrow> str list \<Rightarrow> unit io" where
  "walkDirectoriesNoFollow env create cur [] = ret ()"
| "walkDirectoriesNoFollow env create cur (c # cs) =
     (let here = cur @ [c] in
      abind (attempt (lstatSync here)) (\<lambda>r.
      abind (case r of
          Inr isDir \<Rightarrow> ret isDir
        | Inl e \<Rightarrow>
            if e \<noteq> enoent \<or> \<not> create then raise e
            else abind (of_sum (ne_creatable env c)) (\<lambda>_.
                 abind (attempt (mkdirSync here)) (\<lambda>m.
                   case m of Inl e2 \<Rightarrow> (if e2 \<noteq> eexist then raise e2 else lstatSync here)
                   | Inr _ \<Rightarrow> lstatSync here))) (\<lambda>isDir.
        if \<not> isDir then raise (Tc Path_invalid ''a path component is not a directory'' None)
        else walkDirectoriesNoFollow env create here cs)))"

definition ensureDirNoFollow :: "note_env \<Rightarrow> path \<Rightarrow> bool \<Rightarrow> unit io" where
  "ensureDirNoFollow env dir create = walkDirectoriesNoFollow env create [] dir"

subsection \<open>Temporary files\<close>

text \<open>\<open>`${abs}.tmp-${process.pid}-${random}`\<close>; \<open>io_rand\<close> stands for the process id and the random part.\<close>

definition with_suffix :: "path \<Rightarrow> str \<Rightarrow> path" where
  "with_suffix p s = butlast p @ [last p @ s]"

definition temp_suffix :: "str io" where
  "temp_suffix w = (Inr (''.tmp-'' @ io_rand w (io_drawn w)), w\<lparr>io_drawn := Suc (io_drawn w)\<rparr>)"

definition removeTemp :: "path \<Rightarrow> unit io" where
  "removeTemp tmp = swallow (unlinkSync tmp)"

text \<open>\<open>try { m } finally { c }\<close>\<close>

definition finally_do :: "('w, 'a) act \<Rightarrow> ('w, unit) act \<Rightarrow> ('w, 'a) act" where
  "finally_do m c = abind (attempt m) (\<lambda>r. abind c (\<lambda>_. of_sum r))"

definition writeTempFile :: "path \<Rightarrow> str \<Rightarrow> bool \<Rightarrow> path io" where
  "writeTempFile p data sync =
     abind temp_suffix (\<lambda>s. let tmp = with_suffix p s in
     abind (openExclusive tmp) (\<lambda>fd.
     abind (acatch (finally_do (abind (writeAll fd data) (\<lambda>_. awhen sync (fsyncSync fd))) (closeSync fd))
        (\<lambda>e. abind (removeTemp tmp) (\<lambda>_. raise e))) (\<lambda>_. ret tmp)))"

subsection \<open>Commits that replace nothing\<close>

definition note_exists :: terror where
  "note_exists = Tc Note_exists ''target already exists; nothing was replaced'' None"

text \<open>The codes of a file system without hard links.\<close>

definition no_link_codes :: "str list" where
  "no_link_codes = [''EPERM'', ''ENOSYS'', ''ENOTSUP'', ''EOPNOTSUPP'']"

definition no_links :: "terror \<Rightarrow> bool" where
  "no_links e \<longleftrightarrow> (case e of Thrown c \<Rightarrow> c \<in> set no_link_codes | _ \<Rightarrow> False)"

definition commitNoReplace :: "path \<Rightarrow> path \<Rightarrow> unit io" where
  "commitNoReplace tmp p =
     abind (attempt (linkSync tmp p)) (\<lambda>r. case r of
       Inr _ \<Rightarrow> swallow (unlinkSync tmp)
     | Inl e \<Rightarrow>
         if e = eexist then abind (unlinkSync tmp) (\<lambda>_. raise note_exists)
         else if \<not> no_links e then abind (unlinkSync tmp) (\<lambda>_. raise e)
         else abind (attempt (abind (openExclusive p) closeSync)) (\<lambda>r2. case r2 of
             Inl e2 \<Rightarrow> abind (unlinkSync tmp) (\<lambda>_. raise (if e2 = eexist then note_exists else e2))
           | Inr _ \<Rightarrow> acatch (renameSync tmp p)
               (\<lambda>e3. abind (removeTemp p) (\<lambda>_. abind (removeTemp tmp) (\<lambda>_. raise e3)))))"

definition copyExclusiveThenUnlink :: "path \<Rightarrow> path \<Rightarrow> unit io" where
  "copyExclusiveThenUnlink a b =
     abind (readFileChecked a) (\<lambda>data.
     abind (acatch (openExclusive b) (\<lambda>e. raise (if e = eexist then note_exists else e))) (\<lambda>dst.
       acatch (abind (finally_do (writeAll dst data) (closeSync dst)) (\<lambda>_. unlinkSync a))
         (\<lambda>e. abind (swallow (unlinkSync b)) (\<lambda>_. raise e))))"

definition moveNoReplace :: "note_env \<Rightarrow> path \<Rightarrow> path \<Rightarrow> unit io" where
  "moveNoReplace env a b =
     abind (ensureDirNoFollow env (butlast a) False) (\<lambda>_.
     abind (ensureDirNoFollow env (butlast b) False) (\<lambda>_.
     abind (attempt (linkSync a b)) (\<lambda>r. case r of
       Inl e \<Rightarrow>
         if e = eexist then raise note_exists
         else if \<not> no_links e then raise e
         else copyExclusiveThenUnlink a b
     | Inr _ \<Rightarrow> acatch (unlinkSync a) (\<lambda>e. abind (swallow (unlinkSync b)) (\<lambda>_. raise e)))))"

subsection \<open>Writing a note\<close>

record write_opts =
  wo_exclusive :: bool
  wo_replacesExisting :: bool
  wo_ungated :: bool

definition gateNoteWrite :: "note_env \<Rightarrow> write_opts \<Rightarrow> path \<Rightarrow> str \<Rightarrow> unit io" where
  "gateNoteWrite env opts p body =
     (if wo_ungated opts then ret ()
      else case ne_gate env p body of None \<Rightarrow> ret () | Some e \<Rightarrow> raise e)"

text \<open>The refusal of a hostile new name, and the parents.\<close>

definition prepare_write :: "note_env \<Rightarrow> path \<Rightarrow> bool \<Rightarrow> write_opts \<Rightarrow> unit io" where
  "prepare_write env p createDirs opts =
     abind (if wo_replacesExisting opts then ret True else existsNoFollow p) (\<lambda>there.
     abind (if there then ret () else of_sum (ne_creatable env (last p))) (\<lambda>_.
       if createDirs then ensureDirNoFollow env (butlast p) True else ret ()))"

definition commit_temp :: "path \<Rightarrow> path \<Rightarrow> bool \<Rightarrow> unit io" where
  "commit_temp tmp p exclusive =
     acatch (if exclusive then commitNoReplace tmp p else renameSync tmp p)
       (\<lambda>e. abind (removeTemp tmp) (\<lambda>_. raise e))"

definition writeFileAtomic :: "note_env \<Rightarrow> path \<Rightarrow> str \<Rightarrow> bool \<Rightarrow> write_opts \<Rightarrow> unit io" where
  "writeFileAtomic env p data createDirs opts =
     abind (gateNoteWrite env opts p data) (\<lambda>_.
     abind (prepare_write env p createDirs opts) (\<lambda>_.
     abind (writeTempFile p data False) (\<lambda>tmp. commit_temp tmp p (wo_exclusive opts))))"

definition writeNoteAtomic :: "note_env \<Rightarrow> path \<Rightarrow> str \<Rightarrow> bool \<Rightarrow> write_opts \<Rightarrow> unit io" where
  "writeNoteAtomic env p content createDirs opts = writeFileAtomic env p (ne_encode env content) createDirs opts"

record staged_write =
  st_id :: nat
  st_tmp :: path
  st_path :: path
  st_exclusive :: bool

definition stageNoteWrite :: "note_env \<Rightarrow> path \<Rightarrow> str \<Rightarrow> bool \<Rightarrow> write_opts \<Rightarrow> staged_write io" where
  "stageNoteWrite env p content createDirs opts =
     (let data = ne_encode env content in
      abind (gateNoteWrite env opts p data) (\<lambda>_.
      abind (prepare_write env p createDirs opts) (\<lambda>_.
      abind (writeTempFile p data True) (\<lambda>tmp w.
        (Inr \<lparr>st_id = io_staged w, st_tmp = tmp, st_path = p, st_exclusive = wo_exclusive opts\<rparr>,
         w\<lparr>io_staged := Suc (io_staged w)\<rparr>)))))"

definition commit_staged :: "staged_write \<Rightarrow> unit io" where
  "commit_staged s w =
     (if st_id s \<in> set (io_settled w) then (Inl (Thrown ''staged write already settled''), w)
      else commit_temp (st_tmp s) (st_path s) (st_exclusive s) (w\<lparr>io_settled := st_id s # io_settled w\<rparr>))"

definition discard_staged :: "staged_write \<Rightarrow> unit io" where
  "discard_staged s w =
     (if st_id s \<in> set (io_settled w) then (Inr (), w)
      else removeTemp (st_tmp s) (w\<lparr>io_settled := st_id s # io_settled w\<rparr>))"

end
