(* ===== verification/Write_Batch.thy ===== *)
theory Write_Batch
  imports File_Ops
begin

text \<open>
  A batch of note writes that lands as a unit: \<open>packages/server/src/vault/write-batch.ts\<close> over the file
  operations of \<open>File_Ops\<close>. Every note is staged beside its target, the caller's hook runs, the stages
  are committed after the pre-image's hash was read again, a move's sources are dropped, and a failure
  undoes what was committed. \<open>applyWriteBatch\<close> keeps the source's two \<open>try\<close> blocks: a loop that stops at
  the first throw returns what it had reached with the error.
\<close>

record batch_write =
  bw_abs :: path
  bw_rel :: str
  bw_content :: str
  bw_prevRaw :: "str option"
  bw_createDirs :: "bool option"
  bw_replacesExisting :: bool

datatype expected_content = Expect_text str | Expect_bytes str

record batch_removal =
  br_abs :: path
  br_rel :: str
  br_expected :: expected_content

definition rollback_incomplete :: str where
  "rollback_incomplete = ''rollback_incomplete''"

definition isIncompleteRollback :: "terror \<Rightarrow> bool" where
  "isIncompleteRollback e \<longleftrightarrow>
     (case e of Tc _ _ (Some d) \<Rightarrow> map_of d ''reason'' = Some (JStr rollback_incomplete) | _ \<Rightarrow> False)"

fun for_each :: "('a \<Rightarrow> ('w, unit) act) \<Rightarrow> 'a list \<Rightarrow> ('w, unit) act" where
  "for_each f [] = ret ()"
| "for_each f (x # xs) = abind (f x) (\<lambda>_. for_each f xs)"

subsection \<open>Directories a batch makes\<close>

definition removeEmptyDir :: "path \<Rightarrow> unit io" where "removeEmptyDir p = rmdirSync p"

definition existsSync :: "path \<Rightarrow> bool io" where
  "existsSync p = abind (attempt (lstatSync p)) (\<lambda>r. ret (case r of Inr _ \<Rightarrow> True | Inl _ \<Rightarrow> False))"

function missing_from :: "path \<Rightarrow> path list io" where
  "missing_from d = abind (existsSync d) (\<lambda>there.
     if there \<or> d = [] then ret [] else abind (missing_from (butlast d)) (\<lambda>out. ret (out @ [d])))"
  by pat_completeness auto
termination by (relation "measure length") auto

declare missing_from.simps [simp del]

definition missingDirs :: "path \<Rightarrow> path list io" where
  "missingDirs p = missing_from (butlast p)"

definition removeMadeDirs :: "path list \<Rightarrow> unit io" where
  "removeMadeDirs dirs = for_each (\<lambda>d. swallow (removeEmptyDir d)) (rev dirs)"

subsection \<open>Undoing one note\<close>

definition currentHash :: "note_env \<Rightarrow> path \<Rightarrow> str option io" where
  "currentHash env p =
     abind (attempt (readNote env p)) (\<lambda>r. ret (case r of Inr (_, h) \<Rightarrow> Some h | Inl _ \<Rightarrow> None))"

definition dropQuietly :: "path \<Rightarrow> unit io" where
  "dropQuietly p = swallow (hardDelete p)"

datatype undo_outcome = Undone | Diverged | Stuck

definition put_back :: "note_env \<Rightarrow> path \<Rightarrow> path \<Rightarrow> undo_outcome io" where
  "put_back env aside p =
     abind (attempt (moveNoReplace env aside p)) (\<lambda>r. ret (case r of Inr _ \<Rightarrow> Diverged | Inl _ \<Rightarrow> Stuck))"

definition is_note_exists :: "terror \<Rightarrow> bool" where
  "is_note_exists e \<longleftrightarrow> (case e of Tc c _ _ \<Rightarrow> c = Note_exists | Thrown _ \<Rightarrow> False)"

definition undo_opts :: write_opts where
  "undo_opts = \<lparr>wo_exclusive = True, wo_replacesExisting = False, wo_ungated = True\<rparr>"

definition restore_pre_image :: "note_env \<Rightarrow> path \<Rightarrow> path \<Rightarrow> str \<Rightarrow> undo_outcome io" where
  "restore_pre_image env aside p raw =
     abind (attempt (writeNoteAtomic env p raw False undo_opts)) (\<lambda>r. case r of
       Inr _ \<Rightarrow> abind (dropQuietly aside) (\<lambda>_. ret Undone)
     | Inl e \<Rightarrow>
         if is_note_exists e then abind (dropQuietly aside) (\<lambda>_. ret Diverged)
         else abind (put_back env aside p) (\<lambda>_. ret Stuck))"

definition undoWrittenNote :: "note_env \<Rightarrow> path \<Rightarrow> str \<Rightarrow> str option \<Rightarrow> undo_outcome io" where
  "undoWrittenNote env p writtenHash prevRaw =
     abind temp_suffix (\<lambda>s. let aside = with_suffix p s in
     abind (attempt (moveNoReplace env p aside)) (\<lambda>r. case r of
       Inl e \<Rightarrow> ret (if e = enoent then (if prevRaw = None then Undone else Diverged) else Stuck)
     | Inr _ \<Rightarrow>
         abind (currentHash env aside) (\<lambda>held.
         if held \<noteq> Some writtenHash then put_back env aside p
         else case prevRaw of
             None \<Rightarrow> abind (dropQuietly aside) (\<lambda>_. ret Undone)
           | Some raw \<Rightarrow> restore_pre_image env aside p raw)))"

subsection \<open>Dropping a move's sources\<close>

definition holds :: "note_env \<Rightarrow> path \<Rightarrow> expected_content \<Rightarrow> bool io" where
  "holds env p ex =
     (case ex of
       Expect_text t \<Rightarrow> abind (attempt (readNote env p)) (\<lambda>r. ret (case r of Inr (_, h) \<Rightarrow> h = ne_hash env t | Inl _ \<Rightarrow> False))
     | Expect_bytes b \<Rightarrow> abind (attempt (readFileChecked p)) (\<lambda>r. ret (case r of Inr d \<Rightarrow> d = b | Inl _ \<Rightarrow> False)))"

datatype aside_end = All_moved | Changed str | Move_failed terror

type_synonym aside_file = "batch_removal \<times> path \<times> str"

fun move_aside :: "note_env \<Rightarrow> aside_file list \<Rightarrow> batch_removal list \<Rightarrow> (aside_file list \<times> aside_end) io" where
  "move_aside env acc [] = ret (acc, All_moved)"
| "move_aside env acc (r # rs) =
     abind temp_suffix (\<lambda>s. let tmp = with_suffix (br_abs r) s in
     abind (attempt (moveNoReplace env (br_abs r) tmp)) (\<lambda>m. case m of
       Inl e \<Rightarrow> if e = enoent then move_aside env acc rs else ret (acc, Move_failed e)
     | Inr _ \<Rightarrow>
         abind (holds env tmp (br_expected r)) (\<lambda>ok.
         if \<not> ok then ret (acc @ [(r, tmp, s)], Changed (br_rel r))
         else move_aside env (acc @ [(r, tmp, s)]) rs)))"

fun put_all_back :: "note_env \<Rightarrow> aside_file list \<Rightarrow> str list io" where
  "put_all_back env [] = ret []"
| "put_all_back env ((r, tmp, s) # as) =
     abind (attempt (moveNoReplace env tmp (br_abs r))) (\<lambda>m.
     abind (put_all_back env as) (\<lambda>kept.
       ret (case m of Inr _ \<Rightarrow> kept | Inl _ \<Rightarrow> (br_rel r @ s) # kept)))"

text \<open>\<open>casConflict\<close> of \<open>vault/cas.ts\<close>: the hashes only for a caller that may read the file.\<close>

definition casConflict :: "str \<Rightarrow> details \<Rightarrow> (str \<times> bool) option \<Rightarrow> terror" where
  "casConflict message ds current =
     (let mayRead = (case current of Some (_, b) \<Rightarrow> b | None \<Rightarrow> False);
          shown = (if mayRead then ds else filter (\<lambda>(k, _). k \<noteq> ''actual'' \<and> k \<noteq> ''expected'') ds)
      in Tc Concurrent_modification message
           (Some (case current of Some (h, True) \<Rightarrow> AList.update ''actual'' (JStr h) shown | _ \<Rightarrow> shown)))"

definition kept_beside :: "str list \<Rightarrow> terror" where
  "kept_beside kept = Tc Internal_error
     ''a source changed before it could be removed and could not be put back under its name; its current bytes are kept beside it''
     (Some [(''reason'', JStr rollback_incomplete), (''paths'', JArr (map JStr kept))])"

definition source_changed :: "str \<Rightarrow> terror" where
  "source_changed rel = casConflict
     (rel @ '' changed since it was read; it was kept and nothing was moved. Re-read and move again'')
     [(''path'', JStr rel)] None"

definition removeUnchanged :: "note_env \<Rightarrow> batch_removal list \<Rightarrow> unit io" where
  "removeUnchanged env removals =
     abind (move_aside env [] removals) (\<lambda>(asides, stop).
     if stop = All_moved then for_each (\<lambda>(_, tmp, _). dropQuietly tmp) asides
     else abind (put_all_back env asides) (\<lambda>kept.
       if kept \<noteq> [] then raise (kept_beside kept)
       else case stop of Move_failed e \<Rightarrow> raise e | Changed rel \<Rightarrow> raise (source_changed rel) | All_moved \<Rightarrow> ret ()))"

subsection \<open>The batch\<close>

record staged =
  sg_w :: batch_write
  sg_madeDirs :: "path list"
  sg_staged :: staged_write

definition creates_dirs :: "batch_write \<Rightarrow> bool" where
  "creates_dirs w = (case bw_createDirs w of None \<Rightarrow> True | Some b \<Rightarrow> b)"

definition batch_opts :: "batch_write \<Rightarrow> write_opts" where
  "batch_opts w = \<lparr>wo_exclusive = (bw_prevRaw w = None), wo_replacesExisting = bw_replacesExisting w, wo_ungated = False\<rparr>"

definition stage_one :: "note_env \<Rightarrow> batch_write \<Rightarrow> staged io" where
  "stage_one env w =
     abind (if bw_prevRaw w = None \<and> creates_dirs w then missingDirs (bw_abs w) else ret []) (\<lambda>made.
     abind (stageNoteWrite env (bw_abs w) (bw_content w) (creates_dirs w) (batch_opts w)) (\<lambda>s.
       ret \<lparr>sg_w = w, sg_madeDirs = made, sg_staged = s\<rparr>))"

fun stage_all :: "note_env \<Rightarrow> staged list \<Rightarrow> batch_write list \<Rightarrow> (staged list \<times> terror option) io" where
  "stage_all env acc [] = ret (acc, None)"
| "stage_all env acc (w # ws) =
     abind (attempt (stage_one env w)) (\<lambda>r. case r of
       Inl e \<Rightarrow> ret (acc, Some e) | Inr s \<Rightarrow> stage_all env (acc @ [s]) ws)"

definition discard_all :: "staged list \<Rightarrow> unit io" where
  "discard_all ss = for_each (\<lambda>s. discard_staged (sg_staged s)) ss"

definition abandon :: "staged list \<Rightarrow> unit io" where
  "abandon ss = abind (discard_all ss) (\<lambda>_. for_each (\<lambda>s. removeMadeDirs (sg_madeDirs s)) (rev ss))"

definition changed_since :: "str \<Rightarrow> terror" where
  "changed_since rel = casConflict
     (rel @ '' changed since it was read; nothing was kept. Re-read, re-draft and commit again'')
     [(''path'', JStr rel)] None"

definition check_pre_image :: "note_env \<Rightarrow> batch_write \<Rightarrow> unit io" where
  "check_pre_image env w =
     (case bw_prevRaw w of
       None \<Rightarrow> ret ()
     | Some raw \<Rightarrow> abind (currentHash env (bw_abs w)) (\<lambda>actual.
         if actual \<noteq> Some (ne_hash env raw) then raise (changed_since (bw_rel w)) else ret ()))"

definition commit_one :: "note_env \<Rightarrow> staged \<Rightarrow> unit io" where
  "commit_one env s = abind (check_pre_image env (sg_w s)) (\<lambda>_. commit_staged (sg_staged s))"

fun commit_all :: "note_env \<Rightarrow> staged list \<Rightarrow> staged list \<Rightarrow> (staged list \<times> terror option) io" where
  "commit_all env landed [] = ret (landed, None)"
| "commit_all env landed (s # ss) =
     abind (attempt (commit_one env s)) (\<lambda>r. case r of
       Inl e \<Rightarrow> ret (landed, Some e) | Inr _ \<Rightarrow> commit_all env (landed @ [s]) ss)"

definition undo_one :: "note_env \<Rightarrow> staged \<Rightarrow> undo_outcome io" where
  "undo_one env s = (let w = sg_w s in
     abind (attempt (undoWrittenNote env (bw_abs w) (ne_hash env (bw_content w)) (bw_prevRaw w))) (\<lambda>r.
     let outcome = (case r of Inr x \<Rightarrow> x | Inl _ \<Rightarrow> Stuck) in
     abind (awhen (outcome = Undone \<and> bw_prevRaw w = None) (removeMadeDirs (sg_madeDirs s))) (\<lambda>_. ret outcome)))"

text \<open>The paths that could not be undone, and those someone else changed.\<close>

fun undo_all :: "note_env \<Rightarrow> staged list \<Rightarrow> (str list \<times> str list) io" where
  "undo_all env [] = ret ([], [])"
| "undo_all env (s # ss) =
     abind (undo_one env s) (\<lambda>outcome.
     abind (undo_all env ss) (\<lambda>(stuck, diverged).
       ret (case outcome of Undone \<Rightarrow> (stuck, diverged)
            | Diverged \<Rightarrow> (stuck, bw_rel (sg_w s) # diverged)
            | Stuck \<Rightarrow> (bw_rel (sg_w s) # stuck, diverged))))"

definition error_message :: "terror \<Rightarrow> str" where
  "error_message e = (case e of Tc _ m _ \<Rightarrow> m | Thrown m \<Rightarrow> m)"

definition not_undone :: "str list \<Rightarrow> str list \<Rightarrow> terror \<Rightarrow> terror" where
  "not_undone stuck diverged cause = Tc Internal_error
     ''a write failed and some earlier writes were not undone; restore these notes with restore_note''
     (Some ([(''reason'', JStr rollback_incomplete), (''paths'', JArr (map JStr (stuck @ diverged)))]
       @ (if diverged \<noteq> [] then [(''changed_since_written'', JArr (map JStr diverged))] else [])
       @ [(''cause'', JStr (error_message cause))]))"

definition roll_back :: "note_env \<Rightarrow> staged list \<Rightarrow> nat \<Rightarrow> terror \<Rightarrow> unit io" where
  "roll_back env ss n cause =
     abind (discard_all (drop n ss)) (\<lambda>_.
     abind (undo_all env (rev (take n ss))) (\<lambda>(stuck, diverged).
     abind (removeMadeDirs (concat (map sg_madeDirs (drop n ss)))) (\<lambda>_.
       raise (if stuck \<noteq> [] \<or> diverged \<noteq> [] then not_undone stuck diverged cause else cause))))"

definition commit_batch :: "note_env \<Rightarrow> staged list \<Rightarrow> batch_removal list \<Rightarrow> unit io" where
  "commit_batch env ss removals =
     abind (commit_all env [] ss) (\<lambda>(committed, failed). case failed of
       Some cause \<Rightarrow> roll_back env ss (length committed) cause
     | None \<Rightarrow>
         if removals = [] then ret ()
         else acatch (removeUnchanged env removals) (roll_back env ss (length committed)))"

definition applyWriteBatch :: "note_env \<Rightarrow> batch_write list \<Rightarrow> unit io \<Rightarrow> batch_removal list \<Rightarrow> unit io" where
  "applyWriteBatch env ws beforeCommit removals =
     abind (stage_all env [] ws) (\<lambda>(ss, failed). case failed of
       Some e \<Rightarrow> abind (abandon ss) (\<lambda>_. raise e)
     | None \<Rightarrow>
         abind (acatch beforeCommit (\<lambda>e. abind (abandon ss) (\<lambda>_. raise e))) (\<lambda>_.
           commit_batch env ss removals))"

end
