(* ===== verification/Write_Batch_Safety.thy ===== *)
theory Write_Batch_Safety
  imports Write_Batch
begin

text \<open>
  What a batch of note writes guarantees whichever system calls fail. \<open>only X\<close> is the frame relation:
  no name outside \<open>X\<close> changes and no existing inode's bytes do. Each operation has one outcome lemma
  (\<open><operation>_ok\<close>) in the calculus of \<open>Act_Wp\<close>; a larger operation is proved from those of its calls
  with \<open>wp_mono\<close>. A name with a temporary file's suffix is \<open>hidden\<close>; every other name is a note a
  reader sees, and \<open>text_at\<close> is what it reads there.
\<close>

subsection \<open>Sound disks and frames\<close>

abbreviation inode_at :: "disk \<Rightarrow> path \<Rightarrow> nat option" where
  "inode_at w p \<equiv> map_of (f_names w) p"

definition hidden :: "path \<Rightarrow> bool" where "hidden p \<longleftrightarrow> sublist ''.tmp-'' (last p)"

text \<open>The codes a failing call may carry: those that tell the code something are only returned when true.\<close>

definition honest :: "disk \<Rightarrow> bool" where
  "honest w \<longleftrightarrow> (\<forall>n c. io_fault w n = Some c \<longrightarrow> c \<notin> set (''ENOENT'' # ''EEXIST'' # no_link_codes))"

definition sound :: "disk \<Rightarrow> bool" where
  "sound w \<longleftrightarrow> honest w
     \<and> (\<forall>p i. inode_at w p = Some i \<longrightarrow> i < f_next w \<and> p \<noteq> [] \<and> p \<notin> set (f_dirs w) \<and> has_parent w p)
     \<and> (\<forall>d \<in> set (f_dirs w). d \<noteq> [] \<and> has_parent w d)"

definition only :: "path set \<Rightarrow> disk \<Rightarrow> disk \<Rightarrow> bool" where
  "only X w w' \<longleftrightarrow> (sound w \<longrightarrow> sound w' \<and> f_next w \<le> f_next w' \<and>
     (\<forall>i < f_next w. bytes_of w' i = bytes_of w i) \<and> (\<forall>p. p \<notin> X \<longrightarrow> inode_at w' p = inode_at w p))"

definition still :: "disk \<Rightarrow> disk \<Rightarrow> bool" where
  "still w w' \<longleftrightarrow> f_names w' = f_names w \<and> f_dirs w' = f_dirs w \<and> f_data w' = f_data w
     \<and> f_next w' = f_next w \<and> io_fault w' = io_fault w"

definition confined :: "path set \<Rightarrow> disk \<Rightarrow> disk \<Rightarrow> bool" where
  "confined X w w' \<longleftrightarrow> only (X \<union> {p. hidden p \<and> inode_at w p = None}) w w'"

definition text_at :: "note_env \<Rightarrow> disk \<Rightarrow> path \<Rightarrow> str option" where
  "text_at env w p = map_option (ne_decode env) (bytes_at w p)"

lemma still_simps:
  assumes "still w w'"
  shows "inode_at w' p = inode_at w p" "bytes_of w' i = bytes_of w i" "sound w' = sound w"
    "f_next w' = f_next w" "has_parent w' p = has_parent w p" "f_dirs w' = f_dirs w"
    "occupied w' p = occupied w p" "bytes_at w' p = bytes_at w p" "text_at env w' p = text_at env w p"
proof -
  have "bytes_of w' = bytes_of w" using assms by (simp add: fun_eq_iff still_def bytes_of_def)
  then show "inode_at w' p = inode_at w p" "bytes_of w' i = bytes_of w i" "sound w' = sound w"
    "f_next w' = f_next w" "has_parent w' p = has_parent w p" "f_dirs w' = f_dirs w"
    "occupied w' p = occupied w p" "bytes_at w' p = bytes_at w p" "text_at env w' p = text_at env w p"
    using assms by (simp_all add: still_def sound_def honest_def has_parent_def occupied_def bytes_at_def text_at_def)
qed

lemma still_refl: "still w w" by (simp add: still_def)

lemma still_trans: "still w w1 \<Longrightarrow> still w1 w2 \<Longrightarrow> still w w2" by (simp add: still_def)

lemma only_still: "still w w' \<Longrightarrow> only X w w'" by (simp add: only_def still_simps)

lemma sound_honest: "sound w \<Longrightarrow> honest w" by (simp add: sound_def)

lemma soundD:
  "sound w \<Longrightarrow> inode_at w p = Some i \<Longrightarrow> i < f_next w \<and> p \<noteq> [] \<and> p \<notin> set (f_dirs w) \<and> has_parent w p"
  by (simp add: sound_def)

lemma sound_dirs: "sound w \<Longrightarrow> d \<in> set (f_dirs w) \<Longrightarrow> d \<noteq> [] \<and> has_parent w d"
  by (simp add: sound_def)

lemma soundI:
  assumes "honest w"
    and "\<And>p i. inode_at w p = Some i \<Longrightarrow> i < f_next w \<and> p \<noteq> [] \<and> p \<notin> set (f_dirs w) \<and> has_parent w p"
    and "\<And>d. d \<in> set (f_dirs w) \<Longrightarrow> d \<noteq> [] \<and> has_parent w d"
  shows "sound w"
  using assms by (simp add: sound_def)

lemma honest_simps [simp]:
  "honest (w\<lparr>f_names := x\<rparr>) = honest w" "honest (w\<lparr>f_data := y\<rparr>) = honest w"
  "honest (w\<lparr>f_next := n\<rparr>) = honest w" "honest (w\<lparr>f_dirs := d\<rparr>) = honest w" "honest (w\<lparr>io_calls := n\<rparr>) = honest w"
  by (simp_all add: honest_def)

lemma has_parent_simps [simp]:
  "has_parent (w\<lparr>f_names := x\<rparr>) = has_parent w" "has_parent (w\<lparr>f_data := y\<rparr>) = has_parent w"
  "has_parent (w\<lparr>f_next := n\<rparr>) = has_parent w"
  by (simp_all add: has_parent_def fun_eq_iff)

lemma only_refl [simp]: "only X w w" by (simp add: only_def)

lemma only_trans: "only X w w1 \<Longrightarrow> only Y w1 w2 \<Longrightarrow> only (X \<union> Y) w w2"
  by (auto simp: only_def)

lemma only_trans': "only X w w1 \<Longrightarrow> only X w1 w2 \<Longrightarrow> only X w w2"
  using only_trans [of X w w1 X w2] by simp

lemma only_mono: "only X w w' \<Longrightarrow> X \<subseteq> Y \<Longrightarrow> only Y w w'"
  by (auto simp: only_def)

lemma only_sound: "only X w w' \<Longrightarrow> sound w \<Longrightarrow> sound w'" by (simp add: only_def)

lemma only_inode: "only X w w' \<Longrightarrow> sound w \<Longrightarrow> p \<notin> X \<Longrightarrow> inode_at w' p = inode_at w p" by (simp add: only_def)

lemma sound_inode: "sound w \<Longrightarrow> inode_at w p = Some i \<Longrightarrow> i < f_next w" by (simp add: sound_def)

lemma only_bytes: "only X w w' \<Longrightarrow> sound w \<Longrightarrow> inode_at w p = Some i \<Longrightarrow> bytes_of w' i = bytes_of w i"
  using sound_inode by (auto simp: only_def)

text \<open>A name that still leads to the inode it led to reads as before.\<close>

lemma same_inode_text:
  "only X w w' \<Longrightarrow> sound w \<Longrightarrow> inode_at w' p = inode_at w p \<Longrightarrow> text_at env w' p = text_at env w p"
  by (cases "inode_at w p") (auto simp: text_at_def bytes_at_def only_bytes)

lemma only_text: "only X w w' \<Longrightarrow> sound w \<Longrightarrow> p \<notin> X \<Longrightarrow> text_at env w' p = text_at env w p"
  by (simp add: same_inode_text only_inode)

lemma within_only: "confined X w w' \<Longrightarrow> only (X \<union> Collect hidden) w w'"
  unfolding confined_def by (erule only_mono) auto

lemma confined_refl [simp]: "confined X w w" by (simp add: confined_def)

lemma confined_trans:
  assumes "confined X w w1" "confined X w1 w2" "sound w" shows "confined X w w2"
proof -
  have "inode_at w2 p = inode_at w p" if "p \<notin> X" "hidden p \<longrightarrow> inode_at w p \<noteq> None" for p
  proof -
    have 1: "inode_at w1 p = inode_at w p" using assms(1,3) that by (auto simp: confined_def intro: only_inode)
    then have "inode_at w2 p = inode_at w1 p"
      using that
      by (intro only_inode [OF assms(2) [unfolded confined_def] only_sound [OF assms(1) [unfolded confined_def] assms(3)]]) auto
    then show ?thesis using 1 by simp
  qed
  then show ?thesis using assms by (auto simp: confined_def only_def)
qed

lemma only_within: "only X w w' \<Longrightarrow> confined X w w'"
  by (simp add: confined_def only_mono)

text \<open>A file the operation made itself under a hidden name is no change.\<close>

lemma only_temp_within:
  "only (insert t X) w w' \<Longrightarrow> hidden t \<Longrightarrow> inode_at w t = None \<Longrightarrow> confined X w w'"
  unfolding confined_def by (erule only_mono) auto

subsection \<open>System calls\<close>

definition tick :: "disk \<Rightarrow> disk" where "tick w = w\<lparr>io_calls := Suc (io_calls w)\<rparr>"

lemma tick_still: "still w (tick w)" by (simp add: still_def tick_def)

lemma tick_simps [simp]:
  "f_names (tick w) = f_names w" "f_dirs (tick w) = f_dirs w" "f_next (tick w) = f_next w"
  "f_data (tick w) = f_data w" "io_fault (tick w) = io_fault w" "sound (tick w) = sound w"
  "occupied (tick w) p = occupied w p" "has_parent (tick w) p = has_parent w p" "bytes_of (tick w) i = bytes_of w i"
  "still w (tick w)" "honest (tick w) = honest w"
  by (simp_all add: still_simps [OF tick_still] tick_still) (simp_all add: tick_def honest_def)

definition silent :: "terror \<Rightarrow> bool" where
  "silent e \<longleftrightarrow> e \<noteq> enoent \<and> e \<noteq> eexist \<and> \<not> no_links e \<and> \<not> is_note_exists e"

lemma wp_sys:
  assumes "sound w" and "wp f Q E (tick w)" and "\<And>e. silent e \<Longrightarrow> E e (tick w)"
  shows "wp (sys f) Q E w"
proof (cases "io_fault w (io_calls w)")
  case None
  then show ?thesis using assms(2) by (simp add: wp_def sys_def tick_def Let_def)
next
  case (Some c)
  then have "silent (Thrown c)"
    using assms(1) unfolding sound_def honest_def by (auto simp: silent_def enoent_def eexist_def no_links_def is_note_exists_def)
  then show ?thesis using assms(3) Some by (simp add: wp_def sys_def tick_def Let_def)
qed

text \<open>A new name for an inode, and a name dropped.\<close>

lemma sound_update:
  assumes "sound w" "\<not> occupied w p" "has_parent w p" "i < f_next w"
  shows "sound (w\<lparr>f_names := AList.update p i (f_names w)\<rparr>)"
  using assms by (auto simp: sound_def honest_def has_parent_def occupied_def update_conv')

lemma sound_delete: "sound w \<Longrightarrow> sound (w\<lparr>f_names := AList.delete p (f_names w)\<rparr>)"
  by (auto simp: sound_def honest_def has_parent_def delete_conv' restrict_map_def split: if_splits)

lemma linkSync_ok:
  assumes "sound w"
  shows "wp (linkSync a b)
     (\<lambda>_ w'. only {b} w w' \<and> inode_at w a \<noteq> None \<and> inode_at w' b = inode_at w a \<and> inode_at w b = None)
     (\<lambda>e w'. still w w' \<and> \<not> no_links e \<and> (e = enoent \<longrightarrow> inode_at w a = None \<or> \<not> has_parent w b)
        \<and> (e = eexist \<longrightarrow> occupied w b) \<and> \<not> is_note_exists e) w"
  unfolding linkSync_def
proof (rule wp_sys [OF assms], goal_cases)
  case 1
  have *: "only {b} w ((tick w)\<lparr>f_names := AList.update b i (f_names w)\<rparr>)"
    if "inode_at w a = Some i" "\<not> occupied w b" "has_parent w b" for i
    using that sound_update [of "tick w" b i] assms sound_inode [OF assms that(1)]
    by (auto simp: only_def bytes_of_def update_conv')
  show ?case
    by (auto simp: wp_def occupied_def update_conv' * is_note_exists_def no_links_def no_link_codes_def enoent_def eexist_def split: option.splits)
qed (auto simp: silent_def)

lemma no_links_simps [simp]: "\<not> no_links enoent" "\<not> no_links eexist" "\<not> no_links (Tc c m d)" "enoent \<noteq> eexist"
    "eexist \<noteq> enoent"
  by (simp_all add: no_links_def no_link_codes_def enoent_def eexist_def)

lemma no_links_thrown [simp]: "no_links (Thrown c) \<longleftrightarrow> c \<in> set no_link_codes"
  by (simp add: no_links_def)

lemma unlinkSync_ok:
  assumes "sound w"
  shows "wp (unlinkSync p) (\<lambda>_ w'. only {p} w w' \<and> inode_at w' p = None)
     (\<lambda>e w'. still w w' \<and> (e = enoent \<longrightarrow> inode_at w p = None) \<and> \<not> is_note_exists e) w"
  unfolding unlinkSync_def
proof (rule wp_sys [OF assms], goal_cases)
  case 1
  have "only {p} w ((tick w)\<lparr>f_names := AList.delete p (f_names w)\<rparr>)"
    using sound_delete [of "tick w" p] assms by (auto simp: only_def bytes_of_def delete_conv')
  then show ?case by (auto simp: wp_def delete_conv' is_note_exists_def enoent_def)
qed (auto simp: silent_def)

lemma hardDelete_ok:
  assumes "sound w"
  shows "wp (hardDelete p) (\<lambda>_ w'. only {p} w w') (\<lambda>_ w'. still w w') w"
  unfolding hardDelete_def
proof (rule wp_sys [OF assms], goal_cases)
  case 1
  have "only {p} w ((tick w)\<lparr>f_names := AList.delete p (f_names w)\<rparr>)"
    using sound_delete [of "tick w" p] assms by (auto simp: only_def bytes_of_def delete_conv')
  then show ?case by (simp add: wp_def)
qed simp

lemma sound_move:
  assumes "sound w" "inode_at w a = Some i" "b \<noteq> []" "b \<notin> set (f_dirs w)" "has_parent w b"
  shows "sound (w\<lparr>f_names := AList.update b i (AList.delete a (f_names w))\<rparr>)"
  using assms by (auto simp: sound_def honest_def has_parent_def update_conv' delete_conv' restrict_map_def split: if_splits)

lemma renameSync_ok:
  assumes "sound w"
  shows "wp (renameSync a b)
     (\<lambda>_ w'. only {a, b} w w' \<and> inode_at w a \<noteq> None \<and> inode_at w' b = inode_at w a) (\<lambda>_ w'. still w w') w"
  unfolding renameSync_def
proof (rule wp_sys [OF assms], goal_cases)
  case 1
  have "only {a, b} w ((tick w)\<lparr>f_names := AList.update b i (AList.delete a (f_names w))\<rparr>)"
    if "inode_at w a = Some i" "b \<noteq> []" "b \<notin> set (f_dirs w)" "has_parent w b" for i
    using that sound_move [of "tick w" a i b] assms
    by (auto simp: only_def bytes_of_def update_conv' delete_conv' restrict_map_def)
  then show ?case by (auto simp: wp_def update_conv' only_still split: option.splits)
qed simp

lemma sound_new:
  assumes "sound w" "\<not> occupied w p" "has_parent w p"
  shows "sound ((tick w)\<lparr>f_names := AList.update p (f_next w) (f_names w),
    f_data := AList.update (f_next w) [] (f_data w), f_next := Suc (f_next w)\<rparr>)"
proof (rule soundI)
  fix q j assume "inode_at (tick w\<lparr>f_names := AList.update p (f_next w) (f_names w),
    f_data := AList.update (f_next w) [] (f_data w), f_next := Suc (f_next w)\<rparr>) q = Some j"
  then have "q = p \<and> j = f_next w \<or> inode_at w q = Some j" by (auto simp: update_conv' split: if_splits)
  then show "j < f_next (tick w\<lparr>f_names := AList.update p (f_next w) (f_names w),
      f_data := AList.update (f_next w) [] (f_data w), f_next := Suc (f_next w)\<rparr>) \<and> q \<noteq> []
    \<and> q \<notin> set (f_dirs (tick w\<lparr>f_names := AList.update p (f_next w) (f_names w),
      f_data := AList.update (f_next w) [] (f_data w), f_next := Suc (f_next w)\<rparr>))
    \<and> has_parent (tick w\<lparr>f_names := AList.update p (f_next w) (f_names w),
      f_data := AList.update (f_next w) [] (f_data w), f_next := Suc (f_next w)\<rparr>) q"
    using assms soundD [OF assms(1), of q j] by (auto simp: occupied_def)
qed (use assms in \<open>auto dest: sound_honest sound_dirs\<close>)

lemma openExclusive_ok:
  assumes "sound w"
  shows "wp (openExclusive p)
     (\<lambda>fd w'. only {p} w w' \<and> inode_at w p = None \<and> inode_at w' p = Some fd \<and> f_next w \<le> fd \<and> fd < f_next w')
     (\<lambda>e w'. still w w') w"
  unfolding openExclusive_def
proof (rule wp_sys [OF assms], goal_cases)
  case 1
  let ?w = "(tick w)\<lparr>f_names := AList.update p (f_next w) (f_names w),
    f_data := AList.update (f_next w) [] (f_data w), f_next := Suc (f_next w)\<rparr>"
  have "only {p} w ?w" if "\<not> occupied w p" "has_parent w p"
    using that sound_new [OF assms that] by (simp add: only_def bytes_of_def update_conv')
  then show ?case by (auto simp: wp_def update_conv' occupied_def)
qed simp

text \<open>Bytes written through a descriptor reach the names of its inode only.\<close>

lemma writeAll_ok:
  assumes "sound w"
  shows "wp (writeAll fd d)
     (\<lambda>_ w'. (\<forall>w0 X. only X w0 w \<and> sound w0 \<and> f_next w0 \<le> fd \<longrightarrow> only X w0 w') \<and> inode_at w' = inode_at w
        \<and> bytes_of w' fd = d \<and> sound w') (\<lambda>_ w'. still w w') w"
  unfolding writeAll_def
proof (rule wp_sys [OF assms], goal_cases)
  case 1
  have "sound (tick w\<lparr>f_data := AList.update fd d (f_data w)\<rparr>)"
    using assms by (auto simp: sound_def honest_def has_parent_def)
  moreover have "bytes_of (tick w\<lparr>f_data := AList.update fd d (f_data w)\<rparr>) i = (if i = fd then d else bytes_of w i)" for i
    by (simp add: bytes_of_def update_conv')
  ultimately show ?case using assms by (auto simp: wp_def only_def)
qed simp

lemma quiet_calls_ok:
  assumes "sound w"
  shows "wp (fsyncSync fd) (\<lambda>_ w'. still w w') (\<lambda>_ w'. still w w') w"
    "wp (closeSync fd) (\<lambda>_ w'. still w w') (\<lambda>_ w'. still w w') w"
  unfolding fsyncSync_def closeSync_def by (rule wp_sys [OF assms]; simp)+

lemma lstatSync_ok:
  assumes "sound w"
  shows "wp (lstatSync p) (\<lambda>isDir w'. still w w' \<and> isDir = (p \<in> set (f_dirs w) \<or> p = []))
     (\<lambda>e w'. still w w' \<and> (e = enoent \<longrightarrow> p \<notin> set (f_dirs w) \<and> p \<noteq> []) \<and> \<not> is_note_exists e) w"
  unfolding lstatSync_def by (rule wp_sys [OF assms]) (auto simp: wp_def silent_def is_note_exists_def enoent_def)

lemma mkdirSync_ok:
  assumes "sound w"
  shows "wp (mkdirSync p) (\<lambda>_ w'. only {} w w') (\<lambda>_ w'. still w w') w"
  unfolding mkdirSync_def
proof (rule wp_sys [OF assms], goal_cases)
  case 1
  have "sound (tick w\<lparr>f_dirs := p # f_dirs w\<rparr>)" if "\<not> occupied w p" "has_parent w p"
  proof (rule soundI)
    fix q i assume "inode_at (tick w\<lparr>f_dirs := p # f_dirs w\<rparr>) q = Some i"
    then show "i < f_next (tick w\<lparr>f_dirs := p # f_dirs w\<rparr>) \<and> q \<noteq> []
        \<and> q \<notin> set (f_dirs (tick w\<lparr>f_dirs := p # f_dirs w\<rparr>)) \<and> has_parent (tick w\<lparr>f_dirs := p # f_dirs w\<rparr>) q"
      using soundD [OF assms, of q i] that by (auto simp: occupied_def has_parent_def)
  next
    fix d assume "d \<in> set (f_dirs (tick w\<lparr>f_dirs := p # f_dirs w\<rparr>))"
    then show "d \<noteq> [] \<and> has_parent (tick w\<lparr>f_dirs := p # f_dirs w\<rparr>) d"
      using sound_dirs [OF assms, of d] that by (auto simp: occupied_def has_parent_def)
  qed (use sound_honest [OF assms] in \<open>simp add: tick_def\<close>)
  then have "only {} w (tick w\<lparr>f_dirs := p # f_dirs w\<rparr>)" if "\<not> occupied w p" "has_parent w p"
    using that by (simp add: only_def bytes_of_def)
  then show ?case by (auto simp: wp_def)
qed simp

lemma rmdirSync_ok:
  assumes "sound w"
  shows "wp (rmdirSync p) (\<lambda>_ w'. only {} w w') (\<lambda>_ w'. still w w') w"
  unfolding rmdirSync_def
proof (rule wp_sys [OF assms], goal_cases)
  case 1
  have "only {} w (tick w\<lparr>f_dirs := removeAll p (f_dirs w)\<rparr>)"
    if "\<not> list_ex (\<lambda>q. q \<noteq> [] \<and> butlast q = p) (map fst (f_names w) @ f_dirs w)" "p \<in> set (f_dirs w)"
  proof -
    have free: "butlast q \<noteq> p" if "inode_at w q = Some i \<or> q \<in> set (f_dirs w)" for q i
      using that \<open>\<not> list_ex _ _\<close> map_of_SomeD [of "f_names w" q i] soundD [OF assms, of q i] sound_dirs [OF assms, of q]
      by (force simp: list_ex_iff)
    have "sound (tick w\<lparr>f_dirs := removeAll p (f_dirs w)\<rparr>)"
    proof (rule soundI)
      fix q i assume "inode_at (tick w\<lparr>f_dirs := removeAll p (f_dirs w)\<rparr>) q = Some i"
      then show "i < f_next (tick w\<lparr>f_dirs := removeAll p (f_dirs w)\<rparr>) \<and> q \<noteq> []
          \<and> q \<notin> set (f_dirs (tick w\<lparr>f_dirs := removeAll p (f_dirs w)\<rparr>))
          \<and> has_parent (tick w\<lparr>f_dirs := removeAll p (f_dirs w)\<rparr>) q"
        using soundD [OF assms, of q i] free [of q i] by (auto simp: has_parent_def)
    next
      fix d assume "d \<in> set (f_dirs (tick w\<lparr>f_dirs := removeAll p (f_dirs w)\<rparr>))"
      then show "d \<noteq> [] \<and> has_parent (tick w\<lparr>f_dirs := removeAll p (f_dirs w)\<rparr>) d"
        using sound_dirs [OF assms, of d] free [of d] by (auto simp: has_parent_def)
    qed (use sound_honest [OF assms] in \<open>simp add: tick_def\<close>)
    then show ?thesis by (simp add: only_def bytes_of_def)
  qed
  then show ?case by (auto simp: wp_def)
qed simp

lemma readFileChecked_ok:
  assumes "sound w"
  shows "wp (readFileChecked p) (\<lambda>b w'. still w w' \<and> bytes_at w p = Some b) (\<lambda>_ w'. still w w') w"
  unfolding readFileChecked_def by (rule wp_sys [OF assms]) (auto simp: wp_def bytes_at_def split: option.splits)

subsection \<open>File operations\<close>

lemma wp_still_sound: "still w w' \<Longrightarrow> sound w \<Longrightarrow> sound w'" by (simp add: still_simps)

lemma still_only_trans: "still w w1 \<Longrightarrow> only X w1 w2 \<Longrightarrow> only X w w2"
  using only_trans' [OF only_still] by blast

lemma only_still_trans: "only X w w1 \<Longrightarrow> still w1 w2 \<Longrightarrow> only X w w2"
  using only_trans' only_still by blast

text \<open>Every prefix of a directory is one.\<close>

lemma dir_prefix:
  assumes "sound w" "xs @ ys = [] \<or> xs @ ys \<in> set (f_dirs w)"
  shows "xs = [] \<or> xs \<in> set (f_dirs w)"
  using assms(2)
proof (induction ys rule: rev_induct)
  case (snoc y ys)
  then have "xs @ ys @ [y] \<in> set (f_dirs w)" by simp
  from sound_dirs [OF assms(1) this] show ?case using snoc.IH by (simp add: has_parent_def butlast_append)
qed simp

text \<open>Verifying the components of a path changes nothing, and a directory is never said to be missing.\<close>

lemma walk_verify_ok:
  "sound w \<Longrightarrow> wp (walkDirectoriesNoFollow env False cur cs) (\<lambda>_ w'. still w w')
     (\<lambda>e w'. still w w' \<and> (e = enoent \<longrightarrow> cur @ cs \<noteq> [] \<and> cur @ cs \<notin> set (f_dirs w)) \<and> \<not> is_note_exists e) w"
proof (induction cs arbitrary: cur w)
  case (Cons c cs)
  show ?case
    unfolding walkDirectoriesNoFollow.simps Let_def wp_abind wp_attempt
  proof (rule wp_mono [OF lstatSync_ok [OF Cons.prems, of "cur @ [c]"]], goal_cases)
    case (1 isDir s)
    then have s: "sound s" "f_dirs s = f_dirs w" "\<And>s'. still s s' \<Longrightarrow> still w s'"
      using Cons.prems still_trans by (auto simp: still_simps)
    show ?case
    proof (cases isDir)
      case True
      then show ?thesis
        using 1 s by (auto intro!: wp_mono [OF Cons.IH [OF s(1)]])
    qed (use 1 in \<open>simp add: enoent_def is_note_exists_def\<close>)
  next
    case (2 e s)
    then show ?case using dir_prefix [OF Cons.prems, of "cur @ [c]" cs] by auto
  qed
qed (simp add: wp_def still_refl)

lemma walk_create_ok:
  "sound w \<Longrightarrow> wp (walkDirectoriesNoFollow env create cur cs) (\<lambda>_ w'. only {} w w') (\<lambda>_ w'. only {} w w') w"
proof (induction cs arbitrary: cur w)
  case (Cons c cs)
  have rest: "wp (if \<not> d then raise x else walkDirectoriesNoFollow env create here cs)
      (\<lambda>_. only {} w) (\<lambda>_. only {} w) s" if "only {} w s" for d here s x
    using that only_sound [OF that Cons.prems]
    by (auto intro!: wp_mono [OF Cons.IH] elim: only_trans')
  have look: "wp (lstatSync here) (\<lambda>d. wp (if \<not> d then raise x else walkDirectoriesNoFollow env create here cs)
      (\<lambda>_. only {} w) (\<lambda>_. only {} w)) (\<lambda>_. only {} w) s" if "only {} w s" for here s x
  proof (rule wp_mono [OF lstatSync_ok [OF only_sound [OF that Cons.prems]]], goal_cases)
    case (1 d s')
    then show ?case using rest only_still_trans [OF that] by blast
  qed (use only_still_trans [OF that] in blast)
  show ?case
    unfolding walkDirectoriesNoFollow.simps Let_def wp_abind wp_attempt
  proof (rule wp_mono [OF lstatSync_ok [OF Cons.prems, of "cur @ [c]"]], goal_cases)
    case (1 isDir s)
    then show ?case using rest [of s] by (simp add: only_still)
  next
    case (2 e s)
    then have s: "only {} w s" "sound s" using Cons.prems by (auto simp: only_still still_simps)
    show ?case
    proof (cases "e \<noteq> enoent \<or> \<not> create \<or> (\<exists>x. ne_creatable env c = Inl x)")
      case True
      then show ?thesis using s(1) by auto
    next
      case False
      then obtain u where "e = enoent" "create" "ne_creatable env c = Inr u"
        by (cases "ne_creatable env c") auto
      have 1: "only {} w s'" if "only {} s s'" for s' by (rule only_trans' [OF s(1) that])
      have 2: "only {} w s'" if "still s s'" for s' by (rule only_still_trans [OF s(1) that])
      show ?thesis
        using look 1 2 \<open>e = enoent\<close> \<open>create\<close> \<open>ne_creatable env c = Inr u\<close>
        by (auto intro!: wp_mono [OF mkdirSync_ok [OF s(2)]])
    qed
  qed
qed (simp add: wp_def)

lemma ensure_verify_ok:
  "sound w \<Longrightarrow> wp (ensureDirNoFollow env d False) (\<lambda>_ w'. still w w')
     (\<lambda>e w'. still w w' \<and> (e = enoent \<longrightarrow> d \<noteq> [] \<and> d \<notin> set (f_dirs w)) \<and> \<not> is_note_exists e) w"
  unfolding ensureDirNoFollow_def using walk_verify_ok [of w env "[]" d] by simp

lemma ensure_create_ok:
  "sound w \<Longrightarrow> wp (ensureDirNoFollow env d create) (\<lambda>_ w'. only {} w w') (\<lambda>_ w'. only {} w w') w"
  unfolding ensureDirNoFollow_def by (rule walk_create_ok)

lemma readNote_ok:
  "sound w \<Longrightarrow> wp (readNote env p)
     (\<lambda>(t, h) w'. still w w' \<and> text_at env w p = Some t \<and> h = ne_hash env t) (\<lambda>_ w'. still w w') w"
  unfolding readNote_def wp_abind
  by (rule wp_mono [OF readFileChecked_ok]) (auto simp: text_at_def)

lemma currentHash_ok:
  "sound w \<Longrightarrow> wp (currentHash env p)
     (\<lambda>h w'. still w w' \<and> (\<forall>x. h = Some x \<longrightarrow> (\<exists>t. text_at env w p = Some t \<and> x = ne_hash env t))) (\<lambda>_ w'. False) w"
  unfolding currentHash_def wp_abind wp_attempt
  by (rule wp_mono [OF readNote_ok]) auto

lemma existsNoFollow_ok:
  "sound w \<Longrightarrow> wp (existsNoFollow p) (\<lambda>_ w'. still w w') (\<lambda>_ w'. still w w') w"
  unfolding existsNoFollow_def wp_abind wp_attempt
  by (rule wp_mono [OF lstatSync_ok]) auto

lemma removeTemp_ok: "sound w \<Longrightarrow> wp (removeTemp p) (\<lambda>_ w'. only {p} w w') (\<lambda>_ w'. False) w"
  unfolding removeTemp_def wp_swallow
  by (rule wp_mono [OF unlinkSync_ok]) (auto intro: only_still)

lemma dropQuietly_ok: "sound w \<Longrightarrow> wp (dropQuietly p) (\<lambda>_ w'. only {p} w w') (\<lambda>_ w'. False) w"
  unfolding dropQuietly_def wp_swallow
  by (rule wp_mono [OF hardDelete_ok]) (auto intro: only_still)

lemma wp_conj: "wp m Q E w \<Longrightarrow> wp m Q' E' w \<Longrightarrow> wp m (\<lambda>a s. Q a s \<and> Q' a s) (\<lambda>e s. E e s \<and> E' e s) w"
  by (auto simp: wp_def split: prod.splits sum.splits)

subsection \<open>Temporary files and commits\<close>

definition temp_of :: "path \<Rightarrow> path \<Rightarrow> bool" where
  "temp_of p t \<longleftrightarrow> (\<exists>s. t = with_suffix p (''.tmp-'' @ s))"

lemma temp_of_hidden: "temp_of p t \<Longrightarrow> hidden t"
proof (unfold temp_of_def, elim exE)
  fix s assume "t = with_suffix p (''.tmp-'' @ s)"
  then have "last t = last p @ ''.tmp-'' @ s" by (simp add: with_suffix_def)
  then show "hidden t" unfolding hidden_def sublist_def by blast
qed

lemma temp_of_butlast: "temp_of p t \<Longrightarrow> butlast t = butlast p"
  by (auto simp: temp_of_def with_suffix_def)

lemma temp_suffix_ok:
  "wp temp_suffix (\<lambda>s w'. still w w' \<and> temp_of p (with_suffix p s)) (\<lambda>_ _. False) w"
  by (auto simp: wp_def temp_suffix_def still_def temp_of_def)

lemma wp_finally_do:
  "wp (finally_do m c) Q E w =
     wp m (\<lambda>a. wp c (\<lambda>_. Q a) E) (\<lambda>e. wp c (\<lambda>_. E e) E) w"
proof -
  have "wp (of_sum (Inr x)) Q E = Q x" "wp (of_sum (Inl e)) Q E = E e" for x e
    by (simp_all add: fun_eq_iff)
  then show ?thesis by (simp add: finally_do_def wp_abind_fun)
qed

lemma fill_ok:
  assumes "only X w0 w" "sound w0" "f_next w0 \<le> fd"
  shows "wp (finally_do (abind (writeAll fd d) (\<lambda>_. awhen sync (fsyncSync fd))) (closeSync fd))
     (\<lambda>_ w'. only X w0 w' \<and> inode_at w' = inode_at w \<and> bytes_of w' fd = d) (\<lambda>_ w'. only X w0 w') w"
proof -
  have w: "sound w" by (rule only_sound [OF assms(1,2)])
  have shut: "wp (closeSync fd) Q E w2"
    if "only X w0 w2" "\<And>w3. still w2 w3 \<Longrightarrow> Q () w3" "\<And>e w3. still w2 w3 \<Longrightarrow> E e w3" for Q E w2
    using that by (auto intro!: wp_mono [OF quiet_calls_ok(2) [OF only_sound [OF that(1) assms(2)]]])
  have fail: "wp (closeSync fd) (\<lambda>_ w'. only X w0 w') (\<lambda>_ w'. only X w0 w') w2" if "only X w0 w2" for w2
    by (rule shut [OF that]) (rule only_still_trans [OF that], assumption)+
  have good: "wp (closeSync fd) (\<lambda>_ w'. only X w0 w' \<and> inode_at w' = inode_at w \<and> bytes_of w' fd = d)
      (\<lambda>_ w'. only X w0 w') w2"
    if "only X w0 w2 \<and> inode_at w2 = inode_at w \<and> bytes_of w2 fd = d" for w2
    using that by (intro shut) (auto simp: still_simps fun_eq_iff intro: only_still_trans)
  show ?thesis
    unfolding wp_finally_do wp_abind
  proof (rule wp_mono [OF writeAll_ok [OF w, of fd d]], goal_cases)
    case (1 u w2)
    then have w2: "only X w0 w2 \<and> inode_at w2 = inode_at w \<and> bytes_of w2 fd = d" "sound w2" using assms by auto
    have "wp (fsyncSync fd) (\<lambda>_. wp (closeSync fd) (\<lambda>_ w'. only X w0 w' \<and> inode_at w' = inode_at w \<and> bytes_of w' fd = d)
        (\<lambda>_ w'. only X w0 w')) (\<lambda>_. wp (closeSync fd) (\<lambda>_ w'. only X w0 w') (\<lambda>_ w'. only X w0 w')) w2"
    proof (rule wp_mono [OF quiet_calls_ok(1) [OF w2(2)]], goal_cases)
      case (1 u w3)
      then show ?case using w2 by (intro good) (auto simp: still_simps fun_eq_iff intro: only_still_trans)
    next
      case (2 e w3)
      then show ?case using w2 by (intro fail) (auto intro: only_still_trans)
    qed
    then show ?case using good w2 by (simp add: awhen_def)
  next
    case (2 e w2)
    then show ?case using fail only_still_trans [OF assms(1)] by blast
  qed
qed

lemma writeTempFile_ok:
  assumes "sound w"
  shows "wp (writeTempFile p d sync)
     (\<lambda>t w'. temp_of p t \<and> inode_at w t = None \<and> only {t} w w' \<and> (\<exists>j. inode_at w' t = Some j \<and> bytes_of w' j = d))
     (\<lambda>_ w'. confined {} w w') w"
  unfolding writeTempFile_def wp_abind
proof (rule wp_mono [OF temp_suffix_ok [where p = p]], goal_cases)
  case (1 s w1)
  let ?t = "with_suffix p s"
  have s1: "sound w1" "\<And>X w'. only X w1 w' \<Longrightarrow> only X w w'" "inode_at w1 = inode_at w" "temp_of p ?t"
    using 1 assms still_only_trans by (auto simp: still_simps fun_eq_iff)
  show ?case
    unfolding Let_def wp_abind
  proof (rule wp_mono [OF openExclusive_ok [OF s1(1), of ?t]], goal_cases)
    case (1 fd w2)
    then have t: "inode_at w ?t = None" using s1(3) by simp
    have w2: "only {?t} w1 w2" "f_next w1 \<le> fd" "inode_at w2 ?t = Some fd" using 1 by auto
    show ?case
      unfolding wp_acatch wp_abind
    proof (rule wp_mono [OF fill_ok [OF w2(1) s1(1) w2(2)]], goal_cases)
      case (1 u w3)
      then show ?case using s1(2,4) t w2(3) by simp
    next
      case (2 e w3)
      show ?case
      proof (rule wp_mono [OF removeTemp_ok [OF only_sound [OF 2 s1(1)], of ?t]], goal_cases)
        case (1 u w4)
        then have "only {?t} w w4" using s1(2) only_trans' [OF 2] by blast
        then show ?case using only_temp_within [of ?t "{}"] temp_of_hidden [OF s1(4)] t by simp
      qed simp
    qed
  next
    case (2 e w2)
    then show ?case using s1(2) [OF only_still] by (auto intro: only_within)
  qed
qed simp

lemma commitNoReplace_ok:
  assumes "sound w" "tmp \<noteq> p"
  shows "wp (commitNoReplace tmp p)
     (\<lambda>_ w'. only {tmp, p} w w' \<and> inode_at w tmp \<noteq> None \<and> inode_at w' p = inode_at w tmp \<and> inode_at w p = None)
     (\<lambda>_ w'. only {tmp} w w') w"
  unfolding commitNoReplace_def wp_abind wp_attempt
proof (rule wp_mono [OF linkSync_ok [OF assms(1), of tmp p]], goal_cases)
  case (1 u w1)
  then have w1: "only {p} w w1" "sound w1" using assms(1) only_sound by auto
  have fin: "only {tmp, p} w w2" if "only {tmp} w1 w2" for w2
    using only_trans [OF w1(1) that] by (rule only_mono) auto
  have stay: "inode_at w2 p = inode_at w1 p" if "only {tmp} w1 w2" for w2
    using only_inode [OF that w1(2)] assms(2) by auto
  note facts = 1
  show ?case
    unfolding sum.case wp_swallow
  proof (rule wp_mono [OF unlinkSync_ok [OF w1(2), of tmp]], goal_cases)
    case (1 u w2)
    then show ?case using facts fin [of w2] stay [of w2] by simp
  next
    case (2 e w2)
    then have "only {tmp} w1 w2" by (simp add: only_still)
    then show ?case using facts fin [of w2] stay [of w2] by simp
  qed
next
  case (2 e w1)
  then have w1: "sound w1" "\<And>X w2. only X w1 w2 \<Longrightarrow> only X w w2"
    using assms(1) still_only_trans by (auto simp: still_simps)
  have "wp (unlinkSync tmp) (\<lambda>_ w'. only {tmp} w w') (\<lambda>_ w'. only {tmp} w w') w1"
    by (rule wp_mono [OF unlinkSync_ok [OF w1(1)]]) (auto intro: w1(2) only_still)
  then show ?case using 2 by (simp add: wp_abind)
qed

lemma commit_temp_ok:
  assumes "sound w" "tmp \<noteq> p"
  shows "wp (commit_temp tmp p excl)
     (\<lambda>_ w'. only {tmp, p} w w' \<and> inode_at w tmp \<noteq> None \<and> inode_at w' p = inode_at w tmp \<and> (excl \<longrightarrow> inode_at w p = None))
     (\<lambda>_ w'. only {tmp} w w') w"
proof -
  have *: "wp (if excl then commitNoReplace tmp p else renameSync tmp p)
     (\<lambda>_ w'. only {tmp, p} w w' \<and> inode_at w tmp \<noteq> None \<and> inode_at w' p = inode_at w tmp \<and> (excl \<longrightarrow> inode_at w p = None))
     (\<lambda>_ w'. only {tmp} w w') w"
    using wp_mono [OF commitNoReplace_ok [OF assms]] wp_mono [OF renameSync_ok [OF assms(1), of tmp p]] only_still by auto
  show ?thesis
    unfolding commit_temp_def wp_acatch
  proof (rule wp_mono [OF *], goal_cases)
    case (2 e w1)
    show ?case
      unfolding wp_abind
      by (rule wp_mono [OF removeTemp_ok [OF only_sound [OF 2 assms(1)]]]) (auto intro: only_trans' [OF 2])
  qed simp
qed

text \<open>A move that fails leaves the source where it is.\<close>

definition move_failed :: "path \<Rightarrow> path \<Rightarrow> disk \<Rightarrow> terror \<Rightarrow> disk \<Rightarrow> bool" where
  "move_failed a b w e w' \<longleftrightarrow> only {b} w w' \<and> (is_note_exists e \<longrightarrow> still w w' \<and> occupied w b)
     \<and> (butlast b = butlast a \<longrightarrow> e = enoent \<longrightarrow> inode_at w a = None)
     \<and> (inode_at w b \<noteq> None \<longrightarrow> inode_at w' b = inode_at w b)"

lemma moveNoReplace_gen:
  assumes "sound w" "a \<noteq> b"
  shows "wp (moveNoReplace env a b)
     (\<lambda>_ w'. only {a, b} w w' \<and> inode_at w a \<noteq> None \<and> inode_at w' b = inode_at w a \<and> inode_at w' a = None \<and> inode_at w b = None)
     (move_failed a b w) w"
proof -
  have gone: "inode_at w a = None" if "butlast b = butlast a" "butlast a \<noteq> [] \<and> butlast a \<notin> set (f_dirs w) \<or> \<not> has_parent w b"
    using that soundD [OF assms(1), of a] by (cases "inode_at w a") (auto simp: has_parent_def)
  have move: "wp (abind (attempt (linkSync a b)) (\<lambda>r. case r of
       Inl e \<Rightarrow> if e = eexist then raise note_exists else if \<not> no_links e then raise e else copyExclusiveThenUnlink a b
     | Inr _ \<Rightarrow> acatch (unlinkSync a) (\<lambda>e. abind (swallow (unlinkSync b)) (\<lambda>_. raise e))))
     (\<lambda>_ w'. only {a, b} w w' \<and> inode_at w a \<noteq> None \<and> inode_at w' b = inode_at w a \<and> inode_at w' a = None \<and> inode_at w b = None)
     (move_failed a b w) w0" if "still w w0" for w0
    unfolding wp_abind wp_attempt
  proof (rule wp_mono [OF linkSync_ok [OF wp_still_sound [OF that assms(1)]]], goal_cases)
    case (1 u w1)
    then have w1: "only {b} w w1" "sound w1" using assms(1) that only_sound still_only_trans wp_still_sound by blast+
    have a: "inode_at w1 a = inode_at w a" using only_inode [OF w1(1) assms(1)] assms(2) by auto
    have b: "inode_at w a \<noteq> None" "inode_at w1 b = inode_at w a" "inode_at w b = None"
      using 1 that by (auto simp: still_simps)
    show ?case
      unfolding sum.case wp_acatch wp_abind wp_swallow
    proof (rule wp_mono [OF unlinkSync_ok [OF w1(2), of a]], goal_cases)
      case (1 u w2)
      then have "inode_at w2 b = inode_at w1 b" "only {a, b} w w2"
        using only_inode [of "{a}" w1 w2 b] w1(2) assms(2) only_trans [OF w1(1), of "{a}" w2]
        by (auto simp: insert_commute)
      then show ?case using 1 b by simp
    next
      case (2 e w2)
      then have w2: "only {b} w w2" "sound w2" "e \<noteq> enoent" "\<not> is_note_exists e"
        using w1 a b only_still_trans wp_still_sound by auto
      show ?case
      proof (rule wp_mono [OF unlinkSync_ok [OF w2(2), of b]], goal_cases)
        case (1 u w3)
        then show ?case using w2 b(3) only_trans' [OF w2(1)] by (auto simp: move_failed_def)
      next
        case (2 e' w3)
        then show ?case using w2 b(3) only_still_trans [OF w2(1)] by (auto simp: move_failed_def)
      qed
    qed
  next
    case (2 e w1)
    then have w1: "still w w1" using that still_trans by blast
    have raise: "move_failed a b w e' w1"
      if "is_note_exists e' \<longrightarrow> occupied w b" "butlast b = butlast a \<longrightarrow> e' = enoent \<longrightarrow> inode_at w a = None" for e'
      using that only_still [OF w1] w1 by (simp add: move_failed_def still_simps(1) [OF w1])
    show ?case
      using 2 gone by (auto simp: still_simps [OF that] note_exists_def enoent_def intro!: raise)
  qed
  have verify2: "wp (ensureDirNoFollow env (butlast b) False) Q E w0"
    if "still w w0" "\<And>u w1. still w w1 \<Longrightarrow> Q u w1" "\<And>e w1. still w w1 \<Longrightarrow> (butlast b = butlast a \<longrightarrow> e = enoent \<longrightarrow> inode_at w a = None) \<Longrightarrow> \<not> is_note_exists e \<Longrightarrow> E e w1"
    for Q E w0
  proof (rule wp_mono [OF ensure_verify_ok [OF wp_still_sound [OF that(1) assms(1)]]], goal_cases)
    case (1 u w1)
    show ?case by (rule that(2) [OF still_trans [OF that(1) 1]])
  next
    case (2 e w1)
    then have "still w w1" using still_trans [OF that(1)] by blast
    moreover have "butlast b = butlast a \<longrightarrow> e = enoent \<longrightarrow> inode_at w a = None" "\<not> is_note_exists e"
      using 2 gone by (auto simp: still_simps(6) [OF that(1)])
    ultimately show ?case by (rule that(3))
  qed
  show ?thesis
    unfolding moveNoReplace_def
  proof (subst wp_abind, rule wp_mono [OF ensure_verify_ok [OF assms(1), of env "butlast a"]], goal_cases)
    case (1 u w1)
    show ?case
    proof (subst wp_abind, rule verify2 [OF 1])
      fix e w2 assume "still w w2" "butlast b = butlast a \<longrightarrow> e = enoent \<longrightarrow> inode_at w a = None" "\<not> is_note_exists e"
      then show "move_failed a b w e w2" by (simp add: move_failed_def only_still still_simps(1) [of w w2])
    qed (rule move)
  next
    case (2 e w1)
    then show ?case using gone by (auto intro: only_still simp: move_failed_def still_simps(1) [of w w1])
  qed
qed

lemma moveNoReplace_ok:
  assumes "sound w" "a \<noteq> b" "butlast b = butlast a"
  shows "wp (moveNoReplace env a b)
     (\<lambda>_ w'. only {a, b} w w' \<and> inode_at w a \<noteq> None \<and> inode_at w' b = inode_at w a \<and> inode_at w' a = None \<and> inode_at w b = None)
     (\<lambda>e w'. only {b} w w' \<and> (e = enoent \<longrightarrow> inode_at w a = None)
        \<and> (inode_at w b \<noteq> None \<longrightarrow> inode_at w' b = inode_at w b)) w"
  by (rule wp_mono [OF moveNoReplace_gen [OF assms(1,2)]]) (use assms(3) in \<open>auto simp: move_failed_def\<close>)

lemma gate_ok: "wp (gateNoteWrite env opts p d) (\<lambda>_ w'. w' = w) (\<lambda>_ w'. w' = w) w"
  by (auto simp: gateNoteWrite_def wp_def split: option.splits)

lemma prepare_write_ok:
  assumes "sound w"
  shows "wp (prepare_write env p createDirs opts) (\<lambda>_ w'. only {} w w') (\<lambda>_ w'. only {} w w') w"
proof -
  have rest: "wp (abind (if there then ret () else of_sum (ne_creatable env (last p))) (\<lambda>_.
      if createDirs then ensureDirNoFollow env (butlast p) True else ret ()))
      (\<lambda>_ w'. only {} w w') (\<lambda>_ w'. only {} w w') w1" if "only {} w w1" for w1 there
    using that only_sound [OF that assms]
    by (auto split: sum.splits intro!: wp_mono [OF ensure_create_ok] only_trans' [OF that])
  have look: "wp (if wo_replacesExisting opts then ret True else existsNoFollow p) (\<lambda>_ w'. only {} w w') (\<lambda>_ w'. only {} w w') w"
    using wp_mono [OF existsNoFollow_ok [OF assms]] only_still by simp
  show ?thesis
    unfolding prepare_write_def by (subst wp_abind, rule wp_mono [OF look]) (use rest in blast)+
qed

text \<open>Up to the temporary file, whose content is the note's.\<close>

lemma staging_ok:
  assumes "sound w"
  shows "wp (abind (gateNoteWrite env opts p d) (\<lambda>_. abind (prepare_write env p createDirs opts) (\<lambda>_. writeTempFile p d sync)))
     (\<lambda>t w'. temp_of p t \<and> inode_at w t = None \<and> only {t} w w' \<and> (\<exists>j. inode_at w' t = Some j \<and> bytes_of w' j = d))
     (\<lambda>_ w'. confined {} w w') w"
  unfolding wp_abind
proof (rule wp_mono [OF gate_ok], goal_cases)
  case (1 u w0)
  show ?case
    unfolding 1
  proof (rule wp_mono [OF prepare_write_ok [OF assms]], goal_cases)
    case (1 u w1)
    have w1: "sound w1" "inode_at w1 = inode_at w" using 1 assms only_sound by (auto simp: fun_eq_iff only_inode)
    show ?case
    proof (rule wp_mono [OF writeTempFile_ok [OF w1(1)]], goal_cases)
      case (1 t w2)
      then show ?case using only_trans [OF \<open>only {} w w1\<close>, of "{t}" w2] w1(2) by simp
    next
      case (2 e w2)
      then show ?case using confined_trans [OF only_within [OF \<open>only {} w w1\<close>] _ assms] by simp
    qed
  qed (simp add: only_within)
qed simp

lemma abind_assoc: "abind (abind m f) g = abind m (\<lambda>a. abind (f a) g)"
  by (auto simp: abind_def fun_eq_iff split: prod.splits sum.splits)

lemma writeFileAtomic_ok:
  assumes "sound w" "\<not> hidden p"
  shows "wp (writeFileAtomic env p d createDirs opts)
     (\<lambda>_ w'. confined {p} w w' \<and> (\<exists>j. inode_at w' p = Some j \<and> bytes_of w' j = d) \<and> (wo_exclusive opts \<longrightarrow> inode_at w p = None))
     (\<lambda>_ w'. confined {} w w') w"
proof -
  have split: "writeFileAtomic env p d createDirs opts =
      abind (abind (gateNoteWrite env opts p d) (\<lambda>_. abind (prepare_write env p createDirs opts) (\<lambda>_. writeTempFile p d False)))
        (\<lambda>tmp. commit_temp tmp p (wo_exclusive opts))"
    by (simp add: writeFileAtomic_def abind_assoc)
  show ?thesis
    unfolding split
  proof (subst wp_abind, rule wp_mono [OF staging_ok [OF assms(1)]], goal_cases)
    case (1 t w1)
    then have t: "hidden t" "t \<noteq> p" "inode_at w t = None" "only {t} w w1" "sound w1"
      using temp_of_hidden assms only_sound by blast+
    obtain j where j: "inode_at w1 t = Some j" "bytes_of w1 j = d" using 1 by auto
    have p: "inode_at w1 p = inode_at w p" using only_inode [OF t(4) assms(1)] t(2) by auto
    show ?case
    proof (rule wp_mono [OF commit_temp_ok [OF t(5,2)]], goal_cases)
      case (1 u w2)
      then have "only (insert t {p}) w w2" using only_trans [OF t(4), of "{t, p}" w2] by (simp add: insert_commute)
      then have "confined {p} w w2" by (rule only_temp_within [OF _ t(1,3)])
      moreover have "inode_at w2 p = Some j" "bytes_of w2 j = d"
        using 1 j t(5) only_bytes [of "{t, p}" w1 w2 t j] by auto
      ultimately show ?case using 1 p by auto
    next
      case (2 e w2)
      have "only {t} w w2" using only_trans' [OF t(4) 2] .
      then show ?case by (rule only_temp_within [OF _ t(1,3)])
    qed
  qed simp
qed

subsection \<open>Undoing one note\<close>

text \<open>The environment the guarantees need: text survives UTF-8, and SHA-256 does not collide.\<close>

definition faithful :: "note_env \<Rightarrow> bool" where
  "faithful env \<longleftrightarrow> (\<forall>t. ne_decode env (ne_encode env t) = t) \<and> inj (ne_hash env)"

lemma text_of_bytes:
  "faithful env \<Longrightarrow> inode_at w p = Some j \<Longrightarrow> bytes_of w j = ne_encode env t \<Longrightarrow> text_at env w p = Some t"
  by (simp add: faithful_def text_at_def bytes_at_def)

lemma no_inode_no_text: "text_at env w p = None \<longleftrightarrow> inode_at w p = None"
  by (simp add: text_at_def bytes_at_def)

lemma wp_cong_False: "wp m Q (\<lambda>_ _. False) w \<Longrightarrow> wp m Q E w"
  by (erule wp_mono) auto

lemma hidden_neq: "\<not> hidden p \<Longrightarrow> hidden t \<Longrightarrow> t \<noteq> p" by blast

lemma hidden_neq': "\<not> hidden p \<Longrightarrow> hidden t \<Longrightarrow> p \<notin> {t}" by blast

text \<open>What an undo may touch: the note, and hidden names.\<close>

abbreviation touch :: "path \<Rightarrow> path set" where "touch p \<equiv> insert p (Collect hidden)"

lemma only_hidden: "only {t} w w' \<Longrightarrow> hidden t \<Longrightarrow> only (touch p) w w'"
  by (erule only_mono) auto

lemma put_back_ok:
  assumes "sound w" "\<not> hidden p" "temp_of p t"
  shows "wp (put_back env t p) (\<lambda>x w'. only (touch p) w w' \<and> x \<noteq> Undone) (\<lambda>_ _. False) w"
  unfolding put_back_def
proof (subst wp_abind, subst wp_attempt, rule wp_mono [OF moveNoReplace_ok], goal_cases)
  case (4 u w1)
  then have "only (touch p) w w1" using temp_of_hidden [OF assms(3)] by (auto elim!: only_mono)
  then show ?case by simp
next
  case (5 e w1)
  then have "only (touch p) w w1" by (auto elim!: only_mono)
  then show ?case by simp
qed (use assms temp_of_hidden [OF assms(3)] temp_of_butlast [OF assms(3)] in auto)

lemma restore_pre_image_ok:
  assumes "faithful env" "sound w" "\<not> hidden p" "temp_of p t"
  shows "wp (restore_pre_image env t p raw)
     (\<lambda>x w'. only (touch p) w w' \<and> (x = Undone \<longrightarrow> text_at env w' p = Some raw)) (\<lambda>_ _. False) w"
  unfolding restore_pre_image_def writeNoteAtomic_def
proof (subst wp_abind, subst wp_attempt, rule wp_mono [OF writeFileAtomic_ok [OF assms(2,3)]], goal_cases)
  case (1 u w1)
  then have w1: "only (touch p) w w1" "text_at env w1 p = Some raw" "sound w1"
    using within_only [of "{p}" w w1] assms(2) only_sound text_of_bytes [OF assms(1)] by (auto simp: confined_def)
  show ?case
    unfolding sum.case
  proof (subst wp_abind, rule wp_mono [OF dropQuietly_ok [OF w1(3), of t]], goal_cases)
    case (1 u w2)
    then have "only (touch p) w w2" "text_at env w2 p = Some raw"
      using only_trans [OF w1(1) 1] temp_of_hidden [OF assms(4)] only_text [OF 1 w1(3) hidden_neq' [OF assms(3)]] w1(2)
      by (simp_all add: insert_absorb)
    then show ?case by simp
  qed simp
next
  case (2 e w1)
  then have "only (Collect hidden) w w1" using within_only [of "{}" w w1] by simp
  then have w1: "only (touch p) w w1" "sound w1"
    using assms(2) by (auto elim: only_mono only_sound)
  have "wp (dropQuietly t) (\<lambda>_ w'. only (touch p) w w') (\<lambda>_ _. False) w1"
    by (intro wp_mono [OF dropQuietly_ok [OF w1(2), of t]])
      (auto intro: only_trans' [OF w1(1)] only_hidden temp_of_hidden [OF assms(4)])
  moreover have "wp (put_back env t p) (\<lambda>x w'. only (touch p) w w' \<and> x \<noteq> Undone) (\<lambda>_ _. False) w1"
    using only_trans' [OF w1(1)] by (intro wp_mono [OF put_back_ok [OF w1(2) assms(3,4)]]) auto
  ultimately show ?case by (auto elim: wp_mono)
qed

lemma undoWrittenNote_ok:
  assumes "faithful env" "sound w" "\<not> hidden p"
  shows "wp (undoWrittenNote env p h prevRaw)
     (\<lambda>x w'. only (touch p) w w' \<and> (x = Undone \<longrightarrow> text_at env w' p = prevRaw)) (\<lambda>_ _. False) w"
  unfolding undoWrittenNote_def
proof (subst wp_abind, rule wp_mono [OF temp_suffix_ok [where p = p]], goal_cases)
  case (1 s w1)
  define t where "t = with_suffix p s"
  have t: "temp_of p t" "hidden t" "t \<noteq> p" "butlast t = butlast p"
    using 1 temp_of_hidden temp_of_butlast assms(3) by (auto simp: t_def)
  have w1: "only (touch p) w w1" "sound w1" using 1 assms(2) only_still by (auto simp: still_simps)
  show ?case
    unfolding Let_def t_def [symmetric]
  proof (subst wp_abind, subst wp_attempt, rule wp_mono [OF moveNoReplace_ok [OF w1(2) t(3) [symmetric] t(4)]], goal_cases)
    case (1 u w2)
    then have w2: "only (touch p) w w2" "sound w2" "inode_at w2 p = None"
      using only_trans [OF w1(1), of "{p, t}" w2] t(2) w1(2) only_sound by (auto simp: insert_absorb insert_commute)
    show ?case
      unfolding sum.case
    proof (subst wp_abind, rule wp_mono [OF currentHash_ok [OF w2(2)]], goal_cases)
      case (1 held w3)
      then have w3: "only (touch p) w w3" "sound w3" "inode_at w3 p = None"
        using w2 only_still_trans by (auto simp: still_simps)
      have step: "only (touch p) w w4" if "only (touch p) w3 w4" for w4
        by (rule only_trans' [OF w3(1) that])
      have "wp (put_back env t p) (\<lambda>x w'. only (touch p) w w' \<and> (x = Undone \<longrightarrow> text_at env w' p = prevRaw)) (\<lambda>_ _. False) w3"
        by (rule wp_mono [OF put_back_ok [OF w3(2) assms(3) t(1)]]) (use step in auto)
      moreover have "wp (dropQuietly t) (\<lambda>_ w'. only (touch p) w w' \<and> text_at env w' p = None) (\<lambda>_ _. False) w3"
        by (rule wp_mono [OF dropQuietly_ok [OF w3(2), of t]])
          (use step only_hidden t w3 in \<open>auto simp: no_inode_no_text only_inode\<close>)
      moreover have "wp (restore_pre_image env t p raw)
          (\<lambda>x w'. only (touch p) w w' \<and> (x = Undone \<longrightarrow> text_at env w' p = Some raw)) (\<lambda>_ _. False) w3" for raw
        by (rule wp_mono [OF restore_pre_image_ok [OF assms(1) w3(2) assms(3) t(1)]]) (use step in auto)
      ultimately show ?case by (auto split: option.splits)
    qed simp
  next
    case (2 e w2)
    then have "only (touch p) w w2" "inode_at w2 p = inode_at w1 p"
      using only_trans [OF w1(1), of "{t}" w2] t(2,3) only_inode [of "{t}" w1 w2 p] w1(2) by (auto simp: insert_absorb)
    then show ?case using 2 by (auto simp: no_inode_no_text)
  qed
qed simp

end
