(* ===== verification/Write_Batch_Guarantees.thy ===== *)
theory Write_Batch_Guarantees
  imports Write_Batch_Safety
begin

text \<open>
  A batch lands as a unit. From the outcome of each operation (\<open>Write_Batch_Safety\<close>): staging creates
  hidden names only, committing a stage turns the text its check read into the batch's, and a rollback
  that reports nothing has put every text back. The properties of the batch and their runs on concrete
  disks are at the end.
\<close>

subsection \<open>Loops\<close>







subsection \<open>Staging\<close>








subsection \<open>Committing\<close>









subsection \<open>Removals\<close>

















lemma incomplete_reported [simp]:
  "isIncompleteRollback (kept_beside kept)" "isIncompleteRollback (not_undone stuck diverged cause)"
  by (simp_all add: isIncompleteRollback_def kept_beside_def not_undone_def rollback_incomplete_def)


subsection \<open>Rolling back\<close>




subsection \<open>The batch\<close>











subsection \<open>The guarantee\<close>


definition demo_env :: note_env where
  "demo_env = \<lparr>ne_creatable = \<lambda>_. Inr (), ne_gate = \<lambda>_ _. None, ne_decode = \<lambda>b. b, ne_encode = \<lambda>t. t, ne_hash = \<lambda>t. t, ne_redact = \<lambda>t. t\<rparr>"

text \<open>A disk with two notes; the call numbered \<open>k\<close> fails.\<close>

definition demo_disk :: "nat \<Rightarrow> disk" where
  "demo_disk k = \<lparr>f_names = [([''a.md''], 0), ([''b.md''], 1)], f_dirs = [], f_data = [(0, ''A''), (1, ''B'')],
     f_next = 2, io_fault = \<lambda>n. if n = k then Some ''EIO'' else None, io_calls = 0, io_rand = \<lambda>n. replicate n CHR ''x'',
     io_drawn = 0, io_settled = [], io_staged = 0, io_effect = False\<rparr>"

definition demo_writes :: "batch_write list" where
  "demo_writes =
     [\<lparr>bw_abs = [''a.md''], bw_rel = ''a.md'', bw_content = ''A2'', bw_prevRaw = Some ''A'', bw_createDirs = Some False, bw_replacesExisting = False\<rparr>,
      \<lparr>bw_abs = [''n'', ''c.md''], bw_rel = ''n/c.md'', bw_content = ''B'', bw_prevRaw = None, bw_createDirs = None, bw_replacesExisting = False\<rparr>]"

definition demo_removals :: "batch_removal list" where
  "demo_removals = [\<lparr>br_abs = [''b.md''], br_rel = ''b.md'', br_expected = Expect_text ''B''\<rparr>]"




subsection \<open>Edits by someone else\<close>







subsection \<open>Where the unit breaks or leaves something behind\<close>

text \<open>
  A rollback re-creates the pre-image without \<open>replacesExisting\<close>, so a note whose existing name
  \<open>assertCreatableName\<close> refuses is never put back: its rollback is always incomplete.
\<close>

definition hostile_env :: note_env where
  "hostile_env = demo_env\<lparr>ne_creatable := \<lambda>c. if CHR '':'' \<in> set c then Inl (Tc Path_invalid ''hostile'' None) else Inr ()\<rparr>"

definition hostile_disk :: disk where
  "hostile_disk = (demo_disk 7)\<lparr>f_names := [([''a:b.md''], 0), ([''b.md''], 1)]\<rparr>"

definition hostile_writes :: "batch_write list" where
  "hostile_writes = [(hd demo_writes)\<lparr>bw_abs := [''a:b.md''], bw_rel := ''a:b.md''\<rparr>]"

lemma hostile_name_rollback_incomplete:
  "case applyWriteBatch hostile_env hostile_writes (ret ()) demo_removals hostile_disk of
     (Inl e, w') \<Rightarrow> isIncompleteRollback e \<and> text_at hostile_env w' [''a:b.md''] = Some ''A2''
   | (Inr _, _) \<Rightarrow> False"
  by code_simp

text \<open>A temporary name that would not go makes the new note unreadable: it is a second link.\<close>

lemma litter_blocks_the_note:
  "case writeNoteAtomic demo_env [''c.md''] ''C'' True undo_opts (demo_disk 5) of (r, w') \<Rightarrow>
     r = Inr () \<and> (case fst (readNote demo_env [''c.md''] w') of Inl (Tc c _ _) \<Rightarrow> c = Acl_denied | _ \<Rightarrow> False)"
  by code_simp

text \<open>A create whose staging fails leaves the folders it made.\<close>

lemma failed_stage_leaves_folders:
  "case applyWriteBatch demo_env demo_writes (ret ()) [] (demo_disk 10) of (r, w') \<Rightarrow>
     r = Inl (Thrown ''EIO'') \<and> f_dirs (demo_disk 10) = [] \<and> f_dirs w' = [[''n'']]"
  by code_simp

end
