(* ===== verification/Note_Trash.thy ===== *)
theory Note_Trash
  imports Write_Batch_Guarantees
begin

text \<open>
  Soft deletion and overwriting: \<open>trashNote\<close>, \<open>restoreTrashed\<close> and \<open>replaceDestination\<close> of
  \<open>packages/server/src/vault/notes-io.ts\<close>. The trash loop tries one name after the other until the
  no-replace move accepts one; its bound on the attempts is what makes it end. \<open>replaceDestination\<close> runs
  an arbitrary write step between the trash and the restore.
\<close>

subsection \<open>Names in the trash\<close>

definition is_slash :: "char \<Rightarrow> bool" where "is_slash c \<longleftrightarrow> c = CHR ''/''"

text \<open>\<open>join(dir, rel)\<close> for a relative path without dot segments.\<close>

definition join_rel :: "path \<Rightarrow> str \<Rightarrow> path" where
  "join_rel dir rel = dir @ filter (\<lambda>s. s \<noteq> []) (split_on is_slash rel)"

text \<open>\<open>s.lastIndexOf(c)\<close>\<close>

definition lastIndexOf :: "char \<Rightarrow> str \<Rightarrow> int" where
  "lastIndexOf c s = (if c \<in> set s then int (length s) - 1 - int (length (takeWhile (\<lambda>x. x \<noteq> c) (rev s))) else - 1)"

definition splitTrashName :: "str \<Rightarrow> str \<times> str" where
  "splitTrashName rel =
     (let dot = lastIndexOf CHR ''.'' rel; slash = lastIndexOf CHR ''/'' rel in
      if dot > slash then (take (nat dot) rel, drop (nat dot) rel) else (rel, []))"

definition is_digit :: "char \<Rightarrow> bool" where
  "is_digit c \<longleftrightarrow> 48 \<le> (of_char c :: nat) \<and> (of_char c :: nat) \<le> 57"

definition trash_name :: "str \<Rightarrow> nat \<Rightarrow> str" where
  "trash_name rel i =
     (if i = 0 then rel else let (stem, ext) = splitTrashName rel in stem @ '' ('' @ show_nat i @ '')'' @ ext)"

definition trash_dest :: "path \<Rightarrow> str \<Rightarrow> nat \<Rightarrow> path" where
  "trash_dest vault rel i = join_rel (vault @ [''.trash'']) (trash_name rel i)"

subsection \<open>Moving to the trash and back\<close>

function trash_from :: "note_env \<Rightarrow> path \<Rightarrow> str \<Rightarrow> nat \<Rightarrow> str io" where
  "trash_from env vault rel i =
     abind (ensureDirNoFollow env (butlast (trash_dest vault rel i)) True) (\<lambda>_.
     abind (attempt (moveNoReplace env (join_rel vault rel) (trash_dest vault rel i))) (\<lambda>r. case r of
       Inr _ \<Rightarrow> ret (''.trash/'' @ trash_name rel i)
     | Inl e \<Rightarrow> if \<not> is_note_exists e \<or> i \<ge> 10000 then raise e else trash_from env vault rel (Suc i)))"
  by pat_completeness auto
termination by (relation "measure (\<lambda>(_, _, _, i). 10000 - i)") auto

declare trash_from.simps [simp del]

definition trashNote :: "note_env \<Rightarrow> path \<Rightarrow> str \<Rightarrow> str io" where
  "trashNote env vault rel = trash_from env vault rel 0"

definition isTrashNameOf :: "str \<Rightarrow> str \<Rightarrow> bool" where
  "isTrashNameOf trashedRel rel \<longleftrightarrow>
     (if trashedRel = ''.trash/'' @ rel then True
      else let (stem, ext) = splitTrashName rel; head = ''.trash/'' @ stem @ '' (''; tail = '')'' @ ext in
        length trashedRel > length head + length tail \<and> take (length head) trashedRel = head
        \<and> drop (length trashedRel - length tail) trashedRel = tail
        \<and> list_all is_digit (drop (length head) (take (length trashedRel - length tail) trashedRel)))"





subsection \<open>Overwriting\<close>






subsection \<open>Restoring what was trashed is never refused\<close>

lemma show_nat_digits: "list_all is_digit (show_nat n)" and show_nat_nonempty: "show_nat n \<noteq> []"
proof (induction n rule: show_nat.induct)
  case (1 n)
  have digit: "is_digit (char_of (48 + d))" if "d < 10" for d :: nat
    using that by (simp add: is_digit_def of_char_of)
  show "list_all is_digit (show_nat n)"
    using 1 digit [of n] digit [of "n mod 10"] by (cases "n < 10") (simp_all add: show_nat.simps [of n])
  show "show_nat n \<noteq> []" by (simp add: show_nat.simps [of n])
qed

lemma isTrashNameOf_trash_name: "isTrashNameOf (''.trash/'' @ trash_name rel i) rel"
proof (cases "i = 0")
  case False
  obtain stem ext where se: "splitTrashName rel = (stem, ext)" by (cases "splitTrashName rel")
  have "''.trash/'' @ trash_name rel i = (''.trash/'' @ stem @ '' ('') @ show_nat i @ ('')'' @ ext)"
    using False se by (simp add: trash_name_def)
  moreover have "drop (length (h @ d @ t) - length t) (h @ d @ t) = t"
      "drop (length h) (take (length (h @ d @ t) - length t) (h @ d @ t)) = d" for h d t :: str
    by simp_all
  ultimately show ?thesis
    unfolding isTrashNameOf_def se Let_def split
    using show_nat_digits [of i] show_nat_nonempty [of i] by (simp only: if_split) simp
qed (simp add: isTrashNameOf_def trash_name_def)

subsection \<open>The trash loop ends\<close>

definition costs :: "nat \<Rightarrow> 'a io \<Rightarrow> bool" where
  "costs n m \<longleftrightarrow> (\<forall>w. io_calls (snd (m w)) \<le> io_calls w + n)"

lemma costsD: "costs n m \<Longrightarrow> m w = (r, w') \<Longrightarrow> io_calls w' \<le> io_calls w + n"
  using snd_conv unfolding costs_def by metis

lemma costs_mono: "costs n m \<Longrightarrow> n \<le> k \<Longrightarrow> costs k m"
  unfolding costs_def using add_le_mono le_trans by (meson nat_add_left_cancel_le)

lemma costs_pure [intro]: "costs 0 (ret a)" "costs 0 (raise e)" "costs 0 (of_sum r)"
  by (simp_all add: costs_def)

lemma costs_attempt [intro]: "costs n m \<Longrightarrow> costs n (attempt m)"
  by (simp add: costs_def attempt_def split: prod.split) (metis snd_conv)

lemma costs_abind:
  assumes "costs a m" "\<And>x. costs b (f x)" shows "costs (a + b) (abind m f)"
  unfolding costs_def
proof
  fix w
  obtain r w1 where m: "m w = (r, w1)" by (cases "m w")
  have 1: "io_calls w1 \<le> io_calls w + a" by (rule costsD [OF assms(1) m])
  show "io_calls (snd (abind m f w)) \<le> io_calls w + (a + b)"
  proof (cases r)
    case (Inr x)
    have "io_calls (snd (f x w1)) \<le> io_calls w1 + b" using assms(2) [of x] by (simp add: costs_def)
    then show ?thesis using 1 m Inr by (simp add: abind_def)
  qed (use 1 m in \<open>simp add: abind_def\<close>)
qed

lemma costs_acatch:
  assumes "costs a m" "\<And>e. costs b (h e)" shows "costs (a + b) (acatch m h)"
  unfolding costs_def
proof
  fix w
  obtain r w1 where m: "m w = (r, w1)" by (cases "m w")
  have 1: "io_calls w1 \<le> io_calls w + a" by (rule costsD [OF assms(1) m])
  show "io_calls (snd (acatch m h w)) \<le> io_calls w + (a + b)"
  proof (cases r)
    case (Inl e)
    have "io_calls (snd (h e w1)) \<le> io_calls w1 + b" using assms(2) [of e] by (simp add: costs_def)
    then show ?thesis using 1 m Inl by (simp add: acatch_def)
  qed (use 1 m in \<open>simp add: acatch_def\<close>)
qed

lemma costs_sys: "(\<And>w. io_calls (snd (f w)) = io_calls w) \<Longrightarrow> costs 1 (sys f)"
  by (simp add: costs_def sys_def Let_def split: option.split)

lemma costs_calls [intro]:
  "costs 1 (linkSync a b)" "costs 1 (unlinkSync p)" "costs 1 (lstatSync p)" "costs 1 (mkdirSync p)"
  "costs 1 (openExclusive p)" "costs 1 (writeAll fd d)" "costs 1 (closeSync fd)" "costs 1 (readFileChecked p)"
  unfolding linkSync_def unlinkSync_def lstatSync_def mkdirSync_def openExclusive_def writeAll_def closeSync_def
    readFileChecked_def
  by (rule costs_sys; simp split: option.split)+

lemma costs_swallow [intro]: "costs n m \<Longrightarrow> costs n (swallow m)"
  unfolding swallow_def using costs_acatch [of n m 0 "\<lambda>_. ret ()"] by auto

lemma costs_le: "costs n m \<Longrightarrow> n \<le> k \<Longrightarrow> costs k m" by (rule costs_mono)

lemma costs_raise: "costs n (raise e)" "costs n (ret a)" "costs n (of_sum r)"
  by (rule costs_mono [OF costs_pure(2)], simp) (rule costs_mono [OF costs_pure(1)], simp, rule costs_mono [OF costs_pure(3)], simp)

lemma costs_walk: "costs (3 * length cs) (walkDirectoriesNoFollow env create cur cs)"
proof (induction cs arbitrary: cur)
  case (Cons c cs)
  have made: "costs 2 (abind (of_sum (ne_creatable env c)) (\<lambda>_. abind (attempt (mkdirSync h)) (\<lambda>m.
      case m of Inl e2 \<Rightarrow> (if e2 \<noteq> eexist then raise e2 else lstatSync h) | Inr _ \<Rightarrow> lstatSync h)))" for h
    by (rule costs_le [OF costs_abind [of 0 _ "1 + 1", OF costs_pure(3) costs_abind [of 1 _ 1, OF costs_attempt [OF costs_calls(4)]]]])
      (auto simp: costs_raise costs_calls split: sum.split simp del: One_nat_def)
  show ?case
    unfolding walkDirectoriesNoFollow.simps Let_def
    by (rule costs_le [OF costs_abind [of 1 _ "2 + 3 * length cs", OF costs_attempt [OF costs_calls(3)]
          costs_abind [of 2 _ "3 * length cs"]]])
      (auto simp: costs_raise made Cons.IH split: sum.split)
qed (simp add: costs_raise)

lemma costs_ensure: "costs (3 * length d) (ensureDirNoFollow env d create)"
  unfolding ensureDirNoFollow_def by (rule costs_walk)

lemma costs_copy: "costs 6 (copyExclusiveThenUnlink a b)"
proof -
  have fill: "costs 2 (finally_do (writeAll fd d) (closeSync fd))" for fd d
    unfolding finally_do_def
    by (rule costs_le [OF costs_abind [of 1 _ "1 + 0", OF costs_attempt [OF costs_calls(6)] costs_abind [of 1 _ 0, OF costs_calls(7)]]])
      (auto simp: costs_raise)
  have opened: "costs 1 (acatch (openExclusive b) (\<lambda>e. raise (g e)))" for g
    by (rule costs_le [OF costs_acatch [of 1 _ 0, OF costs_calls(5)]]) (auto simp: costs_raise)
  have undo: "costs 1 (abind (swallow (unlinkSync b)) (\<lambda>_. raise e))" for e
    by (rule costs_le [OF costs_abind [of 1 _ 0, OF costs_swallow [OF costs_calls(2)]]]) (auto simp: costs_raise)
  have last: "costs 4 (acatch (abind (finally_do (writeAll dst d) (closeSync dst)) (\<lambda>_. unlinkSync a))
      (\<lambda>e. abind (swallow (unlinkSync b)) (\<lambda>_. raise e)))" for dst d
    by (rule costs_le [OF costs_acatch [of 3 _ 1, OF costs_le [OF costs_abind [of 2 _ 1, OF fill costs_calls(2)]] undo]]) auto
  show ?thesis
    unfolding copyExclusiveThenUnlink_def
    by (rule costs_le [OF costs_abind [of 1 _ "1 + 4", OF costs_calls(8) costs_abind [of 1 _ 4, OF opened last]]]) simp
qed

lemma costs_move: "costs (3 * length (butlast a) + 3 * length (butlast b) + 7) (moveNoReplace env a b)"
proof -
  have drop: "costs 2 (acatch (unlinkSync a) (\<lambda>e. abind (swallow (unlinkSync b)) (\<lambda>_. raise e)))"
    by (rule costs_le [OF costs_acatch [of 1 _ "1 + 0", OF costs_calls(2)
          costs_abind [of 1 _ 0, OF costs_swallow [OF costs_calls(2)]]]]) (auto simp: costs_raise)
  have link: "costs 7 (abind (attempt (linkSync a b)) (\<lambda>r. case r of
       Inl e \<Rightarrow> if e = eexist then raise note_exists else if \<not> no_links e then raise e else copyExclusiveThenUnlink a b
     | Inr _ \<Rightarrow> acatch (unlinkSync a) (\<lambda>e. abind (swallow (unlinkSync b)) (\<lambda>_. raise e))))"
    by (rule costs_le [OF costs_abind [of 1 _ 6, OF costs_attempt [OF costs_calls(1)]]])
      (auto simp: costs_raise costs_copy intro: costs_le [OF drop] split: sum.split)
  show ?thesis
    unfolding moveNoReplace_def
    by (rule costs_le [OF costs_abind [OF costs_ensure costs_abind [OF costs_ensure link]]]) simp
qed

text \<open>The names the loop tries have the depth of the note.\<close>

lemma split_on_length: "length (split_on p s) = Suc (length (filter p s))"
  by (induction s) (auto split: list.split)

lemma filter_trash_name: "filter is_slash (trash_name rel i) = filter is_slash rel"
proof -
  have "fst (splitTrashName rel) @ snd (splitTrashName rel) = rel" by (simp add: splitTrashName_def Let_def)
  then have "filter is_slash (fst (splitTrashName rel)) @ filter is_slash (snd (splitTrashName rel)) = filter is_slash rel"
    by (simp flip: filter_append)
  moreover have "filter is_slash (show_nat i) = []"
    using show_nat_digits [of i] by (auto simp: filter_empty_conv list_all_iff is_slash_def is_digit_def)
  ultimately show ?thesis by (simp add: trash_name_def is_slash_def split_beta)
qed

definition depth :: "path \<Rightarrow> str \<Rightarrow> nat" where
  "depth vault rel = length vault + 1 + length (filter is_slash rel)"

lemma join_rel_length: "length (join_rel d s) \<le> length d + 1 + length (filter is_slash s)"
  using length_filter_le [of "\<lambda>w. w \<noteq> []" "split_on is_slash s"] by (simp add: join_rel_def split_on_length)

lemma trash_dest_length: "length (butlast (trash_dest vault rel i)) \<le> depth vault rel"
  using join_rel_length [of "vault @ [''.trash'']" "trash_name rel i"] by (simp add: trash_dest_def depth_def filter_trash_name)

lemma note_length: "length (butlast (join_rel vault rel)) \<le> depth vault rel"
  using join_rel_length [of vault rel] by (simp add: depth_def)

lemma costs_attempts: "i \<le> 10000 \<Longrightarrow> costs ((10001 - i) * (9 * depth vault rel + 7)) (trash_from env vault rel i)"
proof (induction env vault rel i rule: trash_from.induct)
  case (1 env vault rel i)
  let ?n = "9 * depth vault rel + 7"
  have again: "costs ((10000 - i) * ?n) (case r of Inr _ \<Rightarrow> ret (''.trash/'' @ trash_name rel i)
     | Inl e \<Rightarrow> if \<not> is_note_exists e \<or> i \<ge> 10000 then raise e else trash_from env vault rel (Suc i))" for r :: "terror + unit"
    using 1 by (auto simp: costs_raise split: sum.split)
  have more: "(10001 - i) * ?n = ?n + (10000 - i) * ?n"
  proof -
    have "10001 - i = Suc (10000 - i)" using "1.prems" by simp
    then show ?thesis by simp
  qed
  have "3 * length (butlast (trash_dest vault rel i)) + (3 * length (butlast (join_rel vault rel))
      + 3 * length (butlast (trash_dest vault rel i)) + 7 + (10000 - i) * ?n) \<le> (10001 - i) * ?n"
    using trash_dest_length [of vault rel i] note_length [of vault rel] more by simp
  then show ?case
    unfolding trash_from.simps [of env vault rel i]
    by (rule costs_le [OF costs_abind [OF costs_ensure costs_abind [OF costs_attempt [OF costs_move] again]]])
qed

text \<open>
  Trashing a note ends, whatever fails and whatever names are taken: the loop has no bound
  in its header, and issues at most 10001 times as many system calls as one attempt takes at the note's
  depth.
\<close>

theorem trash_ends:
  "io_calls (snd (trashNote env vault rel w)) \<le> io_calls w + 10001 * (9 * depth vault rel + 7)"
  using costs_attempts [of 0 vault rel env] by (simp add: trashNote_def costs_def)

subsection \<open>Overwriting puts the old note back\<close>















end
