(* ===== verification/Scheduler.thy ===== *)
theory Scheduler
  imports Tc_Prelude Complex_Main
begin

text \<open>
  The background scheduler, \<open>packages/server/src/scheduler/scheduler.ts\<close>: one timer for all jobs, driven
  by a virtual clock that advances by the delays the timer was armed with. Each method of \<open>Scheduler\<close> is
  a function on its state; a job's record is found by its name, as the class's map does. What happens
  between the methods is the sequence of events \<open>sched_step\<close> accepts: the timer fires, a promise of a
  running job settles, the scheduler is stopped.

  The run body of a job is an oracle (it returns, throws, or returns a promise), and so are the wall
  clock, the random source, the event-loop delay and the failures of SQL statements, each by the order
  of its uses. The callbacks \<open>onRun\<close>, \<open>onSkip\<close>, \<open>onError\<close> and \<open>onPersistError\<close> cannot reach the
  scheduler (they are guarded): what they are told is the list \<open>sd_log\<close>, where \<open>Settled n True\<close> also
  marks a success, which no callback hears of. A SQL statement that fails does so when it is run.
\<close>

subsection \<open>State\<close>

record job_spec =
  js_name :: str
  js_intervalMs :: int
  js_priority :: int
  js_jitterRatio :: rat

record sched_job =
  sj_spec :: job_spec
  sj_nextRunAt :: int
  sj_inFlight :: bool
  sj_consecutiveFailures :: nat
  sj_skipped :: nat
  sj_deferred :: nat

text \<open>A row of \<open>job_schedule\<close>, and what a run body does when it is called.\<close>

record schedule_row =
  sr_last_run_at :: "int option"
  sr_last_success_at :: "int option"
  sr_next_run_at :: "int option"
  sr_consecutive_failures :: nat

datatype run_kind = Returned | Threw | Promised

datatype persist_op = Ensure_table | Seed_next_run | Persist_run_start | Persist_outcome

datatype sched_note =
    Ran str
  | Settled str bool
  | Skipped str nat
  | Persist_failed persist_op str

record sched_options =
  so_db :: bool
  so_eventLoopDeferMs :: "int option"
  so_loopDelay :: bool
  so_maxBackoffMs :: int
  so_deferralRecheckMs :: int

record scheduler =
  sd_opts :: sched_options
  sd_jobs :: "(str \<times> sched_job) list"
  sd_timer :: "int option"
  sd_virtualNow :: int
  sd_started :: bool
  sd_stopped :: bool
  sd_persistErrorSeen :: "(persist_op \<times> str) list"
  sd_table :: "(str \<times> schedule_row) list"
  sd_log :: "sched_note list"
  sd_clock :: "nat \<Rightarrow> int"
  sd_clocked :: nat
  sd_random :: "nat \<Rightarrow> rat"
  sd_drawn :: nat
  sd_loop :: "nat \<Rightarrow> int"
  sd_probed :: nat
  sd_fault :: "nat \<Rightarrow> bool"
  sd_stmts :: nat
  sd_runs :: "nat \<Rightarrow> run_kind"
  sd_ran :: nat

definition default_max_backoff_ms :: int where "default_max_backoff_ms = 5 * 60000"
definition default_deferral_recheck_ms :: int where "default_deferral_recheck_ms = 250"

definition default_sched_options :: sched_options where
  "default_sched_options = \<lparr>so_db = False, so_eventLoopDeferMs = None, so_loopDelay = False,
     so_maxBackoffMs = default_max_backoff_ms, so_deferralRecheckMs = default_deferral_recheck_ms\<rparr>"

text \<open>Reading the oracles.\<close>

definition wall_now :: "scheduler \<Rightarrow> int \<times> scheduler" where
  "wall_now s = (sd_clock s (sd_clocked s), s\<lparr>sd_clocked := Suc (sd_clocked s)\<rparr>)"

definition draw :: "scheduler \<Rightarrow> rat \<times> scheduler" where
  "draw s = (sd_random s (sd_drawn s), s\<lparr>sd_drawn := Suc (sd_drawn s)\<rparr>)"

definition probe_loop :: "scheduler \<Rightarrow> int \<times> scheduler" where
  "probe_loop s = (sd_loop s (sd_probed s), s\<lparr>sd_probed := Suc (sd_probed s)\<rparr>)"

text \<open>A SQL statement: whether it failed.\<close>

definition sql :: "scheduler \<Rightarrow> bool \<times> scheduler" where
  "sql s = (sd_fault s (sd_stmts s), s\<lparr>sd_stmts := Suc (sd_stmts s)\<rparr>)"

definition tell :: "sched_note \<Rightarrow> scheduler \<Rightarrow> scheduler" where
  "tell n s = s\<lparr>sd_log := sd_log s @ [n]\<rparr>"

definition job_of :: "scheduler \<Rightarrow> str \<Rightarrow> sched_job" where
  "job_of s n = the (map_of (sd_jobs s) n)"

definition set_job :: "str \<Rightarrow> (sched_job \<Rightarrow> sched_job) \<Rightarrow> scheduler \<Rightarrow> scheduler" where
  "set_job n f s = s\<lparr>sd_jobs := map (\<lambda>(k, j). (k, if k = n then f j else j)) (sd_jobs s)\<rparr>"

subsection \<open>Registration\<close>

definition fresh_job :: "job_spec \<Rightarrow> sched_job" where
  "fresh_job spec = \<lparr>sj_spec = spec, sj_nextRunAt = 0, sj_inFlight = False, sj_consecutiveFailures = 0,
     sj_skipped = 0, sj_deferred = 0\<rparr>"

definition register :: "job_spec \<Rightarrow> scheduler \<Rightarrow> str + scheduler" where
  "register spec s =
     (if js_name spec = [] then Inl ''scheduler: job spec requires a non-empty name''
      else if map_of (sd_jobs s) (js_name spec) \<noteq> None then Inl (''scheduler: duplicate job '' @ CHR 0x27 # js_name spec @ [CHR 0x27])
      else Inr (s\<lparr>sd_jobs := sd_jobs s @ [(js_name spec, fresh_job spec)]\<rparr>))"

definition stats :: "scheduler \<Rightarrow> (str \<times> nat \<times> nat \<times> nat) list" where
  "stats s = map (\<lambda>(n, j). (n, sj_skipped j, sj_consecutiveFailures j, sj_deferred j)) (sd_jobs s)"

subsection \<open>Persistence errors\<close>

definition reportPersistError :: "persist_op \<Rightarrow> str \<Rightarrow> scheduler \<Rightarrow> scheduler" where
  "reportPersistError op job s =
     (if (op, job) \<in> set (sd_persistErrorSeen s) then s
      else tell (Persist_failed op job) (s\<lparr>sd_persistErrorSeen := (op, job) # sd_persistErrorSeen s\<rparr>))"

definition clearPersistError :: "persist_op \<Rightarrow> str \<Rightarrow> scheduler \<Rightarrow> scheduler" where
  "clearPersistError op job s = s\<lparr>sd_persistErrorSeen := removeAll (op, job) (sd_persistErrorSeen s)\<rparr>"

text \<open>The constructor creates the table; no job is named in its report.\<close>

definition ensureTable :: "scheduler \<Rightarrow> scheduler" where
  "ensureTable s = (if \<not> so_db (sd_opts s) then s
     else case sql s of (failed, s1) \<Rightarrow> if failed then reportPersistError Ensure_table [] s1 else s1)"

subsection \<open>Intervals\<close>

text \<open>\<open>Math.round\<close>: halves up.\<close>

definition round_half_up :: "rat \<Rightarrow> int" where "round_half_up x = \<lfloor>x + 1 / 2\<rfloor>"

definition base_interval :: "sched_options \<Rightarrow> sched_job \<Rightarrow> int" where
  "base_interval o1 j =
     (let backoff = min (js_intervalMs (sj_spec j) * 2 ^ sj_consecutiveFailures j) (so_maxBackoffMs o1)
      in max backoff (js_intervalMs (sj_spec j)))"

definition effInterval :: "sched_job \<Rightarrow> scheduler \<Rightarrow> int \<times> scheduler" where
  "effInterval j s =
     (let base = base_interval (sd_opts s) j; ratio = js_jitterRatio (sj_spec j) in
      if ratio \<le> 0 then (base, s)
      else case draw s of (r, s1) \<Rightarrow>
        (max 1 (round_half_up (of_int base + of_int base * ratio * (2 * r - 1))), s1))"

text \<open>\<open>state.nextRunAt = this.virtualNow + this.effInterval(state)\<close>\<close>

definition schedule_next :: "str \<Rightarrow> scheduler \<Rightarrow> scheduler" where
  "schedule_next n s = (case effInterval (job_of s n) s of (d, s1) \<Rightarrow>
     set_job n (\<lambda>j. j\<lparr>sj_nextRunAt := sd_virtualNow s1 + d\<rparr>) s1)"

subsection \<open>The timer\<close>

definition soonest :: "scheduler \<Rightarrow> int" where
  "soonest s = Min ((\<lambda>(_, j). sj_nextRunAt j) ` set (sd_jobs s))"

definition arm :: "scheduler \<Rightarrow> scheduler" where
  "arm s =
     (let s1 = s\<lparr>sd_timer := None\<rparr> in
      if sd_stopped s1 \<or> sd_jobs s1 = [] then s1
      else s1\<lparr>sd_timer := Some (max 0 (soonest s1 - sd_virtualNow s1))\<rparr>)"

subsection \<open>Durable rows\<close>

definition empty_row :: schedule_row where
  "empty_row = \<lparr>sr_last_run_at = None, sr_last_success_at = None, sr_next_run_at = None, sr_consecutive_failures = 0\<rparr>"

definition upsert :: "str \<Rightarrow> (schedule_row \<Rightarrow> schedule_row) \<Rightarrow> scheduler \<Rightarrow> scheduler" where
  "upsert n f s = s\<lparr>sd_table := AList.update n
     (f (case map_of (sd_table s) n of None \<Rightarrow> empty_row | Some r \<Rightarrow> r)) (sd_table s)\<rparr>"

definition seedNextRun :: "str \<Rightarrow> scheduler \<Rightarrow> int option \<times> scheduler" where
  "seedNextRun n s =
     (if \<not> so_db (sd_opts s) then (None, s)
      else case sql s of (failed, s1) \<Rightarrow>
        if failed then (None, reportPersistError Seed_next_run n s1)
        else case map_of (sd_table s1) n of
            None \<Rightarrow> (None, s1)
          | Some row \<Rightarrow>
              let s2 = set_job n (\<lambda>j. j\<lparr>sj_consecutiveFailures := sr_consecutive_failures row\<rparr>) s1 in
              (case sr_next_run_at row of
                 None \<Rightarrow> (None, s2)
               | Some t \<Rightarrow> (case wall_now s2 of (now1, s3) \<Rightarrow> (Some (sd_virtualNow s3 + max 0 (t - now1)), s3))))"

text \<open>Run start: the backoff counter of an existing row is never touched.\<close>

definition persistRunStart :: "str \<Rightarrow> scheduler \<Rightarrow> scheduler" where
  "persistRunStart n s =
     (if \<not> so_db (sd_opts s) then s
      else case wall_now s of (t, s1) \<Rightarrow>
           case effInterval (job_of s1 n) s1 of (d, s2) \<Rightarrow>
           case sql s2 of (failed, s3) \<Rightarrow>
             if failed then reportPersistError Persist_run_start n s3
             else clearPersistError Persist_run_start n
               (upsert n (\<lambda>r. r\<lparr>sr_last_run_at := Some t, sr_next_run_at := Some (t + d)\<rparr>) s3))"

definition persist :: "str \<Rightarrow> (schedule_row \<Rightarrow> schedule_row) \<Rightarrow> scheduler \<Rightarrow> scheduler" where
  "persist n f s =
     (case sql s of (failed, s1) \<Rightarrow>
        if failed then reportPersistError Persist_outcome n s1
        else clearPersistError Persist_outcome n (upsert n f s1))"

subsection \<open>Running a job\<close>

definition onSuccess :: "str \<Rightarrow> scheduler \<Rightarrow> scheduler" where
  "onSuccess n s =
     (let s1 = arm (schedule_next n (set_job n (\<lambda>j. j\<lparr>sj_consecutiveFailures := 0\<rparr>) (tell (Settled n True) s))) in
      if \<not> so_db (sd_opts s1) then s1
      else case wall_now s1 of (t, s2) \<Rightarrow> case effInterval (job_of s2 n) s2 of (d, s3) \<Rightarrow>
        persist n (\<lambda>r. r\<lparr>sr_last_success_at := Some t, sr_next_run_at := Some (t + d), sr_consecutive_failures := 0\<rparr>) s3)"

definition onFailure :: "str \<Rightarrow> scheduler \<Rightarrow> scheduler" where
  "onFailure n s =
     (let s1 = arm (schedule_next n (set_job n (\<lambda>j. j\<lparr>sj_consecutiveFailures := Suc (sj_consecutiveFailures j)\<rparr>) s)) in
      tell (Settled n False)
        (if \<not> so_db (sd_opts s1) then s1
         else case wall_now s1 of (t, s2) \<Rightarrow> case effInterval (job_of s2 n) s2 of (d, s3) \<Rightarrow>
           persist n (\<lambda>r. r\<lparr>sr_next_run_at := Some (t + d),
             sr_consecutive_failures := sj_consecutiveFailures (job_of s3 n)\<rparr>) s3))"

definition run_sched_job :: "str \<Rightarrow> scheduler \<Rightarrow> scheduler" where
  "run_sched_job n s =
     (let s1 = persistRunStart n (tell (Ran n) s); kind = sd_runs s1 (sd_ran s1); s2 = s1\<lparr>sd_ran := Suc (sd_ran s1)\<rparr> in
      case kind of
        Threw \<Rightarrow> onFailure n s2
      | Promised \<Rightarrow> set_job n (\<lambda>j. j\<lparr>sj_inFlight := True\<rparr>) s2
      | Returned \<Rightarrow> onSuccess n s2)"

subsection \<open>The tick\<close>

text \<open>Due jobs, highest priority first; the sort is stable.\<close>

definition selectDue :: "scheduler \<Rightarrow> str list" where
  "selectDue s = map fst (sort_key (\<lambda>(_, j). - js_priority (sj_spec j))
     (filter (\<lambda>(_, j). sj_nextRunAt j \<le> sd_virtualNow s) (sd_jobs s)))"

definition dispatch_due :: "str \<Rightarrow> scheduler \<Rightarrow> scheduler" where
  "dispatch_due n s =
     (if sj_inFlight (job_of s n) then
        let s1 = set_job n (\<lambda>j. j\<lparr>sj_skipped := Suc (sj_skipped j)\<rparr>) s in
        schedule_next n (tell (Skipped n (sj_skipped (job_of s1 n))) s1)
      else run_sched_job n (schedule_next n s))"

definition defer_job :: "str \<Rightarrow> scheduler \<Rightarrow> scheduler" where
  "defer_job n s = set_job n (\<lambda>j. j\<lparr>sj_nextRunAt := sd_virtualNow s + so_deferralRecheckMs (sd_opts s),
     sj_deferred := Suc (sj_deferred j)\<rparr>) s"

text \<open>Whether the event loop is over its budget; it is only probed when something is due.\<close>

definition over_budget :: "str list \<Rightarrow> scheduler \<Rightarrow> bool \<times> scheduler" where
  "over_budget due s =
     (case so_eventLoopDeferMs (sd_opts s) of
        Some limit \<Rightarrow>
          if so_loopDelay (sd_opts s) \<and> due \<noteq> [] then
            (case probe_loop s of (d, s1) \<Rightarrow> (d > limit, s1))
          else (False, s)
      | None \<Rightarrow> (False, s))"

definition tick_to :: "int \<Rightarrow> scheduler \<Rightarrow> scheduler" where
  "tick_to elapsed s =
     (if sd_stopped s then s
      else let s1 = s\<lparr>sd_virtualNow := sd_virtualNow s + elapsed\<rparr>; due = selectDue s1 in
        case over_budget due s1 of (over, s2) \<Rightarrow>
          if over then arm (fold defer_job due s2) else arm (fold dispatch_due due s2))"

subsection \<open>Starting and stopping\<close>

definition start_job :: "str \<Rightarrow> scheduler \<Rightarrow> scheduler" where
  "start_job n s =
     (case seedNextRun n s of (seeded, s1) \<Rightarrow>
      case seeded of
        Some t \<Rightarrow> set_job n (\<lambda>j. j\<lparr>sj_nextRunAt := t\<rparr>) s1
      | None \<Rightarrow> schedule_next n s1)"

definition start_scheduler :: "scheduler \<Rightarrow> scheduler" where
  "start_scheduler s =
     (if sd_started s then s else arm (fold start_job (map fst (sd_jobs s)) (s\<lparr>sd_started := True\<rparr>)))"

definition stop_scheduler :: "scheduler \<Rightarrow> scheduler" where
  "stop_scheduler s = (if sd_stopped s then s else s\<lparr>sd_stopped := True, sd_timer := None\<rparr>)"

subsection \<open>Events\<close>

datatype sched_event = Fire | Settle str bool | Stop

text \<open>A promise that settles calls \<open>onSuccess\<close> or \<open>onFailure\<close>, then clears the in-flight marker.\<close>

definition settle_job :: "str \<Rightarrow> bool \<Rightarrow> scheduler \<Rightarrow> scheduler" where
  "settle_job n ok s = set_job n (\<lambda>j. j\<lparr>sj_inFlight := False\<rparr>) (if ok then onSuccess n s else onFailure n s)"

fun sched_step :: "sched_event \<Rightarrow> scheduler \<Rightarrow> scheduler option" where
  "sched_step Fire s = (case sd_timer s of None \<Rightarrow> None | Some d \<Rightarrow> Some (tick_to d s))"
| "sched_step (Settle n ok) s =
     (case map_of (sd_jobs s) n of
        Some j \<Rightarrow> if sj_inFlight j then Some (settle_job n ok s) else None
      | None \<Rightarrow> None)"
| "sched_step Stop s = Some (stop_scheduler s)"

end
