(* ===== verification/Scheduler_Safety.thy ===== *)
theory Scheduler_Safety
  imports Scheduler
begin

text \<open>
  What the scheduler guarantees in every state its events reach. \<open>quiet s s'\<close> says that a step changed
  nothing the schedule is about: the jobs, the clock, the timer and the notes of runs; the writers of
  durable rows and the readers of oracles are quiet, whatever fails.
\<close>

subsection \<open>Jobs by name\<close>

definition run_notes :: "scheduler \<Rightarrow> sched_note list" where
  "run_notes s = filter (\<lambda>n. case n of Ran _ \<Rightarrow> True | Settled _ _ \<Rightarrow> True | _ \<Rightarrow> False) (sd_log s)"

definition quiet :: "scheduler \<Rightarrow> scheduler \<Rightarrow> bool" where
  "quiet s s' \<longleftrightarrow> sd_jobs s' = sd_jobs s \<and> sd_virtualNow s' = sd_virtualNow s \<and> sd_timer s' = sd_timer s
     \<and> sd_stopped s' = sd_stopped s \<and> sd_started s' = sd_started s \<and> sd_opts s' = sd_opts s
     \<and> run_notes s' = run_notes s \<and> sd_random s' = sd_random s"

lemma quiet_refl [simp]: "quiet s s" by (simp add: quiet_def)

lemma quiet_trans: "quiet s s1 \<Longrightarrow> quiet s1 s2 \<Longrightarrow> quiet s s2" by (simp add: quiet_def)

lemma quiet_oracles:
  "quiet s (snd (wall_now s))" "quiet s (snd (draw s))" "quiet s (snd (probe_loop s))" "quiet s (snd (sql s))"
  by (simp_all add: quiet_def wall_now_def draw_def probe_loop_def sql_def run_notes_def)

lemma quiet_report: "quiet s (reportPersistError op n s)" "quiet s (clearPersistError op n s)" "quiet s (upsert n f s)"
  by (simp_all add: quiet_def reportPersistError_def clearPersistError_def upsert_def tell_def run_notes_def)

lemma quiet_effInterval: "quiet s (snd (effInterval j s))"
  using quiet_oracles(2) [of s] by (auto simp: effInterval_def Let_def split: prod.splits)

lemma undisturbed_step: "quiet s s1 \<Longrightarrow> s1 = snd (f s) \<Longrightarrow> quiet s s1" by simp

lemma quiet_persist: "quiet s (persist n f s)"
  using quiet_oracles(4) [of s] quiet_report quiet_trans unfolding persist_def
  by (auto split: prod.splits) (meson quiet_trans)+

lemma quiet_persistRunStart: "quiet s (persistRunStart n s)"
proof (cases "so_db (sd_opts s)")
  case True
  obtain t s1 where 1: "wall_now s = (t, s1)" by (cases "wall_now s")
  obtain d s2 where 2: "effInterval (job_of s1 n) s1 = (d, s2)" by (cases "effInterval (job_of s1 n) s1")
  obtain b s3 where 3: "sql s2 = (b, s3)" by (cases "sql s2")
  have "quiet s s1" "quiet s1 s2" "quiet s2 s3"
    using quiet_oracles(1) [of s] quiet_effInterval [of s1 "job_of s1 n"] quiet_oracles(4) [of s2] 1 2 3 by simp_all
  then have "quiet s s3" by (meson quiet_trans)
  then show ?thesis
    using True 1 2 3 quiet_report quiet_trans unfolding persistRunStart_def by (auto split: if_splits) (meson quiet_trans)+
qed (simp add: persistRunStart_def)

lemma jobs_set_job:
  "map fst (sd_jobs (set_job n f s)) = map fst (sd_jobs s)"
  "map_of (sd_jobs (set_job n f s)) k = (if k = n then map_option f (map_of (sd_jobs s) n) else map_of (sd_jobs s) k)"
proof -
  show "map fst (sd_jobs (set_job n f s)) = map fst (sd_jobs s)"
    by (simp add: set_job_def split_beta comp_def)
  have "map_of (map (\<lambda>(k, j). (k, if k = n then f j else j)) xs) k = (if k = n then map_option f (map_of xs n) else map_of xs k)" for xs
    by (induction xs) auto
  then show "map_of (sd_jobs (set_job n f s)) k = (if k = n then map_option f (map_of (sd_jobs s) n) else map_of (sd_jobs s) k)"
    by (simp add: set_job_def)
qed

lemma set_job_simps [simp]:
  "sd_virtualNow (set_job n f s) = sd_virtualNow s" "sd_timer (set_job n f s) = sd_timer s"
  "sd_stopped (set_job n f s) = sd_stopped s" "sd_started (set_job n f s) = sd_started s"
  "sd_opts (set_job n f s) = sd_opts s" "sd_random (set_job n f s) = sd_random s"
  "run_notes (set_job n f s) = run_notes s" "sd_log (set_job n f s) = sd_log s" "sd_jobs (set_job n f s) = [] \<longleftrightarrow> sd_jobs s = []"
  by (simp_all add: set_job_def run_notes_def)

lemma job_of_set_job:
  "map_of (sd_jobs s) k \<noteq> None \<Longrightarrow> job_of (set_job n f s) k = (if k = n then f (job_of s k) else job_of s k)"
  by (auto simp: job_of_def jobs_set_job(2))

subsection \<open>Intervals\<close>

text \<open>The longest interval of a job: its own or the cap, and twice that under jitter.\<close>

definition longest :: "sched_options \<Rightarrow> job_spec \<Rightarrow> int" where
  "longest o1 spec = (let m = max (js_intervalMs spec) (so_maxBackoffMs o1) in if js_jitterRatio spec \<le> 0 then m else 2 * m)"

definition spec_ok :: "job_spec \<Rightarrow> bool" where
  "spec_ok spec \<longleftrightarrow> 1 \<le> js_intervalMs spec \<and> js_jitterRatio spec \<le> 1"

lemma base_interval_bounds:
  assumes "1 \<le> js_intervalMs (sj_spec j)"
  shows "js_intervalMs (sj_spec j) \<le> base_interval o1 j" "base_interval o1 j \<le> max (js_intervalMs (sj_spec j)) (so_maxBackoffMs o1)"
  by (auto simp: base_interval_def Let_def)

lemma round_half_up_le: "x < of_int n + 1 / 2 \<Longrightarrow> round_half_up x \<le> n"
  by (simp add: round_half_up_def floor_le_iff)

lemma effInterval_bounds:
  assumes "spec_ok (sj_spec j)" "\<And>i. 0 \<le> sd_random s i \<and> sd_random s i < 1"
  shows "1 \<le> fst (effInterval j s)" "fst (effInterval j s) \<le> longest (sd_opts s) (sj_spec j)"
proof -
  let ?b = "base_interval (sd_opts s) j"
  have b: "1 \<le> ?b" "?b \<le> max (js_intervalMs (sj_spec j)) (so_maxBackoffMs (sd_opts s))"
    using base_interval_bounds [of j "sd_opts s"] assms(1) by (auto simp: spec_ok_def)
  have "1 \<le> fst (effInterval j s) \<and> fst (effInterval j s) \<le> longest (sd_opts s) (sj_spec j)"
  proof (cases "js_jitterRatio (sj_spec j) \<le> 0")
    case True
    then show ?thesis using b by (simp add: effInterval_def longest_def Let_def)
  next
    case False
    define q where "q = js_jitterRatio (sj_spec j)"
    define r where "r = sd_random s (sd_drawn s)"
    have q: "0 < q" "q \<le> 1" using False assms(1) by (auto simp: q_def spec_ok_def)
    have r: "2 * r - 1 < 1" using assms(2) [of "sd_drawn s"] by (simp add: r_def)
    have "of_int ?b * q * (2 * r - 1) \<le> of_int ?b * 1"
    proof (cases "0 \<le> 2 * r - 1")
      case True
      have "q * (2 * r - 1) \<le> 1 * 1" using q r True by (intro mult_mono) auto
      then have "of_int ?b * (q * (2 * r - 1)) \<le> of_int ?b * 1" using b(1) by (intro mult_left_mono) auto
      then show ?thesis by (simp add: mult.assoc)
    next
      case False
      then have "of_int ?b * q * (2 * r - 1) \<le> 0" using q b(1) by (intro mult_nonneg_nonpos) auto
      then show ?thesis by (rule order_trans) (use b(1) in simp)
    qed
    then have "of_int ?b + of_int ?b * q * (2 * r - 1) < of_int (2 * ?b) + (1 / 2 :: rat)" by simp
    then have "round_half_up (of_int ?b + of_int ?b * q * (2 * r - 1)) \<le> 2 * ?b" by (rule round_half_up_le)
    then show ?thesis
      using False b by (simp add: effInterval_def longest_def Let_def draw_def q_def r_def split_beta)
  qed
  then show "1 \<le> fst (effInterval j s)" "fst (effInterval j s) \<le> longest (sd_opts s) (sj_spec j)" by auto
qed

subsection \<open>What a step does to the schedule\<close>

text \<open>The assumptions on a scheduler: sensible jobs and options, and a random source in \<open>[0, 1)\<close>.\<close>

definition fine :: "scheduler \<Rightarrow> bool" where
  "fine s \<longleftrightarrow> (\<forall>k j. map_of (sd_jobs s) k = Some j \<longrightarrow> spec_ok (sj_spec j)) \<and> (\<forall>i. 0 \<le> sd_random s i \<and> sd_random s i < 1)
     \<and> 1 \<le> so_deferralRecheckMs (sd_opts s) \<and> so_deferralRecheckMs (sd_opts s) \<le> so_maxBackoffMs (sd_opts s)"

text \<open>The jobs of \<open>N\<close> are rescheduled from now on, at least \<open>lo\<close> ahead; the others keep their due time.\<close>

definition resched :: "int \<Rightarrow> str set \<Rightarrow> scheduler \<Rightarrow> scheduler \<Rightarrow> bool" where
  "resched lo N s s' \<longleftrightarrow> map fst (sd_jobs s') = map fst (sd_jobs s)
     \<and> (\<forall>k. map_option sj_spec (map_of (sd_jobs s') k) = map_option sj_spec (map_of (sd_jobs s) k))
     \<and> sd_virtualNow s' = sd_virtualNow s \<and> sd_stopped s' = sd_stopped s \<and> sd_started s' = sd_started s
     \<and> sd_opts s' = sd_opts s \<and> sd_random s' = sd_random s
     \<and> (\<forall>k j j'. map_of (sd_jobs s) k = Some j \<longrightarrow> map_of (sd_jobs s') k = Some j' \<longrightarrow>
          (if k \<in> N then sd_virtualNow s + lo \<le> sj_nextRunAt j' \<and> sj_nextRunAt j' \<le> sd_virtualNow s + longest (sd_opts s) (sj_spec j)
           else sj_nextRunAt j' = sj_nextRunAt j))"

lemma resched_quiet: "quiet s s' \<Longrightarrow> resched lo {} s s'"
  by (simp add: quiet_def resched_def)

lemma resched_refl [simp]: "resched lo {} s s" by (simp add: resched_def)

lemma resched_trans:
  assumes "resched lo N s s1" "resched lo M s1 s2"
  shows "resched lo (N \<union> M) s s2"
proof -
  have "if k \<in> N \<union> M then sd_virtualNow s + lo \<le> sj_nextRunAt j2 \<and> sj_nextRunAt j2 \<le> sd_virtualNow s + longest (sd_opts s) (sj_spec j)
      else sj_nextRunAt j2 = sj_nextRunAt j"
    if j: "map_of (sd_jobs s) k = Some j" "map_of (sd_jobs s2) k = Some j2" for k j j2
  proof -
    have "map_option sj_spec (map_of (sd_jobs s1) k) = Some (sj_spec j)" using assms(1) j(1) by (simp add: resched_def)
    then obtain j1 where j1: "map_of (sd_jobs s1) k = Some j1" "sj_spec j1 = sj_spec j" by auto
    show ?thesis
      using assms j j1 unfolding resched_def by (smt (verit) Un_iff)
  qed
  then show ?thesis using assms unfolding resched_def by auto
qed

lemma resched_quiet_trans: "resched lo N s s1 \<Longrightarrow> quiet s1 s2 \<Longrightarrow> resched lo N s s2"
  using resched_trans [OF _ resched_quiet] by fastforce

lemma quiet_resched_trans: "quiet s s1 \<Longrightarrow> resched lo N s1 s2 \<Longrightarrow> resched lo N s s2"
  using resched_trans [OF resched_quiet] by fastforce

lemma resched_fine:
  assumes "resched lo N s s'" "fine s" shows "fine s'"
proof -
  have "spec_ok (sj_spec j')" if "map_of (sd_jobs s') k = Some j'" for k j'
  proof -
    have "map_option sj_spec (map_of (sd_jobs s) k) = Some (sj_spec j')"
      using assms(1) that unfolding resched_def by (metis option.simps(9))
    then obtain j where "map_of (sd_jobs s) k = Some j" "sj_spec j = sj_spec j'" by auto
    then show ?thesis using assms(2) unfolding fine_def by metis
  qed
  then show ?thesis using assms by (simp add: fine_def resched_def)
qed

lemma resched_set_job:
  assumes "\<And>j. sj_spec (f j) = sj_spec j \<and> sj_nextRunAt (f j) = sj_nextRunAt j"
  shows "resched lo {} s (set_job n f s)"
  using assms by (auto simp: resched_def jobs_set_job option.map_comp comp_def map_option_case split: option.splits)

lemma resched_at:
  assumes "sd_virtualNow s + lo \<le> t"
    "\<And>j. map_of (sd_jobs s) n = Some j \<Longrightarrow> t \<le> sd_virtualNow s + longest (sd_opts s) (sj_spec j)"
    "\<And>j. sj_spec (f j) = sj_spec j \<and> sj_nextRunAt (f j) = t"
  shows "resched lo {n} s (set_job n f s)"
  using assms by (auto simp: resched_def jobs_set_job option.map_comp comp_def map_option_case split: option.splits)

lemma resched_arm: "resched lo {} s (arm s)"
  by (simp add: resched_def arm_def Let_def)

lemma resched_tell: "resched lo {} s (tell x s)"
  by (simp add: resched_def tell_def)

lemma resched_next:
  assumes "fine s" "lo \<le> 1"
  shows "resched lo {n} s (schedule_next n s)"
proof -
  obtain d s1 where d: "effInterval (job_of s n) s = (d, s1)" by (cases "effInterval (job_of s n) s")
  have q: "quiet s s1" using quiet_effInterval [of s "job_of s n"] d by simp
  have bound: "1 \<le> d \<and> d \<le> longest (sd_opts s) (sj_spec j)" if "map_of (sd_jobs s) n = Some j" for j
    using effInterval_bounds [of "job_of s n" s] assms(1) that d by (auto simp: fine_def job_of_def)
  have "resched lo {n} s1 (set_job n (\<lambda>j. j\<lparr>sj_nextRunAt := sd_virtualNow s1 + d\<rparr>) s1)"
  proof (cases "map_of (sd_jobs s) n")
    case None
    then show ?thesis using q by (simp add: quiet_def resched_def jobs_set_job)
  next
    case (Some j)
    then show ?thesis
      using bound [OF Some] q assms(2) by (intro resched_at) (auto simp: quiet_def)
  qed
  then show ?thesis using quiet_resched_trans [OF q] d by (simp add: schedule_next_def)
qed

text \<open>After a run settles: rescheduled and armed, then durable rows only.\<close>

definition after_run :: "str \<Rightarrow> (sched_job \<Rightarrow> sched_job) \<Rightarrow> scheduler \<Rightarrow> scheduler" where
  "after_run n f s = arm (schedule_next n (set_job n f s))"

lemma quiet_row:
  assumes "\<And>t d s3. quiet s3 (g t d s3)"
  shows "quiet s1 (case wall_now s1 of (t, s2) \<Rightarrow> case effInterval (job_of s2 n) s2 of (d, s3) \<Rightarrow> g t d s3)"
proof -
  obtain t s2 where 1: "wall_now s1 = (t, s2)" by (cases "wall_now s1")
  obtain d s3 where 2: "effInterval (job_of s2 n) s2 = (d, s3)" by (cases "effInterval (job_of s2 n) s2")
  have "quiet s1 s2" "quiet s2 s3" using quiet_oracles(1) [of s1] quiet_effInterval [of s2 "job_of s2 n"] 1 2 by simp_all
  then have "quiet s1 s3" by (rule quiet_trans)
  then show ?thesis using assms 1 2 quiet_trans by (auto intro: quiet_trans)
qed

lemma onSuccess_shape: "quiet (after_run n (\<lambda>j. j\<lparr>sj_consecutiveFailures := 0\<rparr>) (tell (Settled n True) s)) (onSuccess n s)"
  unfolding onSuccess_def after_run_def [symmetric] Let_def
  by (auto intro: quiet_row quiet_persist)

lemma onFailure_shape:
  "\<exists>s2. quiet (after_run n (\<lambda>j. j\<lparr>sj_consecutiveFailures := Suc (sj_consecutiveFailures j)\<rparr>) s) s2
     \<and> onFailure n s = tell (Settled n False) s2"
  unfolding onFailure_def after_run_def [symmetric] Let_def
  by (rule exI, rule conjI [OF _ refl]) (auto intro: quiet_row quiet_persist)

lemma resched_after_run:
  assumes "fine s" "\<And>j. sj_spec (f j) = sj_spec j \<and> sj_nextRunAt (f j) = sj_nextRunAt j"
  shows "resched 1 {n} s (after_run n f s)"
proof -
  have 1: "resched 1 {} s (set_job n f s)" by (rule resched_set_job [OF assms(2)])
  have 2: "resched 1 {n} (set_job n f s) (schedule_next n (set_job n f s))"
    by (rule resched_next [OF resched_fine [OF 1 assms(1)]]) simp
  show ?thesis
    using resched_trans [OF resched_trans [OF 1 2] resched_arm] by (simp add: after_run_def)
qed

lemma resched_onSuccess: "fine s \<Longrightarrow> resched 1 {n} s (onSuccess n s)"
proof -
  assume f: "fine s"
  have t: "resched 1 {} s (tell (Settled n True) s)" by (rule resched_tell)
  have "resched 1 {n} (tell (Settled n True) s)
      (after_run n (\<lambda>j. j\<lparr>sj_consecutiveFailures := 0\<rparr>) (tell (Settled n True) s))"
    by (rule resched_after_run [OF resched_fine [OF t f]]) simp
  from resched_quiet_trans [OF resched_trans [OF t this] onSuccess_shape] show ?thesis by simp
qed

lemma resched_onFailure: "fine s \<Longrightarrow> resched 1 {n} s (onFailure n s)"
proof -
  assume f: "fine s"
  obtain s2 where s2: "quiet (after_run n (\<lambda>j. j\<lparr>sj_consecutiveFailures := Suc (sj_consecutiveFailures j)\<rparr>) s) s2"
      "onFailure n s = tell (Settled n False) s2"
    using onFailure_shape by blast
  have "resched 1 {n} s (after_run n (\<lambda>j. j\<lparr>sj_consecutiveFailures := Suc (sj_consecutiveFailures j)\<rparr>) s)"
    by (rule resched_after_run [OF f]) simp
  from resched_trans [OF resched_quiet_trans [OF this s2(1)] resched_tell] show ?thesis using s2(2) by simp
qed

lemma resched_run:
  assumes "fine s"
  shows "resched 1 {n} s (run_sched_job n s) \<or> resched 1 {} s (run_sched_job n s)"
proof -
  define s2 where "s2 = (let s1 = persistRunStart n (tell (Ran n) s) in s1\<lparr>sd_ran := Suc (sd_ran s1)\<rparr>)"
  have "resched 1 {} s (persistRunStart n (tell (Ran n) s))"
    by (rule resched_quiet_trans [OF resched_tell quiet_persistRunStart])
  then have s2: "resched 1 {} s s2" by (simp add: s2_def Let_def resched_def)
  then have "fine s2" using resched_fine assms by blast
  have flight: "resched 1 {} s2 (set_job n (\<lambda>j. j\<lparr>sj_inFlight := True\<rparr>) s2)" by (rule resched_set_job) simp
  show ?thesis
    using resched_trans [OF s2 resched_onSuccess [OF \<open>fine s2\<close>]] resched_trans [OF s2 resched_onFailure [OF \<open>fine s2\<close>]]
      resched_trans [OF s2 flight]
    by (simp add: run_sched_job_def Let_def s2_def split: run_kind.split)
qed

lemma resched_dispatch:
  assumes "fine s" shows "resched 1 {n} s (dispatch_due n s)"
proof (cases "sj_inFlight (job_of s n)")
  case True
  let ?s1 = "set_job n (\<lambda>j. j\<lparr>sj_skipped := Suc (sj_skipped j)\<rparr>) s"
  let ?s2 = "tell (Skipped n (sj_skipped (job_of ?s1 n))) ?s1"
  have 1: "resched 1 {} s ?s1" by (rule resched_set_job) simp
  have 2: "resched 1 {} s ?s2" using resched_trans [OF 1 resched_tell] by simp
  have 3: "resched 1 {n} ?s2 (schedule_next n ?s2)" by (rule resched_next [OF resched_fine [OF 2 assms]]) simp
  show ?thesis using resched_trans [OF 2 3] True by (simp add: dispatch_due_def Let_def)
next
  case False
  have 1: "resched 1 {n} s (schedule_next n s)" by (rule resched_next [OF assms]) simp
  show ?thesis
    using resched_run [OF resched_fine [OF 1 assms], of n] resched_trans [OF 1, of "{n}"] resched_trans [OF 1, of "{}"] False
    by (auto simp: dispatch_due_def)
qed

lemma resched_defer:
  assumes "fine s" shows "resched 1 {n} s (defer_job n s)"
  unfolding defer_job_def
  by (rule resched_at) (use assms in \<open>auto simp: fine_def longest_def Let_def\<close>)

lemma resched_fold:
  assumes "\<And>n s. fine s \<Longrightarrow> resched lo {n} s (f n s)"
  shows "fine s \<Longrightarrow> resched lo (set ns) s (fold f ns s)"
proof (induction ns arbitrary: s)
  case (Cons n ns)
  have "resched lo (set ns) (f n s) (fold f ns (f n s))"
    by (rule Cons.IH [OF resched_fine [OF assms [OF Cons.prems] Cons.prems]])
  from resched_trans [OF assms [OF Cons.prems] this] show ?case by simp
qed simp

subsection \<open>The timer is armed for the soonest job\<close>

definition armed :: "scheduler \<Rightarrow> bool" where
  "armed s \<longleftrightarrow> sd_timer s = (if sd_stopped s \<or> sd_jobs s = [] then None else Some (max 0 (soonest s - sd_virtualNow s)))"

lemma armed_arm: "armed (arm s)" by (simp add: armed_def arm_def Let_def soonest_def)

lemma armed_quiet: "quiet s s' \<Longrightarrow> armed s \<Longrightarrow> armed s'" by (simp add: armed_def quiet_def soonest_def)

lemma armed_tell: "armed (tell x s) = armed s" by (simp add: armed_def tell_def soonest_def)

lemma armed_set_job:
  assumes "\<And>j. sj_nextRunAt (f j) = sj_nextRunAt j" "armed s"
  shows "armed (set_job n f s)"
proof -
  have "(\<lambda>(_, j). sj_nextRunAt j) ` set (sd_jobs (set_job n f s)) = (\<lambda>(_, j). sj_nextRunAt j) ` set (sd_jobs s)"
  proof -
    have "map (\<lambda>(_, j). sj_nextRunAt j) (map (\<lambda>(k, j). (k, if k = n then f j else j)) xs) = map (\<lambda>(_, j). sj_nextRunAt j) xs" for xs
      using assms(1) by (induction xs) auto
    from arg_cong [where f = set, OF this [of "sd_jobs s"], unfolded set_map]
    show ?thesis by (simp add: set_job_def del: image_image)
  qed
  then show ?thesis using assms(2) by (simp add: armed_def soonest_def)
qed

lemma armed_settle: "armed (settle_job n ok s)"
proof -
  have "armed (onSuccess n s)" by (rule armed_quiet [OF onSuccess_shape]) (simp add: after_run_def armed_arm)
  moreover have "armed (onFailure n s)"
  proof -
    obtain s2 where s2: "quiet (after_run n (\<lambda>j. j\<lparr>sj_consecutiveFailures := Suc (sj_consecutiveFailures j)\<rparr>) s) s2"
        "onFailure n s = tell (Settled n False) s2" using onFailure_shape by blast
    have "armed s2" by (rule armed_quiet [OF s2(1)]) (simp add: after_run_def armed_arm)
    then show ?thesis by (simp add: s2(2) armed_tell)
  qed
  ultimately show ?thesis by (auto simp: settle_job_def intro: armed_set_job)
qed

subsection \<open>Live schedulers\<close>

definition on_time :: "int \<Rightarrow> scheduler \<Rightarrow> bool" where
  "on_time lo s \<longleftrightarrow> (\<forall>k j. map_of (sd_jobs s) k = Some j \<longrightarrow>
     sd_virtualNow s + lo \<le> sj_nextRunAt j \<and> sj_nextRunAt j \<le> sd_virtualNow s + longest (sd_opts s) (sj_spec j))"

definition live :: "scheduler \<Rightarrow> bool" where
  "live s \<longleftrightarrow> fine s \<and> distinct (map fst (sd_jobs s)) \<and> sd_started s \<and> armed s \<and> on_time 0 s"

lemma resched_on_time:
  assumes "resched 1 N s s'" "on_time 0 s" shows "on_time 0 s'"
  unfolding on_time_def
proof (intro allI impI)
  fix k j' assume j': "map_of (sd_jobs s') k = Some j'"
  then have "map_option sj_spec (map_of (sd_jobs s) k) = Some (sj_spec j')"
    using assms(1) unfolding resched_def by (metis option.simps(9))
  then obtain j where j: "map_of (sd_jobs s) k = Some j" "sj_spec j = sj_spec j'" by auto
  have 1: "if k \<in> N then sd_virtualNow s + 1 \<le> sj_nextRunAt j' \<and> sj_nextRunAt j' \<le> sd_virtualNow s + longest (sd_opts s) (sj_spec j)
      else sj_nextRunAt j' = sj_nextRunAt j"
    using assms(1) j(1) j' unfolding resched_def by blast
  have 2: "sd_virtualNow s \<le> sj_nextRunAt j \<and> sj_nextRunAt j \<le> sd_virtualNow s + longest (sd_opts s) (sj_spec j)"
    using assms(2) j(1) by (auto simp: on_time_def)
  have 3: "sd_virtualNow s' = sd_virtualNow s" "sd_opts s' = sd_opts s" using assms(1) by (simp_all add: resched_def)
  show "sd_virtualNow s' + 0 \<le> sj_nextRunAt j' \<and> sj_nextRunAt j' \<le> sd_virtualNow s' + longest (sd_opts s') (sj_spec j')"
    using 1 2 3 j(2) by (cases "k \<in> N") auto
qed

lemma in_selectDue:
  "distinct (map fst (sd_jobs s)) \<Longrightarrow>
   k \<in> set (selectDue s) \<longleftrightarrow> (\<exists>j. map_of (sd_jobs s) k = Some j \<and> sj_nextRunAt j \<le> sd_virtualNow s)"
  by (force simp: selectDue_def)

lemma soonest_le: "map_of (sd_jobs s) k = Some j \<Longrightarrow> soonest s \<le> sj_nextRunAt j"
  unfolding soonest_def by (rule Min_le) (auto dest!: map_of_SomeD intro: rev_image_eqI)

lemma soonest_job:
  assumes "sd_jobs s \<noteq> []" "distinct (map fst (sd_jobs s))"
  obtains k j where "map_of (sd_jobs s) k = Some j" "sj_nextRunAt j = soonest s"
proof -
  have "soonest s \<in> (\<lambda>(_, j). sj_nextRunAt j) ` set (sd_jobs s)"
    unfolding soonest_def using assms(1) by (intro Min_in) auto
  then show ?thesis using assms(2) that by auto
qed

text \<open>The clock the timer advances to, and what is due then.\<close>

lemma fired:
  assumes "live s" "sd_timer s = Some d"
  defines "s1 \<equiv> s\<lparr>sd_virtualNow := sd_virtualNow s + d\<rparr>"
  shows "sd_virtualNow s1 = soonest s" "0 \<le> d" "\<not> sd_stopped s" "selectDue s1 \<noteq> []"
    "k \<notin> set (selectDue s1) \<Longrightarrow> map_of (sd_jobs s) k = Some j \<Longrightarrow> sd_virtualNow s1 + 1 \<le> sj_nextRunAt j"
proof -
  have jobs: "sd_jobs s \<noteq> []" "\<not> sd_stopped s" "d = max 0 (soonest s - sd_virtualNow s)" "distinct (map fst (sd_jobs s))"
    using assms(1,2) by (auto simp: live_def armed_def split: if_splits)
  obtain k0 j0 where k0: "map_of (sd_jobs s) k0 = Some j0" "sj_nextRunAt j0 = soonest s"
    using soonest_job [OF jobs(1,4)] by blast
  have "sd_virtualNow s \<le> soonest s" using assms(1) k0 by (force simp: live_def on_time_def)
  then show now: "sd_virtualNow s1 = soonest s" and "0 \<le> d" using jobs(3) by (auto simp: s1_def)
  show "\<not> sd_stopped s" by (rule jobs(2))
  have dist: "distinct (map fst (sd_jobs s1))" using jobs(4) by (simp add: s1_def)
  have "k0 \<in> set (selectDue s1)" unfolding in_selectDue [OF dist] using k0 now by (simp add: s1_def)
  then show "selectDue s1 \<noteq> []" by auto
  show "sd_virtualNow s1 + 1 \<le> sj_nextRunAt j" if "k \<notin> set (selectDue s1)" "map_of (sd_jobs s) k = Some j"
    using that in_selectDue [OF dist, of k] by (auto simp: s1_def)
qed

lemma live_tick:
  assumes "live s" "sd_timer s = Some d"
  shows "live (tick_to d s) \<and> on_time 1 (tick_to d s) \<and> sd_virtualNow (tick_to d s) = soonest s"
proof -
  define s1 where "s1 = s\<lparr>sd_virtualNow := sd_virtualNow s + d\<rparr>"
  note f = fired [OF assms, folded s1_def]
  obtain over s2 where ov: "over_budget (selectDue s1) s1 = (over, s2)" by (cases "over_budget (selectDue s1) s1")
  have q: "quiet s1 s2"
    using ov quiet_oracles(3) [of s1] by (auto simp: over_budget_def split: option.splits if_splits prod.splits)
  define s3 where "s3 = (if over then fold defer_job (selectDue s1) s2 else fold dispatch_due (selectDue s1) s2)"
  have t: "tick_to d s = arm s3" using f(3) ov by (simp add: tick_to_def Let_def s1_def [symmetric] s3_def)
  have fine1: "fine s1" using assms(1) by (simp add: live_def fine_def s1_def)
  have fine2: "fine s2" using resched_fine [OF resched_quiet [OF q] fine1] .
  have "resched 1 (set (selectDue s1)) s2 s3"
    using resched_fold [of 1 defer_job, OF resched_defer fine2] resched_fold [of 1 dispatch_due, OF resched_dispatch fine2]
    by (simp add: s3_def)
  from quiet_resched_trans [OF q this] have "resched 1 (set (selectDue s1)) s1 s3" .
  from resched_trans [OF this resched_arm] have r: "resched 1 (set (selectDue s1)) s1 (arm s3)" by simp
  have on: "on_time 1 (arm s3)"
    unfolding on_time_def
  proof (intro allI impI)
    fix k j' assume j': "map_of (sd_jobs (arm s3)) k = Some j'"
    then have "map_option sj_spec (map_of (sd_jobs s1) k) = Some (sj_spec j')"
      using r unfolding resched_def by (metis option.simps(9))
    then obtain j where j: "map_of (sd_jobs s1) k = Some j" "sj_spec j = sj_spec j'" by auto
    have 1: "if k \<in> set (selectDue s1) then sd_virtualNow s1 + 1 \<le> sj_nextRunAt j' \<and> sj_nextRunAt j' \<le> sd_virtualNow s1 + longest (sd_opts s1) (sj_spec j)
        else sj_nextRunAt j' = sj_nextRunAt j"
      using r j(1) j' unfolding resched_def by blast
    have 2: "sd_virtualNow (arm s3) = sd_virtualNow s1" "sd_opts (arm s3) = sd_opts s1" using r by (simp_all add: resched_def)
    have 3: "sj_nextRunAt j \<le> sd_virtualNow s1 + longest (sd_opts s1) (sj_spec j)"
      using assms(1) j(1) f(2) by (force simp: live_def on_time_def s1_def)
    have 4: "k \<notin> set (selectDue s1) \<Longrightarrow> sd_virtualNow s1 + 1 \<le> sj_nextRunAt j" using f(5) j(1) by (simp add: s1_def)
    show "sd_virtualNow (arm s3) + 1 \<le> sj_nextRunAt j' \<and> sj_nextRunAt j' \<le> sd_virtualNow (arm s3) + longest (sd_opts (arm s3)) (sj_spec j')"
      using 1 2 3 4 j(2) by (cases "k \<in> set (selectDue s1)") auto
  qed
  have "on_time 0 (arm s3)" using on by (force simp: on_time_def)
  moreover have "distinct (map fst (sd_jobs (arm s3)))" "sd_started (arm s3)"
    using r assms(1) by (simp_all add: resched_def live_def s1_def)
  ultimately have "live (arm s3)" using resched_fine [OF r fine1] armed_arm by (simp add: live_def)
  moreover have "sd_virtualNow (arm s3) = soonest s" using r f(1) by (simp add: resched_def)
  ultimately show ?thesis using on t by simp
qed

lemma live_step:
  assumes "live s" "sched_step e s = Some s'" shows "live s'"
proof (cases e)
  case Fire
  then show ?thesis using assms live_tick by (auto split: option.splits)
next
  case (Settle n ok)
  then have s': "s' = settle_job n ok s" using assms(2) by (auto split: option.splits if_splits)
  have f: "fine s" using assms(1) by (simp add: live_def)
  have 1: "resched 1 {n} s (if ok then onSuccess n s else onFailure n s)"
    using resched_onSuccess [OF f] resched_onFailure [OF f] by simp
  have "resched 1 {} (if ok then onSuccess n s else onFailure n s) s'"
    unfolding s' settle_job_def by (rule resched_set_job) simp
  from resched_trans [OF 1 this] have r: "resched 1 {n} s s'" by simp
  then have "on_time 0 s'" using resched_on_time assms(1) by (auto simp: live_def)
  then show ?thesis
    using resched_fine [OF r f] r armed_settle assms(1) unfolding s' by (simp add: live_def resched_def)
next
  case Stop
  then show ?thesis
    using assms by (auto simp: stop_scheduler_def live_def fine_def on_time_def armed_def split: if_splits)
qed

subsection \<open>Starting\<close>

text \<open>No stored row puts a job further off than its longest interval.\<close>

definition seeds_ok :: "scheduler \<Rightarrow> bool" where
  "seeds_ok s \<longleftrightarrow> (\<forall>n j row t i. map_of (sd_jobs s) n = Some j \<longrightarrow> map_of (sd_table s) n = Some row \<longrightarrow>
     sr_next_run_at row = Some t \<longrightarrow> t - sd_clock s i \<le> longest (sd_opts s) (sj_spec j))"

definition same_store :: "scheduler \<Rightarrow> scheduler \<Rightarrow> bool" where
  "same_store s s' \<longleftrightarrow> sd_table s' = sd_table s \<and> sd_clock s' = sd_clock s"

lemma seeds_ok_resched:
  assumes "seeds_ok s" "resched lo N s s'" "same_store s s'" shows "seeds_ok s'"
  unfolding seeds_ok_def
proof (intro allI impI)
  fix n j' row t i assume j': "map_of (sd_jobs s') n = Some j'"
    and row: "map_of (sd_table s') n = Some row" "sr_next_run_at row = Some t"
  then have "map_option sj_spec (map_of (sd_jobs s) n) = Some (sj_spec j')"
    using assms(2) unfolding resched_def by (metis option.simps(9))
  then obtain j where "map_of (sd_jobs s) n = Some j" "sj_spec j = sj_spec j'" by auto
  then show "t - sd_clock s' i \<le> longest (sd_opts s') (sj_spec j')"
    using assms row unfolding seeds_ok_def same_store_def resched_def by metis
qed

lemma same_store_simps:
  "same_store s s" "same_store s s1 \<Longrightarrow> same_store s1 s2 \<Longrightarrow> same_store s s2" "same_store s (set_job n f s)"
  "same_store s (snd (sql s))" "same_store s (snd (wall_now s))" "same_store s (reportPersistError op n s)"
  "same_store s (snd (effInterval j s))" "same_store s (schedule_next n s)"
  by (simp_all add: same_store_def set_job_def sql_def wall_now_def reportPersistError_def tell_def effInterval_def
      Let_def draw_def schedule_next_def split_beta)

lemma seedNextRun_ok:
  assumes "fine s" "seeds_ok s" "map_of (sd_jobs s) n = Some j" "seedNextRun n s = (r, s1)"
  shows "resched 0 {} s s1 \<and> same_store s s1
    \<and> (\<forall>t. r = Some t \<longrightarrow> sd_virtualNow s1 \<le> t \<and> t \<le> sd_virtualNow s1 + longest (sd_opts s) (sj_spec j))"
proof (cases "so_db (sd_opts s)")
  case False
  then show ?thesis using assms(4) by (auto simp: seedNextRun_def same_store_simps)
next
  case db: True
  obtain failed s2 where 2: "sql s = (failed, s2)" by (cases "sql s")
  have q: "quiet s s2" "same_store s s2" using quiet_oracles(4) [of s] same_store_simps(4) [of s] 2 by simp_all
  have r2: "resched 0 {} s s2" by (rule resched_quiet [OF q(1)])
  show ?thesis
  proof (cases "failed \<or> map_of (sd_table s2) n = None")
    case True
    have "resched 0 {} s (reportPersistError Seed_next_run n s2)" by (rule resched_quiet_trans [OF r2 quiet_report(1)])
    moreover have "same_store s (reportPersistError Seed_next_run n s2)" using q(2) same_store_simps(2,6) by blast
    ultimately show ?thesis
      using True assms(4) 2 r2 q db by (auto simp: seedNextRun_def split: if_splits)
  next
    case False
    then obtain row where row: "map_of (sd_table s2) n = Some row" by auto
    define f where "f = (\<lambda>j :: sched_job. j\<lparr>sj_consecutiveFailures := sr_consecutive_failures row\<rparr>)"
    have "resched 0 {} s2 (set_job n f s2)" by (rule resched_set_job) (simp add: f_def)
    from resched_trans [OF r2 this] have r3: "resched 0 {} s (set_job n f s2)" by simp
    have st: "same_store s (set_job n f s2)" using q(2) same_store_simps(2,3) by blast
    show ?thesis
    proof (cases "sr_next_run_at row")
      case None
      then show ?thesis
        using assms(4) 2 False row r3 st db by (simp add: seedNextRun_def Let_def f_def)
    next
      case (Some t)
      obtain now1 s4 where 4: "wall_now (set_job n f s2) = (now1, s4)" by (cases "wall_now (set_job n f s2)")
      have q4: "quiet (set_job n f s2) s4" "same_store (set_job n f s2) s4"
        using quiet_oracles(1) [of "set_job n f s2"] same_store_simps(5) [of "set_job n f s2"] 4 by simp_all
      have "now1 = sd_clock s (sd_clocked s2)" using 4 st by (simp add: wall_now_def same_store_def set_job_def)
      then have "t - now1 \<le> longest (sd_opts s) (sj_spec j)"
        using assms(2,3) row Some q(2) by (auto simp: seeds_ok_def same_store_def)
      moreover have "0 \<le> longest (sd_opts s) (sj_spec j)"
        using assms(1,3) by (auto simp: fine_def spec_ok_def longest_def Let_def)
      moreover have "r = Some (sd_virtualNow s4 + max 0 (t - now1))" "s1 = s4"
        using assms(4) 2 False row Some 4 db by (auto simp: seedNextRun_def Let_def f_def)
      ultimately show ?thesis
        using resched_quiet_trans [OF r3 q4(1)] st q4(2) same_store_simps(2) by auto
    qed
  qed
qed

lemma start_job_ok:
  assumes "fine s" "seeds_ok s" "map_of (sd_jobs s) n = Some j"
  shows "resched 0 {n} s (start_job n s) \<and> same_store s (start_job n s)"
proof -
  obtain r s1 where sd: "seedNextRun n s = (r, s1)" by (cases "seedNextRun n s")
  have 1: "resched 0 {} s s1" "same_store s s1"
      "\<And>t. r = Some t \<Longrightarrow> sd_virtualNow s1 \<le> t \<and> t \<le> sd_virtualNow s1 + longest (sd_opts s) (sj_spec j)"
    using seedNextRun_ok [OF assms sd] by auto
  have f1: "fine s1" using resched_fine [OF 1(1) assms(1)] .
  have j1: "longest (sd_opts s1) (sj_spec j1) = longest (sd_opts s) (sj_spec j)" if "map_of (sd_jobs s1) n = Some j1" for j1
  proof -
    have "map_option sj_spec (map_of (sd_jobs s1) n) = map_option sj_spec (map_of (sd_jobs s) n)" "sd_opts s1 = sd_opts s"
      using 1(1) by (simp_all add: resched_def)
    then show ?thesis using that assms(3) by simp
  qed
  have "resched 0 {n} s1 (start_job n s) \<and> same_store s1 (start_job n s)"
  proof (cases r)
    case None
    then show ?thesis using sd resched_next [OF f1, of 0 n] same_store_simps(8) by (simp add: start_job_def)
  next
    case (Some t)
    have "resched 0 {n} s1 (set_job n (\<lambda>j. j\<lparr>sj_nextRunAt := t\<rparr>) s1)"
      using 1(3) [OF Some] j1 by (intro resched_at) auto
    then show ?thesis using sd Some same_store_simps(3) by (simp add: start_job_def)
  qed
  then show ?thesis using resched_trans [OF 1(1), of "{n}"] 1(2) same_store_simps(2) by auto
qed

lemma start_all_ok:
  "fine s \<Longrightarrow> seeds_ok s \<Longrightarrow> set ns \<subseteq> fst ` set (sd_jobs s) \<Longrightarrow> resched 0 (set ns) s (fold start_job ns s)"
proof (induction ns arbitrary: s)
  case (Cons n ns)
  obtain j where "map_of (sd_jobs s) n = Some j" using Cons.prems(3) by (force simp: map_of_eq_None_iff dest: weak_map_of_SomeI)
  from start_job_ok [OF Cons.prems(1,2) this] have 1: "resched 0 {n} s (start_job n s)" "same_store s (start_job n s)" by auto
  have "map fst (sd_jobs (start_job n s)) = map fst (sd_jobs s)" using 1(1) by (simp add: resched_def)
  then have sub: "set ns \<subseteq> fst ` set (sd_jobs (start_job n s))" using Cons.prems(3) by (metis list.set_map insert_subset list.simps(15))
  have "resched 0 (set ns) (start_job n s) (fold start_job ns (start_job n s))"
    by (rule Cons.IH [OF resched_fine [OF 1(1) Cons.prems(1)] seeds_ok_resched [OF Cons.prems(2) 1] sub])
  from resched_trans [OF 1(1) this] show ?case by simp
qed simp

text \<open>A scheduler before \<open>start\<close>.\<close>

definition unstarted :: "scheduler \<Rightarrow> bool" where
  "unstarted s \<longleftrightarrow> fine s \<and> distinct (map fst (sd_jobs s)) \<and> \<not> sd_started s \<and> seeds_ok s"

lemma live_start:
  assumes "unstarted s" shows "live (start_scheduler s)"
proof -
  define s0 where "s0 = s\<lparr>sd_started := True\<rparr>"
  define s1 where "s1 = fold start_job (map fst (sd_jobs s)) s0"
  have s0: "fine s0" "seeds_ok s0" "distinct (map fst (sd_jobs s0))" "sd_jobs s0 = sd_jobs s"
    using assms by (simp_all add: s0_def unstarted_def fine_def seeds_ok_def)
  have "resched 0 (set (map fst (sd_jobs s))) s0 s1"
    unfolding s1_def by (rule start_all_ok [OF s0(1,2)]) (simp add: s0(4))
  from resched_trans [OF this resched_arm] have r: "resched 0 (fst ` set (sd_jobs s)) s0 (arm s1)" by simp
  have "on_time 0 (arm s1)"
    unfolding on_time_def
  proof (intro allI impI)
    fix k j' assume j': "map_of (sd_jobs (arm s1)) k = Some j'"
    then have "map_option sj_spec (map_of (sd_jobs s0) k) = Some (sj_spec j')"
      using r unfolding resched_def by (metis option.simps(9))
    then obtain j where j: "map_of (sd_jobs s0) k = Some j" "sj_spec j = sj_spec j'" by auto
    then have "k \<in> fst ` set (sd_jobs s)" using s0(4) by (auto dest!: map_of_SomeD intro: rev_image_eqI)
    then have "sd_virtualNow s0 + 0 \<le> sj_nextRunAt j' \<and> sj_nextRunAt j' \<le> sd_virtualNow s0 + longest (sd_opts s0) (sj_spec j)"
      using r j(1) j' unfolding resched_def by (metis (no_types, lifting))
    moreover have "sd_virtualNow (arm s1) = sd_virtualNow s0" "sd_opts (arm s1) = sd_opts s0"
      using r by (simp_all add: resched_def)
    ultimately show "sd_virtualNow (arm s1) + 0 \<le> sj_nextRunAt j'
        \<and> sj_nextRunAt j' \<le> sd_virtualNow (arm s1) + longest (sd_opts (arm s1)) (sj_spec j')"
      using j(2) by simp
  qed
  then have "live (arm s1)"
    using resched_fine [OF r s0(1)] r s0 armed_arm by (simp add: live_def resched_def s0_def)
  then show ?thesis using assms by (simp add: start_scheduler_def unstarted_def s1_def s0_def)
qed

end
