(* ===== verification/Scheduler_Guarantees.thy ===== *)
theory Scheduler_Guarantees
  imports Scheduler_Safety
begin

text \<open>
  The properties of the scheduler over every sequence of its events: no job is ever overdue on its
  clock, its timer always leads to work, no job runs twice at once, nothing runs after a stop, and a
  failing database never changes the schedule. A run that shows each of them closes the theory.
\<close>

subsection \<open>Sequences of events\<close>

text \<open>An event that is not possible changes nothing.\<close>

fun sched_run :: "sched_event list \<Rightarrow> scheduler \<Rightarrow> scheduler" where
  "sched_run [] s = s"
| "sched_run (e # es) s = sched_run es (case sched_step e s of None \<Rightarrow> s | Some s' \<Rightarrow> s')"

lemma sched_run_append: "sched_run (es @ fs) s = sched_run fs (sched_run es s)"
  by (induction es arbitrary: s) auto

lemma sched_run_keeps:
  assumes "\<And>e s s'. P s \<Longrightarrow> sched_step e s = Some s' \<Longrightarrow> P s'"
  shows "P s \<Longrightarrow> P (sched_run es s)"
  by (induction es arbitrary: s) (use assms in \<open>auto split: option.split\<close>)

lemma live_run: "unstarted s \<Longrightarrow> live (sched_run es (start_scheduler s))"
  by (rule sched_run_keeps [where P = live]) (auto intro: live_step live_start)

text \<open>
  In every state a started scheduler reaches, every job's next run lies at or after
  the scheduler's clock and at most its longest interval ahead (its own interval or the back-off cap,
  whichever is longer, and twice that under jitter): the cap never speeds a slow job up, no back-off
  exceeds it, and the clock never passes a due job.
\<close>

theorem jobs_never_overdue:
  assumes "unstarted s0"
  shows "let s = sched_run es (start_scheduler s0) in
    list_all (\<lambda>(n, j). sd_virtualNow s \<le> sj_nextRunAt j
      \<and> sj_nextRunAt j \<le> sd_virtualNow s + longest (sd_opts s) (sj_spec j)) (sd_jobs s)"
proof -
  define s where "s = sched_run es (start_scheduler s0)"
  have l: "live s" unfolding s_def by (rule live_run [OF assms])
  have "sd_virtualNow s \<le> sj_nextRunAt j \<and> sj_nextRunAt j \<le> sd_virtualNow s + longest (sd_opts s) (sj_spec j)"
    if "(n, j) \<in> set (sd_jobs s)" for n j
    using l that by (auto simp: live_def on_time_def dest: map_of_is_SomeI)
  then show ?thesis by (auto simp: Let_def s_def [symmetric] list_all_iff)
qed

text \<open>
  C22: a started scheduler that was not stopped and has a job never goes idle. Its timer
  is armed; when it fires the clock stands exactly at the soonest due time, something is due, and
  afterwards every job is due strictly later, so the next delay is at least a millisecond.
\<close>

theorem timer_leads_to_work:
  assumes "unstarted s0" "s = sched_run es (start_scheduler s0)" "\<not> sd_stopped s" "sd_jobs s \<noteq> []"
  shows "\<exists>d s'. sd_timer s = Some d \<and> sched_step Fire s = Some s' \<and> sd_virtualNow s' = soonest s
    \<and> selectDue (s\<lparr>sd_virtualNow := sd_virtualNow s + d\<rparr>) \<noteq> []
    \<and> list_all (\<lambda>(n, j). sd_virtualNow s' < sj_nextRunAt j) (sd_jobs s')"
proof -
  have l: "live s" unfolding assms(2) by (rule live_run [OF assms(1)])
  then obtain d where d: "sd_timer s = Some d" using assms(3,4) by (auto simp: live_def armed_def)
  have t: "live (tick_to d s)" "on_time 1 (tick_to d s)" "sd_virtualNow (tick_to d s) = soonest s"
    using live_tick [OF l d] by auto
  have "sd_virtualNow (tick_to d s) < sj_nextRunAt j" if "(n, j) \<in> set (sd_jobs (tick_to d s))" for n j
  proof -
    have "map_of (sd_jobs (tick_to d s)) n = Some j" using t(1) that by (simp add: live_def)
    then show ?thesis using t(2) by (force simp: on_time_def)
  qed
  then have "list_all (\<lambda>(n, j). sd_virtualNow (tick_to d s) < sj_nextRunAt j) (sd_jobs (tick_to d s))"
    by (auto simp: list_all_iff)
  then show ?thesis using d t fired(4) [OF l d] by auto
qed

subsection \<open>One run at a time\<close>

definition flying :: "scheduler \<Rightarrow> str \<Rightarrow> bool option" where
  "flying s n = map_option sj_inFlight (map_of (sd_jobs s) n)"

lemma flying_set: "flying (set_job n (\<lambda>j. j\<lparr>sj_inFlight := b\<rparr>) s) = (flying s)(n := map_option (\<lambda>_. b) (flying s n))"
  by (auto simp: flying_def fun_eq_iff jobs_set_job option.map_comp comp_def)

text \<open>A step that is no run.\<close>

definition unflown :: "scheduler \<Rightarrow> scheduler \<Rightarrow> bool" where
  "unflown s s' \<longleftrightarrow> run_notes s' = run_notes s \<and> flying s' = flying s"

lemma unflown_trans: "unflown s s1 \<Longrightarrow> unflown s1 s2 \<Longrightarrow> unflown s s2" by (simp add: unflown_def)

lemma unflown_quiet: "quiet s s' \<Longrightarrow> unflown s s'"
  by (simp add: quiet_def unflown_def flying_def fun_eq_iff)

lemma unflown_set_job: "(\<And>j. sj_inFlight (f j) = sj_inFlight j) \<Longrightarrow> unflown s (set_job n f s)"
  by (auto simp: unflown_def flying_def fun_eq_iff jobs_set_job option.map_comp comp_def)

lemma unflown_arm: "unflown s (arm s)"
  by (simp add: unflown_def flying_def fun_eq_iff arm_def Let_def run_notes_def)

lemma unflown_next: "unflown s (schedule_next n s)"
proof -
  obtain d s1 where d: "effInterval (job_of s n) s = (d, s1)" by (cases "effInterval (job_of s n) s")
  have 1: "unflown s s1" using unflown_quiet [OF quiet_effInterval [of s "job_of s n"]] d by simp
  have 2: "unflown s1 (set_job n (\<lambda>j. j\<lparr>sj_nextRunAt := sd_virtualNow s1 + d\<rparr>) s1)" by (rule unflown_set_job) simp
  show ?thesis using unflown_trans [OF 1 2] d by (simp add: schedule_next_def)
qed

lemma unflown_after_run: "(\<And>j. sj_inFlight (f j) = sj_inFlight j) \<Longrightarrow> unflown s (after_run n f s)"
  unfolding after_run_def by (rule unflown_trans [OF unflown_trans [OF unflown_set_job unflown_next] unflown_arm])

lemma tell_notes:
  "run_notes (tell (Ran n) s) = run_notes s @ [Ran n]" "run_notes (tell (Settled n ok) s) = run_notes s @ [Settled n ok]"
  "run_notes (tell (Skipped n k) s) = run_notes s" "flying (tell x s) = flying s"
  by (simp_all add: run_notes_def tell_def flying_def fun_eq_iff)

lemma onSuccess_notes: "run_notes (onSuccess n s) = run_notes s @ [Settled n True] \<and> flying (onSuccess n s) = flying s"
proof -
  have "unflown (tell (Settled n True) s) (onSuccess n s)"
    by (rule unflown_trans [OF unflown_after_run unflown_quiet [OF onSuccess_shape]]) simp
  then show ?thesis by (simp add: unflown_def tell_notes)
qed

lemma onFailure_notes: "run_notes (onFailure n s) = run_notes s @ [Settled n False] \<and> flying (onFailure n s) = flying s"
proof -
  obtain s2 where s2: "quiet (after_run n (\<lambda>j. j\<lparr>sj_consecutiveFailures := Suc (sj_consecutiveFailures j)\<rparr>) s) s2"
      "onFailure n s = tell (Settled n False) s2" using onFailure_shape by blast
  have "unflown s s2" by (rule unflown_trans [OF unflown_after_run unflown_quiet [OF s2(1)]]) simp
  then show ?thesis by (simp add: s2(2) unflown_def tell_notes)
qed

lemma run_notes_of_run:
  "(\<exists>ok. run_notes (run_sched_job n s) = run_notes s @ [Ran n, Settled n ok] \<and> flying (run_sched_job n s) = flying s)
   \<or> run_notes (run_sched_job n s) = run_notes s @ [Ran n]
     \<and> flying (run_sched_job n s) = (flying s)(n := map_option (\<lambda>_. True) (flying s n))"
proof -
  define s2 where "s2 = (let s1 = persistRunStart n (tell (Ran n) s) in s1\<lparr>sd_ran := Suc (sd_ran s1)\<rparr>)"
  have "unflown (tell (Ran n) s) (persistRunStart n (tell (Ran n) s))"
    by (rule unflown_quiet [OF quiet_persistRunStart])
  moreover have "run_notes s2 = run_notes (persistRunStart n (tell (Ran n) s))" "flying s2 = flying (persistRunStart n (tell (Ran n) s))"
    by (simp_all add: s2_def Let_def run_notes_def flying_def fun_eq_iff)
  ultimately have s2: "run_notes s2 = run_notes s @ [Ran n]" "flying s2 = flying s"
    by (simp_all add: unflown_def tell_notes)
  have "flying (set_job n (\<lambda>j. j\<lparr>sj_inFlight := True\<rparr>) s2) = (flying s)(n := map_option (\<lambda>_. True) (flying s n))"
    by (simp add: flying_set s2(2))
  then show ?thesis
    using onSuccess_notes [of n s2] onFailure_notes [of n s2] s2
    by (auto simp: run_sched_job_def Let_def s2_def [unfolded Let_def, symmetric] split: run_kind.split)
qed

text \<open>Runs begun and runs ended of a job.\<close>

definition begun :: "str \<Rightarrow> scheduler \<Rightarrow> nat" where
  "begun n s = length (filter (\<lambda>x. x = Ran n) (run_notes s))"

definition ended :: "str \<Rightarrow> scheduler \<Rightarrow> nat" where
  "ended n s = length (filter (\<lambda>x. x = Settled n True \<or> x = Settled n False) (run_notes s))"

definition balanced :: "scheduler \<Rightarrow> bool" where
  "balanced s \<longleftrightarrow> (\<forall>n b. flying s n = Some b \<longrightarrow> begun n s = ended n s + (if b then 1 else 0))"

lemma balanced_unflown: "unflown s s' \<Longrightarrow> balanced s \<Longrightarrow> balanced s'"
proof -
  assume u: "unflown s s'" and b: "balanced s"
  have "begun n s' = begun n s" "ended n s' = ended n s" for n
    using u by (simp_all add: unflown_def begun_def ended_def)
  then show "balanced s'" using u b by (simp add: balanced_def unflown_def)
qed

lemma balanced_run:
  assumes "balanced s" "flying s n \<noteq> Some True" shows "balanced (run_sched_job n s)"
  using run_notes_of_run [of n s]
proof (elim disjE exE conjE)
  fix ok assume "run_notes (run_sched_job n s) = run_notes s @ [Ran n, Settled n ok]" "flying (run_sched_job n s) = flying s"
  then show ?thesis using assms(1) by (cases ok) (auto simp: balanced_def begun_def ended_def split: option.splits)
next
  assume "run_notes (run_sched_job n s) = run_notes s @ [Ran n]"
    "flying (run_sched_job n s) = (flying s)(n := map_option (\<lambda>_. True) (flying s n))"
  then show ?thesis using assms by (auto simp: balanced_def begun_def ended_def split: option.splits)
qed

lemma job_flying: "flying s n = Some b \<Longrightarrow> sj_inFlight (job_of s n) = b"
  by (auto simp: flying_def job_of_def)

lemma balanced_dispatch:
  assumes "balanced s" shows "balanced (dispatch_due n s)"
proof (cases "sj_inFlight (job_of s n)")
  case True
  let ?s1 = "set_job n (\<lambda>j. j\<lparr>sj_skipped := Suc (sj_skipped j)\<rparr>) s"
  have "unflown s ?s1" by (rule unflown_set_job) simp
  moreover have "unflown ?s1 (tell (Skipped n k) ?s1)" for k by (simp add: unflown_def tell_notes)
  ultimately have "unflown s (dispatch_due n s)"
    using True unflown_trans [OF unflown_trans unflown_next] by (simp add: dispatch_due_def Let_def)
  then show ?thesis using assms balanced_unflown by blast
next
  case False
  then have "flying s n \<noteq> Some True" using job_flying by blast
  then have "flying (schedule_next n s) n \<noteq> Some True" using unflown_next [of s n] by (simp add: unflown_def)
  then show ?thesis
    using False balanced_run [OF balanced_unflown [OF unflown_next assms]] by (simp add: dispatch_due_def)
qed

lemma balanced_fold: "(\<And>n s. balanced s \<Longrightarrow> balanced (f n s)) \<Longrightarrow> balanced s \<Longrightarrow> balanced (fold f ns s)"
  by (induction ns arbitrary: s) auto

lemma balanced_tick: "balanced s \<Longrightarrow> balanced (tick_to d s)"
proof -
  assume s: "balanced s"
  define s1 where "s1 = s\<lparr>sd_virtualNow := sd_virtualNow s + d\<rparr>"
  obtain over s2 where ov: "over_budget (selectDue s1) s1 = (over, s2)" by (cases "over_budget (selectDue s1) s1")
  have "quiet s1 s2"
    using ov quiet_oracles(3) [of s1] by (auto simp: over_budget_def split: option.splits if_splits prod.splits)
  moreover have "unflown s s1" by (simp add: s1_def unflown_def flying_def fun_eq_iff run_notes_def)
  ultimately have s2: "balanced s2" using s balanced_unflown unflown_quiet by blast
  have "balanced (fold defer_job ns s2)" for ns
  proof (rule balanced_fold [OF _ s2])
    fix n u assume "balanced u"
    moreover have "unflown u (defer_job n u)" unfolding defer_job_def by (rule unflown_set_job) simp
    ultimately show "balanced (defer_job n u)" using balanced_unflown by blast
  qed
  then show ?thesis
    using s ov balanced_fold [of dispatch_due, OF balanced_dispatch s2] balanced_unflown [OF unflown_arm]
    by (simp add: tick_to_def Let_def s1_def [symmetric])
qed

lemma balanced_step:
  assumes "balanced s" "sched_step e s = Some s'" shows "balanced s'"
proof (cases e)
  case Fire
  then show ?thesis using assms balanced_tick by (auto split: option.splits)
next
  case (Settle n ok)
  then have s': "s' = settle_job n ok s" "flying s n = Some True"
    using assms(2) by (auto simp: flying_def split: option.splits if_splits)
  have "run_notes s' = run_notes s @ [Settled n ok]"
    using onSuccess_notes [of n s] onFailure_notes [of n s] by (cases ok) (simp_all add: s' settle_job_def)
  moreover have "flying s' = (flying s)(n := Some False)"
  proof -
    have "flying (if ok then onSuccess n s else onFailure n s) = flying s"
      using onSuccess_notes [of n s] onFailure_notes [of n s] by simp
    then show ?thesis
      using s'(2) unfolding s'(1) settle_job_def by (simp add: flying_set)
  qed
  ultimately show ?thesis using assms(1) s'(2) by (cases ok) (auto simp: balanced_def begun_def ended_def split: option.splits)
next
  case Stop
  have "unflown s (stop_scheduler s)" by (simp add: stop_scheduler_def unflown_def flying_def fun_eq_iff run_notes_def)
  then show ?thesis using balanced_unflown assms Stop by auto
qed

lemma unflown_seed: "unflown s (snd (seedNextRun n s))"
proof -
  obtain failed s2 where 2: "sql s = (failed, s2)" by (cases "sql s")
  have u2: "unflown s s2" using unflown_quiet [OF quiet_oracles(4) [of s]] 2 by simp
  have report: "unflown s (reportPersistError op n s2)" for op by (rule unflown_trans [OF u2 unflown_quiet [OF quiet_report(1)]])
  have row: "unflown s (set_job n (\<lambda>j. j\<lparr>sj_consecutiveFailures := k\<rparr>) s2)" for k
    by (rule unflown_trans [OF u2 unflown_set_job]) simp
  have time: "unflown s (snd (wall_now (set_job n (\<lambda>j. j\<lparr>sj_consecutiveFailures := k\<rparr>) s2)))" for k
    by (rule unflown_trans [OF row unflown_quiet [OF quiet_oracles(1)]])
  have "unflown s s" by (simp add: unflown_def)
  then show ?thesis
    using 2 u2 report row time
    by (auto simp: seedNextRun_def Let_def split_beta split: option.split)
qed

lemma unflown_start_job: "unflown s (start_job n s)"
proof -
  obtain r s1 where sd: "seedNextRun n s = (r, s1)" by (cases "seedNextRun n s")
  have 1: "unflown s s1" using unflown_seed [of s n] sd by simp
  have 2: "unflown s1 (set_job n (\<lambda>j. j\<lparr>sj_nextRunAt := t\<rparr>) s1)" for t by (rule unflown_set_job) simp
  show ?thesis
    using unflown_trans [OF 1 2] unflown_trans [OF 1 unflown_next] sd by (cases r) (simp_all add: start_job_def)
qed

lemma unflown_start: "unflown s (start_scheduler s)"
proof -
  have fold: "unflown s0 (fold start_job ns s0)" for ns s0
  proof (induction ns arbitrary: s0)
    case (Cons n ns)
    show ?case using unflown_trans [OF unflown_start_job Cons.IH] by simp
  qed (simp add: unflown_def)
  have "unflown s (s\<lparr>sd_started := True\<rparr>)" by (simp add: unflown_def flying_def fun_eq_iff run_notes_def)
  then have "unflown s (arm (fold start_job (map fst (sd_jobs s)) (s\<lparr>sd_started := True\<rparr>)))"
    by (rule unflown_trans [OF unflown_trans [OF _ fold] unflown_arm])
  then show ?thesis by (simp add: start_scheduler_def unflown_def)
qed

text \<open>
  C23: no job runs twice at once. In every state a scheduler reaches, the runs of a job that
  were begun are those that ended, plus one exactly while its promise is pending, for any outcomes of
  the run bodies, any failures of the database and any order of events.
\<close>

theorem single_flight:
  assumes "sd_log s0 = []" "list_all (\<lambda>(n, j). \<not> sj_inFlight j) (sd_jobs s0)"
    "map_of (sd_jobs (sched_run es (start_scheduler s0))) n = Some j"
  shows "begun n (sched_run es (start_scheduler s0)) =
    ended n (sched_run es (start_scheduler s0)) + (if sj_inFlight j then 1 else 0)"
proof -
  have "balanced s0"
    using assms(1,2) by (auto simp: balanced_def flying_def begun_def ended_def run_notes_def list_all_iff
        dest!: map_of_SomeD)
  then have "balanced (start_scheduler s0)" by (rule balanced_unflown [OF unflown_start])
  then have "balanced (sched_run es (start_scheduler s0))"
    by (rule sched_run_keeps [where P = balanced, rotated]) (rule balanced_step)
  then show ?thesis using assms(3) by (simp add: balanced_def flying_def)
qed

subsection \<open>After a stop\<close>

definition runs_of :: "scheduler \<Rightarrow> sched_note list" where
  "runs_of s = filter (\<lambda>x. case x of Ran _ \<Rightarrow> True | _ \<Rightarrow> False) (run_notes s)"

lemma stopped_step:
  assumes "sd_stopped s \<and> sd_timer s = None \<and> runs_of s = rs" "sched_step e s = Some s'"
  shows "sd_stopped s' \<and> sd_timer s' = None \<and> runs_of s' = rs"
proof (cases e)
  case (Settle n ok)
  then have s': "s' = settle_job n ok s" using assms(2) by (auto split: option.splits if_splits)
  have stop: "sd_stopped (schedule_next n s1) = sd_stopped s1" for s1
    using quiet_effInterval [of s1 "job_of s1 n"] by (simp add: schedule_next_def split_beta quiet_def)
  have armed: "sd_stopped s1 \<Longrightarrow> sd_stopped (after_run n f s1) \<and> sd_timer (after_run n f s1) = None" for f s1
    by (simp add: after_run_def arm_def Let_def stop)
  have "sd_stopped (onSuccess n s) \<and> sd_timer (onSuccess n s) = None"
    using armed [of "tell (Settled n True) s"] onSuccess_shape [of n s] assms(1) by (simp add: quiet_def tell_def)
  moreover have "sd_stopped (onFailure n s) \<and> sd_timer (onFailure n s) = None"
  proof -
    obtain s2 where "quiet (after_run n (\<lambda>j. j\<lparr>sj_consecutiveFailures := Suc (sj_consecutiveFailures j)\<rparr>) s) s2"
        "onFailure n s = tell (Settled n False) s2" using onFailure_shape by blast
    then show ?thesis using armed [of s] assms(1) by (simp add: quiet_def tell_def)
  qed
  ultimately show ?thesis
    using assms(1) onSuccess_notes [of n s] onFailure_notes [of n s] by (cases ok) (simp_all add: s' settle_job_def runs_of_def)
qed (use assms in \<open>auto simp: stop_scheduler_def\<close>)

text \<open>
  Once a started scheduler is stopped, its timer is gone for good and no job is
  ever run again, whatever still settles.
\<close>

theorem stopped_never_runs:
  assumes "unstarted s0" "s = sched_run (es @ [Stop]) (start_scheduler s0)"
  shows "sd_timer (sched_run fs s) = None
    \<and> runs_of (sched_run fs s) = runs_of s"
proof -
  have "s = stop_scheduler (sched_run es (start_scheduler s0))" by (simp add: assms(2) sched_run_append)
  then have "sd_stopped s \<and> sd_timer s = None"
    using live_run [OF assms(1), of es] by (auto simp: stop_scheduler_def live_def armed_def)
  then have "sd_stopped s \<and> sd_timer s = None
      \<and> runs_of s = runs_of s" by simp
  from sched_run_keeps [where P = "\<lambda>s'. sd_stopped s' \<and> sd_timer s' = None
      \<and> runs_of s' = runs_of s", OF stopped_step this]
  show ?thesis by simp
qed

subsection \<open>The database only records\<close>

text \<open>Two schedulers alike but for their databases, and for what is told of its failures.\<close>

definition alike :: "scheduler \<Rightarrow> scheduler \<Rightarrow> bool" where
  "alike s t \<longleftrightarrow> sd_opts t = sd_opts s \<and> sd_jobs t = sd_jobs s \<and> sd_timer t = sd_timer s
     \<and> sd_virtualNow t = sd_virtualNow s \<and> sd_started t = sd_started s \<and> sd_stopped t = sd_stopped s
     \<and> run_notes t = run_notes s \<and> sd_clock t = sd_clock s \<and> sd_clocked t = sd_clocked s
     \<and> sd_random t = sd_random s \<and> sd_drawn t = sd_drawn s \<and> sd_loop t = sd_loop s \<and> sd_probed t = sd_probed s
     \<and> sd_runs t = sd_runs s \<and> sd_ran t = sd_ran s"

lemma alike_refl [simp]: "alike s s" by (simp add: alike_def)

text \<open>A write of a durable row is invisible.\<close>

lemma alike_row:
  "alike s (snd (sql s))" "alike s (reportPersistError op n s)" "alike s (clearPersistError op n s)" "alike s (upsert n f s)"
  by (simp_all add: alike_def sql_def reportPersistError_def clearPersistError_def upsert_def tell_def run_notes_def)

lemma alike_trans: "alike s t \<Longrightarrow> alike t u \<Longrightarrow> alike s u" by (simp add: alike_def)

lemma alike_sym: "alike s t \<Longrightarrow> alike t s" by (simp add: alike_def)

lemma alike_persist: "alike s (persist n f s)"
proof -
  obtain b s1 where 1: "sql s = (b, s1)" by (cases "sql s")
  have a: "alike s s1" using alike_row(1) [of s] 1 by simp
  have "alike s (reportPersistError Persist_outcome n s1)" "alike s (clearPersistError Persist_outcome n (upsert n f s1))"
    by (rule alike_trans [OF a alike_row(2)], rule alike_trans [OF alike_trans [OF a alike_row(4)] alike_row(3)])
  then show ?thesis using 1 by (simp add: persist_def)
qed

lemma alike_pair:
  assumes "alike s t"
  shows "fst (wall_now t) = fst (wall_now s)" "alike (snd (wall_now s)) (snd (wall_now t))"
    "fst (probe_loop t) = fst (probe_loop s)" "alike (snd (probe_loop s)) (snd (probe_loop t))"
    "fst (effInterval j t) = fst (effInterval j s)" "alike (snd (effInterval j s)) (snd (effInterval j t))"
    "job_of t n = job_of s n" "alike (set_job n f s) (set_job n f t)" "alike (arm s) (arm t)" "selectDue t = selectDue s"
    "alike (tell x s) (tell x t)"
  using assms
  by (simp_all add: alike_def wall_now_def probe_loop_def effInterval_def draw_def Let_def split_beta job_of_def
      set_job_def arm_def soonest_def selectDue_def tell_def run_notes_def)

lemma alike_next: "alike s t \<Longrightarrow> alike (schedule_next n s) (schedule_next n t)"
proof -
  assume a: "alike s t"
  have v: "sd_virtualNow (snd (effInterval j t)) = sd_virtualNow (snd (effInterval j s))" for j
    using alike_pair(6) [OF a, of j] by (simp add: alike_def)
  show ?thesis
    using alike_pair(5) [OF a] alike_pair(7) [OF a] v alike_pair(8) [OF alike_pair(6) [OF a]]
    by (simp add: schedule_next_def split_beta)
qed

lemma alike_after: "alike s t \<Longrightarrow> alike (after_run n f s) (after_run n f t)"
  unfolding after_run_def by (intro alike_pair(9) alike_next alike_pair(8))

text \<open>The clock reading and the interval of a durable row are taken whether or not it is written.\<close>

lemma alike_timed:
  assumes "alike s t" "\<And>a d u. alike u (g a d u)" "\<And>a d u. alike u (h a d u)"
  shows "alike (case wall_now s of (a, s2) \<Rightarrow> case effInterval (job_of s2 n) s2 of (d, s3) \<Rightarrow> g a d s3)
    (case wall_now t of (a, t2) \<Rightarrow> case effInterval (job_of t2 n) t2 of (d, t3) \<Rightarrow> h a d t3)"
proof -
  let ?s = "snd (wall_now s)" and ?t = "snd (wall_now t)"
  have 1: "alike ?s ?t" using alike_pair(2) [OF assms(1)] .
  have 2: "alike (snd (effInterval (job_of ?s n) ?s)) (snd (effInterval (job_of ?t n) ?t))"
    using alike_pair(6) [OF 1, of "job_of ?s n"] alike_pair(7) [OF 1] by simp
  show ?thesis
    unfolding split_beta
    using 2 assms(2) [THEN alike_sym] assms(3) by (meson alike_trans)
qed

lemma alike_onSuccess: "alike s t \<Longrightarrow> alike (onSuccess n s) (onSuccess n t)"
proof -
  assume a: "alike s t"
  have b: "alike (after_run n f (tell x s)) (after_run n f (tell x t))" for f x
    by (intro alike_after alike_pair(11) a)
  then have "so_db (sd_opts (after_run n f (tell x t))) = so_db (sd_opts (after_run n f (tell x s)))" for f x
    by (simp add: alike_def)
  then show ?thesis
    unfolding onSuccess_def after_run_def [symmetric] Let_def
    by (auto intro: b alike_timed alike_persist)
qed

lemma alike_onFailure: "alike s t \<Longrightarrow> alike (onFailure n s) (onFailure n t)"
proof -
  assume a: "alike s t"
  have b: "alike (after_run n f s) (after_run n f t)" for f by (rule alike_after [OF a])
  then have "so_db (sd_opts (after_run n f t)) = so_db (sd_opts (after_run n f s))" for f by (simp add: alike_def)
  then show ?thesis
    unfolding onFailure_def after_run_def [symmetric] Let_def
    by (auto intro!: alike_pair(11) intro: b alike_timed alike_persist)
qed

lemma alike_runStart: "alike s t \<Longrightarrow> alike (persistRunStart n s) (persistRunStart n t)"
proof -
  assume a: "alike s t"
  have w: "alike u (case sql u of (failed, v) \<Rightarrow> if failed then reportPersistError Persist_run_start n v
      else clearPersistError Persist_run_start n (upsert n f v))" for u f
  proof -
    obtain b v where v: "sql u = (b, v)" by (cases "sql u")
    have "alike u v" using alike_row(1) [of u] v by simp
    then have "alike u (reportPersistError Persist_run_start n v)" "alike u (clearPersistError Persist_run_start n (upsert n f v))"
      by (rule alike_trans [OF _ alike_row(2)], rule alike_trans [OF alike_trans [OF _ alike_row(4)] alike_row(3)])
    then show ?thesis using v by simp
  qed
  have "so_db (sd_opts t) = so_db (sd_opts s)" using a by (simp add: alike_def)
  then show ?thesis unfolding persistRunStart_def using a by (auto intro: alike_timed w)
qed

lemma alike_run: "alike s t \<Longrightarrow> alike (run_sched_job n s) (run_sched_job n t)"
proof -
  assume a: "alike s t"
  let ?s = "persistRunStart n (tell (Ran n) s)" and ?t = "persistRunStart n (tell (Ran n) t)"
  have 1: "alike ?s ?t" by (rule alike_runStart [OF alike_pair(11) [OF a]])
  then have 2: "alike (?s\<lparr>sd_ran := Suc (sd_ran ?s)\<rparr>) (?t\<lparr>sd_ran := Suc (sd_ran ?t)\<rparr>)"
    by (simp add: alike_def run_notes_def)
  have "sd_runs ?t (sd_ran ?t) = sd_runs ?s (sd_ran ?s)" using 1 by (simp add: alike_def)
  then show ?thesis
    unfolding run_sched_job_def Let_def
    using alike_onSuccess [OF 2] alike_onFailure [OF 2] alike_pair(8) [OF 2] by (simp split: run_kind.split)
qed

lemma alike_dispatch: "alike s t \<Longrightarrow> alike (dispatch_due n s) (dispatch_due n t)"
proof -
  assume a: "alike s t"
  have 1: "alike (set_job n f s) (set_job n f t)" for f by (rule alike_pair(8) [OF a])
  show ?thesis
    unfolding dispatch_due_def Let_def alike_pair(7) [OF a] alike_pair(7) [OF 1]
    by (auto intro!: alike_next alike_pair(11) 1 alike_run a)
qed

lemma alike_tick: "alike s t \<Longrightarrow> alike (tick_to d s) (tick_to d t)"
proof -
  assume a: "alike s t"
  define s1 t1 where "s1 = s\<lparr>sd_virtualNow := sd_virtualNow s + d\<rparr>" and "t1 = t\<lparr>sd_virtualNow := sd_virtualNow t + d\<rparr>"
  have 1: "alike s1 t1" using a by (simp add: alike_def s1_def t1_def run_notes_def)
  have due: "selectDue t1 = selectDue s1" by (rule alike_pair(10) [OF 1])
  have ov: "fst (over_budget ns t1) = fst (over_budget ns s1)" "alike (snd (over_budget ns s1)) (snd (over_budget ns t1))" for ns
    using 1 alike_pair(3,4) [OF 1] by (auto simp: over_budget_def alike_def split_beta split: option.split)
  have fold: "alike (fold f ns u) (fold f ns v)" if "\<And>n u v. alike u v \<Longrightarrow> alike (f n u) (f n v)" "alike u v"
    for f :: "str \<Rightarrow> scheduler \<Rightarrow> scheduler" and ns u v
    using that(2) by (induction ns arbitrary: u v) (auto intro: that(1))
  have put_off: "alike (defer_job n u) (defer_job n v)" if "alike u v" for n u v
    using alike_pair(8) [OF that] that by (simp add: defer_job_def alike_def)
  have "sd_stopped t = sd_stopped s" using a by (simp add: alike_def)
  then show ?thesis
    unfolding tick_to_def Let_def s1_def [symmetric] t1_def [symmetric] due split_beta ov(1)
    using a by (auto intro!: alike_pair(9) fold put_off alike_dispatch ov(2))
qed

lemma alike_step:
  "alike s t \<Longrightarrow> alike (case sched_step e s of None \<Rightarrow> s | Some s' \<Rightarrow> s') (case sched_step e t of None \<Rightarrow> t | Some t' \<Rightarrow> t')"
proof (cases e)
  case Fire
  assume a: "alike s t"
  then have "sd_timer t = sd_timer s" by (simp add: alike_def)
  then show ?thesis using Fire a by (auto intro: alike_tick split: option.split)
next
  case (Settle n ok)
  assume a: "alike s t"
  then have "sd_jobs t = sd_jobs s" by (simp add: alike_def)
  then show ?thesis
    using Settle a by (auto simp: settle_job_def intro!: alike_pair(8) alike_onSuccess alike_onFailure split: option.split)
next
  case Stop
  assume a: "alike s t"
  then show ?thesis using Stop by (auto simp: stop_scheduler_def alike_def run_notes_def)
qed

text \<open>
  Durable rows are best effort. Whatever is in the table, whichever statements
  fail and whatever was reported before, a started scheduler runs the same jobs in the same order at
  the same times.
\<close>

theorem database_only_records:
  "let s' = sched_run es s;
       t' = sched_run es (s\<lparr>sd_table := rows, sd_fault := faults, sd_stmts := k, sd_persistErrorSeen := seen\<rparr>) in
   sd_jobs t' = sd_jobs s' \<and> sd_timer t' = sd_timer s' \<and> sd_virtualNow t' = sd_virtualNow s'
   \<and> run_notes t' = run_notes s'"
proof -
  have "alike (sched_run es u) (sched_run es v)" if "alike u v" for u v
    using that by (induction es arbitrary: u v) (auto intro: alike_step)
  from this [of s "s\<lparr>sd_table := rows, sd_fault := faults, sd_stmts := k, sd_persistErrorSeen := seen\<rparr>"]
  have "alike (sched_run es s) (sched_run es (s\<lparr>sd_table := rows, sd_fault := faults, sd_stmts := k, sd_persistErrorSeen := seen\<rparr>))"
    by (simp add: alike_def run_notes_def)
  then show ?thesis by (simp add: alike_def Let_def)
qed

subsection \<open>A run\<close>

text \<open>
  Two jobs, one asynchronous with jitter; the second SQL statement fails, and the third look at the
  event loop finds it over its budget.
\<close>

definition demo_sched_jobs :: "job_spec list" where
  "demo_sched_jobs = [\<lparr>js_name = ''queue'', js_intervalMs = 1000, js_priority = 0, js_jitterRatio = 0\<rparr>,
     \<lparr>js_name = ''plane'', js_intervalMs = 1500, js_priority = 1, js_jitterRatio = 1 / 2\<rparr>]"

definition demo_sched :: scheduler where
  "demo_sched = \<lparr>sd_opts = default_sched_options\<lparr>so_db := True, so_eventLoopDeferMs := Some 100, so_loopDelay := True\<rparr>,
     sd_jobs = map (\<lambda>spec. (js_name spec, fresh_job spec)) demo_sched_jobs,
     sd_timer = None, sd_virtualNow = 0, sd_started = False, sd_stopped = False, sd_persistErrorSeen = [], sd_table = [],
     sd_log = [], sd_clock = \<lambda>i. 1000000 + int i, sd_clocked = 0, sd_random = \<lambda>_. 3 / 4, sd_drawn = 0,
     sd_loop = \<lambda>i. if i = 2 then 101 else 5, sd_probed = 0, sd_fault = \<lambda>i. i = 1, sd_stmts = 0,
     sd_runs = \<lambda>i. if i = 0 then Promised else if i = 1 then Threw else Returned, sd_ran = 0\<rparr>"

lemma demo_unstarted: "unstarted demo_sched"
  by (auto simp: unstarted_def fine_def seeds_ok_def demo_sched_def demo_sched_jobs_def default_sched_options_def
      default_max_backoff_ms_def default_deferral_recheck_ms_def fresh_job_def spec_ok_def split: if_splits)

lemma jobs_never_overdue_witness:
  "(let s = sched_run [Fire, Fire, Fire] (start_scheduler demo_sched) in
     list_all (\<lambda>(n, j). sd_virtualNow s \<le> sj_nextRunAt j
       \<and> sj_nextRunAt j \<le> sd_virtualNow s + longest (sd_opts s) (sj_spec j)) (sd_jobs s))
   \<and> map (\<lambda>(n, j). (n, sj_nextRunAt j)) (sd_jobs (sched_run [Fire, Fire, Fire] (start_scheduler demo_sched)))
     = [(''queue'', 2250), (''plane'', 5625)]"
  using jobs_never_overdue [OF demo_unstarted, of "[Fire, Fire, Fire]"] by (rule conjI) code_simp

lemma timer_leads_to_work_witness:
  "sd_timer (sched_run [Fire, Settle ''queue'' True] (start_scheduler demo_sched)) = Some 875
   \<and> (\<exists>s'. sched_step Fire (sched_run [Fire, Settle ''queue'' True] (start_scheduler demo_sched)) = Some s'
     \<and> sd_virtualNow s' = 1875 \<and> list_all (\<lambda>(n, j). 1875 < sj_nextRunAt j) (sd_jobs s'))"
proof -
  let ?s = "sched_run [Fire, Settle ''queue'' True] (start_scheduler demo_sched)"
  have s: "\<not> sd_stopped ?s" "sd_jobs ?s \<noteq> []" "sd_timer ?s = Some 875" "soonest ?s = 1875" by code_simp+
  show ?thesis using timer_leads_to_work [OF demo_unstarted refl s(1,2)] s(3,4) by auto
qed

lemma single_flight_witness:
  "begun ''queue'' (sched_run [Fire, Fire, Fire, Fire] (start_scheduler demo_sched)) = 1
   \<and> ended ''queue'' (sched_run [Fire, Fire, Fire, Fire] (start_scheduler demo_sched)) = 0
   \<and> map (\<lambda>(_, n, _, _). n) (stats (sched_run [Fire, Fire, Fire, Fire] (start_scheduler demo_sched))) \<noteq> []"
proof -
  let ?s = "sched_run [Fire, Fire, Fire, Fire] (start_scheduler demo_sched)"
  have init: "sd_log demo_sched = []" "list_all (\<lambda>(n, j). \<not> sj_inFlight j) (sd_jobs demo_sched)"
    by (simp_all add: demo_sched_def demo_sched_jobs_def fresh_job_def)
  have res: "begun ''queue'' ?s = 1" "map_option sj_inFlight (map_of (sd_jobs ?s) ''queue'') = Some True" "stats ?s \<noteq> []"
    by code_simp+
  then obtain j where j: "map_of (sd_jobs ?s) ''queue'' = Some j" "sj_inFlight j" by auto
  show ?thesis using single_flight [OF init j(1)] j(2) res(1,3) by simp
qed

lemma stopped_never_runs_witness:
  "(let s = sched_run ([Fire] @ [Stop]) (start_scheduler demo_sched) in
     sd_timer (sched_run [Settle ''queue'' True, Fire] s) = None
     \<and> runs_of (sched_run [Settle ''queue'' True, Fire] s)
       = runs_of s)
   \<and> run_notes (sched_run ([Fire] @ [Stop] @ [Settle ''queue'' True, Fire]) (start_scheduler demo_sched))
     = [Ran ''queue'', Settled ''queue'' True]"
  unfolding Let_def using stopped_never_runs [OF demo_unstarted refl] by (intro conjI) (blast, blast, code_simp)

text \<open>
  A run that settles restarts the timer with the whole remaining delay: the clock of the scheduler does
  not count the time since the timer was armed, so every other job is put off by as much.
\<close>

lemma settling_restarts_the_delay:
  "sd_timer (sched_run [Fire] (start_scheduler demo_sched)) = Some 875
   \<and> sd_timer (sched_run [Fire, Settle ''queue'' True] (start_scheduler demo_sched)) = Some 875
   \<and> sd_virtualNow (sched_run [Fire, Settle ''queue'' True] (start_scheduler demo_sched))
     = sd_virtualNow (sched_run [Fire] (start_scheduler demo_sched))"
  by code_simp

end
