(* ===== verification/Index_Coordinator.thy ===== *)
theory Index_Coordinator
  imports Tc_Prelude "HOL-Library.AList"
begin

text \<open>
  The coordinator of index writes, \<open>packages/server/src/search/index-coordinator.ts\<close>: operations on one note
  run one after the other, a pending one is replaced by a newer one, and two levels of semaphores bound
  how many notes are indexed at once.

  Every submission starts a promise (\<open>drain\<close>) chained behind the promise of the note's last one. The
  events are the places where JavaScript may switch: a submission, a promise whose predecessor has settled
  takes its turn, an awaited permit arrives, a handler ends, the \<open>finally\<close> of a settled promise runs,
  and \<open>cancelOrigin\<close>. They may come in any order in which they are possible, which includes every order
  of the microtask queue. A drain is named by its place in \<open>ic_drains\<close>, which is also the number of its
  submission; \<open>dr_asked\<close>, the numbers beside operations and \<open>ic_log\<close> are history that no code reads.
\<close>

subsection \<open>Semaphores\<close>

record semaphore =
  sem_permits :: nat
  sem_waiters :: "nat list"

text \<open>Whether the promise of \<open>acquire\<close> is resolved at once.\<close>

definition sem_acquire :: "nat \<Rightarrow> semaphore \<Rightarrow> bool \<times> semaphore" where
  "sem_acquire i s =
     (if sem_permits s > 0 then (True, s\<lparr>sem_permits := sem_permits s - 1\<rparr>)
      else (False, s\<lparr>sem_waiters := sem_waiters s @ [i]\<rparr>))"

text \<open>The waiter the permit is handed to.\<close>

definition sem_release :: "semaphore \<Rightarrow> nat option \<times> semaphore" where
  "sem_release s =
     (case sem_waiters s of
        w # ws \<Rightarrow> (Some w, s\<lparr>sem_waiters := ws\<rparr>)
      | [] \<Rightarrow> (None, s\<lparr>sem_permits := Suc (sem_permits s)\<rparr>))"

subsection \<open>State\<close>

datatype index_op = Index_write str | Index_delete

datatype op_origin = Watcher

type_synonym numbered_op = "nat \<times> index_op"

datatype drain_phase =
    Queued
  | Vault_waiting numbered_op
  | Vault_granted numbered_op
  | Global_waiting numbered_op
  | Global_granted numbered_op
  | Running numbered_op
  | Fulfilled
  | Rejected

record drain =
  dr_vault :: str
  dr_path :: str
  dr_asked :: index_op
  dr_prev :: "nat option"
  dr_phase :: drain_phase
  dr_cleaned :: bool

datatype coord_note =
    Called str str numbered_op
  | Applied str str
  | Reported str str
  | Backpressure nat
  | Idle
  | Dropped str numbered_op

record index_coordinator =
  ic_perVault :: nat
  ic_queueMax :: nat
  ic_latest :: "(str \<times> numbered_op) list"
  ic_latestOrigin :: "(str \<times> op_origin) list"
  ic_chain :: "(str \<times> nat) list"
  ic_globalSem :: semaphore
  ic_vaultSems :: "(str \<times> semaphore) list"
  ic_vaultActive :: "(str \<times> nat) list"
  ic_active :: nat
  ic_coalesced :: nat
  ic_overQueueMax :: bool
  ic_drains :: "drain list"
  ic_log :: "coord_note list"

definition coord_key :: "str \<Rightarrow> str \<Rightarrow> str" where
  "coord_key vaultId path = vaultId @ CHR 0x00 # path"

definition key_at :: "index_coordinator \<Rightarrow> nat \<Rightarrow> str" where
  "key_at c i = coord_key (dr_vault (ic_drains c ! i)) (dr_path (ic_drains c ! i))"

definition at_least_1 :: "nat option \<Rightarrow> nat \<Rightarrow> nat" where
  "at_least_1 given usual = max 1 (case given of None \<Rightarrow> usual | Some n \<Rightarrow> n)"

definition new_coordinator :: "nat option \<Rightarrow> nat option \<Rightarrow> nat option \<Rightarrow> index_coordinator" where
  "new_coordinator globalConcurrency perVaultConcurrency queueMax =
     \<lparr>ic_perVault = at_least_1 perVaultConcurrency 4, ic_queueMax = at_least_1 queueMax 1000,
      ic_latest = [], ic_latestOrigin = [], ic_chain = [],
      ic_globalSem = \<lparr>sem_permits = at_least_1 globalConcurrency 8, sem_waiters = []\<rparr>,
      ic_vaultSems = [], ic_vaultActive = [], ic_active = 0, ic_coalesced = 0, ic_overQueueMax = False,
      ic_drains = [], ic_log = []\<rparr>"

definition note_that :: "coord_note \<Rightarrow> index_coordinator \<Rightarrow> index_coordinator" where
  "note_that x c = c\<lparr>ic_log := ic_log c @ [x]\<rparr>"

definition set_phase :: "nat \<Rightarrow> drain_phase \<Rightarrow> index_coordinator \<Rightarrow> index_coordinator" where
  "set_phase i p c = c\<lparr>ic_drains := (ic_drains c)[i := (ic_drains c ! i)\<lparr>dr_phase := p\<rparr>]\<rparr>"

definition phase_at :: "index_coordinator \<Rightarrow> nat \<Rightarrow> drain_phase" where
  "phase_at c i = dr_phase (ic_drains c ! i)"

subsection \<open>Submitting\<close>

definition submit_op :: "str \<Rightarrow> str \<Rightarrow> index_op \<Rightarrow> op_origin option \<Rightarrow> index_coordinator \<Rightarrow> index_coordinator" where
  "submit_op vaultId path op origin c =
     (let k = coord_key vaultId path;
          i = length (ic_drains c);
          next = \<lparr>dr_vault = vaultId, dr_path = path, dr_asked = op, dr_prev = map_of (ic_chain c) k,
                  dr_phase = Queued, dr_cleaned = False\<rparr>;
          chain = AList.update k i (ic_chain c);
          nowOver = (length chain > ic_queueMax c);
          c1 = c\<lparr>ic_coalesced := ic_coalesced c + (if map_of (ic_latest c) k \<noteq> None then 1 else 0),
                 ic_latest := AList.update k (i, op) (ic_latest c),
                 ic_latestOrigin := (case origin of Some x \<Rightarrow> AList.update k x (ic_latestOrigin c)
                                     | None \<Rightarrow> AList.delete k (ic_latestOrigin c)),
                 ic_chain := chain, ic_drains := ic_drains c @ [next]\<rparr>;
          c2 = (if nowOver \<and> \<not> ic_overQueueMax c then note_that (Backpressure (length chain)) c1 else c1)
      in c2\<lparr>ic_overQueueMax := nowOver\<rparr>)"

definition submitWrite :: "str \<Rightarrow> str \<Rightarrow> str \<Rightarrow> op_origin option \<Rightarrow> index_coordinator \<Rightarrow> index_coordinator" where
  "submitWrite vaultId path content = submit_op vaultId path (Index_write content)"

definition submitDelete :: "str \<Rightarrow> str \<Rightarrow> op_origin option \<Rightarrow> index_coordinator \<Rightarrow> index_coordinator" where
  "submitDelete vaultId path = submit_op vaultId path Index_delete"

subsection \<open>Draining\<close>

definition vaultSem :: "str \<Rightarrow> index_coordinator \<Rightarrow> semaphore" where
  "vaultSem v c = (case map_of (ic_vaultSems c) v of
     Some s \<Rightarrow> s | None \<Rightarrow> \<lparr>sem_permits = ic_perVault c, sem_waiters = []\<rparr>)"

text \<open>The claim and the wait for the vault's permit; a drain that finds nothing to do is done.\<close>

definition drain_begin :: "nat \<Rightarrow> index_coordinator \<Rightarrow> index_coordinator" where
  "drain_begin i c =
     (let k = key_at c i; v = dr_vault (ic_drains c ! i) in
      case map_of (ic_latest c) k of
        None \<Rightarrow> set_phase i Fulfilled c
      | Some op \<Rightarrow>
          (case sem_acquire i (vaultSem v c) of (got, s) \<Rightarrow>
             set_phase i (if got then Vault_granted op else Vault_waiting op)
               (c\<lparr>ic_latest := AList.delete k (ic_latest c), ic_latestOrigin := AList.delete k (ic_latestOrigin c),
                  ic_vaultSems := AList.update v s (ic_vaultSems c)\<rparr>)))"

definition drain_global :: "nat \<Rightarrow> numbered_op \<Rightarrow> index_coordinator \<Rightarrow> index_coordinator" where
  "drain_global i op c =
     (case sem_acquire i (ic_globalSem c) of (got, s) \<Rightarrow>
        set_phase i (if got then Global_granted op else Global_waiting op) (c\<lparr>ic_globalSem := s\<rparr>))"

definition vault_active :: "str \<Rightarrow> index_coordinator \<Rightarrow> nat" where
  "vault_active v c = (case map_of (ic_vaultActive c) v of None \<Rightarrow> 0 | Some n \<Rightarrow> n)"

definition drain_call :: "nat \<Rightarrow> numbered_op \<Rightarrow> index_coordinator \<Rightarrow> index_coordinator" where
  "drain_call i op c =
     (let v = dr_vault (ic_drains c ! i) in
      set_phase i (Running op) (note_that (Called v (dr_path (ic_drains c ! i)) op)
        (c\<lparr>ic_active := Suc (ic_active c), ic_vaultActive := AList.update v (Suc (vault_active v c)) (ic_vaultActive c)\<rparr>)))"

text \<open>
  How the handler ends: it resolves, it throws (or \<open>onApplied\<close> does) and is reported, or \<open>onError\<close> throws
  too, which rejects the promise of the drain.
\<close>

datatype handler_end = Handled | Failed | Report_threw

text \<open>A permit handed to a waiter resolves the promise it awaits.\<close>

definition hand_over :: "nat option \<Rightarrow> index_coordinator \<Rightarrow> index_coordinator" where
  "hand_over w c =
     (case w of None \<Rightarrow> c
      | Some j \<Rightarrow> (case phase_at c j of
            Vault_waiting op \<Rightarrow> set_phase j (Vault_granted op) c
          | Global_waiting op \<Rightarrow> set_phase j (Global_granted op) c
          | _ \<Rightarrow> c))"

definition release_global :: "index_coordinator \<Rightarrow> index_coordinator" where
  "release_global c = (case sem_release (ic_globalSem c) of (w, s) \<Rightarrow> hand_over w (c\<lparr>ic_globalSem := s\<rparr>))"

definition release_vault :: "str \<Rightarrow> index_coordinator \<Rightarrow> index_coordinator" where
  "release_vault v c = (case sem_release (vaultSem v c) of (w, s) \<Rightarrow>
     hand_over w (c\<lparr>ic_vaultSems := AList.update v s (ic_vaultSems c)\<rparr>))"

text \<open>Settling, with the counters of the \<open>finally\<close> block; then the releases, the global one first.\<close>

definition drain_leave :: "nat \<Rightarrow> handler_end \<Rightarrow> index_coordinator \<Rightarrow> index_coordinator" where
  "drain_leave i r c =
     (let v = dr_vault (ic_drains c ! i); n = vault_active v c - 1;
          told = (if r = Handled then Applied else Reported) v (dr_path (ic_drains c ! i)) in
      (set_phase i (if r = Report_threw then Rejected else Fulfilled) (note_that told c))
        \<lparr>ic_active := ic_active c - 1,
         ic_vaultActive := (if n = 0 then AList.delete v (ic_vaultActive c) else AList.update v n (ic_vaultActive c))\<rparr>)"

definition drain_end :: "nat \<Rightarrow> handler_end \<Rightarrow> index_coordinator \<Rightarrow> index_coordinator" where
  "drain_end i r c = release_vault (dr_vault (ic_drains c ! i)) (release_global (drain_leave i r c))"

text \<open>The \<open>finally\<close> of a drain's promise.\<close>

definition drain_cleanup :: "nat \<Rightarrow> index_coordinator \<Rightarrow> index_coordinator" where
  "drain_cleanup i c =
     (let k = key_at c i;
          chain = (if map_of (ic_chain c) k = Some i then AList.delete k (ic_chain c) else ic_chain c);
          c1 = c\<lparr>ic_chain := chain, ic_drains := (ic_drains c)[i := (ic_drains c ! i)\<lparr>dr_cleaned := True\<rparr>]\<rparr>
      in if chain = [] then note_that Idle c1 else c1)"

subsection \<open>Cancelling and reading\<close>

definition of_origin :: "op_origin \<Rightarrow> index_coordinator \<Rightarrow> str list" where
  "of_origin origin c = map fst (filter (\<lambda>(_, x). x = origin) (ic_latestOrigin c))"

definition cancel_key :: "str \<Rightarrow> index_coordinator \<Rightarrow> index_coordinator" where
  "cancel_key k c =
     (let c1 = c\<lparr>ic_latest := AList.delete k (ic_latest c), ic_latestOrigin := AList.delete k (ic_latestOrigin c)\<rparr>
      in case map_of (ic_latest c) k of None \<Rightarrow> c1 | Some op \<Rightarrow> note_that (Dropped k op) c1)"

definition cancelOrigin :: "op_origin \<Rightarrow> index_coordinator \<Rightarrow> nat \<times> index_coordinator" where
  "cancelOrigin origin c = (length (of_origin origin c), fold cancel_key (of_origin origin c) c)"

definition busy :: "index_coordinator \<Rightarrow> bool" where
  "busy c \<longleftrightarrow> ic_chain c \<noteq> []"

definition coord_stats :: "index_coordinator \<Rightarrow> nat \<times> nat \<times> bool \<times> (str \<times> nat) list \<times> nat" where
  "coord_stats c = (length (ic_chain c), ic_active c, length (ic_chain c) > ic_queueMax c, ic_vaultActive c, ic_coalesced c)"

subsection \<open>Events\<close>

datatype coord_event =
    Submit str str index_op "op_origin option"
  | Turn nat
  | Vault_resumes nat
  | Global_resumes nat
  | Handler_ends nat handler_end
  | Cleanup nat
  | Cancel op_origin

definition done_phase :: "drain_phase \<Rightarrow> bool" where
  "done_phase p \<longleftrightarrow> p = Fulfilled \<or> p = Rejected"

text \<open>
  \<open>prev.then(f)\<close>: a fulfilled predecessor, or \<open>Promise.resolve()\<close>, runs \<open>f\<close>; a rejected one rejects.
\<close>

definition take_turn :: "nat \<Rightarrow> index_coordinator \<Rightarrow> index_coordinator option" where
  "take_turn i c =
     (if phase_at c i \<noteq> Queued then None
      else case dr_prev (ic_drains c ! i) of
        None \<Rightarrow> Some (drain_begin i c)
      | Some j \<Rightarrow> (case phase_at c j of
            Fulfilled \<Rightarrow> Some (drain_begin i c)
          | Rejected \<Rightarrow> Some (set_phase i Rejected c)
          | _ \<Rightarrow> None))"

fun coord_step :: "coord_event \<Rightarrow> index_coordinator \<Rightarrow> index_coordinator option" where
  "coord_step (Submit v p op origin) c = Some (submit_op v p op origin c)"
| "coord_step (Turn i) c = (if i < length (ic_drains c) then take_turn i c else None)"
| "coord_step (Vault_resumes i) c =
     (if i < length (ic_drains c) then
        (case phase_at c i of Vault_granted op \<Rightarrow> Some (drain_global i op c) | _ \<Rightarrow> None) else None)"
| "coord_step (Global_resumes i) c =
     (if i < length (ic_drains c) then
        (case phase_at c i of Global_granted op \<Rightarrow> Some (drain_call i op c) | _ \<Rightarrow> None) else None)"
| "coord_step (Handler_ends i r) c =
     (if i < length (ic_drains c) then
        (case phase_at c i of Running _ \<Rightarrow> Some (drain_end i r c) | _ \<Rightarrow> None) else None)"
| "coord_step (Cleanup i) c =
     (if i < length (ic_drains c) \<and> done_phase (phase_at c i) \<and> \<not> dr_cleaned (ic_drains c ! i)
      then Some (drain_cleanup i c) else None)"
| "coord_step (Cancel origin) c = Some (snd (cancelOrigin origin c))"

fun coord_run :: "coord_event list \<Rightarrow> index_coordinator \<Rightarrow> index_coordinator option" where
  "coord_run [] c = Some c"
| "coord_run (e # es) c = (case coord_step e c of None \<Rightarrow> None | Some c1 \<Rightarrow> coord_run es c1)"

end
