(* ===== verification/Index_Coordinator_Safety.thy ===== *)
theory Index_Coordinator_Safety
  imports Index_Coordinator
begin

text \<open>
  What every reachable coordinator satisfies: the semaphores account for the drains that hold or await a
  permit (one contract for both levels, the locale \<open>permit_class\<close>), the drains of a note run one after the
  other, and the history of a note: calls come in the order of the submissions, and every submission is
  called, replaced by a newer one, dropped by a cancellation, or still on its way.
\<close>

subsection \<open>Reading a changed coordinator\<close>

lemma note_that_simps [simp]:
  "ic_drains (note_that x c) = ic_drains c" "ic_latest (note_that x c) = ic_latest c"
  "ic_chain (note_that x c) = ic_chain c" "ic_globalSem (note_that x c) = ic_globalSem c"
  "ic_vaultSems (note_that x c) = ic_vaultSems c" "ic_vaultActive (note_that x c) = ic_vaultActive c"
  "ic_active (note_that x c) = ic_active c" "ic_perVault (note_that x c) = ic_perVault c"
  "ic_log (note_that x c) = ic_log c @ [x]" "ic_latestOrigin (note_that x c) = ic_latestOrigin c"
  by (simp_all add: note_that_def)

lemma set_phase_simps [simp]:
  "ic_latest (set_phase i p c) = ic_latest c" "ic_chain (set_phase i p c) = ic_chain c"
  "ic_globalSem (set_phase i p c) = ic_globalSem c" "ic_vaultSems (set_phase i p c) = ic_vaultSems c"
  "ic_vaultActive (set_phase i p c) = ic_vaultActive c" "ic_active (set_phase i p c) = ic_active c"
  "ic_perVault (set_phase i p c) = ic_perVault c" "ic_log (set_phase i p c) = ic_log c"
  "length (ic_drains (set_phase i p c)) = length (ic_drains c)"
  by (simp_all add: set_phase_def)

lemma set_phase_nth:
  "ic_drains (set_phase i p c) ! j =
     (if i = j \<and> i < length (ic_drains c) then (ic_drains c ! j)\<lparr>dr_phase := p\<rparr> else ic_drains c ! j)"
  by (cases "i < length (ic_drains c)") (auto simp: set_phase_def nth_list_update list_update_beyond)

lemma set_phase_fixed [simp]:
  "dr_vault (ic_drains (set_phase i p c) ! j) = dr_vault (ic_drains c ! j)"
  "dr_path (ic_drains (set_phase i p c) ! j) = dr_path (ic_drains c ! j)"
  "dr_asked (ic_drains (set_phase i p c) ! j) = dr_asked (ic_drains c ! j)"
  "dr_prev (ic_drains (set_phase i p c) ! j) = dr_prev (ic_drains c ! j)"
  "dr_cleaned (ic_drains (set_phase i p c) ! j) = dr_cleaned (ic_drains c ! j)"
  "key_at (set_phase i p c) j = key_at c j"
  by (simp_all add: set_phase_nth key_at_def)

lemma phase_at_set [simp]:
  "phase_at (set_phase i p c) j = (if i = j \<and> i < length (ic_drains c) then p else phase_at c j)"
  by (simp add: phase_at_def set_phase_nth)

text \<open>An update that leaves the drains alone.\<close>

lemma phase_at_same: "ic_drains c' = ic_drains c \<Longrightarrow> phase_at c' = phase_at c \<and> key_at c' = key_at c"
  by (simp add: fun_eq_iff phase_at_def key_at_def)

subsection \<open>Counting drains\<close>

definition cnt :: "('a \<Rightarrow> bool) \<Rightarrow> 'a list \<Rightarrow> nat" where
  "cnt P xs = length (filter P xs)"

lemma cnt_append [simp]: "cnt P (xs @ ys) = cnt P xs + cnt P ys" by (simp add: cnt_def)
lemma cnt_single [simp]: "cnt P [x] = (if P x then 1 else 0)" "cnt P [] = 0" by (simp_all add: cnt_def)

lemma cnt_Cons [simp]: "cnt P (x # xs) = (if P x then 1 else 0) + cnt P xs" by (simp add: cnt_def)

lemma cnt_update:
  "i < length xs \<Longrightarrow> cnt P (xs[i := x]) + (if P (xs ! i) then 1 else 0) = cnt P xs + (if P x then 1 else 0)"
proof (induction xs arbitrary: i)
  case (Cons y ys)
  show ?case
  proof (cases i)
    case (Suc j)
    then show ?thesis using Cons.IH [of j] Cons.prems by simp
  qed simp
qed simp

lemma cnt_mono: "(\<And>x. P x \<Longrightarrow> Q x) \<Longrightarrow> cnt P xs \<le> cnt Q xs"
  by (induction xs) (auto simp: cnt_def)

lemma cnt_pos: "i < length xs \<Longrightarrow> P (xs ! i) \<Longrightarrow> 0 < cnt P xs"
  unfolding cnt_def by (metis filter_empty_conv length_greater_0_conv nth_mem)

lemma cnt_0: "cnt P xs = 0 \<longleftrightarrow> (\<forall>i < length xs. \<not> P (xs ! i))"
  unfolding cnt_def by (metis filter_empty_conv in_set_conv_nth length_0_conv)

definition those :: "('a \<Rightarrow> bool) \<Rightarrow> 'a list \<Rightarrow> nat set" where
  "those P xs = {i. i < length xs \<and> P (xs ! i)}"

lemma those_update: "i < length xs \<Longrightarrow> those P (xs[i := x]) = (if P x then insert i (those P xs) else those P xs - {i})"
  by (rule set_eqI) (simp add: those_def nth_list_update)

lemma those_append: "those P (xs @ [x]) = (if P x then insert (length xs) (those P xs) else those P xs)"
  by (rule set_eqI) (auto simp: those_def nth_append less_Suc_eq)

lemma those_iff: "i \<in> those P xs \<longleftrightarrow> i < length xs \<and> P (xs ! i)"
  by (simp add: those_def)

subsection \<open>One contract for both semaphores\<close>

text \<open>
  \<open>sem_ok cap e waits holds s ds\<close>: of \<open>cap\<close> permits the free ones, those held by drains, and \<open>e\<close> in the hand of
  the drain that is just leaving; the waiters are the drains that wait, and nobody waits for a free permit.
\<close>

definition sem_ok :: "nat \<Rightarrow> nat \<Rightarrow> (drain \<Rightarrow> bool) \<Rightarrow> (drain \<Rightarrow> bool) \<Rightarrow> semaphore \<Rightarrow> drain list \<Rightarrow> bool" where
  "sem_ok cap e waits holds s ds \<longleftrightarrow>
     sem_permits s + cnt holds ds + e = cap \<and> distinct (sem_waiters s)
     \<and> set (sem_waiters s) = those waits ds
     \<and> (sem_waiters s \<noteq> [] \<longrightarrow> sem_permits s = 0)"

lemma sem_okD:
  assumes "sem_ok cap e waits holds s ds"
  shows "sem_permits s + cnt holds ds + e = cap" "distinct (sem_waiters s)" "set (sem_waiters s) = those waits ds"
    "sem_waiters s \<noteq> [] \<Longrightarrow> sem_permits s = 0"
  using assms unfolding sem_ok_def by blast+

locale permit_class =
  fixes waits holds :: "drain \<Rightarrow> bool"
  assumes apart: "waits d \<Longrightarrow> \<not> holds d"
begin

lemma kept:
  assumes "sem_ok cap e waits holds s ds" "i < length ds" "waits d = waits (ds ! i)" "holds d = holds (ds ! i)"
  shows "sem_ok cap e waits holds s (ds[i := d])"
proof -
  have "those waits (ds[i := d]) = those waits ds" using assms(2,3) by (auto simp: those_update those_iff)
  then show ?thesis using assms(1,4) cnt_update [OF assms(2), of holds d] by (simp add: sem_ok_def)
qed

lemma joined:
  assumes "sem_ok cap e waits holds s ds" "\<not> waits d" "\<not> holds d"
  shows "sem_ok cap e waits holds s (ds @ [d])"
  using assms by (simp add: sem_ok_def those_append)

lemma acquired:
  assumes "sem_ok cap 0 waits holds s ds" "i < length ds" "\<not> waits (ds ! i)" "\<not> holds (ds ! i)"
    "sem_acquire i s = (got, s')" "if got then holds d else waits d"
  shows "sem_ok cap 0 waits holds s' (ds[i := d])"
proof (cases "sem_permits s > 0")
  case True
  then have s': "s' = s\<lparr>sem_permits := sem_permits s - 1\<rparr>" and d: "holds d" "\<not> waits d" and ws: "sem_waiters s = []"
    using assms(5,6) apart [of d] sem_okD(4) [OF assms(1)] by (auto simp: sem_acquire_def)
  have "cnt holds (ds[i := d]) = Suc (cnt holds ds)" using cnt_update [OF assms(2), of holds d] assms(4) d by simp
  moreover have "those waits (ds[i := d]) = those waits ds" using assms(2,3) d by (simp add: those_update those_iff)
  ultimately show ?thesis using sem_okD(1,3) [OF assms(1)] True s' ws unfolding sem_ok_def by simp
next
  case False
  then have s': "s' = s\<lparr>sem_waiters := sem_waiters s @ [i]\<rparr>" and d: "waits d" "\<not> holds d"
    using assms(5,6) apart [of d] by (auto simp: sem_acquire_def)
  have "cnt holds (ds[i := d]) = cnt holds ds" using cnt_update [OF assms(2), of holds d] assms(4) d by simp
  moreover have "those waits (ds[i := d]) = insert i (those waits ds)" using assms(2) d by (simp add: those_update)
  moreover have "i \<notin> those waits ds" using assms(3) by (simp add: those_iff)
  ultimately show ?thesis using sem_okD(1-3) [OF assms(1)] False s' unfolding sem_ok_def by simp
qed

lemma left:
  assumes "sem_ok cap 0 waits holds s ds" "i < length ds" "holds (ds ! i)" "\<not> waits d" "\<not> holds d"
  shows "sem_ok cap 1 waits holds s (ds[i := d])"
  using assms apart [of "ds ! i"] cnt_update [OF assms(2), of holds d]
  by (auto simp: sem_ok_def those_update those_iff)

lemma released:
  assumes "sem_ok cap 1 waits holds s ds" "sem_release s = (w, s')"
    "\<And>j. w = Some j \<Longrightarrow> j < length ds \<Longrightarrow> waits (ds ! j) \<Longrightarrow> holds (d j)"
  shows "sem_ok cap 0 waits holds s' (case w of None \<Rightarrow> ds | Some j \<Rightarrow> ds[j := d j])"
proof (cases "sem_waiters s")
  case Nil
  then show ?thesis using assms(1,2) by (auto simp: sem_ok_def sem_release_def)
next
  case (Cons j ws)
  then have w: "w = Some j" "s' = s\<lparr>sem_waiters := ws\<rparr>" using assms(2) by (auto simp: sem_release_def)
  have "j \<in> those waits ds" using assms(1) Cons by (auto simp: sem_ok_def)
  then have j: "j < length ds" "waits (ds ! j)" by (simp_all add: those_iff)
  have d: "holds (d j)" "\<not> waits (d j)" using assms(3) [OF w(1) j] apart by auto
  have "cnt holds (ds[j := d j]) = Suc (cnt holds ds)" using cnt_update [OF j(1), of holds "d j"] apart [OF j(2)] d by simp
  moreover have "set ws = those waits ds - {j}" "distinct ws" using assms(1) Cons by (auto simp: sem_ok_def)
  ultimately show ?thesis using assms(1) w Cons j(1) d by (simp add: sem_ok_def those_update)
qed

text \<open>A drain waits only while others hold every permit.\<close>

lemma waits_for_holder:
  assumes "sem_ok cap 0 waits holds s ds" "0 < cap" "i < length ds" "waits (ds ! i)"
  shows "\<exists>j < length ds. holds (ds ! j)"
proof -
  have "i \<in> set (sem_waiters s)" using assms(3,4) sem_okD(3) [OF assms(1)] by (simp add: those_iff)
  then have "sem_permits s = 0" using sem_okD(4) [OF assms(1)] by fastforce
  then have "cnt holds ds > 0" using sem_okD(1) [OF assms(1)] assms(2) by linarith
  then show ?thesis using cnt_0 [of holds ds] by auto
qed

lemma bounded: "sem_ok cap e waits holds s ds \<Longrightarrow> cnt holds ds \<le> cap"
  by (simp add: sem_ok_def)

end

subsection \<open>Which drains hold and await which permits\<close>

text \<open>The operation a drain has claimed and not finished.\<close>

fun op_of :: "drain_phase \<Rightarrow> numbered_op option" where
  "op_of (Vault_waiting x) = Some x" | "op_of (Vault_granted x) = Some x" | "op_of (Global_waiting x) = Some x"
| "op_of (Global_granted x) = Some x" | "op_of (Running x) = Some x"
| "op_of Queued = None" | "op_of Fulfilled = None" | "op_of Rejected = None"

fun in_global :: "drain_phase \<Rightarrow> bool" where
  "in_global (Global_granted _) = True" | "in_global (Running _) = True" | "in_global _ = False"

fun in_vault :: "drain_phase \<Rightarrow> bool" where
  "in_vault (Vault_granted _) = True" | "in_vault (Global_waiting _) = True" | "in_vault (Global_granted _) = True"
| "in_vault (Running _) = True" | "in_vault _ = False"

fun at_global :: "drain_phase \<Rightarrow> bool" where
  "at_global (Global_waiting _) = True" | "at_global _ = False"

fun at_vault :: "drain_phase \<Rightarrow> bool" where
  "at_vault (Vault_waiting _) = True" | "at_vault _ = False"

fun is_running :: "drain_phase \<Rightarrow> bool" where
  "is_running (Running _) = True" | "is_running _ = False"

definition waits_global :: "drain \<Rightarrow> bool" where "waits_global d \<longleftrightarrow> at_global (dr_phase d)"
definition holds_global :: "drain \<Rightarrow> bool" where "holds_global d \<longleftrightarrow> in_global (dr_phase d)"
definition waits_vault :: "str \<Rightarrow> drain \<Rightarrow> bool" where "waits_vault v d \<longleftrightarrow> dr_vault d = v \<and> at_vault (dr_phase d)"
definition holds_vault :: "str \<Rightarrow> drain \<Rightarrow> bool" where "holds_vault v d \<longleftrightarrow> dr_vault d = v \<and> in_vault (dr_phase d)"

lemmas permit_defs = waits_global_def holds_global_def waits_vault_def holds_vault_def

interpretation global_permits: permit_class waits_global holds_global
proof
  show "waits_global d \<Longrightarrow> \<not> holds_global d" for d by (cases "dr_phase d") (simp_all add: permit_defs)
qed

interpretation vault_permits: permit_class "waits_vault v" "holds_vault v" for v
proof
  show "waits_vault v d \<Longrightarrow> \<not> holds_vault v d" for d by (cases "dr_phase d") (simp_all add: permit_defs)
qed

definition global_ok :: "nat \<Rightarrow> nat \<Rightarrow> index_coordinator \<Rightarrow> bool" where
  "global_ok cap e c \<longleftrightarrow> sem_ok cap e waits_global holds_global (ic_globalSem c) (ic_drains c)"

definition vault_ok :: "str \<Rightarrow> nat \<Rightarrow> index_coordinator \<Rightarrow> bool" where
  "vault_ok v e c \<longleftrightarrow> sem_ok (ic_perVault c) e (waits_vault v) (holds_vault v) (vaultSem v c) (ic_drains c)"

definition sems_ok :: "nat \<Rightarrow> index_coordinator \<Rightarrow> bool" where
  "sems_ok cap c \<longleftrightarrow> global_ok cap 0 c \<and> (\<forall>v. vault_ok v 0 c)"

lemma vaultSem_same: "ic_vaultSems c' = ic_vaultSems c \<Longrightarrow> ic_perVault c' = ic_perVault c \<Longrightarrow> vaultSem v c' = vaultSem v c"
  by (simp add: vaultSem_def split: option.split)

lemma vaultSem_set_phase [simp]: "vaultSem v (set_phase i p c) = vaultSem v c"
  by (rule vaultSem_same) simp_all

lemma set_phase_drains: "ic_drains (set_phase i p c) = (ic_drains c)[i := (ic_drains c ! i)\<lparr>dr_phase := p\<rparr>]"
  by (simp add: set_phase_def)

lemma global_ok_phase:
  assumes "global_ok cap e c" "i < length (ic_drains c)" "in_global p = in_global (phase_at c i)" "at_global p = at_global (phase_at c i)"
  shows "global_ok cap e (set_phase i p c)"
  using global_permits.kept [OF assms(1) [unfolded global_ok_def] assms(2), of "(ic_drains c ! i)\<lparr>dr_phase := p\<rparr>"] assms(3,4)
  by (simp add: global_ok_def set_phase_drains permit_defs phase_at_def)

lemma vault_ok_phase:
  assumes "vault_ok v e c" "i < length (ic_drains c)"
    "dr_vault (ic_drains c ! i) = v \<Longrightarrow> in_vault p = in_vault (phase_at c i) \<and> at_vault p = at_vault (phase_at c i)"
  shows "vault_ok v e (set_phase i p c)"
  using vault_permits.kept [OF assms(1) [unfolded vault_ok_def] assms(2), of "(ic_drains c ! i)\<lparr>dr_phase := p\<rparr>"] assms(3)
  by (auto simp: vault_ok_def permit_defs phase_at_def set_phase_drains)

lemma sems_ok_phase:
  assumes "sems_ok cap c" "i < length (ic_drains c)"
    "in_global p = in_global (phase_at c i)" "at_global p = at_global (phase_at c i)"
    "in_vault p = in_vault (phase_at c i)" "at_vault p = at_vault (phase_at c i)"
  shows "sems_ok cap (set_phase i p c)"
  using assms global_ok_phase vault_ok_phase unfolding sems_ok_def by simp

text \<open>What neither the semaphores nor the drains see.\<close>

lemma sems_ok_same:
  assumes "sems_ok cap c" "ic_drains c' = ic_drains c" "ic_globalSem c' = ic_globalSem c" "ic_vaultSems c' = ic_vaultSems c"
    "ic_perVault c' = ic_perVault c"
  shows "sems_ok cap c'"
  using assms vaultSem_same [OF assms(4,5)] by (simp add: sems_ok_def global_ok_def vault_ok_def)

lemma sems_ok_new: "sems_ok (at_least_1 g 8) (new_coordinator g p q)"
  by (simp add: sems_ok_def global_ok_def vault_ok_def new_coordinator_def sem_ok_def vaultSem_def those_def)

lemma submit_simps [simp]:
  "ic_drains (submit_op v p op x c) = ic_drains c @ [\<lparr>dr_vault = v, dr_path = p, dr_asked = op,
     dr_prev = map_of (ic_chain c) (coord_key v p), dr_phase = Queued, dr_cleaned = False\<rparr>]"
  "ic_chain (submit_op v p op x c) = AList.update (coord_key v p) (length (ic_drains c)) (ic_chain c)"
  "ic_latest (submit_op v p op x c) = AList.update (coord_key v p) (length (ic_drains c), op) (ic_latest c)"
  "ic_globalSem (submit_op v p op x c) = ic_globalSem c" "ic_perVault (submit_op v p op x c) = ic_perVault c"
  "ic_vaultSems (submit_op v p op x c) = ic_vaultSems c" "ic_active (submit_op v p op x c) = ic_active c"
  "ic_vaultActive (submit_op v p op x c) = ic_vaultActive c"
  by (simp_all add: submit_op_def Let_def note_that_def)

lemma sems_ok_submit: "sems_ok cap c \<Longrightarrow> sems_ok cap (submit_op v p op x c)"
proof -
  assume ok: "sems_ok cap c"
  have "vaultSem w (submit_op v p op x c) = vaultSem w c" for w by (rule vaultSem_same) simp_all
  then show "sems_ok cap (submit_op v p op x c)"
    using ok unfolding sems_ok_def global_ok_def vault_ok_def
    by (auto simp: permit_defs intro!: global_permits.joined vault_permits.joined)
qed

lemma sems_ok_begin:
  assumes ok: "sems_ok cap c" and i: "i < length (ic_drains c)" and q: "phase_at c i = Queued"
  shows "sems_ok cap (drain_begin i c)"
proof (cases "map_of (ic_latest c) (key_at c i)")
  case None
  then show ?thesis using sems_ok_phase [OF ok i] q by (simp add: drain_begin_def Let_def)
next
  case (Some op)
  define v where "v = dr_vault (ic_drains c ! i)"
  obtain got s where a: "sem_acquire i (vaultSem v c) = (got, s)" by (cases "sem_acquire i (vaultSem v c)")
  define p where "p = (if got then Vault_granted op else Vault_waiting op)"
  define c1 where "c1 = c\<lparr>ic_latest := AList.delete (key_at c i) (ic_latest c),
    ic_latestOrigin := AList.delete (key_at c i) (ic_latestOrigin c), ic_vaultSems := AList.update v s (ic_vaultSems c)\<rparr>"
  have run: "drain_begin i c = set_phase i p c1"
    using Some a by (simp add: drain_begin_def Let_def v_def p_def c1_def)
  have c1: "ic_drains c1 = ic_drains c" "ic_globalSem c1 = ic_globalSem c" "ic_perVault c1 = ic_perVault c"
      "vaultSem v' c1 = (if v' = v then s else vaultSem v' c)" for v'
    by (simp_all add: c1_def vaultSem_def update_conv' split: option.split)
  have "global_ok cap 0 c1" using ok c1 by (simp add: sems_ok_def global_ok_def)
  then have g: "global_ok cap 0 (set_phase i p c1)"
    by (rule global_ok_phase) (use i q c1 in \<open>simp_all add: p_def phase_at_def\<close>)
  have "vault_ok v' 0 (set_phase i p c1)" for v'
  proof (cases "v' = v")
    case True
    have "sem_ok (ic_perVault c) 0 (waits_vault v) (holds_vault v) (vaultSem v c) (ic_drains c)"
      using ok by (simp add: sems_ok_def vault_ok_def)
    from vault_permits.acquired [OF this i _ _ a, of "(ic_drains c ! i)\<lparr>dr_phase := p\<rparr>"] q
    show ?thesis using True c1 by (simp add: vault_ok_def permit_defs phase_at_def p_def v_def set_phase_drains)
  next
    case False
    have "vault_ok v' 0 c1" using ok False c1 by (simp add: sems_ok_def vault_ok_def)
    then show ?thesis by (rule vault_ok_phase) (use i c1 False in \<open>simp_all add: v_def\<close>)
  qed
  with g show ?thesis by (simp add: run sems_ok_def)
qed

lemma sems_ok_global:
  assumes ok: "sems_ok cap c" and i: "i < length (ic_drains c)" and q: "phase_at c i = Vault_granted op"
  shows "sems_ok cap (drain_global i op c)"
proof -
  obtain got s where a: "sem_acquire i (ic_globalSem c) = (got, s)" by (cases "sem_acquire i (ic_globalSem c)")
  define p where "p = (if got then Global_granted op else Global_waiting op)"
  have run: "drain_global i op c = set_phase i p (c\<lparr>ic_globalSem := s\<rparr>)" using a by (simp add: drain_global_def p_def)
  have "sem_ok cap 0 waits_global holds_global (ic_globalSem c) (ic_drains c)" using ok by (simp add: sems_ok_def global_ok_def)
  from global_permits.acquired [OF this i _ _ a, of "(ic_drains c ! i)\<lparr>dr_phase := p\<rparr>"] q
  have g: "global_ok cap 0 (drain_global i op c)"
    by (simp add: run global_ok_def permit_defs phase_at_def p_def set_phase_drains)
  have "vault_ok v 0 (c\<lparr>ic_globalSem := s\<rparr>)" for v
    using ok vaultSem_same [of "c\<lparr>ic_globalSem := s\<rparr>" c] by (simp add: sems_ok_def vault_ok_def)
  then have "vault_ok v 0 (drain_global i op c)" for v
    unfolding run by (rule vault_ok_phase) (use i q in \<open>simp_all add: p_def phase_at_def\<close>)
  with g show ?thesis by (simp add: sems_ok_def)
qed

lemma sems_ok_call:
  assumes "sems_ok cap c" "i < length (ic_drains c)" "phase_at c i = Global_granted op"
  shows "sems_ok cap (drain_call i op c)"
  unfolding drain_call_def Let_def
  by (rule sems_ok_phase [OF sems_ok_same [OF assms(1)]]) (use assms in \<open>simp_all add: phase_at_def note_that_def\<close>)

text \<open>Leaving: the drain gives up its phase, then each permit it held is in hand until it is released.\<close>

lemma grant_waiter:
  "at_global (phase_at c j) \<Longrightarrow> \<exists>p. hand_over (Some j) c = set_phase j p c \<and> in_global p \<and> \<not> at_global p \<and> in_vault p \<and> \<not> at_vault p"
  (is "_ \<Longrightarrow> ?G")
  "at_vault (phase_at c j) \<Longrightarrow> \<exists>p. hand_over (Some j) c = set_phase j p c \<and> \<not> in_global p \<and> \<not> at_global p \<and> in_vault p \<and> \<not> at_vault p"
  (is "_ \<Longrightarrow> ?V")
proof -
  assume "at_global (phase_at c j)"
  then obtain x where "phase_at c j = Global_waiting x" by (cases "phase_at c j") simp_all
  then have "hand_over (Some j) c = set_phase j (Global_granted x) c" by (simp add: hand_over_def)
  moreover have "in_global (Global_granted x) \<and> \<not> at_global (Global_granted x) \<and> in_vault (Global_granted x) \<and> \<not> at_vault (Global_granted x)"
    by simp
  ultimately show ?G by blast
next
  assume "at_vault (phase_at c j)"
  then obtain x where "phase_at c j = Vault_waiting x" by (cases "phase_at c j") simp_all
  then have "hand_over (Some j) c = set_phase j (Vault_granted x) c" by (simp add: hand_over_def)
  moreover have "\<not> in_global (Vault_granted x) \<and> \<not> at_global (Vault_granted x) \<and> in_vault (Vault_granted x) \<and> \<not> at_vault (Vault_granted x)"
    by simp
  ultimately show ?V by blast
qed

lemma waiter_of:
  assumes "sem_ok cap 1 waits holds s ds" "sem_release s = (Some j, s')" shows "j < length ds" "waits (ds ! j)"
proof -
  have "j \<in> set (sem_waiters s)" using assms(2) by (auto simp: sem_release_def split: list.splits)
  then have "j \<in> those waits ds" using sem_okD(3) [OF assms(1)] by simp
  then show "j < length ds" "waits (ds ! j)" by (simp_all add: those_iff)
qed

lemma release_global_ok:
  assumes g: "global_ok cap 1 c" and v: "\<And>v. vault_ok v (e v) c"
  shows "global_ok cap 0 (release_global c) \<and> vault_ok v (e v) (release_global c)"
proof -
  obtain w s where r: "sem_release (ic_globalSem c) = (w, s)" by (cases "sem_release (ic_globalSem c)")
  define c1 where "c1 = c\<lparr>ic_globalSem := s\<rparr>"
  have c1: "ic_drains c1 = ic_drains c" "ic_globalSem c1 = s" "ic_perVault c1 = ic_perVault c"
      "phase_at c1 = phase_at c"
    by (simp_all add: c1_def phase_at_def fun_eq_iff)
  have vs: "vaultSem v c1 = vaultSem v c" for v by (rule vaultSem_same) (simp_all add: c1_def)
  have run: "release_global c = hand_over w c1" using r by (simp add: release_global_def c1_def)
  have ok: "sem_ok cap 1 waits_global holds_global (ic_globalSem c) (ic_drains c)" using g by (simp add: global_ok_def)
  have v1: "vault_ok v (e v) c1" for v using v [of v] c1(1,3) vs [of v] by (simp add: vault_ok_def)
  show ?thesis
  proof (cases w)
    case None
    then show ?thesis
      using global_permits.released [OF ok r, of "\<lambda>_. undefined"] v1 c1 run by (simp add: hand_over_def global_ok_def)
  next
    case (Some j)
    have j: "j < length (ic_drains c)" "at_global (phase_at c j)"
      using waiter_of [OF ok] r Some by (auto simp: permit_defs phase_at_def)
    from grant_waiter(1) [of c1 j] obtain p where p: "hand_over w c1 = set_phase j p c1"
      "in_global p" "\<not> at_global p" "in_vault p" "\<not> at_vault p" using j Some c1 by auto
    have ph: "in_vault (phase_at c j)" "\<not> at_vault (phase_at c j)" using j(2) by (cases "phase_at c j"; simp)+
    have "vault_ok v (e v) (hand_over w c1)"
      unfolding p(1) by (rule vault_ok_phase [OF v1]) (use j c1 p ph in simp_all)
    moreover have "global_ok cap 0 (hand_over w c1)"
      using global_permits.released [OF ok r, of "\<lambda>_. (ic_drains c ! j)\<lparr>dr_phase := p\<rparr>"] Some p c1
      by (simp add: global_ok_def set_phase_drains permit_defs)
    ultimately show ?thesis by (simp add: run)
  qed
qed

lemma release_vault_ok:
  assumes g: "global_ok cap 0 c" and v: "vault_ok v 1 c" and others: "\<And>u. u \<noteq> v \<Longrightarrow> vault_ok u 0 c"
  shows "sems_ok cap (release_vault v c)"
proof -
  obtain w s where r: "sem_release (vaultSem v c) = (w, s)" by (cases "sem_release (vaultSem v c)")
  define c1 where "c1 = c\<lparr>ic_vaultSems := AList.update v s (ic_vaultSems c)\<rparr>"
  have c1: "ic_drains c1 = ic_drains c" "ic_globalSem c1 = ic_globalSem c" "ic_perVault c1 = ic_perVault c"
      "vaultSem u c1 = (if u = v then s else vaultSem u c)" "phase_at c1 = phase_at c" for u
    by (simp_all add: c1_def vaultSem_def update_conv' phase_at_def fun_eq_iff split: option.split)
  have run: "release_vault v c = hand_over w c1" using r by (simp add: release_vault_def c1_def)
  have ok: "sem_ok (ic_perVault c) 1 (waits_vault v) (holds_vault v) (vaultSem v c) (ic_drains c)"
    using v by (simp add: vault_ok_def)
  have g1: "global_ok cap 0 c1" using g c1 by (simp add: global_ok_def)
  have o1: "vault_ok u 0 c1" if "u \<noteq> v" for u using others [OF that] that c1 by (simp add: vault_ok_def)
  have "global_ok cap 0 (hand_over w c1) \<and> (\<forall>u. vault_ok u 0 (hand_over w c1))"
  proof (cases w)
    case None
    then have "vault_ok v 0 c1"
      using vault_permits.released [OF ok r, of "\<lambda>_. undefined"] c1 by (simp add: vault_ok_def)
    then show ?thesis using None g1 o1 by (simp add: hand_over_def) metis
  next
    case (Some j)
    have j: "j < length (ic_drains c)" "at_vault (phase_at c j)" "dr_vault (ic_drains c ! j) = v"
      using waiter_of [OF ok] r Some by (auto simp: permit_defs phase_at_def)
    from grant_waiter(2) [of c1 j] obtain p where p: "hand_over w c1 = set_phase j p c1"
      "\<not> in_global p" "\<not> at_global p" "in_vault p" "\<not> at_vault p" using j Some c1 by auto
    have ph: "\<not> in_global (phase_at c j)" "\<not> at_global (phase_at c j)" using j(2) by (cases "phase_at c j"; simp)+
    have "vault_ok v 0 (hand_over w c1)"
      using vault_permits.released [OF ok r, of "\<lambda>_. (ic_drains c ! j)\<lparr>dr_phase := p\<rparr>"] Some p c1 j
      by (simp add: vault_ok_def set_phase_drains permit_defs)
    moreover have "vault_ok u 0 (hand_over w c1)" if "u \<noteq> v" for u
      unfolding p(1) by (rule vault_ok_phase [OF o1 [OF that]]) (use j c1 that in auto)
    moreover have "global_ok cap 0 (hand_over w c1)"
      unfolding p(1) by (rule global_ok_phase [OF g1]) (use j c1 p ph in simp_all)
    ultimately show ?thesis by metis
  qed
  then show ?thesis by (simp add: run sems_ok_def)
qed

lemma sems_ok_end:
  assumes ok: "sems_ok cap c" and i: "i < length (ic_drains c)" and q: "phase_at c i = Running op"
  shows "sems_ok cap (drain_end i r c)"
proof -
  define v where "v = dr_vault (ic_drains c ! i)"
  define p where "p = (if r = Report_threw then Rejected else Fulfilled)"
  define d where "d = (ic_drains c ! i)\<lparr>dr_phase := p\<rparr>"
  define c1 where "c1 = drain_leave i r c"
  have c1: "ic_drains c1 = (ic_drains c)[i := d]" "ic_globalSem c1 = ic_globalSem c" "ic_vaultSems c1 = ic_vaultSems c"
      "ic_perVault c1 = ic_perVault c"
    by (simp_all add: c1_def drain_leave_def Let_def p_def d_def set_phase_drains)
  have run: "drain_end i r c = release_vault v (release_global c1)" by (simp add: drain_end_def v_def c1_def)
  have vs: "vaultSem u c1 = vaultSem u c" for u by (rule vaultSem_same) (simp_all add: c1)
  have "global_ok cap 1 c1"
    using global_permits.left [of cap "ic_globalSem c" "ic_drains c" i d] ok i q c1
    by (simp add: sems_ok_def global_ok_def permit_defs phase_at_def d_def p_def)
  moreover have "vault_ok u (if u = v then 1 else 0) c1" for u
  proof (cases "u = v")
    case True
    then show ?thesis
      using vault_permits.left [of "ic_perVault c" v "vaultSem v c" "ic_drains c" i d] ok i q c1 vs
      by (simp add: sems_ok_def vault_ok_def permit_defs phase_at_def d_def p_def v_def)
  next
    case False
    then show ?thesis
      using vault_permits.kept [of "ic_perVault c" 0 u "vaultSem u c" "ic_drains c" i d] ok i c1 vs
      by (simp add: sems_ok_def vault_ok_def permit_defs d_def v_def)
  qed
  ultimately have "global_ok cap 0 (release_global c1) \<and> vault_ok u (if u = v then 1 else 0) (release_global c1)" for u
    by (rule release_global_ok)
  then have "global_ok cap 0 (release_global c1)" "vault_ok v 1 (release_global c1)"
      "\<And>u. u \<noteq> v \<Longrightarrow> vault_ok u 0 (release_global c1)"
    by (metis, metis, metis)
  then show ?thesis unfolding run by (rule release_vault_ok)
qed

lemma sems_ok_cleanup: "sems_ok cap c \<Longrightarrow> i < length (ic_drains c) \<Longrightarrow> sems_ok cap (drain_cleanup i c)"
proof -
  assume ok: "sems_ok cap c" and i: "i < length (ic_drains c)"
  define d where "d = (ic_drains c ! i)\<lparr>dr_cleaned := True\<rparr>"
  define c1 where "c1 = drain_cleanup i c"
  have c1: "ic_drains c1 = (ic_drains c)[i := d]" "ic_globalSem c1 = ic_globalSem c" "ic_vaultSems c1 = ic_vaultSems c"
      "ic_perVault c1 = ic_perVault c"
    by (simp_all add: c1_def drain_cleanup_def Let_def d_def)
  have "vaultSem u c1 = vaultSem u c" for u by (rule vaultSem_same) (simp_all add: c1)
  then have "sems_ok cap c1"
    using ok i c1 unfolding sems_ok_def global_ok_def vault_ok_def
    by (auto simp: d_def permit_defs intro!: global_permits.kept vault_permits.kept)
  then show ?thesis by (simp add: c1_def)
qed

lemma cancel_key_simps [simp]:
  "ic_drains (cancel_key k c) = ic_drains c" "ic_globalSem (cancel_key k c) = ic_globalSem c"
  "ic_vaultSems (cancel_key k c) = ic_vaultSems c" "ic_perVault (cancel_key k c) = ic_perVault c"
  "ic_chain (cancel_key k c) = ic_chain c" "ic_active (cancel_key k c) = ic_active c"
  "ic_vaultActive (cancel_key k c) = ic_vaultActive c" "ic_latest (cancel_key k c) = AList.delete k (ic_latest c)"
  by (simp_all add: cancel_key_def Let_def note_that_def split: option.split)

lemma cancel_keeps: "(\<And>k c. P c \<Longrightarrow> P (cancel_key k c)) \<Longrightarrow> P c \<Longrightarrow> P (snd (cancelOrigin x c))"
proof -
  assume step: "\<And>k c. P c \<Longrightarrow> P (cancel_key k c)"
  have "P c \<Longrightarrow> P (fold cancel_key ks c)" for ks c by (induction ks arbitrary: c) (simp_all add: step)
  then show "P c \<Longrightarrow> P (snd (cancelOrigin x c))" by (simp add: cancelOrigin_def)
qed

subsection \<open>Handing on a permit\<close>

fun granted :: "drain_phase \<Rightarrow> drain_phase" where
  "granted (Vault_waiting x) = Vault_granted x"
| "granted (Global_waiting x) = Global_granted x"
| "granted p = p"

text \<open>Nothing changed but that some waiting drains were granted a permit.\<close>

definition nudged :: "index_coordinator \<Rightarrow> index_coordinator \<Rightarrow> bool" where
  "nudged c c' \<longleftrightarrow> length (ic_drains c') = length (ic_drains c)
     \<and> (\<forall>x. dr_vault (ic_drains c' ! x) = dr_vault (ic_drains c ! x) \<and> dr_path (ic_drains c' ! x) = dr_path (ic_drains c ! x)
          \<and> dr_asked (ic_drains c' ! x) = dr_asked (ic_drains c ! x) \<and> dr_prev (ic_drains c' ! x) = dr_prev (ic_drains c ! x)
          \<and> dr_cleaned (ic_drains c' ! x) = dr_cleaned (ic_drains c ! x)
          \<and> (phase_at c' x = phase_at c x \<or> phase_at c' x = granted (phase_at c x)))
     \<and> ic_chain c' = ic_chain c \<and> ic_latest c' = ic_latest c \<and> ic_log c' = ic_log c
     \<and> ic_active c' = ic_active c \<and> ic_vaultActive c' = ic_vaultActive c"

lemma granted_simps [simp]:
  "granted (granted p) = granted p" "op_of (granted p) = op_of p" "is_running (granted p) = is_running p"
  "done_phase (granted p) = done_phase p" "granted p = Queued \<longleftrightarrow> p = Queued" "granted p = Rejected \<longleftrightarrow> p = Rejected"
  by (cases p; simp add: done_phase_def)+

lemma granted_running: "granted p = Running x \<longleftrightarrow> p = Running x"
  by (cases p) simp_all

lemma nudged_refl: "nudged c c" by (simp add: nudged_def)

lemma nudged_trans: "nudged a b \<Longrightarrow> nudged b c \<Longrightarrow> nudged a c"
  unfolding nudged_def by (metis granted_simps(1))

lemma nudged_grant: "nudged c (hand_over w c)"
proof (cases w)
  case (Some j)
  then show ?thesis by (cases "phase_at c j") (simp_all add: hand_over_def nudged_def)
qed (simp add: hand_over_def nudged_refl)

lemma nudged_releases: "nudged c (release_global c)" "nudged c (release_vault v c)"
proof -
  have "nudged c (c\<lparr>ic_globalSem := s\<rparr>)" "nudged c (c\<lparr>ic_vaultSems := t\<rparr>)" for s t by (simp_all add: nudged_def phase_at_def)
  then show "nudged c (release_global c)" "nudged c (release_vault v c)"
    using nudged_trans nudged_grant unfolding release_global_def release_vault_def by (auto split: prod.split) blast+
qed

lemma nudged_queued: "nudged c c' \<Longrightarrow> phase_at c' x = Queued \<longleftrightarrow> phase_at c x = Queued"
  unfolding nudged_def by (metis granted_simps(5))

lemma nudged_end: "nudged (drain_leave i r c) (drain_end i r c)"
  unfolding drain_end_def by (meson nudged_releases nudged_trans)

lemma nudged_keys: "nudged c c' \<Longrightarrow> key_at c' = key_at c"
  by (simp add: nudged_def key_at_def fun_eq_iff)

lemma leave_simps [simp]:
  "ic_chain (drain_leave i r c) = ic_chain c" "ic_latest (drain_leave i r c) = ic_latest c"
  "ic_drains (drain_leave i r c) = ic_drains (set_phase i (if r = Report_threw then Rejected else Fulfilled) c)"
  by (simp_all add: drain_leave_def Let_def set_phase_drains)

lemma leave_reads [simp]:
  "phase_at (drain_leave i r c) = phase_at (set_phase i (if r = Report_threw then Rejected else Fulfilled) c)"
  "key_at (drain_leave i r c) = key_at c"
  using phase_at_same [OF leave_simps(3)] by (simp_all add: fun_eq_iff)

subsection \<open>How many handlers run\<close>

definition runs :: "drain \<Rightarrow> bool" where "runs d \<longleftrightarrow> is_running (dr_phase d)"

definition active_ok :: "index_coordinator \<Rightarrow> bool" where
  "active_ok c \<longleftrightarrow> ic_active c = cnt runs (ic_drains c)
     \<and> (\<forall>v. vault_active v c = cnt (\<lambda>d. dr_vault d = v \<and> runs d) (ic_drains c))"

lemma cnt_those: "cnt P xs = card (those P xs)"
  by (simp add: cnt_def those_def length_filter_conv_card)

lemma cnt_cong:
  "length ys = length xs \<Longrightarrow> (\<And>i. i < length xs \<Longrightarrow> P (ys ! i) = P (xs ! i)) \<Longrightarrow> cnt P ys = cnt P xs"
  unfolding cnt_those by (rule arg_cong [where f = card]) (auto simp: those_def)

lemma nudged_runs: "nudged c c' \<Longrightarrow> runs (ic_drains c' ! x) = runs (ic_drains c ! x)"
  unfolding nudged_def runs_def phase_at_def by (metis granted_simps(3))

lemma active_ok_nudged: "active_ok c \<Longrightarrow> nudged c c' \<Longrightarrow> active_ok c'"
proof -
  assume ok: "active_ok c" and n: "nudged c c'"
  have len: "length (ic_drains c') = length (ic_drains c)" and
    same: "ic_active c' = ic_active c" "ic_vaultActive c' = ic_vaultActive c"
      "dr_vault (ic_drains c' ! x) = dr_vault (ic_drains c ! x)" for x using n by (simp_all add: nudged_def)
  have "cnt runs (ic_drains c') = cnt runs (ic_drains c)" by (rule cnt_cong [OF len]) (rule nudged_runs [OF n])
  moreover have "cnt (\<lambda>d. dr_vault d = v \<and> runs d) (ic_drains c') = cnt (\<lambda>d. dr_vault d = v \<and> runs d) (ic_drains c)" for v
    by (rule cnt_cong [OF len]) (simp add: nudged_runs [OF n] same)
  ultimately show ?thesis using ok same by (simp add: active_ok_def vault_active_def)
qed

text \<open>A phase that changes without starting or ending a handler.\<close>

lemma active_ok_phase:
  assumes "active_ok c" "i < length (ic_drains c)" "is_running p = is_running (phase_at c i)"
    "ic_drains c' = ic_drains (set_phase i p c)" "ic_active c' = ic_active c" "ic_vaultActive c' = ic_vaultActive c"
  shows "active_ok c'"
proof -
  have r: "runs (ic_drains c' ! x) = runs (ic_drains c ! x)" for x
    using assms(2,3,4) by (simp add: runs_def set_phase_nth phase_at_def)
  have "cnt runs (ic_drains c') = cnt runs (ic_drains c)" by (rule cnt_cong) (simp_all add: r assms(4) [symmetric], simp add: assms(4))
  moreover have "cnt (\<lambda>d. dr_vault d = v \<and> runs d) (ic_drains c') = cnt (\<lambda>d. dr_vault d = v \<and> runs d) (ic_drains c)" for v
    by (rule cnt_cong) (simp_all add: r, simp_all add: assms(4))
  ultimately show ?thesis using assms(1,5,6) by (simp add: active_ok_def vault_active_def)
qed

lemma active_ok_call:
  assumes ok: "active_ok c" and i: "i < length (ic_drains c)" and q: "phase_at c i = Global_granted op"
  shows "active_ok (drain_call i op c)"
proof -
  define v where "v = dr_vault (ic_drains c ! i)"
  define c' where "c' = drain_call i op c"
  define d where "d = (ic_drains c ! i)\<lparr>dr_phase := Running op\<rparr>"
  have c': "ic_drains c' = (ic_drains c)[i := d]" "ic_active c' = Suc (ic_active c)"
      "vault_active u c' = vault_active u c + (if u = v then 1 else 0)" for u
    by (auto simp: c'_def drain_call_def Let_def v_def d_def set_phase_drains vault_active_def update_conv')
  have r: "\<not> runs (ic_drains c ! i)" "runs d" "dr_vault d = v" using q by (simp_all add: runs_def phase_at_def d_def v_def)
  have "cnt runs (ic_drains c') = Suc (cnt runs (ic_drains c))"
    using cnt_update [OF i, of runs d] r c' by simp
  moreover have "cnt (\<lambda>d. dr_vault d = u \<and> runs d) (ic_drains c') = cnt (\<lambda>d. dr_vault d = u \<and> runs d) (ic_drains c) + (if u = v then 1 else 0)" for u
    using cnt_update [OF i, of "\<lambda>d. dr_vault d = u \<and> runs d" d] r c' by (auto split: if_splits)
  ultimately show ?thesis using ok c' unfolding c'_def [symmetric] active_ok_def by simp
qed

lemma active_ok_leave:
  assumes ok: "active_ok c" and i: "i < length (ic_drains c)" and q: "phase_at c i = Running op"
  shows "active_ok (drain_leave i r c)"
proof -
  define v where "v = dr_vault (ic_drains c ! i)"
  define c' where "c' = drain_leave i r c"
  define d where "d = (ic_drains c ! i)\<lparr>dr_phase := if r = Report_threw then Rejected else Fulfilled\<rparr>"
  have c': "ic_drains c' = (ic_drains c)[i := d]" "ic_active c' = ic_active c - 1"
      "vault_active u c' = vault_active u c - (if u = v then 1 else 0)" for u
    by (auto simp: c'_def d_def v_def set_phase_drains) (auto simp: drain_leave_def Let_def vault_active_def update_conv' delete_conv')
  have r: "runs (ic_drains c ! i)" "\<not> runs d" "dr_vault d = v" using q by (simp_all add: runs_def phase_at_def d_def v_def)
  have "cnt runs (ic_drains c) = Suc (cnt runs (ic_drains c'))"
    using cnt_update [OF i, of runs d] r c' by simp
  moreover have "cnt (\<lambda>d. dr_vault d = u \<and> runs d) (ic_drains c) = cnt (\<lambda>d. dr_vault d = u \<and> runs d) (ic_drains c') + (if u = v then 1 else 0)" for u
    using cnt_update [OF i, of "\<lambda>d. dr_vault d = u \<and> runs d" d] r c' v_def by (auto split: if_splits)
  ultimately show ?thesis using ok c' unfolding c'_def [symmetric] active_ok_def by simp
qed

subsection \<open>The drains of a note, one after the other\<close>

definition serial :: "index_coordinator \<Rightarrow> bool" where
  "serial c \<longleftrightarrow> (\<forall>j < length (ic_drains c). \<forall>i < j. key_at c i = key_at c j \<longrightarrow> phase_at c j \<noteq> Queued
     \<longrightarrow> done_phase (phase_at c i))"

text \<open>A promise is chained behind the note's last drain, unless all of them were done.\<close>

definition linked :: "index_coordinator \<Rightarrow> bool" where
  "linked c \<longleftrightarrow> (\<forall>j < length (ic_drains c). case dr_prev (ic_drains c ! j) of
      None \<Rightarrow> (\<forall>i < j. key_at c i = key_at c j \<longrightarrow> done_phase (phase_at c i))
    | Some p \<Rightarrow> p < j \<and> key_at c p = key_at c j \<and> (\<forall>i < j. key_at c i = key_at c j \<longrightarrow> i \<le> p))"

definition chained :: "index_coordinator \<Rightarrow> bool" where
  "chained c \<longleftrightarrow> (\<forall>k. case map_of (ic_chain c) k of
      None \<Rightarrow> (\<forall>i < length (ic_drains c). key_at c i = k \<longrightarrow> done_phase (phase_at c i))
    | Some p \<Rightarrow> p < length (ic_drains c) \<and> key_at c p = k \<and> \<not> dr_cleaned (ic_drains c ! p)
        \<and> (\<forall>i < length (ic_drains c). key_at c i = k \<longrightarrow> i \<le> p))"

definition order_ok :: "index_coordinator \<Rightarrow> bool" where
  "order_ok c \<longleftrightarrow> serial c \<and> linked c \<and> chained c"

lemma serialD: "serial c \<Longrightarrow> j < length (ic_drains c) \<Longrightarrow> i < j \<Longrightarrow> key_at c i = key_at c j \<Longrightarrow> phase_at c j \<noteq> Queued
    \<Longrightarrow> done_phase (phase_at c i)"
  by (simp add: serial_def)

text \<open>Of two drains of a note at most one is at work.\<close>

lemma serial_unique:
  assumes "serial c" "i < length (ic_drains c)" "j < length (ic_drains c)" "key_at c i = key_at c j"
    "phase_at c i \<noteq> Queued" "\<not> done_phase (phase_at c i)" "phase_at c j \<noteq> Queued" "\<not> done_phase (phase_at c j)"
  shows "i = j"
  using serialD [OF assms(1,3), of i] serialD [OF assms(1,2), of j] assms by (metis linorder_neqE_nat)

text \<open>Later: what is done stays done, and what has begun stays begun.\<close>

definition later :: "index_coordinator \<Rightarrow> index_coordinator \<Rightarrow> bool" where
  "later c c' \<longleftrightarrow> length (ic_drains c') = length (ic_drains c) \<and> key_at c' = key_at c
     \<and> (\<forall>x. dr_prev (ic_drains c' ! x) = dr_prev (ic_drains c ! x))
     \<and> (\<forall>x < length (ic_drains c). (done_phase (phase_at c x) \<longrightarrow> done_phase (phase_at c' x))
          \<and> (phase_at c x \<noteq> Queued \<longrightarrow> phase_at c' x \<noteq> Queued))"

lemma later_trans: "later a b \<Longrightarrow> later b c \<Longrightarrow> later a c"
  by (simp add: later_def)

lemma later_nudged: "nudged c c' \<Longrightarrow> later c c'"
  unfolding later_def using nudged_keys by (auto simp: nudged_def) (metis granted_simps(4), metis granted_simps(5))

lemma later_phase: "phase_at c i \<noteq> p \<Longrightarrow> \<not> done_phase (phase_at c i) \<Longrightarrow> p \<noteq> Queued \<Longrightarrow> later c (set_phase i p c)"
  by (simp add: later_def fun_eq_iff)

lemma later_same: "ic_drains c' = ic_drains c \<Longrightarrow> later c c'"
  using phase_at_same [of c' c] by (simp add: later_def)

lemma linked_later:
  assumes "linked c" "later c c'" shows "linked c'"
  unfolding linked_def
proof (intro allI impI)
  fix j assume j: "j < length (ic_drains c')"
  then have jc: "j < length (ic_drains c)" and l: "key_at c' = key_at c" "dr_prev (ic_drains c' ! j) = dr_prev (ic_drains c ! j)"
    and d: "\<And>x. x < length (ic_drains c) \<Longrightarrow> done_phase (phase_at c x) \<Longrightarrow> done_phase (phase_at c' x)"
    using assms(2) by (simp_all add: later_def)
  show "case dr_prev (ic_drains c' ! j) of
      None \<Rightarrow> (\<forall>i < j. key_at c' i = key_at c' j \<longrightarrow> done_phase (phase_at c' i))
    | Some p \<Rightarrow> p < j \<and> key_at c' p = key_at c' j \<and> (\<forall>i < j. key_at c' i = key_at c' j \<longrightarrow> i \<le> p)"
    using assms(1) jc d l by (fastforce simp: linked_def split: option.splits)
qed

lemma chained_later:
  assumes "chained c" "later c c'" "ic_chain c' = ic_chain c" "\<And>x. dr_cleaned (ic_drains c' ! x) = dr_cleaned (ic_drains c ! x)"
  shows "chained c'"
  unfolding chained_def
proof
  fix k
  have l: "key_at c' = key_at c" "length (ic_drains c') = length (ic_drains c)"
    and d: "\<And>x. x < length (ic_drains c) \<Longrightarrow> done_phase (phase_at c x) \<Longrightarrow> done_phase (phase_at c' x)"
    using assms(2) by (simp_all add: later_def)
  have "case map_of (ic_chain c) k of
      None \<Rightarrow> (\<forall>i < length (ic_drains c). key_at c i = k \<longrightarrow> done_phase (phase_at c i))
    | Some p \<Rightarrow> p < length (ic_drains c) \<and> key_at c p = k \<and> \<not> dr_cleaned (ic_drains c ! p)
        \<and> (\<forall>i < length (ic_drains c). key_at c i = k \<longrightarrow> i \<le> p)" using assms(1) by (simp add: chained_def)
  then show "case map_of (ic_chain c') k of
      None \<Rightarrow> (\<forall>i < length (ic_drains c'). key_at c' i = k \<longrightarrow> done_phase (phase_at c' i))
    | Some p \<Rightarrow> p < length (ic_drains c') \<and> key_at c' p = k \<and> \<not> dr_cleaned (ic_drains c' ! p)
        \<and> (\<forall>i < length (ic_drains c'). key_at c' i = k \<longrightarrow> i \<le> p)"
    using assms(3,4) l d by (auto split: option.splits)
qed

lemma serial_later:
  assumes "serial c" "later c c'"
    "\<And>x. x < length (ic_drains c) \<Longrightarrow> phase_at c x = Queued \<Longrightarrow> phase_at c' x \<noteq> Queued
      \<Longrightarrow> \<forall>i < x. key_at c i = key_at c x \<longrightarrow> done_phase (phase_at c i)"
  shows "serial c'"
  unfolding serial_def
proof (intro allI impI)
  fix j i assume a: "j < length (ic_drains c')" "i < j" "key_at c' i = key_at c' j" "phase_at c' j \<noteq> Queued"
  have l: "key_at c' = key_at c" "length (ic_drains c') = length (ic_drains c)"
    and d: "\<And>x. x < length (ic_drains c) \<Longrightarrow> done_phase (phase_at c x) \<Longrightarrow> done_phase (phase_at c' x)"
    using assms(2) by (simp_all add: later_def)
  have "done_phase (phase_at c i)"
  proof (cases "phase_at c j = Queued")
    case True then show ?thesis using assms(3) [of j] a l by auto
  next
    case False then show ?thesis using serialD [OF assms(1), of j i] a l by auto
  qed
  then show "done_phase (phase_at c' i)" using d [of i] a l by simp
qed

text \<open>A drain whose turn it is comes after everything before it on its note.\<close>

lemma turn_free:
  assumes "order_ok c" "j < length (ic_drains c)"
    "case dr_prev (ic_drains c ! j) of None \<Rightarrow> True | Some p \<Rightarrow> done_phase (phase_at c p)"
  shows "\<forall>i < j. key_at c i = key_at c j \<longrightarrow> done_phase (phase_at c i)"
proof (cases "dr_prev (ic_drains c ! j)")
  case None
  then show ?thesis using assms(1,2) by (fastforce simp: order_ok_def linked_def split: option.splits)
next
  case (Some p)
  have p: "p < j" "key_at c p = key_at c j" "\<forall>i < j. key_at c i = key_at c j \<longrightarrow> i \<le> p"
    using assms(1,2) Some by (fastforce simp: order_ok_def linked_def split: option.splits)+
  have d: "done_phase (phase_at c p)" using assms(3) Some by simp
  then have "phase_at c p \<noteq> Queued" by (auto simp: done_phase_def)
  then have "done_phase (phase_at c i)" if "i < p" "key_at c i = key_at c p" for i
    using serialD [of c p i] assms(1,2) p(1) that by (simp add: order_ok_def)
  then show ?thesis using p d by (metis le_neq_implies_less)
qed

lemma order_ok_later:
  assumes "order_ok c" "later c c'" "ic_chain c' = ic_chain c" "\<And>x. dr_cleaned (ic_drains c' ! x) = dr_cleaned (ic_drains c ! x)"
    "\<And>x. x < length (ic_drains c) \<Longrightarrow> phase_at c x = Queued \<Longrightarrow> phase_at c' x \<noteq> Queued
      \<Longrightarrow> \<forall>i < x. key_at c i = key_at c x \<longrightarrow> done_phase (phase_at c i)"
  shows "order_ok c'"
  using assms linked_later chained_later serial_later unfolding order_ok_def by blast

lemma order_ok_new: "order_ok (new_coordinator g p q)"
  by (simp add: order_ok_def serial_def linked_def chained_def new_coordinator_def)

lemma submit_reads:
  "i < length (ic_drains c) \<Longrightarrow> ic_drains (submit_op v p op x c) ! i = ic_drains c ! i"
  "i < length (ic_drains c) \<Longrightarrow> key_at (submit_op v p op x c) i = key_at c i"
  "i < length (ic_drains c) \<Longrightarrow> phase_at (submit_op v p op x c) i = phase_at c i"
  "key_at (submit_op v p op x c) (length (ic_drains c)) = coord_key v p"
  "phase_at (submit_op v p op x c) (length (ic_drains c)) = Queued"
  by (simp_all add: key_at_def phase_at_def nth_append)

lemma order_ok_submit:
  assumes "order_ok c" shows "order_ok (submit_op v p op x c)"
proof -
  define c' where "c' = submit_op v p op x c"
  define n where "n = length (ic_drains c)"
  define k where "k = coord_key v p"
  have len: "length (ic_drains c') = Suc n" by (simp add: c'_def n_def)
  have old: "key_at c' i = key_at c i" "phase_at c' i = phase_at c i" "ic_drains c' ! i = ic_drains c ! i" if "i < n" for i
    using that submit_reads(1-3) [of i c v p op x] by (simp_all add: c'_def n_def)
  have new: "key_at c' n = k" "phase_at c' n = Queued" "dr_prev (ic_drains c' ! n) = map_of (ic_chain c) k"
      "\<not> dr_cleaned (ic_drains c' ! n)"
    using submit_reads(4,5) [where v = v and p = p and op = op and x = x and c = c]
    by (simp_all add: c'_def n_def k_def)
  have chain: "map_of (ic_chain c') k' = (if k' = k then Some n else map_of (ic_chain c) k')" for k'
    by (simp add: c'_def n_def k_def update_conv')
  have "serial c'" unfolding serial_def len
  proof (intro allI impI)
    fix j i assume a: "j < Suc n" "i < j" "key_at c' i = key_at c' j" "phase_at c' j \<noteq> Queued"
    then have "j < n" using new by (metis less_SucE)
    then show "done_phase (phase_at c' i)"
      using serialD [of c j i] assms a old(1,2) by (simp add: order_ok_def n_def)
  qed
  moreover have "linked c'" unfolding linked_def len
  proof (intro allI impI)
    fix j assume "j < Suc n"
    show "case dr_prev (ic_drains c' ! j) of
        None \<Rightarrow> (\<forall>i < j. key_at c' i = key_at c' j \<longrightarrow> done_phase (phase_at c' i))
      | Some p \<Rightarrow> p < j \<and> key_at c' p = key_at c' j \<and> (\<forall>i < j. key_at c' i = key_at c' j \<longrightarrow> i \<le> p)"
    proof (cases "j < n")
      case True
      have "case dr_prev (ic_drains c ! j) of
        None \<Rightarrow> (\<forall>i < j. key_at c i = key_at c j \<longrightarrow> done_phase (phase_at c i))
      | Some p \<Rightarrow> p < j \<and> key_at c p = key_at c j \<and> (\<forall>i < j. key_at c i = key_at c j \<longrightarrow> i \<le> p)"
        using assms True by (simp add: order_ok_def linked_def n_def)
      then show ?thesis using True old by (auto split: option.splits)
    next
      case False
      then have j: "j = n" using \<open>j < Suc n\<close> by simp
      have "case map_of (ic_chain c) k of
          None \<Rightarrow> (\<forall>i < n. key_at c i = k \<longrightarrow> done_phase (phase_at c i))
        | Some p \<Rightarrow> p < n \<and> key_at c p = k \<and> \<not> dr_cleaned (ic_drains c ! p) \<and> (\<forall>i < n. key_at c i = k \<longrightarrow> i \<le> p)"
        using assms unfolding n_def order_ok_def chained_def by blast
      then show ?thesis using old new unfolding j by (auto split: option.splits)
    qed
  qed
  moreover have "chained c'" unfolding chained_def len
  proof
    fix k'
    show "case map_of (ic_chain c') k' of
        None \<Rightarrow> (\<forall>i < Suc n. key_at c' i = k' \<longrightarrow> done_phase (phase_at c' i))
      | Some p \<Rightarrow> p < Suc n \<and> key_at c' p = k' \<and> \<not> dr_cleaned (ic_drains c' ! p)
          \<and> (\<forall>i < Suc n. key_at c' i = k' \<longrightarrow> i \<le> p)"
    proof (cases "k' = k")
      case True then show ?thesis using chain new by simp
    next
      case False
      have "case map_of (ic_chain c) k' of
          None \<Rightarrow> (\<forall>i < n. key_at c i = k' \<longrightarrow> done_phase (phase_at c i))
        | Some p \<Rightarrow> p < n \<and> key_at c p = k' \<and> \<not> dr_cleaned (ic_drains c ! p) \<and> (\<forall>i < n. key_at c i = k' \<longrightarrow> i \<le> p)"
        using assms unfolding n_def order_ok_def chained_def by blast
      then show ?thesis using False chain old new by (auto simp: less_Suc_eq split: option.splits)
    qed
  qed
  ultimately show ?thesis by (simp add: order_ok_def c'_def)
qed

subsection \<open>Every step keeps them\<close>

text \<open>What the steps of one drain do, as far as phases and the history go.\<close>

lemma begin_view:
  obtains p where "ic_drains (drain_begin i c) = ic_drains (set_phase i p c)" "ic_chain (drain_begin i c) = ic_chain c"
    "ic_log (drain_begin i c) = ic_log c" "ic_active (drain_begin i c) = ic_active c"
    "ic_vaultActive (drain_begin i c) = ic_vaultActive c" "p \<noteq> Queued" "p \<noteq> Rejected" "\<not> is_running p"
    "op_of p = map_of (ic_latest c) (key_at c i)" "ic_latest (drain_begin i c) = AList.delete (key_at c i) (ic_latest c)"
proof (cases "map_of (ic_latest c) (key_at c i)")
  case None
  then have "AList.delete (key_at c i) (ic_latest c) = ic_latest c" by (simp add: map_of_eq_None_iff delete_idem)
  then show ?thesis using that [of Fulfilled] None by (simp add: drain_begin_def)
next
  case (Some op)
  obtain got s where "sem_acquire i (vaultSem (dr_vault (ic_drains c ! i)) c) = (got, s)"
    by (cases "sem_acquire i (vaultSem (dr_vault (ic_drains c ! i)) c)")
  then show ?thesis
    using that [of "if got then Vault_granted op else Vault_waiting op"] Some
    by (simp add: drain_begin_def Let_def set_phase_drains)
qed

lemma global_view:
  obtains p where "ic_drains (drain_global i op c) = ic_drains (set_phase i p c)" "ic_chain (drain_global i op c) = ic_chain c"
    "ic_log (drain_global i op c) = ic_log c" "ic_active (drain_global i op c) = ic_active c"
    "ic_vaultActive (drain_global i op c) = ic_vaultActive c" "p = Global_granted op \<or> p = Global_waiting op"
    "ic_latest (drain_global i op c) = ic_latest c"
proof -
  obtain got s where "sem_acquire i (ic_globalSem c) = (got, s)" by (cases "sem_acquire i (ic_globalSem c)")
  then show ?thesis
    using that [of "if got then Global_granted op else Global_waiting op"] by (simp add: drain_global_def set_phase_drains)
qed

lemma call_view:
  "ic_drains (drain_call i op c) = ic_drains (set_phase i (Running op) c)" "ic_chain (drain_call i op c) = ic_chain c"
  "ic_log (drain_call i op c) = ic_log c @ [Called (dr_vault (ic_drains c ! i)) (dr_path (ic_drains c ! i)) op]"
  "ic_latest (drain_call i op c) = ic_latest c"
  by (simp_all add: drain_call_def Let_def set_phase_drains)

lemma cleanup_view:
  "length (ic_drains (drain_cleanup i c)) = length (ic_drains c)" "phase_at (drain_cleanup i c) = phase_at c"
  "key_at (drain_cleanup i c) = key_at c" "dr_prev (ic_drains (drain_cleanup i c) ! x) = dr_prev (ic_drains c ! x)"
  "dr_asked (ic_drains (drain_cleanup i c) ! x) = dr_asked (ic_drains c ! x)"
  "dr_vault (ic_drains (drain_cleanup i c) ! x) = dr_vault (ic_drains c ! x)"
  "dr_path (ic_drains (drain_cleanup i c) ! x) = dr_path (ic_drains c ! x)"
  "dr_cleaned (ic_drains (drain_cleanup i c) ! x) =
     (if x = i \<and> i < length (ic_drains c) then True else dr_cleaned (ic_drains c ! x))"
  "ic_latest (drain_cleanup i c) = ic_latest c" "ic_active (drain_cleanup i c) = ic_active c"
  "ic_vaultActive (drain_cleanup i c) = ic_vaultActive c"
  "ic_chain (drain_cleanup i c) =
     (if map_of (ic_chain c) (key_at c i) = Some i then AList.delete (key_at c i) (ic_chain c) else ic_chain c)"
proof -
  define d where "d = (ic_drains c ! i)\<lparr>dr_cleaned := True\<rparr>"
  have ds: "ic_drains (drain_cleanup i c) = (ic_drains c)[i := d]" by (simp add: drain_cleanup_def Let_def d_def)
  have n: "(ic_drains c)[i := d] ! y = (if y = i \<and> i < length (ic_drains c) then d else ic_drains c ! y)" for y
    by (cases "i < length (ic_drains c)") (auto simp: nth_list_update list_update_beyond)
  have d: "dr_phase d = dr_phase (ic_drains c ! i)" "dr_vault d = dr_vault (ic_drains c ! i)" "dr_path d = dr_path (ic_drains c ! i)"
    "dr_prev d = dr_prev (ic_drains c ! i)" "dr_asked d = dr_asked (ic_drains c ! i)" "dr_cleaned d"
    by (simp_all add: d_def)
  show "length (ic_drains (drain_cleanup i c)) = length (ic_drains c)" by (simp add: ds)
  show "phase_at (drain_cleanup i c) = phase_at c" "key_at (drain_cleanup i c) = key_at c"
    by (simp_all add: fun_eq_iff phase_at_def key_at_def ds n d)
  show "dr_prev (ic_drains (drain_cleanup i c) ! x) = dr_prev (ic_drains c ! x)"
    "dr_asked (ic_drains (drain_cleanup i c) ! x) = dr_asked (ic_drains c ! x)"
    "dr_vault (ic_drains (drain_cleanup i c) ! x) = dr_vault (ic_drains c ! x)"
    "dr_path (ic_drains (drain_cleanup i c) ! x) = dr_path (ic_drains c ! x)"
    "dr_cleaned (ic_drains (drain_cleanup i c) ! x) =
       (if x = i \<and> i < length (ic_drains c) then True else dr_cleaned (ic_drains c ! x))"
    by (simp_all add: ds n d)
qed (simp_all add: drain_cleanup_def Let_def)

lemma order_ok_phase:
  assumes "order_ok c" "i < length (ic_drains c)" "ic_drains c' = ic_drains (set_phase i p c)" "ic_chain c' = ic_chain c"
    "p \<noteq> Queued" "\<not> done_phase (phase_at c i)"
    "phase_at c i = Queued \<Longrightarrow> case dr_prev (ic_drains c ! i) of None \<Rightarrow> True | Some q \<Rightarrow> done_phase (phase_at c q)"
  shows "order_ok c'"
proof -
  have same: "phase_at c' = phase_at (set_phase i p c)" "key_at c' = key_at (set_phase i p c)"
    using phase_at_same [OF assms(3)] by simp_all
  have l: "later c c'"
    using assms(5,6) by (simp add: later_def same assms(3) fun_eq_iff)
  show ?thesis
  proof (rule order_ok_later [OF assms(1) l assms(4)])
    fix x assume "x < length (ic_drains c)" "phase_at c x = Queued" "phase_at c' x \<noteq> Queued"
    then have "x = i" by (simp add: same split: if_splits)
    then show "\<forall>i < x. key_at c i = key_at c x \<longrightarrow> done_phase (phase_at c i)"
      using turn_free [OF assms(1,2) assms(7)] \<open>phase_at c x = Queued\<close> by simp
  qed (simp add: assms(3))
qed

lemma order_ok_nudged: assumes "order_ok c" "nudged c c'" shows "order_ok c'"
  by (rule order_ok_later [OF assms(1) later_nudged [OF assms(2)]])
    (use assms(2) nudged_queued [OF assms(2)] in \<open>auto simp: nudged_def\<close>)

lemma order_ok_cleanup:
  assumes ok: "order_ok c" and i: "i < length (ic_drains c)" and q: "done_phase (phase_at c i)"
  shows "order_ok (drain_cleanup i c)"
proof -
  define c' where "c' = drain_cleanup i c"
  note v = cleanup_view [of i c, folded c'_def]
  have "later c c'" by (simp add: later_def v)
  then have "serial c'" "linked c'"
    using ok serial_later [of c c'] linked_later [of c c'] by (auto simp: order_ok_def v)
  moreover have "chained c'" unfolding chained_def
  proof
    fix k
    have old: "case map_of (ic_chain c) k of
        None \<Rightarrow> (\<forall>i < length (ic_drains c). key_at c i = k \<longrightarrow> done_phase (phase_at c i))
      | Some p \<Rightarrow> p < length (ic_drains c) \<and> key_at c p = k \<and> \<not> dr_cleaned (ic_drains c ! p)
          \<and> (\<forall>i < length (ic_drains c). key_at c i = k \<longrightarrow> i \<le> p)"
      using ok unfolding order_ok_def chained_def by blast
    show "case map_of (ic_chain c') k of
        None \<Rightarrow> (\<forall>i < length (ic_drains c'). key_at c' i = k \<longrightarrow> done_phase (phase_at c' i))
      | Some p \<Rightarrow> p < length (ic_drains c') \<and> key_at c' p = k \<and> \<not> dr_cleaned (ic_drains c' ! p)
          \<and> (\<forall>i < length (ic_drains c'). key_at c' i = k \<longrightarrow> i \<le> p)"
    proof (cases "k = key_at c i \<and> map_of (ic_chain c) k = Some i")
      case True
      have "phase_at c i \<noteq> Queued" using q by (auto simp: done_phase_def)
      then have "done_phase (phase_at c x)" if "x < length (ic_drains c)" "key_at c x = k" for x
      proof (cases "x = i")
        case False
        then have "x < i" using old True that by fastforce
        then show ?thesis using serialD [of c i x] \<open>phase_at c i \<noteq> Queued\<close> ok i True that by (simp add: order_ok_def)
      qed (simp add: q)
      moreover have "map_of (ic_chain c') k = None" using True by (auto simp: v delete_conv')
      ultimately show ?thesis by (simp add: v)
    next
      case False
      have chain: "map_of (ic_chain c') k = map_of (ic_chain c) k" using False by (auto simp: v delete_conv')
      show ?thesis
      proof (cases "map_of (ic_chain c) k")
        case None
        then show ?thesis using old chain v by simp
      next
        case (Some p)
        then have "p \<noteq> i" using old False by auto
        then show ?thesis using old chain v Some by simp
      qed
    qed
  qed
  ultimately show ?thesis by (simp add: order_ok_def c'_def)
qed

lemma order_ok_same: "order_ok c \<Longrightarrow> ic_drains c' = ic_drains c \<Longrightarrow> ic_chain c' = ic_chain c \<Longrightarrow> order_ok c'"
  using phase_at_same [of c' c] by (auto intro: order_ok_later later_same)

text \<open>Every accepted step is one of these.\<close>

lemma coord_step_cases [consumes 1, case_names Submit Begin Refuse Global Call End Cleanup Cancel]:
  assumes "coord_step e c = Some c'"
  obtains v p op x where "e = Submit v p op x" "c' = submit_op v p op x c"
  | i where "e = Turn i" "i < length (ic_drains c)" "phase_at c i = Queued" "c' = drain_begin i c"
      "case dr_prev (ic_drains c ! i) of None \<Rightarrow> True | Some q \<Rightarrow> phase_at c q = Fulfilled"
  | i j where "e = Turn i" "i < length (ic_drains c)" "phase_at c i = Queued" "c' = set_phase i Rejected c"
      "dr_prev (ic_drains c ! i) = Some j" "phase_at c j = Rejected"
  | i op where "e = Vault_resumes i" "i < length (ic_drains c)" "phase_at c i = Vault_granted op" "c' = drain_global i op c"
  | i op where "e = Global_resumes i" "i < length (ic_drains c)" "phase_at c i = Global_granted op" "c' = drain_call i op c"
  | i r op where "e = Handler_ends i r" "i < length (ic_drains c)" "phase_at c i = Running op" "c' = drain_end i r c"
  | i where "e = Cleanup i" "i < length (ic_drains c)" "done_phase (phase_at c i)" "\<not> dr_cleaned (ic_drains c ! i)"
      "c' = drain_cleanup i c"
  | x where "e = Cancel x" "c' = snd (cancelOrigin x c)"
proof (cases e)
  case (Turn i)
  then have i: "i < length (ic_drains c)" "take_turn i c = Some c'" using assms by (auto split: if_splits)
  then have q: "phase_at c i = Queued" by (auto simp: take_turn_def split: if_splits)
  show ?thesis
  proof (cases "dr_prev (ic_drains c ! i)")
    case None
    then show ?thesis using that(2) [OF Turn i(1) q] i(2) q by (simp add: take_turn_def)
  next
    case (Some j)
    then show ?thesis
      using that(2) [OF Turn i(1) q] that(3) [OF Turn i(1) q _ Some] i(2) q
      by (cases "phase_at c j") (simp_all add: take_turn_def)
  qed
next
  case (Vault_resumes i)
  then show ?thesis using assms that(4) [OF Vault_resumes] by (auto split: if_splits drain_phase.splits)
next
  case (Global_resumes i)
  then show ?thesis using assms that(5) [OF Global_resumes] by (auto split: if_splits drain_phase.splits)
next
  case (Handler_ends i r)
  then show ?thesis using assms that(6) [OF Handler_ends] by (auto split: if_splits drain_phase.splits)
qed (use assms that(1,7,8) in \<open>auto split: if_splits\<close>)

lemma done_phases [simp]: "done_phase Fulfilled" "done_phase Rejected" "\<not> done_phase Queued"
  "\<not> done_phase (Vault_waiting y)" "\<not> done_phase (Vault_granted y)" "\<not> done_phase (Global_waiting y)"
  "\<not> done_phase (Global_granted y)" "\<not> done_phase (Running y)"
  by (simp_all add: done_phase_def)

definition coord_ok :: "nat \<Rightarrow> index_coordinator \<Rightarrow> bool" where
  "coord_ok cap c \<longleftrightarrow> sems_ok cap c \<and> active_ok c \<and> order_ok c"

lemma coord_ok_new: "coord_ok (at_least_1 g 8) (new_coordinator g p q)"
  using sems_ok_new order_ok_new by (simp add: coord_ok_def active_ok_def new_coordinator_def vault_active_def)

lemma coord_ok_step:
  assumes "coord_step e c = Some c'" "coord_ok cap c" shows "coord_ok cap c'"
proof -
  have ok: "sems_ok cap c" "active_ok c" "order_ok c" using assms(2) by (simp_all add: coord_ok_def)
  from assms(1) show ?thesis
  proof (cases rule: coord_step_cases)
    case (Submit v p op x)
    have "active_ok c'"
      using ok(2) by (simp add: Submit active_ok_def vault_active_def runs_def)
    then show ?thesis using ok sems_ok_submit order_ok_submit by (simp add: coord_ok_def Submit(2))
  next
    case (Begin i)
    have d: "case dr_prev (ic_drains c ! i) of None \<Rightarrow> True | Some q \<Rightarrow> done_phase (phase_at c q)"
      using Begin(5) by (auto split: option.splits)
    obtain p where p: "ic_drains c' = ic_drains (set_phase i p c)" "ic_chain c' = ic_chain c"
        "ic_active c' = ic_active c" "ic_vaultActive c' = ic_vaultActive c" "p \<noteq> Queued" "\<not> is_running p"
      using begin_view [of i c] Begin(4) by metis
    have "active_ok c'" by (rule active_ok_phase [OF ok(2) Begin(2) _ p(1,3,4)]) (use p(6) Begin(3) in simp)
    moreover have "order_ok c'" by (rule order_ok_phase [OF ok(3) Begin(2) p(1,2,5)]) (use Begin(3) d in simp_all)
    ultimately show ?thesis using sems_ok_begin [OF ok(1) Begin(2,3)] by (simp add: coord_ok_def Begin(4))
  next
    case (Refuse i j)
    have "sems_ok cap c'" unfolding Refuse(4) by (rule sems_ok_phase [OF ok(1) Refuse(2)]) (simp_all add: Refuse(3))
    moreover have "active_ok c'" unfolding Refuse(4) by (rule active_ok_phase [OF ok(2) Refuse(2)]) (simp_all add: Refuse(3))
    moreover have "order_ok c'"
      using order_ok_phase [OF ok(3) Refuse(2), of c' Rejected] Refuse(3-6) by simp
    ultimately show ?thesis by (simp add: coord_ok_def)
  next
    case (Global i op)
    obtain p where p: "ic_drains c' = ic_drains (set_phase i p c)" "ic_chain c' = ic_chain c"
        "ic_active c' = ic_active c" "ic_vaultActive c' = ic_vaultActive c" "p = Global_granted op \<or> p = Global_waiting op"
      using global_view [of i op c] Global(4) by metis
    have "active_ok c'" by (rule active_ok_phase [OF ok(2) Global(2) _ p(1,3,4)]) (use p(5) Global(3) in auto)
    moreover have "order_ok c'" by (rule order_ok_phase [OF ok(3) Global(2) p(1,2)]) (use p(5) Global(3) in auto)
    ultimately show ?thesis using sems_ok_global [OF ok(1) Global(2,3)] by (simp add: coord_ok_def Global(4))
  next
    case (Call i op)
    have "order_ok c'" unfolding Call(4)
      by (rule order_ok_phase [OF ok(3) Call(2) call_view(1,2)]) (simp_all add: Call(3))
    then show ?thesis using sems_ok_call [OF ok(1) Call(2,3)] active_ok_call [OF ok(2) Call(2,3)] by (simp add: coord_ok_def Call(4))
  next
    case (End i r op)
    have "order_ok (drain_leave i r c)"
      by (rule order_ok_phase [OF ok(3) End(2) leave_simps(3,1)]) (simp_all add: End(3))
    then have "order_ok c'" unfolding End(4) using nudged_end by (rule order_ok_nudged)
    then show ?thesis
      using sems_ok_end [OF ok(1) End(2,3)] active_ok_nudged [OF active_ok_leave [OF ok(2) End(2,3)] nudged_end]
      by (simp add: coord_ok_def End(4))
  next
    case (Cleanup i)
    have "cnt P (ic_drains c') = cnt P (ic_drains c)" if "\<And>d. P (d\<lparr>dr_cleaned := True\<rparr>) = P d" for P
      using cnt_update [OF Cleanup(2), of P "(ic_drains c ! i)\<lparr>dr_cleaned := True\<rparr>"] that
      by (simp add: Cleanup(5) drain_cleanup_def Let_def split: if_splits)
    then have "cnt runs (ic_drains c') = cnt runs (ic_drains c)"
        "\<And>v. cnt (\<lambda>d. dr_vault d = v \<and> runs d) (ic_drains c') = cnt (\<lambda>d. dr_vault d = v \<and> runs d) (ic_drains c)"
      by (simp_all add: runs_def)
    then have "active_ok c'" using ok(2) cleanup_view(10,11) [of i c] by (simp add: active_ok_def vault_active_def Cleanup(5))
    then show ?thesis
      using sems_ok_cleanup [OF ok(1) Cleanup(2)] order_ok_cleanup [OF ok(3) Cleanup(2,3)] by (simp add: coord_ok_def Cleanup(5))
  next
    case (Cancel x)
    have "coord_ok cap (cancel_key k c)" if "coord_ok cap c" for k c
      using that sems_ok_same [of cap c "cancel_key k c"] order_ok_same [of c "cancel_key k c"]
      by (simp add: coord_ok_def active_ok_def vault_active_def)
    then show ?thesis using cancel_keeps assms(2) Cancel(2) by metis
  qed
qed

lemma coord_run_keeps:
  assumes "\<And>e c c'. e \<in> set es \<Longrightarrow> coord_step e c = Some c' \<Longrightarrow> P c \<Longrightarrow> P c'"
  shows "coord_run es c = Some c' \<Longrightarrow> P c \<Longrightarrow> P c'"
  using assms
proof (induction es arbitrary: c)
  case (Cons e es)
  then obtain c1 where "coord_step e c = Some c1" "coord_run es c1 = Some c'" by (auto split: option.splits)
  then show ?case using Cons.IH [of c1] Cons.prems by (meson list.set_intros)
qed simp

lemma coord_ok_run: "coord_run es (new_coordinator g p q) = Some c \<Longrightarrow> coord_ok (at_least_1 g 8) c"
  by (rule coord_run_keeps [where P = "coord_ok (at_least_1 g 8)"]) (auto intro: coord_ok_step coord_ok_new)

end
