(* ===== verification/Index_Coordinator_Guarantees.thy ===== *)
theory Index_Coordinator_Guarantees
  imports Index_Coordinator_Safety
begin

text \<open>
  What a coordinator promises its callers: the handler sees the operations of a note in the order they
  were submitted and, once the note is settled, the newest of them last; never two of them at once and
  never more than the limits allow; and whatever is pending drains.
\<close>

subsection \<open>The history of a note\<close>

definition call_of :: "str \<Rightarrow> coord_note \<Rightarrow> numbered_op option" where
  "call_of k n = (case n of Called v p x \<Rightarrow> (if coord_key v p = k then Some x else None) | _ \<Rightarrow> None)"

definition calls :: "str \<Rightarrow> coord_note list \<Rightarrow> numbered_op list" where
  "calls k ns = List.map_filter (call_of k) ns"

lemma calls_append: "calls k (ns @ [n]) = calls k ns @ (case call_of k n of None \<Rightarrow> [] | Some x \<Rightarrow> [x])"
  by (simp add: calls_def map_filter_def split: option.split)

lemma calls_Nil [simp]: "calls k [] = []" by (simp add: calls_def map_filter_def)

text \<open>Submission \<open>n\<close>, as it is numbered in \<open>ic_latest\<close>, the phases and the log.\<close>

definition asked :: "index_coordinator \<Rightarrow> nat \<Rightarrow> numbered_op" where
  "asked c n = (n, dr_asked (ic_drains c ! n))"

definition is_asked :: "index_coordinator \<Rightarrow> str \<Rightarrow> numbered_op \<Rightarrow> bool" where
  "is_asked c k x \<longleftrightarrow> fst x < length (ic_drains c) \<and> key_at c (fst x) = k \<and> x = asked c (fst x)"

definition in_order :: "index_coordinator \<Rightarrow> bool" where
  "in_order c \<longleftrightarrow> (\<forall>k. sorted_wrt (<) (map fst (calls k (ic_log c))) \<and> (\<forall>x \<in> set (calls k (ic_log c)). is_asked c k x))"

definition claim_ok :: "index_coordinator \<Rightarrow> nat \<Rightarrow> numbered_op \<Rightarrow> bool" where
  "claim_ok c i x \<longleftrightarrow> is_asked c (key_at c i) x
     \<and> (is_running (phase_at c i) \<longrightarrow> x \<in> set (calls (key_at c i) (ic_log c)))
     \<and> (\<not> is_running (phase_at c i) \<longrightarrow> (\<forall>y \<in> set (calls (key_at c i) (ic_log c)). fst y < fst x))"

definition claims_ok :: "index_coordinator \<Rightarrow> bool" where
  "claims_ok c \<longleftrightarrow> (\<forall>i < length (ic_drains c). \<forall>x. op_of (phase_at c i) = Some x \<longrightarrow> claim_ok c i x)"

definition newest_ok :: "index_coordinator \<Rightarrow> str \<Rightarrow> numbered_op \<Rightarrow> bool" where
  "newest_ok c k x \<longleftrightarrow> is_asked c k x
     \<and> (\<forall>n < length (ic_drains c). key_at c n = k \<longrightarrow> n \<le> fst x)
     \<and> (\<forall>y \<in> set (calls k (ic_log c)). fst y < fst x)
     \<and> (\<forall>i < length (ic_drains c). \<forall>y. key_at c i = k \<longrightarrow> op_of (phase_at c i) = Some y \<longrightarrow> fst y < fst x)
     \<and> (phase_at c (fst x) = Queued \<or> phase_at c (fst x) = Rejected)"

definition latest_ok :: "index_coordinator \<Rightarrow> bool" where
  "latest_ok c \<longleftrightarrow> (\<forall>k x. map_of (ic_latest c) k = Some x \<longrightarrow> newest_ok c k x)"

text \<open>What became of a submission.\<close>

definition accounted :: "index_coordinator \<Rightarrow> nat \<Rightarrow> bool" where
  "accounted c n \<longleftrightarrow>
     (\<exists>m < length (ic_drains c). n < m \<and> key_at c m = key_at c n)
     \<or> map_of (ic_latest c) (key_at c n) = Some (asked c n)
     \<or> (\<exists>i < length (ic_drains c). key_at c i = key_at c n \<and> op_of (phase_at c i) = Some (asked c n))
     \<or> asked c n \<in> set (calls (key_at c n) (ic_log c))
     \<or> Dropped (key_at c n) (asked c n) \<in> set (ic_log c)"

lemma accountedI:
  "m < length (ic_drains c) \<Longrightarrow> n < m \<Longrightarrow> key_at c m = key_at c n \<Longrightarrow> accounted c n"
  "map_of (ic_latest c) (key_at c n) = Some (asked c n) \<Longrightarrow> accounted c n"
  "i < length (ic_drains c) \<Longrightarrow> key_at c i = key_at c n \<Longrightarrow> op_of (phase_at c i) = Some (asked c n) \<Longrightarrow> accounted c n"
  "asked c n \<in> set (calls (key_at c n) (ic_log c)) \<Longrightarrow> accounted c n"
  "Dropped (key_at c n) (asked c n) \<in> set (ic_log c) \<Longrightarrow> accounted c n"
  by (auto simp: accounted_def)

lemma accounted_cases:
  assumes "accounted c n"
  obtains m where "m < length (ic_drains c)" "n < m" "key_at c m = key_at c n"
  | "map_of (ic_latest c) (key_at c n) = Some (asked c n)"
  | i where "i < length (ic_drains c)" "key_at c i = key_at c n" "op_of (phase_at c i) = Some (asked c n)"
  | "asked c n \<in> set (calls (key_at c n) (ic_log c))"
  | "Dropped (key_at c n) (asked c n) \<in> set (ic_log c)"
  using assms unfolding accounted_def by blast

definition history_ok :: "index_coordinator \<Rightarrow> bool" where
  "history_ok c \<longleftrightarrow> in_order c \<and> claims_ok c \<and> latest_ok c \<and> (\<forall>n < length (ic_drains c). accounted c n)"

lemma history_ok_new: "history_ok (new_coordinator g p q)"
  by (simp add: history_ok_def in_order_def claims_ok_def latest_ok_def new_coordinator_def)

text \<open>Steps that claim nothing and call nobody.\<close>

definition same_jobs :: "index_coordinator \<Rightarrow> index_coordinator \<Rightarrow> bool" where
  "same_jobs c c' \<longleftrightarrow> length (ic_drains c') = length (ic_drains c) \<and> key_at c' = key_at c \<and> asked c' = asked c"

lemma same_jobs_asked: "same_jobs c c' \<Longrightarrow> is_asked c' k x = is_asked c k x"
  by (simp add: same_jobs_def is_asked_def)

lemma history_quiet:
  assumes h: "history_ok c" and j: "same_jobs c c'" and latest: "ic_latest c' = ic_latest c"
    and calls: "\<And>k. calls k (ic_log c') = calls k (ic_log c)" and log: "set (ic_log c) \<subseteq> set (ic_log c')"
    and ops: "\<And>i. i < length (ic_drains c) \<Longrightarrow> op_of (phase_at c' i) = op_of (phase_at c i) \<and> is_running (phase_at c' i) = is_running (phase_at c i)
        \<or> op_of (phase_at c' i) = None \<and> (is_running (phase_at c i) \<or> op_of (phase_at c i) = None)"
    and waits: "\<And>k x. map_of (ic_latest c) k = Some x \<Longrightarrow> phase_at c (fst x) = Queued \<or> phase_at c (fst x) = Rejected
        \<Longrightarrow> phase_at c' (fst x) = Queued \<or> phase_at c' (fst x) = Rejected"
  shows "history_ok c'"
proof -
  have len: "length (ic_drains c') = length (ic_drains c)" "key_at c' = key_at c" "asked c' = asked c"
    using j by (simp_all add: same_jobs_def)
  have op: "op_of (phase_at c' i) = Some x \<Longrightarrow> op_of (phase_at c i) = Some x \<and> is_running (phase_at c' i) = is_running (phase_at c i)"
    if "i < length (ic_drains c)" for i x using ops [OF that] by auto
  have "in_order c'" using h by (simp add: history_ok_def in_order_def calls same_jobs_asked [OF j])
  moreover have "claim_ok c' i x" if "i < length (ic_drains c)" "op_of (phase_at c' i) = Some x" for i x
  proof -
    have "claim_ok c i x" using h op [OF that] that(1) unfolding history_ok_def claims_ok_def by blast
    then show ?thesis using op [OF that] by (simp add: claim_ok_def len calls same_jobs_asked [OF j])
  qed
  then have "claims_ok c'" by (simp add: claims_ok_def len)
  moreover have "newest_ok c' k x" if "map_of (ic_latest c) k = Some x" for k x
  proof -
    have "newest_ok c k x" using h that unfolding history_ok_def latest_ok_def by blast
    then show ?thesis
      using op waits [OF that] unfolding newest_ok_def len calls same_jobs_asked [OF j] by blast
  qed
  then have "latest_ok c'" by (simp add: latest_ok_def latest)
  moreover have "accounted c' n" if n: "n < length (ic_drains c)" for n
  proof -
    have served: "op_of (phase_at c' i) = Some x \<or> x \<in> set (calls (key_at c i) (ic_log c))"
      if i: "i < length (ic_drains c)" and x: "op_of (phase_at c i) = Some x" for i x
    proof -
      have "claim_ok c i x" using h i x unfolding history_ok_def claims_ok_def by blast
      then show ?thesis using ops [OF i] x by (auto simp: claim_ok_def)
    qed
    have "accounted c n" using h n by (simp add: history_ok_def)
    then show ?thesis
    proof (cases rule: accounted_cases)
      case (3 i)
      then show ?thesis
        using served [OF 3(1,3)] accountedI(3,4) [where c = c' and n = n] by (auto simp: len calls)
    qed (use log accountedI [where c = c' and n = n] in \<open>auto simp: len latest calls\<close>)
  qed
  ultimately show ?thesis by (simp add: history_ok_def len)
qed

lemma same_jobs_phase: "ic_drains c' = ic_drains (set_phase i p c) \<Longrightarrow> same_jobs c c'"
  using phase_at_same [of c' "set_phase i p c"] by (simp add: same_jobs_def fun_eq_iff asked_def)

lemma same_jobs_nudged: "nudged c c' \<Longrightarrow> same_jobs c c'"
  using nudged_keys [of c c'] by (simp add: same_jobs_def nudged_def fun_eq_iff asked_def)

lemma history_nudged:
  assumes "history_ok c" "nudged c c'" shows "history_ok c'"
proof (rule history_quiet [OF assms(1) same_jobs_nudged [OF assms(2)]])
  have n: "phase_at c' i = phase_at c i \<or> phase_at c' i = granted (phase_at c i)" for i using assms(2) by (simp add: nudged_def)
  show "op_of (phase_at c' i) = op_of (phase_at c i) \<and> is_running (phase_at c' i) = is_running (phase_at c i)
      \<or> op_of (phase_at c' i) = None \<and> (is_running (phase_at c i) \<or> op_of (phase_at c i) = None)" for i
    using n [of i] by auto
  show "phase_at c' (fst x) = Queued \<or> phase_at c' (fst x) = Rejected"
    if "phase_at c (fst x) = Queued \<or> phase_at c (fst x) = Rejected" for x using n [of "fst x"] that by auto
qed (use assms(2) in \<open>auto simp: nudged_def\<close>)

lemma history_phase:
  assumes "history_ok c" "ic_drains c' = ic_drains (set_phase i p c)" "ic_latest c' = ic_latest c" "ic_log c' = ic_log c"
    "op_of p = op_of (phase_at c i)" "\<not> is_running p" "\<not> is_running (phase_at c i)" "phase_at c i = Queued \<Longrightarrow> p = Rejected"
    "phase_at c i \<noteq> Rejected"
  shows "history_ok c'"
proof -
  have ph: "phase_at c' = phase_at (set_phase i p c)" using phase_at_same [OF assms(2)] by simp
  show ?thesis
    by (rule history_quiet [OF assms(1) same_jobs_phase [OF assms(2)] assms(3)]) (use assms(4-9) ph in auto)
qed

lemma history_leave:
  assumes h: "history_ok c" and q: "phase_at c i = Running op"
  shows "history_ok (drain_leave i r c)"
proof (rule history_quiet [OF h same_jobs_phase [OF leave_simps(3)] leave_simps(2)])
  have log: "\<exists>n. ic_log (drain_leave i r c) = ic_log c @ [n] \<and> (\<forall>k. call_of k n = None)"
    by (simp add: drain_leave_def Let_def call_of_def)
  then show "calls k (ic_log (drain_leave i r c)) = calls k (ic_log c)" for k by (auto simp: calls_append)
  show "set (ic_log c) \<subseteq> set (ic_log (drain_leave i r c))" using log by auto
qed (use q in auto)

lemma history_cleanup: "history_ok c \<Longrightarrow> history_ok (drain_cleanup i c)"
proof (rule history_quiet)
  have log: "ic_log (drain_cleanup i c) = ic_log c \<or> ic_log (drain_cleanup i c) = ic_log c @ [Idle]"
    by (simp add: drain_cleanup_def Let_def)
  then show "calls k (ic_log (drain_cleanup i c)) = calls k (ic_log c)" for k by (auto simp: calls_append call_of_def)
  show "set (ic_log c) \<subseteq> set (ic_log (drain_cleanup i c))" using log by auto
  show "same_jobs c (drain_cleanup i c)" by (simp add: same_jobs_def cleanup_view fun_eq_iff asked_def)
qed (simp_all add: cleanup_view)

text \<open>A cancelled operation is accounted for by its note.\<close>

lemma history_cancel: "history_ok c \<Longrightarrow> history_ok (cancel_key k c)"
proof (cases "map_of (ic_latest c) k")
  case None
  assume h: "history_ok c"
  have "AList.delete k (ic_latest c) = ic_latest c" using None by (simp add: map_of_eq_None_iff delete_idem)
  then have "ic_latest (cancel_key k c) = ic_latest c" "ic_log (cancel_key k c) = ic_log c"
    using None by (simp_all add: cancel_key_def Let_def)
  then show ?thesis
    using history_phase [OF h] phase_at_same [of "cancel_key k c" c]
    by (intro history_quiet [OF h]) (auto simp: same_jobs_def asked_def)
next
  case (Some x)
  assume h: "history_ok c"
  define c' where "c' = cancel_key k c"
  have d: "ic_drains c' = ic_drains c" "phase_at c' = phase_at c" "key_at c' = key_at c" "asked c' = asked c"
    using phase_at_same [of c' c] by (simp_all add: c'_def fun_eq_iff asked_def)
  have log: "ic_log c' = ic_log c @ [Dropped k x]" using Some by (simp add: c'_def cancel_key_def Let_def)
  then have calls: "calls k' (ic_log c') = calls k' (ic_log c)" for k' by (simp add: calls_append call_of_def)
  have latest: "map_of (ic_latest c') k' = (if k' = k then None else map_of (ic_latest c) k')" for k'
    by (simp add: c'_def delete_conv')
  have asked: "is_asked c' k' y = is_asked c k' y" for k' y by (simp add: is_asked_def d)
  have "in_order c'" using h by (simp add: history_ok_def in_order_def calls asked)
  moreover have "claims_ok c'" using h by (simp add: history_ok_def claims_ok_def claim_ok_def calls asked d)
  moreover have "latest_ok c'" using h by (simp add: history_ok_def latest_ok_def newest_ok_def calls asked d latest)
  moreover have "accounted c' n" if "n < length (ic_drains c)" for n
  proof -
    have "accounted c n" using h that by (simp add: history_ok_def)
    then show ?thesis using Some unfolding accounted_def d calls latest by (auto simp: log)
  qed
  ultimately show ?thesis by (simp add: history_ok_def c'_def [symmetric] d)
qed

lemma history_begin:
  assumes h: "history_ok c" and o: "order_ok c" and i: "i < length (ic_drains c)" and q: "phase_at c i = Queued"
  shows "history_ok (drain_begin i c)"
proof -
  define c' where "c' = drain_begin i c"
  define k where "k = key_at c i"
  obtain p where p: "ic_drains c' = ic_drains (set_phase i p c)" "ic_log c' = ic_log c" "\<not> is_running p"
      "op_of p = map_of (ic_latest c) k" "ic_latest c' = AList.delete k (ic_latest c)"
    using begin_view [of i c] unfolding c'_def k_def by metis
  have j: "same_jobs c c'" by (rule same_jobs_phase [OF p(1)])
  have len: "length (ic_drains c') = length (ic_drains c)" "key_at c' = key_at c" "asked c' = asked c"
    using j by (simp_all add: same_jobs_def)
  have ph: "phase_at c' x = (if x = i then p else phase_at c x)" for x
    using phase_at_same [OF p(1)] i by simp
  have latest: "map_of (ic_latest c') k' = (if k' = k then None else map_of (ic_latest c) k')" for k'
    by (simp add: p(5) delete_conv')
  have newest: "newest_ok c k' x" if "map_of (ic_latest c) k' = Some x" for k' x
    using h that unfolding history_ok_def latest_ok_def by blast
  have "in_order c'" using h by (simp add: history_ok_def in_order_def p(2) same_jobs_asked [OF j])
  moreover have "claim_ok c' x y" if x: "x < length (ic_drains c)" "op_of (phase_at c' x) = Some y" for x y
  proof (cases "x = i")
    case True
    then have "newest_ok c k y" using x ph p(4) newest by simp
    then show ?thesis
      using True p(3) by (simp add: claim_ok_def newest_ok_def len p(2) ph k_def same_jobs_asked [OF j])
  next
    case False
    then have "op_of (phase_at c x) = Some y" using x ph by simp
    then have "claim_ok c x y" using h x(1) unfolding history_ok_def claims_ok_def by blast
    then show ?thesis using False by (simp add: claim_ok_def len p(2) ph same_jobs_asked [OF j])
  qed
  then have "claims_ok c'" by (simp add: claims_ok_def len)
  moreover have "newest_ok c' k' x" if "map_of (ic_latest c') k' = Some x" for k' x
  proof -
    have k': "k' \<noteq> k" "newest_ok c k' x" using that latest newest by (auto split: if_splits)
    then have "fst x \<noteq> i" by (auto simp: newest_ok_def is_asked_def k_def)
    then show ?thesis
      using k' by (auto simp: newest_ok_def len p(2) same_jobs_asked [OF j] ph k_def)
  qed
  then have "latest_ok c'" by (simp add: latest_ok_def)
  moreover have "accounted c' n" if n: "n < length (ic_drains c)" for n
  proof -
    have a: "accounted c n" using h n by (simp add: history_ok_def)
    have keep: "op_of (phase_at c' y) = Some (asked c n)" if "op_of (phase_at c y) = Some (asked c n)" for y
      using that q by (auto simp: ph)
    have claim: "op_of (phase_at c' i) = Some (asked c n)"
      if "map_of (ic_latest c) (key_at c n) = Some (asked c n)" "key_at c n = k" using that p(4) by (simp add: ph)
    show ?thesis
      using a
    proof (cases rule: accounted_cases)
      case 2
      show ?thesis
      proof (cases "key_at c n = k")
        case True
        then show ?thesis using claim [OF 2] i accountedI(3) [of i c' n] by (simp add: len k_def)
      next
        case False
        then show ?thesis using 2 accountedI(2) [of c' n] latest by (simp add: len)
      qed
    next
      case (3 y) then show ?thesis using keep [OF 3(3)] accountedI(3) [of y c' n] by (simp add: len)
    qed (use accountedI [where c = c' and n = n] in \<open>simp_all add: len p(2)\<close>)
  qed
  ultimately show ?thesis unfolding c'_def [symmetric] by (simp add: history_ok_def len)
qed

lemma history_call:
  assumes h: "history_ok c" and o: "order_ok c" and i: "i < length (ic_drains c)" and q: "phase_at c i = Global_granted op"
  shows "history_ok (drain_call i op c)"
proof -
  define c' where "c' = drain_call i op c"
  define k where "k = key_at c i"
  have j: "same_jobs c c'" unfolding c'_def by (rule same_jobs_phase [OF call_view(1)])
  have len: "length (ic_drains c') = length (ic_drains c)" "key_at c' = key_at c" "asked c' = asked c"
    using j by (simp_all add: same_jobs_def)
  have ph: "phase_at c' x = (if x = i then Running op else phase_at c x)" for x
    using phase_at_same [OF call_view(1) [of i op c]] i by (simp add: c'_def)
  have log: "ic_log c' = ic_log c @ [Called (dr_vault (ic_drains c ! i)) (dr_path (ic_drains c ! i)) op]" "ic_latest c' = ic_latest c"
    by (simp_all add: c'_def call_view)
  have calls: "calls k' (ic_log c') = calls k' (ic_log c) @ (if k' = k then [op] else [])" for k'
    by (simp add: log calls_append call_of_def k_def key_at_def)
  have mine: "claim_ok c i op" using h i q unfolding history_ok_def claims_ok_def by (metis op_of.simps(4))
  then have op: "is_asked c k op" "\<forall>y \<in> set (calls k (ic_log c)). fst y < fst op" by (simp_all add: claim_ok_def k_def q)
  have "in_order c'"
    using h op by (auto simp: history_ok_def in_order_def calls same_jobs_asked [OF j] sorted_wrt_append)
  moreover have "claim_ok c' x y" if x: "x < length (ic_drains c)" "op_of (phase_at c' x) = Some y" for x y
  proof (cases "x = i")
    case True
    then have "y = op" using x ph by simp
    then show ?thesis using True op(1) by (simp add: claim_ok_def len ph calls k_def same_jobs_asked [OF j])
  next
    case False
    then have y: "op_of (phase_at c x) = Some y" using x ph by simp
    then have "phase_at c x \<noteq> Queued" "\<not> done_phase (phase_at c x)" by (cases "phase_at c x"; simp)+
    then have "key_at c x \<noteq> k" using serial_unique [of c x i] o i x(1) False q by (auto simp: order_ok_def k_def)
    moreover have "claim_ok c x y" using h x(1) y unfolding history_ok_def claims_ok_def by blast
    ultimately show ?thesis using False by (simp add: claim_ok_def len ph calls same_jobs_asked [OF j])
  qed
  then have "claims_ok c'" by (simp add: claims_ok_def len)
  moreover have "newest_ok c' k' x" if "map_of (ic_latest c') k' = Some x" for k' x
  proof -
    have n: "newest_ok c k' x" using h that unfolding history_ok_def latest_ok_def log by blast
    have "fst x \<noteq> i \<or> \<not> (phase_at c (fst x) = Queued \<or> phase_at c (fst x) = Rejected)" using q by auto
    then have "fst x \<noteq> i" using n by (auto simp: newest_ok_def)
    moreover have "fst op < fst x" if "k' = k"
      using n i q that op_of.simps(4) [of op] unfolding newest_ok_def k_def by metis
    ultimately have "\<forall>y \<in> set (calls k' (ic_log c')). fst y < fst x" "phase_at c' (fst x) = phase_at c (fst x)"
      using n by (auto simp: newest_ok_def calls ph split: if_splits)
    moreover have "op_of (phase_at c' y) = op_of (phase_at c y)" for y using q by (simp add: ph)
    ultimately show ?thesis using n unfolding newest_ok_def len same_jobs_asked [OF j] by (simp only: simp_thms) blast
  qed
  then have "latest_ok c'" by (simp add: latest_ok_def)
  moreover have "accounted c' n" if n: "n < length (ic_drains c)" for n
  proof -
    have a: "accounted c n" using h n by (simp add: history_ok_def)
    have keep: "op_of (phase_at c' y) = op_of (phase_at c y)" for y using q by (simp add: ph)
    show ?thesis using a unfolding accounted_def len calls keep log(2) by (auto simp: log(1))
  qed
  ultimately show ?thesis unfolding c'_def [symmetric] by (simp add: history_ok_def len)
qed

lemma call_of_submit: "calls k (ic_log (submit_op v p op x c)) = calls k (ic_log c)"
  "set (ic_log c) \<subseteq> set (ic_log (submit_op v p op x c))"
  by (auto simp: submit_op_def Let_def calls_append call_of_def)

lemma history_submit:
  assumes h: "history_ok c" shows "history_ok (submit_op v p op x c)"
proof -
  define c' where "c' = submit_op v p op x c"
  define n where "n = length (ic_drains c)"
  define k where "k = coord_key v p"
  have len: "length (ic_drains c') = Suc n" by (simp add: c'_def n_def)
  have old: "key_at c' i = key_at c i" "phase_at c' i = phase_at c i" "asked c' i = asked c i" if "i < n" for i
    using that submit_reads(1-3) [of i c v p op x] by (simp_all add: c'_def n_def asked_def)
  have new: "key_at c' n = k" "phase_at c' n = Queued" "asked c' n = (n, op)"
    using submit_reads(4,5) [where v = v and p = p and op = op and x = x and c = c]
    by (simp_all add: c'_def n_def k_def asked_def)
  have latest: "map_of (ic_latest c') k' = (if k' = k then Some (n, op) else map_of (ic_latest c) k')" for k'
    by (simp add: c'_def n_def k_def update_conv')
  have calls: "calls k' (ic_log c') = calls k' (ic_log c)" "set (ic_log c) \<subseteq> set (ic_log c')" for k'
    by (simp_all add: c'_def call_of_submit)
  have asked: "is_asked c k' y \<Longrightarrow> is_asked c' k' y" "is_asked c k' y \<Longrightarrow> fst y < n" for k' y
    using old [of "fst y"] by (auto simp: is_asked_def len n_def)
  have old_calls: "is_asked c k' y" if "y \<in> set (calls k' (ic_log c))" for k' y
    using h that by (simp add: history_ok_def in_order_def)
  have old_claim: "claim_ok c i y" if "i < n" "op_of (phase_at c i) = Some y" for i y
    using h that unfolding history_ok_def claims_ok_def n_def by blast
  have "in_order c'" using h asked(1) by (simp add: history_ok_def in_order_def calls)
  moreover have "claim_ok c' i y" if "i < Suc n" "op_of (phase_at c' i) = Some y" for i y
  proof -
    have i: "i < n" using that new by (metis less_SucE op_of.simps(6) option.distinct(1))
    then have "claim_ok c i y" using old_claim [OF i] that(2) old by simp
    then show ?thesis using asked(1) by (simp add: claim_ok_def old [OF i] calls)
  qed
  then have "claims_ok c'" by (simp add: claims_ok_def len)
  moreover have "newest_ok c' k' y" if y: "map_of (ic_latest c') k' = Some y" for k' y
  proof (cases "k' = k")
    case True
    then have y: "y = (n, op)" using y latest by simp
    have "is_asked c' k y" using new len by (simp add: is_asked_def y)
    moreover have "fst z < n" if "z \<in> set (calls k (ic_log c))" for z using old_calls [OF that] asked(2) by blast
    moreover have "fst z < n" if "i < Suc n" "op_of (phase_at c' i) = Some z" for i z
    proof -
      have i: "i < n" using that new by (metis less_SucE op_of.simps(6) option.distinct(1))
      then have "claim_ok c i z" using old_claim [OF i] that(2) old by simp
      then have "is_asked c (key_at c i) z" by (simp add: claim_ok_def)
      then show ?thesis by (rule asked(2))
    qed
    ultimately show ?thesis using new by (auto simp: newest_ok_def True y len calls)
  next
    case False
    then have "newest_ok c k' y" using h y latest unfolding history_ok_def latest_ok_def by (metis (no_types))
    then show ?thesis
      using False old new asked [of k' y] unfolding newest_ok_def len calls n_def [symmetric]
      by (auto simp: less_Suc_eq)
  qed
  then have "latest_ok c'" by (simp add: latest_ok_def)
  moreover have "accounted c' m" if m: "m < Suc n" for m
  proof (cases "m < n")
    case True
    have a: "accounted c m" using h True by (simp add: history_ok_def n_def)
    show ?thesis
    proof (cases "key_at c m = k")
      case same: True
      then show ?thesis using True old new len by (auto simp: accounted_def intro!: exI [of _ n])
    next
      case False
      then show ?thesis
        using a True calls(2) old unfolding accounted_def len calls(1) latest n_def [symmetric] old [OF True]
        by (elim disjE exE conjE) (auto simp: less_Suc_eq)
    qed
  next
    case False
    then have "m = n" using m by simp
    then show ?thesis using new by (simp add: accounted_def latest)
  qed
  ultimately show ?thesis unfolding c'_def [symmetric] by (simp add: history_ok_def len)
qed

lemma history_ok_step:
  assumes "coord_step e c = Some c'" "order_ok c" "history_ok c" shows "history_ok c'"
  using assms(1)
proof (cases rule: coord_step_cases)
  case (Submit v p op x) then show ?thesis using history_submit [OF assms(3)] by simp
next
  case (Begin i) then show ?thesis using history_begin [OF assms(3,2)] by simp
next
  case (Refuse i j)
  then show ?thesis using history_phase [OF assms(3), of c' i Rejected] by simp
next
  case (Global i op)
  obtain p where p: "ic_drains c' = ic_drains (set_phase i p c)" "ic_log c' = ic_log c" "ic_latest c' = ic_latest c"
      "p = Global_granted op \<or> p = Global_waiting op"
    using global_view [of i op c] Global(4) by metis
  then show ?thesis using history_phase [OF assms(3) p(1,3,2)] Global(3) by auto
next
  case (Call i op) then show ?thesis using history_call [OF assms(3,2)] by simp
next
  case (End i r op)
  then show ?thesis using history_nudged [OF history_leave [OF assms(3) End(3)] nudged_end] by simp
next
  case (Cleanup i) then show ?thesis using history_cleanup [OF assms(3)] by simp
next
  case (Cancel x) then show ?thesis using cancel_keeps [of history_ok, OF history_cancel assms(3)] by simp
qed

lemma history_ok_run:
  assumes "coord_run es (new_coordinator g p q) = Some c" shows "history_ok c"
proof -
  let ?P = "\<lambda>c. coord_ok (at_least_1 g 8) c \<and> history_ok c"
  have "?P c'" if "coord_step e c = Some c'" "?P c" for e c c'
    using coord_ok_step [OF that(1), of "at_least_1 g 8"] history_ok_step [OF that(1)] that(2) by (simp add: coord_ok_def)
  then have "?P c"
    using coord_run_keeps [OF _ assms, where P = ?P] coord_ok_new [of g p q] history_ok_new [of g p q] by blast
  then show ?thesis ..
qed

subsection \<open>Submissions\<close>

definition submission_of :: "coord_event \<Rightarrow> (str \<times> str \<times> index_op) option" where
  "submission_of e = (case e of Submit v p op _ \<Rightarrow> Some (v, p, op) | _ \<Rightarrow> None)"

fun submissions :: "coord_event list \<Rightarrow> (str \<times> str \<times> index_op) list" where
  "submissions [] = []"
| "submissions (e # es) = (case submission_of e of None \<Rightarrow> [] | Some x \<Rightarrow> [x]) @ submissions es"

text \<open>The submissions of one note, with their numbers.\<close>

definition submitted :: "str \<Rightarrow> coord_event list \<Rightarrow> numbered_op list" where
  "submitted k es = map (\<lambda>(n, v, p, op). (n, op))
     (filter (\<lambda>(n, v, p, op). coord_key v p = k) (zip [0..<length (submissions es)] (submissions es)))"

definition asked_for :: "index_coordinator \<Rightarrow> (str \<times> str \<times> index_op) list" where
  "asked_for c = map (\<lambda>d. (dr_vault d, dr_path d, dr_asked d)) (ic_drains c)"

lemma asked_for_eq:
  assumes "length (ic_drains c') = length (ic_drains c)"
    "\<And>x. dr_vault (ic_drains c' ! x) = dr_vault (ic_drains c ! x)" "\<And>x. dr_path (ic_drains c' ! x) = dr_path (ic_drains c ! x)"
    "\<And>x. dr_asked (ic_drains c' ! x) = dr_asked (ic_drains c ! x)"
  shows "asked_for c' = asked_for c"
  by (rule nth_equalityI) (simp_all add: asked_for_def assms)

lemma asked_for_step:
  assumes "coord_step e c = Some c'"
  shows "asked_for c' = asked_for c @ (case submission_of e of None \<Rightarrow> [] | Some x \<Rightarrow> [x])"
  using assms
proof (cases rule: coord_step_cases)
  case (Begin i)
  obtain p where "ic_drains c' = ic_drains (set_phase i p c)" using begin_view [of i c] Begin(4) by metis
  then show ?thesis by (auto simp: Begin(1) submission_of_def intro: asked_for_eq)
next
  case (Global i op)
  obtain p where "ic_drains c' = ic_drains (set_phase i p c)" using global_view [of i op c] Global(4) by metis
  then show ?thesis by (auto simp: Global(1) submission_of_def intro: asked_for_eq)
next
  case (End i r op)
  have "asked_for c' = asked_for (drain_leave i r c)"
    unfolding End(4) by (rule asked_for_eq) (use nudged_end [of i r c] in \<open>simp_all only: nudged_def\<close>)
  also have "\<dots> = asked_for c" by (rule asked_for_eq) simp_all
  finally show ?thesis by (simp add: End(1) submission_of_def)
next
  case (Cancel x)
  have "asked_for c' = asked_for c"
    unfolding Cancel(2) by (rule cancel_keeps [where P = "\<lambda>d. asked_for d = asked_for c"]) (simp_all add: asked_for_def)
  then show ?thesis by (simp add: Cancel(1) submission_of_def)
next
  case (Cleanup i)
  then show ?thesis by (auto simp: submission_of_def cleanup_view intro: asked_for_eq)
next
  case (Call i op)
  then show ?thesis by (auto simp: submission_of_def call_view intro: asked_for_eq)
qed (auto simp: submission_of_def asked_for_def intro: asked_for_eq [unfolded asked_for_def])

lemma asked_for_run: "coord_run es c = Some c' \<Longrightarrow> asked_for c' = asked_for c @ submissions es"
proof (induction es arbitrary: c)
  case (Cons e es)
  then obtain c1 where "coord_step e c = Some c1" "coord_run es c1 = Some c'" by (auto split: option.splits)
  then show ?case
    using Cons.IH [of c1] asked_for_step [of e c c1] by simp
qed simp

lemma zip_upt_iff: "(n, z) \<in> set (zip [0..<length xs] xs) \<longleftrightarrow> n < length xs \<and> z = xs ! n"
  by (force simp: set_zip)

lemma submitted_iff:
  assumes "coord_run es (new_coordinator g p q) = Some c"
  shows "(n, op) \<in> set (submitted k es) \<longleftrightarrow> n < length (ic_drains c) \<and> key_at c n = k \<and> op = dr_asked (ic_drains c ! n)"
proof -
  have s: "submissions es = asked_for c" using asked_for_run [OF assms] by (simp add: asked_for_def new_coordinator_def)
  have "(n, op) \<in> set (submitted k es) \<longleftrightarrow>
      (\<exists>v p. (n, v, p, op) \<in> set (zip [0..<length (submissions es)] (submissions es)) \<and> coord_key v p = k)"
    by (auto simp: submitted_def image_iff)
  also have "\<dots> \<longleftrightarrow> (\<exists>v p. (n < length (ic_drains c) \<and> (v, p, op) = asked_for c ! n) \<and> coord_key v p = k)"
    unfolding zip_upt_iff by (simp add: s asked_for_def)
  also have "\<dots> \<longleftrightarrow> n < length (ic_drains c) \<and> key_at c n = k \<and> op = dr_asked (ic_drains c ! n)"
    by (auto simp: asked_for_def key_at_def)
  finally show ?thesis .
qed

lemma submitted_sorted: "sorted_wrt (<) (map fst (submitted k es))"
proof -
  have "sorted_wrt (<) (map fst (filter P (zip [a..<a + length xs] xs)))" for P and xs :: "'x list" and a
  proof (induction xs arbitrary: a)
    case (Cons x xs)
    have "[a..<a + length (x # xs)] = a # [Suc a..<Suc a + length xs]"
      by (subst upt_conv_Cons) simp_all
    then show ?case using Cons.IH [of "Suc a"] by (auto dest!: set_zip_leftD)
  qed simp
  from this [of "\<lambda>(n, v, p, op). coord_key v p = k" 0 "submissions es"]
  show ?thesis by (simp add: submitted_def comp_def case_prod_beta)
qed

subsection \<open>The newest operation wins\<close>

definition unrejected :: "index_coordinator \<Rightarrow> bool" where
  "unrejected c \<longleftrightarrow> (\<forall>i < length (ic_drains c). phase_at c i \<noteq> Rejected)"

lemma unrejected_phase:
  "unrejected c \<Longrightarrow> ic_drains c' = ic_drains (set_phase i p c) \<Longrightarrow> p \<noteq> Rejected \<Longrightarrow> unrejected c'"
  using phase_at_same [of c' "set_phase i p c"] by (simp add: unrejected_def)

lemma unrejected_step:
  assumes "coord_step e c = Some c'" "order_ok c" "unrejected c" "\<And>i. e \<noteq> Handler_ends i Report_threw"
  shows "unrejected c'"
  using assms(1)
proof (cases rule: coord_step_cases)
  case (Submit v p op x)
  then show ?thesis using assms(3) submit_reads(3,5) [where v = v and p = p and op = op and x = x and c = c]
    by (auto simp: unrejected_def less_Suc_eq)
next
  case (Begin i)
  then show ?thesis using begin_view [of i c] unrejected_phase [OF assms(3)] by metis
next
  case (Refuse i j)
  have "j < length (ic_drains c)"
    using assms(2) Refuse(2,5) by (fastforce simp: order_ok_def linked_def split: option.splits)
  then show ?thesis using assms(3) Refuse(6) by (simp add: unrejected_def)
next
  case (Global i op)
  obtain p where p: "ic_drains c' = ic_drains (set_phase i p c)" "p = Global_granted op \<or> p = Global_waiting op"
    using global_view [of i op c] Global(4) by metis
  then show ?thesis using unrejected_phase [OF assms(3) p(1)] by auto
next
  case (Call i op)
  then show ?thesis using unrejected_phase [OF assms(3) call_view(1)] by simp
next
  case (End i r op)
  have "r \<noteq> Report_threw" using assms(4) [of i] End(1) by auto
  then have "unrejected (drain_leave i r c)" by (intro unrejected_phase [OF assms(3) leave_simps(3)]) simp
  then show ?thesis
    using nudged_end [of i r c] unfolding End(4) unrejected_def nudged_def by (metis granted_simps(6))
next
  case (Cleanup i)
  then show ?thesis using assms(3) by (simp add: unrejected_def cleanup_view)
next
  case (Cancel x)
  have "unrejected (cancel_key k c)" if "unrejected c" for k c
    using that phase_at_same [of "cancel_key k c" c] by (simp add: unrejected_def)
  then show ?thesis using cancel_keeps assms(3) Cancel(2) by metis
qed

lemma unrejected_run:
  assumes "coord_run es (new_coordinator g p q) = Some c" "\<forall>i. Handler_ends i Report_threw \<notin> set es"
  shows "unrejected c"
proof -
  let ?P = "\<lambda>c. coord_ok (at_least_1 g 8) c \<and> unrejected c"
  have "?P c'" if "e \<in> set es" "coord_step e c = Some c'" "?P c" for e c c'
  proof -
    have "e \<noteq> Handler_ends i Report_threw" for i using that(1) assms(2) by metis
    then show ?thesis
      using coord_ok_step [OF that(2), of "at_least_1 g 8"] unrejected_step [OF that(2)] that(3) by (simp add: coord_ok_def)
  qed
  then have "?P c"
    using coord_run_keeps [OF _ assms(1), where P = ?P] coord_ok_new [of g p q]
    by (simp add: unrejected_def new_coordinator_def)
  then show ?thesis ..
qed

text \<open>A note none of whose drains is at work: its last submission was called or dropped.\<close>

lemma settled_note:
  assumes h: "history_ok c" and o: "order_ok c" and u: "unrejected c" and k: "map_of (ic_chain c) k = None"
    and n: "n < length (ic_drains c)" "key_at c n = k" "\<And>m. m < length (ic_drains c) \<Longrightarrow> key_at c m = k \<Longrightarrow> m \<le> n"
  shows "Dropped k (asked c n) \<in> set (ic_log c) \<or> calls k (ic_log c) \<noteq> [] \<and> last (calls k (ic_log c)) = asked c n"
proof -
  have over: "done_phase (phase_at c i)" if "i < length (ic_drains c)" "key_at c i = k" for i
    using o k that unfolding order_ok_def chained_def by (metis (mono_tags, lifting) option.simps(4))
  have "accounted c n" using h n(1) by (simp add: history_ok_def)
  then show ?thesis
  proof (cases rule: accounted_cases)
    case (1 m) then show ?thesis using n by fastforce
  next
    case 2
    then have "newest_ok c k (asked c n)" using h n(2) unfolding history_ok_def latest_ok_def by blast
    then have "phase_at c n = Queued \<or> phase_at c n = Rejected" by (simp add: newest_ok_def asked_def)
    then show ?thesis using over [OF n(1,2)] u n(1) by (auto simp: unrejected_def)
  next
    case (3 i)
    then show ?thesis using over [of i] n(2) by (cases "phase_at c i") auto
  next
    case 4
    then obtain xs ys where xs: "calls k (ic_log c) = xs @ asked c n # ys" using n(2) by (auto dest: split_list)
    have "ys = []"
    proof (rule ccontr)
      assume "ys \<noteq> []"
      define y where "y = hd ys"
      have y: "y \<in> set ys" using \<open>ys \<noteq> []\<close> by (simp add: y_def)
      have s: "sorted_wrt (<) (map fst (calls k (ic_log c)))" and a: "is_asked c k y"
        using h y unfolding history_ok_def in_order_def by (blast, simp add: xs)
      then have "n < fst y" using y unfolding xs by (auto simp: sorted_wrt_append asked_def)
      moreover have "fst y \<le> n" using a n(3) by (simp add: is_asked_def)
      ultimately show False by simp
    qed
    then show ?thesis using xs by simp
  next
    case 5 then show ?thesis using n(2) by simp
  qed
qed

text \<open>
  C6: what the handler sees of a note. Its calls are submitted operations of that note, in
  the order of their submission; and once nothing of the note is pending, the last one is the newest
  submission, unless a cancellation dropped exactly that one. It holds under every interleaving, as long
  as the error callback does not throw.
\<close>

theorem newest_write_wins:
  assumes "coord_run es (new_coordinator g p q) = Some c" "\<forall>i. Handler_ends i Report_threw \<notin> set es"
    "map_of (ic_chain c) k = None" "submitted k es \<noteq> []" "Dropped k (last (submitted k es)) \<notin> set (ic_log c)"
  shows "sorted_wrt (<) (map fst (calls k (ic_log c))) \<and> set (calls k (ic_log c)) \<subseteq> set (submitted k es)
    \<and> calls k (ic_log c) \<noteq> [] \<and> last (calls k (ic_log c)) = last (submitted k es)"
proof -
  have h: "history_ok c" and o: "order_ok c" and u: "unrejected c"
    using history_ok_run [OF assms(1)] coord_ok_run [OF assms(1)] unrejected_run [OF assms(1,2)] by (simp_all add: coord_ok_def)
  define n where "n = fst (last (submitted k es))"
  have "last (submitted k es) \<in> set (submitted k es)" using assms(4) by simp
  then have n: "n < length (ic_drains c)" "key_at c n = k" and x: "last (submitted k es) = asked c n"
    using submitted_iff [OF assms(1), of n _ k] by (metis n_def prod.collapse asked_def)+
  have "m \<le> n" if m: "m < length (ic_drains c)" "key_at c m = k" for m
  proof -
    have "(m, dr_asked (ic_drains c ! m)) \<in> set (submitted k es)" using submitted_iff [OF assms(1)] m by simp
    then obtain i where i: "i < length (submitted k es)" "submitted k es ! i = (m, dr_asked (ic_drains c ! m))"
      by (auto simp: in_set_conv_nth)
    show ?thesis
    proof (cases "i = length (submitted k es) - 1")
      case True then show ?thesis using i assms(4) by (simp add: n_def last_conv_nth)
    next
      case False
      then have "map fst (submitted k es) ! i < map fst (submitted k es) ! (length (submitted k es) - 1)"
        using sorted_wrt_nth_less [OF submitted_sorted [of k es], of i "length (submitted k es) - 1"] i(1) by simp
      then show ?thesis using i assms(4) by (simp add: n_def last_conv_nth)
    qed
  qed
  then have "calls k (ic_log c) \<noteq> [] \<and> last (calls k (ic_log c)) = asked c n"
    using settled_note [OF h o u assms(3) n] assms(5) x by metis
  moreover have "y \<in> set (submitted k es)" if "y \<in> set (calls k (ic_log c))" for y
  proof -
    have "is_asked c k y" using h that by (simp add: history_ok_def in_order_def)
    then show ?thesis using submitted_iff [OF assms(1), of "fst y" "snd y" k] by (simp add: is_asked_def asked_def) (metis prod.collapse snd_conv)
  qed
  moreover have "sorted_wrt (<) (map fst (calls k (ic_log c)))" using h by (simp add: history_ok_def in_order_def)
  ultimately show ?thesis using x by auto
qed

text \<open>
  Two writes to one note and one to another, with one permit in all. The second write replaces the first
  before its turn, so the note's handler is called once, with the newer text.
\<close>

definition demo_events :: "coord_event list" where
  "demo_events = [Submit ''v'' ''a'' (Index_write ''1'') None, Submit ''v'' ''b'' Index_delete None,
     Submit ''v'' ''a'' (Index_write ''2'') None, Turn 0, Turn 1, Vault_resumes 1, Vault_resumes 0, Global_resumes 1,
     Handler_ends 1 Handled, Global_resumes 0, Handler_ends 0 Failed, Turn 2, Cleanup 0, Cleanup 1, Cleanup 2]"

definition demo_end :: index_coordinator where
  "demo_end = the (coord_run demo_events (new_coordinator (Some 1) None None))"

lemma newest_write_wins_witness:
  "calls (coord_key ''v'' ''a'') (ic_log demo_end) = [(2, Index_write ''2'')]
   \<and> last (calls (coord_key ''v'' ''a'') (ic_log demo_end)) = last (submitted (coord_key ''v'' ''a'') demo_events)"
proof -
  have "coord_run demo_events (new_coordinator (Some 1) None None) \<noteq> None" by code_simp
  then have run: "coord_run demo_events (new_coordinator (Some 1) None None) = Some demo_end" by (simp add: demo_end_def)
  have "\<forall>i. Handler_ends i Report_threw \<notin> set demo_events" by (simp add: demo_events_def)
  moreover have "map_of (ic_chain demo_end) (coord_key ''v'' ''a'') = None" by code_simp
  moreover have "submitted (coord_key ''v'' ''a'') demo_events \<noteq> []" by code_simp
  moreover have "Dropped (coord_key ''v'' ''a'') (last (submitted (coord_key ''v'' ''a'') demo_events)) \<notin> set (ic_log demo_end)"
    by code_simp
  ultimately have "last (calls (coord_key ''v'' ''a'') (ic_log demo_end)) = last (submitted (coord_key ''v'' ''a'') demo_events)"
    using newest_write_wins [OF run] by blast
  moreover have "calls (coord_key ''v'' ''a'') (ic_log demo_end) = [(2, Index_write ''2'')]" by code_simp
  ultimately show ?thesis by blast
qed

subsection \<open>Never too many\<close>

lemma perVault_step: "coord_step e c = Some c' \<Longrightarrow> ic_perVault c' = ic_perVault c"
proof (induction rule: coord_step_cases)
  case (Begin i)
  then show ?case by (simp add: drain_begin_def Let_def split: option.split prod.split)
next
  case (Global i op)
  then show ?case by (simp add: drain_global_def split: prod.split)
next
  case (Call i op)
  then show ?case by (simp add: drain_call_def Let_def)
next
  case (End i r op)
  have g: "ic_perVault (hand_over w d) = ic_perVault d" for w d
    by (cases w) (simp_all add: hand_over_def split: drain_phase.split)
  have rv: "ic_perVault (release_vault x d) = ic_perVault d" for x d
    unfolding release_vault_def by (simp add: g split: prod.split)
  have rg: "ic_perVault (release_global d) = ic_perVault d" for d
    unfolding release_global_def by (simp add: g split: prod.split)
  have rl: "ic_perVault (drain_leave i r d) = ic_perVault d" for d
    by (simp add: drain_leave_def Let_def)
  show ?case by (simp add: End(4) drain_end_def rv rg rl Let_def)
next
  case (Cleanup i)
  then show ?case by (simp add: drain_cleanup_def Let_def)
next
  case (Cancel x)
  then show ?case using cancel_keeps [where P = "\<lambda>d. ic_perVault d = ic_perVault c" and c = c and x = x] by simp
qed simp_all

text \<open>
  C7: at no time do more handlers run than the global limit, or in one vault than the
  vault's limit, or two of one note; and the counters report exactly the running ones.
\<close>

theorem handlers_bounded:
  assumes "coord_run es (new_coordinator g p q) = Some c"
  shows "ic_active c \<le> at_least_1 g 8 \<and> vault_active v c \<le> at_least_1 p 4
    \<and> ic_active c = cnt runs (ic_drains c) \<and> vault_active v c = cnt (\<lambda>d. dr_vault d = v \<and> runs d) (ic_drains c)
    \<and> (\<forall>i < length (ic_drains c). \<forall>j < length (ic_drains c). is_running (phase_at c i) \<longrightarrow> is_running (phase_at c j)
        \<longrightarrow> key_at c i = key_at c j \<longrightarrow> i = j)"
proof -
  have ok: "sems_ok (at_least_1 g 8) c" "active_ok c" "order_ok c" using coord_ok_run [OF assms] by (simp_all add: coord_ok_def)
  have pv: "ic_perVault c = at_least_1 p 4"
    by (rule coord_run_keeps [OF _ assms, where P = "\<lambda>c. ic_perVault c = at_least_1 p 4"])
      (auto simp: perVault_step new_coordinator_def)
  have in_r: "runs d \<Longrightarrow> holds_global d" "dr_vault d = v \<and> runs d \<Longrightarrow> holds_vault v d" for d
    by (cases "dr_phase d"; simp add: runs_def permit_defs)+
  have "cnt holds_global (ic_drains c) \<le> at_least_1 g 8"
    using ok(1) unfolding sems_ok_def global_ok_def by (blast dest: global_permits.bounded)
  then have "cnt runs (ic_drains c) \<le> at_least_1 g 8"
    using cnt_mono [of runs holds_global "ic_drains c", OF in_r(1)] by simp
  moreover have "cnt (holds_vault v) (ic_drains c) \<le> at_least_1 p 4"
    using ok(1) unfolding sems_ok_def vault_ok_def pv by (blast dest: vault_permits.bounded)
  then have "cnt (\<lambda>d. dr_vault d = v \<and> runs d) (ic_drains c) \<le> at_least_1 p 4"
    using cnt_mono [of "\<lambda>d. dr_vault d = v \<and> runs d" "holds_vault v" "ic_drains c", OF in_r(2)] by simp
  moreover have "i = j" if "i < length (ic_drains c)" "j < length (ic_drains c)" "is_running (phase_at c i)"
      "is_running (phase_at c j)" "key_at c i = key_at c j" for i j
    using serial_unique [of c i j] ok(3) that by (cases "phase_at c i"; cases "phase_at c j") (auto simp: order_ok_def)
  ultimately show ?thesis using ok(2) by (simp add: active_ok_def)
qed

lemma handlers_bounded_witness:
  "ic_active (the (coord_run (take 8 demo_events) (new_coordinator (Some 1) None None))) = 1
   \<and> ic_active (the (coord_run (take 8 demo_events) (new_coordinator (Some 1) None None))) \<le> at_least_1 (Some 1) 8"
proof -
  have "coord_run (take 8 demo_events) (new_coordinator (Some 1) None None) \<noteq> None" by code_simp
  then have "coord_run (take 8 demo_events) (new_coordinator (Some 1) None None)
      = Some (the (coord_run (take 8 demo_events) (new_coordinator (Some 1) None None)))" by simp
  from handlers_bounded [OF this] have "ic_active (the (coord_run (take 8 demo_events) (new_coordinator (Some 1) None None))) \<le> at_least_1 (Some 1) 8"
    by blast
  moreover have "ic_active (the (coord_run (take 8 demo_events) (new_coordinator (Some 1) None None))) = 1" by code_simp
  ultimately show ?thesis by blast
qed

subsection \<open>Whatever is pending drains\<close>

fun weight :: "drain_phase \<Rightarrow> nat" where
  "weight Queued = 6" | "weight (Vault_waiting _) = 5" | "weight (Vault_granted _) = 4" | "weight (Global_waiting _) = 3"
| "weight (Global_granted _) = 2" | "weight (Running _) = 1" | "weight Fulfilled = 0" | "weight Rejected = 0"

definition cost :: "drain \<Rightarrow> nat" where
  "cost d = weight (dr_phase d) + (if dr_cleaned d then 0 else 1)"

definition work :: "index_coordinator \<Rightarrow> nat" where
  "work c = sum_list (map cost (ic_drains c))"

definition internal :: "coord_event \<Rightarrow> bool" where
  "internal e \<longleftrightarrow> (case e of Submit _ _ _ _ \<Rightarrow> False | Cancel _ \<Rightarrow> False | _ \<Rightarrow> True)"

lemma cost_le: "cost d \<le> 7"
  by (cases "dr_phase d") (simp_all add: cost_def)

lemma work_le: "work c \<le> 7 * length (ic_drains c)"
proof -
  have "sum_list (map cost ds) \<le> 7 * length ds" for ds
  proof (induction ds)
    case (Cons d ds)
    then show ?case using cost_le [of d] by simp
  qed simp
  then show ?thesis by (simp add: work_def)
qed

lemma work_update:
  "i < length (ic_drains c) \<Longrightarrow> ic_drains c' = (ic_drains c)[i := d] \<Longrightarrow> work c' + cost (ic_drains c ! i) = work c + cost d"
proof -
  assume i: "i < length (ic_drains c)" and c': "ic_drains c' = (ic_drains c)[i := d]"
  have "cost (ic_drains c ! i) \<le> sum_list (map cost (ic_drains c))" using i by (simp add: member_le_sum_list)
  then show ?thesis using i by (simp add: work_def c' map_update sum_list_update)
qed

lemma work_phase:
  "i < length (ic_drains c) \<Longrightarrow> ic_drains c' = ic_drains (set_phase i p c) \<Longrightarrow> weight p < weight (phase_at c i) \<Longrightarrow> work c' < work c"
  using work_update [of i c c' "(ic_drains c ! i)\<lparr>dr_phase := p\<rparr>"] by (simp add: set_phase_drains cost_def phase_at_def)

lemma work_nudged: "nudged c c' \<Longrightarrow> work c' \<le> work c"
proof -
  assume n: "nudged c c'"
  have g: "weight (granted p) \<le> weight p" for p by (cases p) simp_all
  have "cost (ic_drains c' ! i) \<le> cost (ic_drains c ! i)" for i
  proof -
    have cl: "dr_cleaned (ic_drains c' ! i) = dr_cleaned (ic_drains c ! i)"
      and ph: "phase_at c' i = phase_at c i \<or> phase_at c' i = granted (phase_at c i)"
      using n by (simp_all only: nudged_def)
    from ph have "weight (phase_at c' i) \<le> weight (phase_at c i)" using g [of "phase_at c i"] by (elim disjE) simp_all
    then show ?thesis by (simp add: cost_def cl phase_at_def)
  qed
  then show ?thesis unfolding work_def using n by (intro sum_list_mono2) (simp_all add: nudged_def)
qed

lemma work_step:
  assumes "coord_step e c = Some c'" "internal e" shows "work c' < work c"
  using assms(1)
proof (cases rule: coord_step_cases)
  case (Begin i)
  have "weight p < 6" if "p \<noteq> Queued" for p using that by (cases p) simp_all
  then show ?thesis
    using begin_view [of i c] work_phase [OF Begin(2), of c'] Begin(3,4) by (metis weight.simps(1))
next
  case (Refuse i j)
  then show ?thesis using work_phase [OF Refuse(2), of c' Rejected] by simp
next
  case (Global i op)
  obtain p where "ic_drains c' = ic_drains (set_phase i p c)" "p = Global_granted op \<or> p = Global_waiting op"
    using global_view [of i op c] Global(4) by metis
  then show ?thesis using work_phase [OF Global(2), of c' p] Global(3) by auto
next
  case (Call i op)
  then show ?thesis using work_phase [OF Call(2), of c' "Running op"] call_view by simp
next
  case (End i r op)
  have "work (drain_leave i r c) < work c" by (rule work_phase [OF End(2) leave_simps(3)]) (simp add: End(3))
  then show ?thesis using work_nudged [OF nudged_end [of i r c]] End(4) by simp
next
  case (Cleanup i)
  have "ic_drains c' = (ic_drains c)[i := (ic_drains c ! i)\<lparr>dr_cleaned := True\<rparr>]"
    by (simp add: Cleanup(5) drain_cleanup_def Let_def)
  from work_update [OF Cleanup(2) this] show ?thesis using Cleanup(4) by (simp add: cost_def)
qed (use assms(2) in \<open>simp_all add: internal_def\<close>)

text \<open>While something is pending, some drain can move: nobody waits for a permit that nobody holds.\<close>

lemma some_drain_moves:
  assumes ok: "coord_ok cap c" and cap: "0 < cap" "0 < ic_perVault c" and busy: "busy c"
  shows "\<exists>e. internal e \<and> coord_step e c \<noteq> None"
proof (rule ccontr)
  assume stuck: "\<not> ?thesis"
  have stop: "coord_step e c = None" if "internal e" for e using stuck that by blast
  have s: "sems_ok cap c" "order_ok c" using ok by (simp_all add: coord_ok_def)
  have no: "phase_at c i \<noteq> Vault_granted x" "phase_at c i \<noteq> Global_granted x" "phase_at c i \<noteq> Running x"
    if "i < length (ic_drains c)" for i x
    using stop [of "Vault_resumes i"] stop [of "Global_resumes i"] stop [of "Handler_ends i Handled"] that
    by (auto simp: internal_def)
  have "\<not> holds_global (ic_drains c ! i)" if "i < length (ic_drains c)" for i
    using no [OF that] by (cases "phase_at c i") (simp_all add: permit_defs phase_at_def)
  then have g: "\<not> waits_global (ic_drains c ! i)" if "i < length (ic_drains c)" for i
    using global_permits.waits_for_holder [of cap "ic_globalSem c" "ic_drains c" i] that s(1) cap(1)
    by (auto simp: sems_ok_def global_ok_def)
  have "\<not> holds_vault v (ic_drains c ! i)" if "i < length (ic_drains c)" for v i
    using no [OF that] g [OF that] by (cases "phase_at c i") (simp_all add: permit_defs phase_at_def)
  then have w: "\<not> waits_vault v (ic_drains c ! i)" if "i < length (ic_drains c)" for v i
    using vault_permits.waits_for_holder [of "ic_perVault c" v "vaultSem v c" "ic_drains c" i] that s(1) cap(2)
    by (auto simp: sems_ok_def vault_ok_def)
  have idle: "phase_at c i = Queued \<or> done_phase (phase_at c i)" if "i < length (ic_drains c)" for i
    using no [OF that] g [OF that] w [OF that, of "dr_vault (ic_drains c ! i)"]
    by (cases "phase_at c i") (simp_all add: permit_defs phase_at_def)
  have all_done: "done_phase (phase_at c i)" if "i < length (ic_drains c)" for i
    using that
  proof (induction i rule: less_induct)
    case (less i)
    show ?case
    proof (rule ccontr)
      assume "\<not> done_phase (phase_at c i)"
      then have q: "phase_at c i = Queued" using idle [OF less.prems] by blast
      have "take_turn i c \<noteq> None"
      proof (cases "dr_prev (ic_drains c ! i)")
        case (Some j)
        have "j < i" using s(2) less.prems Some by (fastforce simp: order_ok_def linked_def split: option.splits)
        then have "done_phase (phase_at c j)" using less by simp
        then show ?thesis using q Some by (auto simp: take_turn_def done_phase_def)
      qed (simp add: take_turn_def q)
      then show False using stop [of "Turn i"] less.prems by (auto simp: internal_def)
    qed
  qed
  obtain k i xs where "ic_chain c = (k, i) # xs" using busy by (metis busy_def list.exhaust surj_pair)
  then have k: "map_of (ic_chain c) k = Some i" by simp
  then have "i < length (ic_drains c)" "\<not> dr_cleaned (ic_drains c ! i)"
    using s(2) unfolding order_ok_def chained_def by (metis (mono_tags, lifting) option.simps(5))+
  then show False using stop [of "Cleanup i"] all_done [of i] by (auto simp: internal_def)
qed

lemma work_run: "coord_run fs c = Some c' \<Longrightarrow> list_all internal fs \<Longrightarrow> length fs + work c' \<le> work c"
proof (induction fs arbitrary: c)
  case (Cons e fs)
  then obtain c1 where "coord_step e c = Some c1" "coord_run fs c1 = Some c'" by (auto split: option.splits)
  then show ?case using work_step [of e c c1] Cons.IH [of c1] Cons.prems(2) by simp
qed simp

lemma coord_run_append: "coord_run (es @ fs) c = (case coord_run es c of None \<Rightarrow> None | Some c1 \<Rightarrow> coord_run fs c1)"
  by (induction es arbitrary: c) (simp_all split: option.split)

text \<open>
  C8: the coordinator never deadlocks and always drains. From any state it can reach, the
  work in it takes at most seven steps per submission in whatever order they happen, and as long as
  anything is pending some step is possible; so when no more is submitted it becomes idle.
\<close>

theorem coordinator_drains:
  assumes "coord_run es (new_coordinator g p q) = Some c" "coord_run fs c = Some c'" "list_all internal fs"
  shows "length fs \<le> 7 * length (submissions es) \<and> (busy c' \<longrightarrow> (\<exists>e. internal e \<and> coord_step e c' \<noteq> None))"
proof -
  have "length (submissions es) = length (ic_drains c)"
    using arg_cong [OF asked_for_run [OF assms(1)], of length] by (simp add: asked_for_def new_coordinator_def)
  then have "length fs \<le> 7 * length (submissions es)"
    using work_run [OF assms(2,3)] work_le [of c] by simp
  moreover have run: "coord_run (es @ fs) (new_coordinator g p q) = Some c'" using assms(1,2) by (simp add: coord_run_append)
  have "ic_perVault c' = at_least_1 p 4"
    by (rule coord_run_keeps [OF _ run, where P = "\<lambda>c. ic_perVault c = at_least_1 p 4"])
      (auto simp: perVault_step new_coordinator_def)
  then have "busy c' \<Longrightarrow> \<exists>e. internal e \<and> coord_step e c' \<noteq> None"
    by (intro some_drain_moves [OF coord_ok_run [OF run]]) (simp_all add: at_least_1_def)
  ultimately show ?thesis by blast
qed

lemma coordinator_drains_witness:
  "\<exists>c'. coord_run (drop 3 demo_events) (the (coord_run (take 3 demo_events) (new_coordinator (Some 1) None None))) = Some c'
     \<and> \<not> busy c' \<and> length (drop 3 demo_events) \<le> 7 * length (submissions (take 3 demo_events))"
proof -
  define c where "c = the (coord_run (take 3 demo_events) (new_coordinator (Some 1) None None))"
  have "coord_run (take 3 demo_events) (new_coordinator (Some 1) None None) \<noteq> None" by code_simp
  then have 1: "coord_run (take 3 demo_events) (new_coordinator (Some 1) None None) = Some c" by (simp add: c_def)
  have "coord_run (drop 3 demo_events) c \<noteq> None" unfolding c_def by code_simp
  then obtain c' where 2: "coord_run (drop 3 demo_events) c = Some c'" by blast
  have 3: "list_all internal (drop 3 demo_events)" by code_simp
  have "\<not> busy (the (coord_run (drop 3 demo_events) c))" unfolding c_def by code_simp
  then show ?thesis using coordinator_drains [OF 1 2 3] 2 by (auto simp: c_def)
qed

subsection \<open>Two edges of the contract\<close>

text \<open>
  A watcher's event takes over the pending operation of an explicit write to the same note, and a
  cancellation of watcher events then drops both.
\<close>

lemma cancel_takes_explicit_write:
  "case coord_run [Submit ''v'' ''a'' (Index_write ''1'') None, Submit ''v'' ''a'' (Index_write ''1'') (Some Watcher),
      Cancel Watcher, Turn 0, Turn 1, Cleanup 0, Cleanup 1] (new_coordinator None None None) of
     None \<Rightarrow> False | Some c \<Rightarrow> \<not> busy c \<and> calls (coord_key ''v'' ''a'') (ic_log c) = []"
  by code_simp

text \<open>An error callback that throws rejects the drain, and the note's next operation is never run.\<close>

lemma throwing_report_strands_write:
  "case coord_run [Submit ''v'' ''a'' (Index_write ''1'') None, Turn 0, Submit ''v'' ''a'' (Index_write ''2'') None,
      Vault_resumes 0, Global_resumes 0, Handler_ends 0 Report_threw, Turn 1, Cleanup 0, Cleanup 1]
      (new_coordinator None None None) of
     None \<Rightarrow> False
   | Some c \<Rightarrow> \<not> busy c \<and> calls (coord_key ''v'' ''a'') (ic_log c) = [(0, Index_write ''1'')]
       \<and> map_of (ic_latest c) (coord_key ''v'' ''a'') = Some (1, Index_write ''2'')"
  by code_simp

end
