(* ===== verification/Json_Text.thy ===== *)
theory Json_Text
  imports Tc_Prelude "HOL-Library.Char_ord" "HOL-Library.List_Lexorder" "HOL-Library.Multiset"
begin

text \<open>
  JSON as text: \<open>JSON.stringify\<close> on the represented values, the number of bytes it takes in UTF-8, and the
  canonical text and argument hash of \<open>packages/server/src/hash.ts\<close>. The digest itself is an argument.
  An object's fields stand in the order in which JavaScript enumerates them; a field whose value is
  \<open>undefined\<close> is no field, as in \<open>JSON.stringify\<close>.
\<close>

subsection \<open>Writing a value\<close>

definition hex_digit :: "nat \<Rightarrow> char" where
  "hex_digit n = char_of (if n < 10 then 48 + n else 87 + n)"

definition short_escape :: "nat \<Rightarrow> char option" where
  "short_escape = map_of [(34, CHR 0x22), (92, CHR 0x5C), (8, CHR ''b''), (9, CHR ''t''), (10, CHR ''n''), (12, CHR ''f''), (13, CHR ''r'')]"

definition json_char :: "char \<Rightarrow> str" where
  "json_char c =
     (let n = of_char c :: nat in
      case short_escape n of
        Some x \<Rightarrow> [CHR 0x5C, x]
      | None \<Rightarrow>
          if n < 32 then [CHR 0x5C, CHR ''u'', CHR ''0'', CHR ''0'', hex_digit (n div 16), hex_digit (n mod 16)]
          else [c])"

definition json_quote :: "str \<Rightarrow> str" where
  "json_quote s = CHR 0x22 # concat (map json_char s) @ [CHR 0x22]"

definition show_int :: "int \<Rightarrow> str" where
  "show_int n = (if n < 0 then CHR ''-'' # show_nat (nat (- n)) else show_nat (nat n))"

fun stringify :: "json \<Rightarrow> str" where
  "stringify JNull = ''null''"
| "stringify (JBool b) = (if b then ''true'' else ''false'')"
| "stringify (JNum n) = show_int n"
| "stringify (JStr s) = json_quote s"
| "stringify (JArr xs) = ''['' @ join_with '','' (map stringify xs) @ '']''"
| "stringify (JObj kvs) = ''{'' @ join_with '','' (map (\<lambda>(k, v). json_quote k @ '':'' @ stringify v) kvs) @ ''}''"

definition char_bytes :: "char \<Rightarrow> nat" where
  "char_bytes c = (if (of_char c :: nat) < 128 then 1 else 2)"

definition utf8_length :: "str \<Rightarrow> nat" where
  "utf8_length s = sum_list (map char_bytes s)"

text \<open>\<open>canonicalJson\<close>: the same with every object's keys sorted by code units.\<close>

fun canonicalJson :: "json \<Rightarrow> str" where
  "canonicalJson (JArr xs) = ''['' @ join_with '','' (map canonicalJson xs) @ '']''"
| "canonicalJson (JObj kvs) =
     ''{'' @ join_with '','' (map (\<lambda>(k, t). json_quote k @ '':'' @ t)
                 (sort_key fst (map (\<lambda>(k, v). (k, canonicalJson v)) kvs))) @ ''}''"
| "canonicalJson v = stringify v"

definition argsHash :: "(str \<Rightarrow> str) \<Rightarrow> str \<Rightarrow> json \<Rightarrow> str" where
  "argsHash sha256_hex toolName args = take 32 (sha256_hex (toolName @ '' '' @ canonicalJson args))"

subsection \<open>Counting bytes\<close>

lemma utf8_Nil [simp]: "utf8_length [] = 0"
  by (simp add: utf8_length_def)

lemma utf8_append [simp]: "utf8_length (s @ t) = utf8_length s + utf8_length t"
  by (simp add: utf8_length_def)

lemma utf8_Cons [simp]: "utf8_length (c # s) = char_bytes c + utf8_length s"
  by (simp add: utf8_length_def)

lemma comma_bytes [simp]: "char_bytes CHR '','' = 1"
  by (simp add: char_bytes_def)

lemma utf8_join: "utf8_length (join_with '','' ws) = sum_list (map utf8_length ws) + (length ws - 1)"
proof (induction ws)
  case (Cons w ws)
  then show ?case by (cases ws) simp_all
qed simp

subsection \<open>The text determines the value\<close>

text \<open>The text of a character is no prefix of another one's.\<close>

lemma hex_digit_inj: "n < 16 \<Longrightarrow> m < 16 \<Longrightarrow> hex_digit n = hex_digit m \<longleftrightarrow> n = m"
proof -
  assume n: "n < 16" and m: "m < 16"
  have v: "of_char (hex_digit k) = (if k < 10 then 48 + k else 87 + k)" if "k < 16" for k
    using that by (simp add: hex_digit_def of_char_char_of_nat)
  show ?thesis
  proof
    assume "hex_digit n = hex_digit m"
    then have "(if n < 10 then 48 + n else 87 + n) = (if m < 10 then 48 + m else 87 + m)" using v [OF n] v [OF m] by simp
    then show "n = m" using n m by (auto split: if_splits)
  qed simp
qed

lemma hex_pair_inj:
  "n < 32 \<Longrightarrow> m < 32 \<Longrightarrow> hex_digit (n div 16) = hex_digit (m div 16) \<Longrightarrow> hex_digit (n mod 16) = hex_digit (m mod 16) \<Longrightarrow> n = m"
proof -
  assume b: "n < 32" "m < 32" and h: "hex_digit (n div 16) = hex_digit (m div 16)" "hex_digit (n mod 16) = hex_digit (m mod 16)"
  have "n div 16 < 16" "m div 16 < 16" using b by simp_all
  then have "n div 16 = m div 16" "n mod 16 = m mod 16" using h hex_digit_inj by simp_all
  then show ?thesis by (metis div_mult_mod_eq)
qed

lemma short_escape_dom: "short_escape n \<noteq> None \<longleftrightarrow> n \<in> {34, 92, 8, 9, 10, 12, 13}"
  by (simp add: short_escape_def)

lemma short_escape_inj: "short_escape n = Some x \<Longrightarrow> short_escape m = Some x \<Longrightarrow> n = m \<and> x \<noteq> CHR ''u''"
  by (auto simp: short_escape_def split: if_splits)

lemma json_char_plain: "\<not> (of_char c :: nat) < 32 \<Longrightarrow> short_escape (of_char c) = None \<Longrightarrow> json_char c = [c] \<and> c \<noteq> CHR 0x5C \<and> c \<noteq> CHR 0x22"
  by (auto simp: json_char_def Let_def short_escape_def)

lemma json_char_escaped: "(of_char c :: nat) < 32 \<or> short_escape (of_char c) \<noteq> None \<Longrightarrow> \<exists>t. json_char c = CHR 0x5C # t"
  by (auto simp: json_char_def Let_def split: option.split)

lemma escaped_inj:
  assumes "json_char c @ xs = json_char d @ ys" "(of_char c :: nat) < 32 \<or> short_escape (of_char c) \<noteq> None"
    "(of_char d :: nat) < 32 \<or> short_escape (of_char d) \<noteq> None"
  shows "(of_char c :: nat) = of_char d \<and> xs = ys"
proof (cases "short_escape (of_char c)")
  case c: None
  then have n: "(of_char c :: nat) < 32" using assms(2) by simp
  show ?thesis
  proof (cases "short_escape (of_char d)")
    case None
    then have m: "(of_char d :: nat) < 32" using assms(3) by simp
    show ?thesis using assms(1) hex_pair_inj [OF n m] by (simp add: json_char_def Let_def c None n m)
  next
    case (Some x)
    then show ?thesis using assms(1) short_escape_inj [OF Some Some] by (auto simp: json_char_def Let_def c n)
  qed
next
  case c: (Some x)
  then show ?thesis
  proof (cases "short_escape (of_char d)")
    case None
    then have m: "(of_char d :: nat) < 32" using assms(3) by simp
    show ?thesis using assms(1) short_escape_inj [OF c c] by (auto simp: json_char_def Let_def c None m)
  next
    case (Some y)
    then show ?thesis using assms(1) short_escape_inj [OF c, of "of_char d"] by (simp add: json_char_def c)
  qed
qed

lemma json_char_inj: "json_char c @ xs = json_char d @ ys \<Longrightarrow> c = d \<and> xs = ys"
  using escaped_inj [of c xs d ys] json_char_plain [of c] json_char_plain [of d] json_char_escaped [of c] json_char_escaped [of d]
  by (cases "(of_char c :: nat) < 32 \<or> short_escape (of_char c) \<noteq> None";
      cases "(of_char d :: nat) < 32 \<or> short_escape (of_char d) \<noteq> None") auto

lemma json_char_no_quote: "\<exists>b t. json_char c = b # t \<and> b \<noteq> CHR 0x22"
  using json_char_plain [of c] json_char_escaped [of c]
  by (cases "(of_char c :: nat) < 32 \<or> short_escape (of_char c) \<noteq> None") auto

lemma json_quote_inj: "json_quote s @ xs = json_quote t @ ys \<Longrightarrow> s = t \<and> xs = ys"
proof -
  have "concat (map json_char s) @ CHR 0x22 # xs = concat (map json_char t) @ CHR 0x22 # ys \<Longrightarrow> s = t \<and> xs = ys"
  proof (induction s arbitrary: t)
    case Nil
    then show ?case using json_char_no_quote [of "hd t"] by (cases t) auto
  next
    case (Cons c s)
    then obtain d t' where t: "t = d # t'" using json_char_no_quote [of c] by (cases t) auto
    from Cons.prems have "json_char c @ (concat (map json_char s) @ CHR 0x22 # xs) = json_char d @ (concat (map json_char t') @ CHR 0x22 # ys)"
      by (simp add: t)
    from json_char_inj [OF this] show ?case using Cons.IH [of t'] by (simp add: t)
  qed
  then show "json_quote s @ xs = json_quote t @ ys \<Longrightarrow> s = t \<and> xs = ys" by (simp add: json_quote_def)
qed

text \<open>A number is read back from its digits.\<close>

definition json_digit :: "char \<Rightarrow> bool" where
  "json_digit c \<longleftrightarrow> 48 \<le> (of_char c :: nat) \<and> (of_char c :: nat) \<le> 57"

definition undigits :: "str \<Rightarrow> nat" where
  "undigits s = foldl (\<lambda>a c. 10 * a + (of_char c - 48)) 0 s"

lemma digit_char: "(n :: nat) < 10 \<Longrightarrow> json_digit (char_of (48 + n)) \<and> (of_char (char_of (48 + n) :: char) :: nat) = 48 + n"
  by (simp add: json_digit_def of_char_char_of_nat)

lemma show_nat_read: "undigits (show_nat n) = n \<and> list_all json_digit (show_nat n) \<and> show_nat n \<noteq> []"
proof (induction n rule: show_nat.induct)
  case (1 n)
  show ?case
  proof (cases "n < 10")
    case True
    then show ?thesis using digit_char [of n] by (simp add: show_nat.simps [of n] undigits_def)
  next
    case False
    then show ?thesis
      using 1 digit_char [of "n mod 10"] by (simp add: show_nat.simps [of n] undigits_def)
  qed
qed

definition ends_value :: "str \<Rightarrow> bool" where
  "ends_value xs \<longleftrightarrow> (case xs of [] \<Rightarrow> True | c # _ \<Rightarrow> c = CHR '','' \<or> c = CHR '']'' \<or> c = CHR ''}'')"

lemma ends_no_digit: "ends_value xs \<Longrightarrow> takeWhile json_digit xs = [] \<and> dropWhile json_digit xs = xs"
  by (cases xs) (auto simp: ends_value_def json_digit_def)

lemma show_nat_inj:
  assumes "show_nat n @ xs = show_nat m @ ys" "ends_value xs" "ends_value ys" shows "n = m \<and> xs = ys"
proof -
  have split: "takeWhile json_digit (show_nat k @ zs) = show_nat k \<and> dropWhile json_digit (show_nat k @ zs) = zs"
    if "ends_value zs" for k zs
    using show_nat_read [of k] ends_no_digit [OF that] by (simp add: list_all_iff takeWhile_append2 dropWhile_append2)
  have "show_nat n = show_nat m" "xs = ys" using split [OF assms(2), of n] split [OF assms(3), of m] unfolding assms(1) by (blast intro: trans sym)+
  then show ?thesis using show_nat_read by metis
qed

lemma show_nat_hd: "\<exists>b t. show_nat n = b # t \<and> json_digit b"
  using show_nat_read [of n] by (cases "show_nat n") auto

lemma show_int_inj:
  assumes "show_int n @ xs = show_int m @ ys" "ends_value xs" "ends_value ys" shows "n = m \<and> xs = ys"
proof -
  have dash: "\<not> json_digit CHR ''-''" by (simp add: json_digit_def)
  obtain b t b' t' where "show_nat (nat n) = b # t" "json_digit b" "show_nat (nat m) = b' # t'" "json_digit b'"
    using show_nat_hd by metis
  then have same: "n < 0 \<longleftrightarrow> m < 0" using assms(1) dash by (auto simp: show_int_def split: if_splits)
  show ?thesis
  proof (cases "n < 0")
    case True
    then have "nat (- n) = nat (- m) \<and> xs = ys"
      using same assms by (intro show_nat_inj) (simp_all add: show_int_def)
    then show ?thesis using True same by linarith
  next
    case False
    then have "nat n = nat m \<and> xs = ys"
      using same assms by (intro show_nat_inj) (simp_all add: show_int_def)
    then show ?thesis using False same by linarith
  qed
qed

text \<open>Elements between commas: when each element's text determines it, so does the text of all of them.\<close>

definition exact :: "('a \<Rightarrow> str) \<Rightarrow> 'a \<Rightarrow> bool" where
  "exact f v \<longleftrightarrow> (\<forall>w xs ys. f v @ xs = f w @ ys \<longrightarrow> ends_value xs \<longrightarrow> ends_value ys \<longrightarrow> v = w \<and> xs = ys)"

lemma join_with_Cons: "join_with '','' (w # ws) = w @ concat (map (\<lambda>x. CHR '','' # x) ws)"
  by (induction ws arbitrary: w) simp_all

lemma rest_exact:
  assumes "\<forall>v \<in> set vs. exact f v" "cl = CHR '']'' \<or> cl = CHR ''}''"
    "concat (map (\<lambda>x. CHR '','' # x) (map f vs)) @ cl # xs = concat (map (\<lambda>x. CHR '','' # x) (map f ws)) @ cl # ys"
  shows "vs = ws \<and> xs = ys"
  using assms
proof (induction vs arbitrary: ws)
  case Nil
  then show ?case by (cases ws) auto
next
  case (Cons v vs)
  then obtain w ws' where ws: "ws = w # ws'" by (cases ws) auto
  have ends: "ends_value (concat (map (\<lambda>x. CHR '','' # x) (map f us)) @ cl # zs)" for us zs
    using Cons.prems(2) by (cases us) (auto simp: ends_value_def)
  have "v = w" "concat (map (\<lambda>x. CHR '','' # x) (map f vs)) @ cl # xs = concat (map (\<lambda>x. CHR '','' # x) (map f ws')) @ cl # ys"
    using Cons.prems(1,3) ends [of vs xs] ends [of ws' ys] unfolding ws exact_def by simp_all
  then show ?case using Cons.IH [of ws'] Cons.prems(1,2) ws by simp
qed

lemma items_exact:
  assumes "\<forall>v \<in> set vs. exact f v" "cl = CHR '']'' \<or> cl = CHR ''}''" "\<And>v. \<exists>b t. f v = b # t \<and> b \<noteq> cl"
    "join_with '','' (map f vs) @ cl # xs = join_with '','' (map f ws) @ cl # ys"
  shows "vs = ws \<and> xs = ys"
proof (cases vs)
  case Nil
  then show ?thesis using assms(3) [of "hd ws"] assms(4) by (cases ws) (auto simp: join_with_Cons)
next
  case (Cons v vs')
  then obtain w ws' where ws: "ws = w # ws'" using assms(3) [of v] assms(4) by (cases ws) (auto simp: join_with_Cons)
  have ends: "ends_value (concat (map (\<lambda>x. CHR '','' # x) (map f us)) @ cl # zs)" for us zs
    using assms(2) by (cases us) (auto simp: ends_value_def)
  have "v = w" "concat (map (\<lambda>x. CHR '','' # x) (map f vs')) @ cl # xs = concat (map (\<lambda>x. CHR '','' # x) (map f ws')) @ cl # ys"
    using assms(1,4) ends [of vs' xs] ends [of ws' ys] unfolding ws Cons exact_def by (simp_all add: join_with_Cons)
  then show ?thesis using rest_exact [of vs' f cl xs ws' ys] assms(1,2) ws Cons by simp
qed

definition field_text :: "str \<times> json \<Rightarrow> str" where
  "field_text = (\<lambda>(k, v). json_quote k @ '':'' @ stringify v)"

lemma field_text_exact: "exact stringify v \<Longrightarrow> exact field_text (k, v)"
proof -
  assume v: "exact stringify v"
  show ?thesis unfolding exact_def field_text_def
  proof (intro allI impI)
    fix w xs ys
    assume e: "(case (k, v) of (k, v) \<Rightarrow> json_quote k @ '':'' @ stringify v) @ xs = (case w of (k, v) \<Rightarrow> json_quote k @ '':'' @ stringify v) @ ys"
      and x: "ends_value xs" and y: "ends_value ys"
    obtain k' v' where w: "w = (k', v')" by (cases w)
    have "k = k' \<and> CHR '':'' # stringify v @ xs = CHR '':'' # stringify v' @ ys"
      using json_quote_inj [of k "CHR '':'' # stringify v @ xs" k' "CHR '':'' # stringify v' @ ys"] e by (simp add: w)
    then have "k = k'" "stringify v @ xs = stringify v' @ ys" by simp_all
    then show "(k, v) = w \<and> xs = ys" using v x y unfolding exact_def w by blast
  qed
qed

lemma show_int_hd: "\<exists>b t. show_int n = b # t \<and> (json_digit b \<or> b = CHR ''-'')"
  using show_nat_hd [of "nat n"] by (auto simp: show_int_def)

text \<open>The first character of a value's text tells its kind.\<close>

fun starts :: "json \<Rightarrow> char \<Rightarrow> bool" where
  "starts JNull b = (b = CHR ''n'')"
| "starts (JBool x) b = (b = (if x then CHR ''t'' else CHR ''f''))"
| "starts (JNum n) b = (json_digit b \<or> b = CHR ''-'')"
| "starts (JStr s) b = (b = CHR 0x22)"
| "starts (JArr xs) b = (b = CHR ''['')"
| "starts (JObj kvs) b = (b = CHR ''{'')"

lemma stringify_starts: "\<exists>b t. stringify v = b # t \<and> starts v b"
  using show_int_hd by (cases v) (auto simp: json_quote_def)

lemma digit_not: "json_digit b \<Longrightarrow> b \<noteq> CHR ''n'' \<and> b \<noteq> CHR ''t'' \<and> b \<noteq> CHR ''f'' \<and> b \<noteq> CHR 0x22 \<and> b \<noteq> CHR ''['' \<and> b \<noteq> CHR ''{'' \<and> b \<noteq> CHR '']''"
  by (auto simp: json_digit_def)

lemma starts_kind: "starts v b \<Longrightarrow> starts w b \<Longrightarrow>
    (case (v, w) of (JNull, JNull) \<Rightarrow> True | (JBool x, JBool y) \<Rightarrow> x = y | (JNum _, JNum _) \<Rightarrow> True | (JStr _, JStr _) \<Rightarrow> True
     | (JArr _, JArr _) \<Rightarrow> True | (JObj _, JObj _) \<Rightarrow> True | _ \<Rightarrow> False)"
  using digit_not [of b] by (cases v; cases w) (auto split: if_splits)

lemma starts_no_close: "starts v b \<Longrightarrow> b \<noteq> CHR '']''"
  using digit_not [of b] by (cases v) auto

lemma stringify_exact: "exact stringify v"
  unfolding exact_def
proof (induction v)
  case JNull
  show ?case
  proof (intro allI impI)
    fix w xs ys assume e: "stringify JNull @ xs = stringify w @ ys"
    obtain b t where b: "stringify w = b # t" "starts w b" using stringify_starts by blast
    then have "w = JNull" using starts_kind [of JNull b w] e by (cases w) auto
    then show "JNull = w \<and> xs = ys" using e by simp
  qed
next
  case (JBool x)
  show ?case
  proof (intro allI impI)
    fix w xs ys assume e: "stringify (JBool x) @ xs = stringify w @ ys"
    obtain b t where b: "stringify w = b # t" "starts w b" using stringify_starts by blast
    then have "starts (JBool x) b" using e by (auto split: if_splits)
    then have "w = JBool x" using starts_kind [of "JBool x" b w] b by (cases w) auto
    then show "JBool x = w \<and> xs = ys" using e by simp
  qed
next
  case (JNum n)
  show ?case
  proof (intro allI impI)
    fix w xs ys assume e: "stringify (JNum n) @ xs = stringify w @ ys" and x: "ends_value xs" and y: "ends_value ys"
    obtain b t where b: "stringify w = b # t" "starts w b" using stringify_starts by blast
    then have "starts (JNum n) b" using e show_int_hd [of n] by auto
    then obtain m where w: "w = JNum m" using starts_kind [of "JNum n" b w] b by (cases w) auto
    then show "JNum n = w \<and> xs = ys" using e show_int_inj [of n xs m ys] x y by simp
  qed
next
  case (JStr s)
  show ?case
  proof (intro allI impI)
    fix w xs ys assume e: "stringify (JStr s) @ xs = stringify w @ ys"
    obtain b t where b: "stringify w = b # t" "starts w b" using stringify_starts by blast
    then have "starts (JStr s) b" using e by (simp add: json_quote_def)
    then obtain r where w: "w = JStr r" using starts_kind [of "JStr s" b w] b by (cases w) auto
    then show "JStr s = w \<and> xs = ys" using e json_quote_inj [of s xs r ys] by simp
  qed
next
  case (JArr vs)
  show ?case
  proof (intro allI impI)
    fix w xs ys assume e: "stringify (JArr vs) @ xs = stringify w @ ys"
    obtain b t where b: "stringify w = b # t" "starts w b" using stringify_starts by blast
    then have "starts (JArr vs) b" using e by simp
    then obtain ws where w: "w = JArr ws" using starts_kind [of "JArr vs" b w] b by (cases w) auto
    have "\<exists>b t. stringify v = b # t \<and> b \<noteq> CHR '']''" for v
      using stringify_starts [of v] starts_no_close by blast
    then show "JArr vs = w \<and> xs = ys"
      using e items_exact [of vs stringify "CHR '']''" xs ws ys] JArr.IH by (simp add: w exact_def)
  qed
next
  case (JObj kvs)
  show ?case
  proof (intro allI impI)
    fix w xs ys assume e: "stringify (JObj kvs) @ xs = stringify w @ ys"
    obtain b t where b: "stringify w = b # t" "starts w b" using stringify_starts by blast
    then have "starts (JObj kvs) b" using e by simp
    then obtain ws where w: "w = JObj ws" using starts_kind [of "JObj kvs" b w] b by (cases w) auto
    have "\<forall>p \<in> set kvs. exact field_text p"
    proof
      fix p assume p: "p \<in> set kvs"
      obtain k v where kv: "p = (k, v)" by (cases p)
      have "exact stringify v" using JObj.IH p kv unfolding exact_def by (metis snds.intros sndI snd_conv)
      then show "exact field_text p" by (simp add: kv field_text_exact)
    qed
    moreover have "\<exists>b t. field_text p = b # t \<and> b \<noteq> CHR ''}''" for p
      by (cases p) (simp add: field_text_def json_quote_def)
    ultimately show "JObj kvs = w \<and> xs = ys"
      using e items_exact [of kvs field_text "CHR ''}''" xs ws ys] unfolding w stringify.simps field_text_def [symmetric] by simp
  qed
qed

lemma stringify_inj: "stringify v = stringify w \<longleftrightarrow> v = w"
  using stringify_exact [of v] unfolding exact_def by (metis append_Nil2 ends_value_def list.simps(4))

subsection \<open>The canonical text\<close>

fun sort_keys :: "json \<Rightarrow> json" where
  "sort_keys (JArr xs) = JArr (map sort_keys xs)"
| "sort_keys (JObj kvs) = JObj (sort_key fst (map (\<lambda>(k, v). (k, sort_keys v)) kvs))"
| "sort_keys v = v"

lemma on_snd: "(\<lambda>(k, v). (k, f v)) = (\<lambda>p. (fst p, f (snd p)))"
  by (simp add: case_prod_unfold)

lemma sort_key_map_snd: "sort_key fst (map (\<lambda>p. (fst p, f (snd p))) kvs) = map (\<lambda>p. (fst p, f (snd p))) (sort_key fst kvs)"
proof -
  have ins: "insort_key fst (fst p, f (snd p)) (map (\<lambda>p. (fst p, f (snd p))) kvs) = map (\<lambda>p. (fst p, f (snd p))) (insort_key fst p kvs)" for p kvs
    by (induction kvs) auto
  show ?thesis
  proof (induction kvs)
    case (Cons p kvs)
    then show ?case using ins [of p "sort_key fst kvs"] by simp
  qed simp
qed

lemma canonical_text: "canonicalJson v = stringify (sort_keys v)"
proof (induction v rule: canonicalJson.induct)
  case (1 xs)
  then have "map canonicalJson xs = map stringify (map sort_keys xs)" by simp
  then show ?case by (simp only: canonicalJson.simps sort_keys.simps stringify.simps)
next
  case (2 kvs)
  have "map (\<lambda>p. (fst p, canonicalJson (snd p))) kvs = map (\<lambda>p. (fst p, stringify (snd p))) (map (\<lambda>p. (fst p, sort_keys (snd p))) kvs)"
    using 2 by (auto simp: case_prod_unfold)
  then have e: "sort_key fst (map (\<lambda>p. (fst p, canonicalJson (snd p))) kvs)
      = map (\<lambda>p. (fst p, stringify (snd p))) (sort_key fst (map (\<lambda>p. (fst p, sort_keys (snd p))) kvs))"
    by (simp only: sort_key_map_snd)
  show ?case
    unfolding canonicalJson.simps sort_keys.simps stringify.simps on_snd e by (simp add: comp_def case_prod_unfold)
qed simp_all

text \<open>Two values have one canonical text exactly if they differ in the order of keys alone.\<close>

lemma canonical_exact: "canonicalJson v = canonicalJson w \<longleftrightarrow> sort_keys v = sort_keys w"
  by (simp add: canonical_text stringify_inj)

lemma canonical_ignores_order:
  assumes "distinct (map fst kvs)" "mset kvs = mset lvs"
  shows "canonicalJson (JObj kvs) = canonicalJson (JObj lvs)"
proof -
  have d: "distinct (map fst lvs)" using assms by (metis mset_eq_imp_distinct_iff mset_map)
  have "inj_on fst (set kvs)" using assms(1) by (simp add: distinct_map)
  moreover have s: "set kvs = set lvs" using assms(2) by (rule mset_eq_setD)
  moreover have "distinct (map fst (sort_key fst xs))" if "distinct (map fst xs)" for xs :: "(str \<times> json) list"
    using that mset_map [of fst "sort_key fst xs"] mset_map [of fst xs] by (metis mset_eq_imp_distinct_iff mset_sort)
  ultimately have "sort_key fst kvs = sort_key fst lvs"
    using assms(1) d by (intro map_sorted_distinct_set_unique [of fst]) auto
  then show ?thesis by (simp add: canonical_exact on_snd sort_key_map_snd)
qed


end
