(* ===== verification/Byte_Page.thy ===== *)
theory Byte_Page
  imports Json_Text Vault_Paths
begin

text \<open>
  The paginator of bulk reads, \<open>packages/server/src/mcp/byte-page.ts\<close>, and the frames of its three
  users: \<open>read_notes\<close> (\<open>tools/m1/notes/read.ts\<close>, with its whole handler), \<open>read_resources\<close>
  (\<open>read-resources.ts\<close>) and \<open>search_and_read\<close> (\<open>search-and-read.ts\<close>).

  The codec that signs cursors (of the SDK), the digest and the YAML parser behind a read are arguments. The \<open>produce\<close> of a
  page may throw, which aborts the page; tracing spans are not modelled.
\<close>

subsection \<open>Cursors\<close>

definition json_bytes :: "json \<Rightarrow> nat" where
  "json_bytes v = utf8_length (stringify v)"

record page_codec =
  cd_mint :: "json \<Rightarrow> str"
  cd_verify :: "str \<Rightarrow> str + json"

record paging_deps =
  pd_codec :: page_codec
  pd_budgetBytes :: nat
  pd_sha256 :: "str \<Rightarrow> str"

record page_binding =
  pb_tool :: str
  pb_principal :: "str option"
  pb_args :: json

fun without_cursor :: "json \<Rightarrow> json" where
  "without_cursor (JObj kvs) = JObj (filter (\<lambda>(k, _). k \<noteq> ''cursor'') kvs)"
| "without_cursor v = v"

definition bindingHash :: "(str \<Rightarrow> str) \<Rightarrow> str \<Rightarrow> json \<Rightarrow> str" where
  "bindingHash h tool args = argsHash h tool (without_cursor args)"

definition principalDigest :: "(str \<Rightarrow> str) \<Rightarrow> str option \<Rightarrow> str" where
  "principalDigest h caller = argsHash h ''principal'' (case caller of None \<Rightarrow> JNull | Some p \<Rightarrow> JStr p)"

definition cursor_payload :: "(str \<Rightarrow> str) \<Rightarrow> page_binding \<Rightarrow> int \<Rightarrow> json" where
  "cursor_payload h b offset =
     JObj [(''v'', JNum 1), (''t'', JStr (pb_tool b)), (''p'', JStr (principalDigest h (pb_principal b))),
       (''h'', JStr (bindingHash h (pb_tool b) (pb_args b))), (''o'', JNum offset)]"

definition mintPageCursor :: "paging_deps \<Rightarrow> page_binding \<Rightarrow> int \<Rightarrow> str" where
  "mintPageCursor pg b offset = cd_mint (pd_codec pg) (cursor_payload (pd_sha256 pg) b offset)"

definition cursor_error :: "str \<Rightarrow> str \<Rightarrow> terror" where
  "cursor_error message reason = Tc Invalid_input message (Some [(''reason'', JStr reason)])"

definition max_safe_integer :: int where
  "max_safe_integer = 2 ^ 53 - 1"

text \<open>The fields of a payload of the right shape: tool, principal, arguments, offset.\<close>

fun cursor_fields :: "json \<Rightarrow> (str \<times> str \<times> str \<times> int) option" where
  "cursor_fields (JObj kvs) =
     (case (get_field ''v'' kvs, get_field ''t'' kvs, get_field ''p'' kvs, get_field ''h'' kvs, get_field ''o'' kvs) of
        (Some (JNum v), Some (JStr t), Some (JStr p), Some (JStr h), Some (JNum offset)) \<Rightarrow>
          if v = 1 \<and> \<bar>offset\<bar> \<le> max_safe_integer then Some (t, p, h, offset) else None
      | _ \<Rightarrow> None)"
| "cursor_fields _ = None"

definition readPageCursor :: "paging_deps \<Rightarrow> page_binding \<Rightarrow> str \<Rightarrow> terror + int" where
  "readPageCursor pg b cursor =
     (case cd_verify (pd_codec pg) cursor of
        Inl message \<Rightarrow>
          let reason = (if message = ''expired'' then ''expired'' else ''invalid'')
          in Inl (cursor_error (''continuation cursor is '' @ reason) reason)
      | Inr payload \<Rightarrow>
          (case cursor_fields payload of
             None \<Rightarrow> Inl (cursor_error ''continuation cursor is invalid'' ''invalid'')
           | Some (t, p, h, offset) \<Rightarrow>
               if t \<noteq> pb_tool b \<or> p \<noteq> principalDigest (pd_sha256 pg) (pb_principal b)
               then Inl (cursor_error ''continuation cursor was not issued to this caller for this tool'' ''foreign'')
               else if h \<noteq> bindingHash (pd_sha256 pg) (pb_tool b) (pb_args b)
               then Inl (cursor_error ''continuation cursor does not match this request's arguments'' ''request_mismatch'')
               else Inr offset))"

subsection \<open>One page\<close>

record ('k, 'e) page_options =
  po_paging :: paging_deps
  po_binding :: page_binding
  po_cursor :: "str option"
  po_items :: "'k list"
  po_produce :: "'k \<Rightarrow> nat \<Rightarrow> terror + 'e"
  po_tooLarge :: "'k \<Rightarrow> nat \<Rightarrow> nat \<Rightarrow> 'e"
  po_frame :: "'e list \<Rightarrow> str option \<Rightarrow> json"
  po_lane :: "'e \<Rightarrow> str"
  po_wire :: "'e \<Rightarrow> json"

definition startOffset :: "('k, 'e) page_options \<Rightarrow> terror + nat" where
  "startOffset ob =
     (case po_cursor ob of
        None \<Rightarrow> Inr 0
      | Some cursor \<Rightarrow>
          ebind (readPageCursor (po_paging ob) (po_binding ob) cursor) (\<lambda>offset.
            if offset < 1 \<or> offset \<ge> int (length (po_items ob))
            then Inl (cursor_error ''continuation cursor is out of range for this request'' ''invalid'')
            else Inr (nat offset)))"

definition page_mint :: "('k, 'e) page_options \<Rightarrow> nat \<Rightarrow> str" where
  "page_mint ob offset = mintPageCursor (po_paging ob) (po_binding ob) (int offset)"

definition page_budget :: "('k, 'e) page_options \<Rightarrow> nat" where
  "page_budget ob = pd_budgetBytes (po_paging ob)"

text \<open>The fixed envelope without a cursor, and with the longest one.\<close>

definition envNone :: "('k, 'e) page_options \<Rightarrow> nat" where
  "envNone ob = json_bytes (po_frame ob [] None)"

definition envCursor :: "('k, 'e) page_options \<Rightarrow> nat" where
  "envCursor ob = json_bytes (po_frame ob [] (Some (page_mint ob (length (po_items ob)))))"

text \<open>The entry of item \<open>i\<close>: what \<open>produce\<close> answers, or its replacement when that cannot fit alone.\<close>

definition alone :: "('k, 'e) page_options \<Rightarrow> nat \<Rightarrow> nat" where
  "alone ob i = (if Suc i = length (po_items ob) then envNone ob else envCursor ob)"

definition page_entry :: "('k, 'e) page_options \<Rightarrow> nat \<Rightarrow> terror + 'e" where
  "page_entry ob i =
     (let item = po_items ob ! i in
      ebind (po_produce ob item i) (\<lambda>entry.
        let size = json_bytes (po_wire ob entry) in
        Inr (if size + alone ob i > page_budget ob then po_tooLarge ob item size (page_budget ob) else entry)))"

record 'e page_state =
  ps_entries :: "'e list"
  ps_usedAfter :: "nat list"
  ps_laneCounts :: "(str \<times> nat) list"
  ps_used :: nat

definition no_page :: "'e page_state" where
  "no_page = \<lparr>ps_entries = [], ps_usedAfter = [], ps_laneCounts = [], ps_used = 0\<rparr>"

definition lane_count :: "str \<Rightarrow> 'e page_state \<Rightarrow> nat" where
  "lane_count l st = (case map_of (ps_laneCounts st) l of None \<Rightarrow> 0 | Some n \<Rightarrow> n)"

definition page_cost :: "('k, 'e) page_options \<Rightarrow> 'e page_state \<Rightarrow> 'e \<Rightarrow> nat" where
  "page_cost ob st entry = json_bytes (po_wire ob entry) + (if lane_count (po_lane ob entry) st > 0 then 1 else 0)"

definition take_entry :: "('k, 'e) page_options \<Rightarrow> 'e \<Rightarrow> 'e page_state \<Rightarrow> 'e page_state" where
  "take_entry ob entry st =
     (let l = po_lane ob entry; used = ps_used st + page_cost ob st entry in
      \<lparr>ps_entries = ps_entries st @ [entry], ps_usedAfter = ps_usedAfter st @ [used],
       ps_laneCounts = AList.update l (Suc (lane_count l st)) (ps_laneCounts st), ps_used = used\<rparr>)"

text \<open>\<open>keep--\<close> while the prefix leaves no room for a cursor.\<close>

fun cut_back :: "nat \<Rightarrow> nat \<Rightarrow> nat list \<Rightarrow> nat \<Rightarrow> nat" where
  "cut_back env budget usedAfter 0 = 0"
| "cut_back env budget usedAfter (Suc k) =
     (if Suc k > 1 \<and> usedAfter ! k + env > budget then cut_back env budget usedAfter k else Suc k)"

text \<open>The loop over \<open>m\<close> more items from item \<open>i\<close>; the offset to resume at, if the page stops early.\<close>

fun page_walk :: "('k, 'e) page_options \<Rightarrow> nat \<Rightarrow> nat \<Rightarrow> nat \<Rightarrow> 'e page_state \<Rightarrow> terror + 'e list \<times> nat option" where
  "page_walk ob start i 0 st = Inr (ps_entries st, None)"
| "page_walk ob start i (Suc m) st =
     ebind (page_entry ob i) (\<lambda>entry.
       if ps_entries st \<noteq> [] \<and> ps_used st + page_cost ob st entry + envNone ob > page_budget ob
       then let keep = cut_back (envCursor ob) (page_budget ob) (ps_usedAfter st) (length (ps_entries st))
            in Inr (take keep (ps_entries st), Some (start + keep))
       else page_walk ob start (Suc i) m (take_entry ob entry st))"

definition paginateByBytes :: "('k, 'e) page_options \<Rightarrow> terror + 'e list \<times> str option" where
  "paginateByBytes ob =
     ebind (startOffset ob) (\<lambda>start.
       ebind (page_walk ob start start (length (po_items ob) - start) no_page) (\<lambda>(entries, stop).
         Inr (entries, map_option (page_mint ob) stop)))"

subsection \<open>The tools that page\<close>

datatype read_item = Read_note details | Read_error details

fun item_lane :: "read_item \<Rightarrow> str" where
  "item_lane (Read_note _) = ''note''"
| "item_lane (Read_error _) = ''error''"

fun item_wire :: "read_item \<Rightarrow> json" where
  "item_wire (Read_note note) = JObj note"
| "item_wire (Read_error e) = JObj e"

definition next_json :: "str option \<Rightarrow> json" where
  "next_json c = (case c of None \<Rightarrow> JNull | Some s \<Rightarrow> JStr s)"

definition of_lane :: "str \<Rightarrow> read_item list \<Rightarrow> json" where
  "of_lane l es = JArr (map item_wire (filter (\<lambda>e. item_lane e = l) es))"

definition readNotesResult :: "str \<Rightarrow> read_item list \<Rightarrow> str option \<Rightarrow> json" where
  "readNotesResult vault entries c =
     JObj [(''vault'', JStr vault), (''notes'', of_lane ''note'' entries), (''errors'', of_lane ''error'' entries), (''next_cursor'', next_json c)]"

definition notes_too_large :: "str \<Rightarrow> nat \<Rightarrow> nat \<Rightarrow> read_item" where
  "notes_too_large p bytes budget =
     Read_error [(''path'', JStr p), (''code'', JStr ''too_large''),
       (''message'', JStr ''note is larger than the response byte budget and cannot be returned''),
       (''size'', JNum (int bytes)), (''budget'', JNum (int budget))]"

text \<open>What \<open>readVaultNote\<close> hands over, with the fields of \<open>unparseableFrontmatterFields\<close>.\<close>

record loaded_note =
  ld_raw :: str
  ld_hash :: str
  ld_frontmatter :: json
  ld_body :: str
  ld_unparseable :: details

definition note_fields :: "bool \<Rightarrow> str \<Rightarrow> loaded_note \<Rightarrow> details" where
  "note_fields concise rel ld = spread
     (if concise then [(''path'', JStr rel), (''body'', JStr (ld_body ld)), (''content_hash'', JStr (ld_hash ld))]
      else [(''path'', JStr rel), (''content'', JStr (ld_raw ld)), (''frontmatter'', ld_frontmatter ld),
            (''body'', JStr (ld_body ld)), (''content_hash'', JStr (ld_hash ld))])
     (ld_unparseable ld)"

fun read_failure :: "str \<Rightarrow> terror \<Rightarrow> read_item" where
  "read_failure p (Tc code message _) =
     Read_error [(''path'', JStr p), (''code'', JStr (code_name code)), (''message'', JStr message)]"
| "read_failure p (Thrown message) =
     Read_error [(''path'', JStr p), (''code'', JStr ''internal_error''), (''message'', JStr message)]"

definition read_notes_item :: "fs \<Rightarrow> (str \<Rightarrow> terror + loaded_note) \<Rightarrow> bool \<Rightarrow> str \<Rightarrow> read_item" where
  "read_notes_item fs readVaultNote concise p =
     (case ebind (normalizeVaultPath fs p) (\<lambda>rel. ebind (readVaultNote rel) (\<lambda>ld. Inr (note_fields concise rel ld))) of
        Inl e \<Rightarrow> read_failure p e
      | Inr note \<Rightarrow> Read_note note)"

record read_notes_call =
  rn_paging :: paging_deps
  rn_caller :: "str option"
  rn_vault :: str
  rn_input :: json
  rn_paths :: "str list"
  rn_cursor :: "str option"
  rn_concise :: bool
  rn_fs :: fs
  rn_readVaultNote :: "str \<Rightarrow> terror + loaded_note"

definition read_notes_options :: "read_notes_call \<Rightarrow> (str, read_item) page_options" where
  "read_notes_options c =
     \<lparr>po_paging = rn_paging c,
      po_binding = \<lparr>pb_tool = ''read_notes'', pb_principal = rn_caller c, pb_args = rn_input c\<rparr>,
      po_cursor = rn_cursor c, po_items = rn_paths c,
      po_produce = (\<lambda>p _. Inr (read_notes_item (rn_fs c) (rn_readVaultNote c) (rn_concise c) p)),
      po_tooLarge = notes_too_large, po_frame = readNotesResult (rn_vault c), po_lane = item_lane, po_wire = item_wire\<rparr>"

definition read_notes :: "read_notes_call \<Rightarrow> terror + json" where
  "read_notes c = ebind (paginateByBytes (read_notes_options c)) (\<lambda>(entries, next). Inr (readNotesResult (rn_vault c) entries next))"

text \<open>\<open>read_resources\<close>: one array, in request order.\<close>

definition resourcesResult :: "json list \<Rightarrow> str option \<Rightarrow> json" where
  "resourcesResult results c = JObj [(''results'', JArr results), (''next_cursor'', next_json c)]"

definition resource_too_large :: "str \<Rightarrow> nat \<Rightarrow> nat \<Rightarrow> json" where
  "resource_too_large uri bytes budget =
     JObj [(''ok'', JBool False), (''uri'', JStr uri),
       (''error'', JObj [(''code'', JStr ''too_large''),
         (''message'', JStr ''resource is larger than the response byte budget and cannot be returned''),
         (''size'', JNum (int bytes)), (''budget'', JNum (int budget))])]"

definition searchReadResult :: "str \<Rightarrow> str \<Rightarrow> read_item list \<Rightarrow> str option \<Rightarrow> json" where
  "searchReadResult mode vault entries c =
     JObj [(''vault'', JStr vault), (''mode'', JStr mode), (''notes'', of_lane ''note'' entries),
       (''errors'', of_lane ''error'' entries), (''next_cursor'', next_json c)]"

end
