(* ===== verification/Byte_Page_Guarantees.thy ===== *)
theory Byte_Page_Guarantees
  imports Byte_Page
begin

text \<open>
  What a page promises. The accounting of the loop is exact for every frame that places each entry once in
  the array of its lane (locale \<open>byte_frame\<close>, interpreted on the frames of the three tools), so a page
  never exceeds the budget; pages cover the request item by item in order and their walk ends; a cursor
  is only good for the caller, tool and arguments it was issued for.
\<close>

subsection \<open>Exact accounting\<close>

fun framed :: "('e \<Rightarrow> str) \<Rightarrow> ('e \<Rightarrow> json) \<Rightarrow> str list \<Rightarrow> 'e list \<Rightarrow> nat" where
  "framed lane wire seen [] = 0"
| "framed lane wire seen (e # es) =
     json_bytes (wire e) + (if lane e \<in> set seen then 1 else 0) + framed lane wire (lane e # seen) es"

lemma framed_seen: "set seen = set seen' \<Longrightarrow> framed lane wire seen es = framed lane wire seen' es"
  by (induction es arbitrary: seen seen') (simp, metis (no_types, lifting) framed.simps(2) list.set(2))

lemma framed_append: "framed lane wire seen (es @ fs) = framed lane wire seen es + framed lane wire (map lane es @ seen) fs"
proof (induction es arbitrary: seen)
  case (Cons e es)
  have "framed lane wire (map lane es @ lane e # seen) fs = framed lane wire (lane e # map lane es @ seen) fs"
    by (rule framed_seen) simp
  then show ?case using Cons.IH [of "lane e # seen"] by simp
qed simp

text \<open>
  A frame whose size is that of the empty frame plus the entries with their commas, and which grows with
  its cursor.
\<close>

locale byte_frame =
  fixes frame :: "'e list \<Rightarrow> str option \<Rightarrow> json" and lane :: "'e \<Rightarrow> str" and wire :: "'e \<Rightarrow> json"
  assumes accounted: "json_bytes (frame es c) = json_bytes (frame [] c) + framed lane wire [] es"
    and cursor_mono: "utf8_length (json_quote c1) \<le> utf8_length (json_quote c2)
      \<Longrightarrow> json_bytes (frame [] (Some c1)) \<le> json_bytes (frame [] (Some c2))"

text \<open>An object of arrays: the text of each field, and of an array, in bytes.\<close>

lemma array_bytes: "json_bytes (JArr vs) = 2 + sum_list (map json_bytes vs) + (length vs - 1)"
  by (simp add: json_bytes_def [abs_def] utf8_join comp_def char_bytes_def)

lemma object_bytes:
  "json_bytes (JObj kvs) = 2 + sum_list (map (\<lambda>(k, v). utf8_length (json_quote k) + 1 + json_bytes v) kvs) + (length kvs - 1)"
  by (simp add: json_bytes_def [abs_def] utf8_join comp_def case_prod_unfold char_bytes_def)

definition lane_bytes :: "str \<Rightarrow> read_item list \<Rightarrow> nat" where
  "lane_bytes l es = sum_list (map (\<lambda>e. json_bytes (item_wire e)) (filter (\<lambda>e. item_lane e = l) es))"

definition lane_size :: "str \<Rightarrow> read_item list \<Rightarrow> nat" where
  "lane_size l es = length (filter (\<lambda>e. item_lane e = l) es)"

lemma of_lane_bytes: "json_bytes (of_lane l es) = 2 + lane_bytes l es + (lane_size l es - 1)"
  by (simp add: of_lane_def array_bytes lane_bytes_def lane_size_def comp_def)

lemma framed_items:
  "framed item_lane item_wire seen es =
     lane_bytes ''note'' es + (lane_size ''note'' es - (if ''note'' \<in> set seen then 0 else 1))
     + lane_bytes ''error'' es + (lane_size ''error'' es - (if ''error'' \<in> set seen then 0 else 1))"
proof (induction es arbitrary: seen)
  case (Cons e es)
  then show ?case by (cases e) (auto simp: lane_bytes_def lane_size_def)
qed (simp add: lane_bytes_def lane_size_def)

lemma next_json_bytes:
  "utf8_length (json_quote c1) \<le> utf8_length (json_quote c2) \<Longrightarrow> json_bytes (next_json (Some c1)) \<le> json_bytes (next_json (Some c2))"
  by (simp add: next_json_def json_bytes_def)

lemma no_items [simp]: "lane_bytes l [] = 0" "lane_size l [] = 0"
  by (simp_all add: lane_bytes_def lane_size_def)

interpretation notes_frame: byte_frame "readNotesResult vault" item_lane item_wire
proof
  fix es c c1 c2
  show "json_bytes (readNotesResult vault es c) = json_bytes (readNotesResult vault [] c) + framed item_lane item_wire [] es"
    by (simp add: readNotesResult_def object_bytes of_lane_bytes framed_items)
  assume "utf8_length (json_quote c1) \<le> utf8_length (json_quote c2)"
  from next_json_bytes [OF this]
  show "json_bytes (readNotesResult vault [] (Some c1)) \<le> json_bytes (readNotesResult vault [] (Some c2))"
    by (simp add: readNotesResult_def object_bytes)
qed

interpretation search_read_frame: byte_frame "searchReadResult mode vault" item_lane item_wire
proof
  fix es c c1 c2
  show "json_bytes (searchReadResult mode vault es c) = json_bytes (searchReadResult mode vault [] c) + framed item_lane item_wire [] es"
    by (simp add: searchReadResult_def object_bytes of_lane_bytes framed_items)
  assume "utf8_length (json_quote c1) \<le> utf8_length (json_quote c2)"
  from next_json_bytes [OF this]
  show "json_bytes (searchReadResult mode vault [] (Some c1)) \<le> json_bytes (searchReadResult mode vault [] (Some c2))"
    by (simp add: searchReadResult_def object_bytes)
qed

lemma framed_one_lane: "framed (\<lambda>_. l) wire seen es = sum_list (map (\<lambda>e. json_bytes (wire e)) es) + (length es - (if l \<in> set seen then 0 else 1))"
  by (induction es arbitrary: seen) auto

interpretation resources_frame: byte_frame resourcesResult "\<lambda>_. ''results''" "\<lambda>e. e"
proof
  fix es c c1 c2
  show "json_bytes (resourcesResult es c) = json_bytes (resourcesResult [] c) + framed (\<lambda>_. ''results'') (\<lambda>e. e) [] es"
    by (simp add: resourcesResult_def object_bytes array_bytes framed_one_lane)
  assume "utf8_length (json_quote c1) \<le> utf8_length (json_quote c2)"
  from next_json_bytes [OF this]
  show "json_bytes (resourcesResult [] (Some c1)) \<le> json_bytes (resourcesResult [] (Some c2))"
    by (simp add: resourcesResult_def object_bytes)
qed

subsection \<open>The loop\<close>

definition page_ok :: "('k, 'e) page_options \<Rightarrow> 'e page_state \<Rightarrow> bool" where
  "page_ok ob st \<longleftrightarrow> ps_used st = framed (po_lane ob) (po_wire ob) [] (ps_entries st)
     \<and> length (ps_usedAfter st) = length (ps_entries st)
     \<and> (\<forall>j < length (ps_entries st). ps_usedAfter st ! j = framed (po_lane ob) (po_wire ob) [] (take (Suc j) (ps_entries st)))
     \<and> (\<forall>l. lane_count l st = count_list (map (po_lane ob) (ps_entries st)) l)"

lemma page_ok_none: "page_ok ob no_page"
  by (simp add: page_ok_def no_page_def lane_count_def)

lemma page_cost_framed:
  "page_ok ob st \<Longrightarrow> ps_used st + page_cost ob st e = framed (po_lane ob) (po_wire ob) [] (ps_entries st @ [e])"
  by (auto simp: page_ok_def page_cost_def framed_append count_list_0_iff)

lemma page_ok_take:
  assumes "page_ok ob st" shows "page_ok ob (take_entry ob e st)"
proof -
  have u: "ps_used (take_entry ob e st) = framed (po_lane ob) (po_wire ob) [] (ps_entries (take_entry ob e st))"
    using page_cost_framed [OF assms, of e] by (simp add: take_entry_def Let_def)
  have len: "length (ps_usedAfter st) = length (ps_entries st)" using assms by (simp add: page_ok_def)
  have "ps_usedAfter (take_entry ob e st) ! j = framed (po_lane ob) (po_wire ob) [] (take (Suc j) (ps_entries (take_entry ob e st)))"
    if "j < length (ps_entries (take_entry ob e st))" for j
  proof (cases "j < length (ps_entries st)")
    case True
    then show ?thesis using assms len by (simp add: take_entry_def Let_def nth_append page_ok_def)
  next
    case False
    then have "j = length (ps_entries st)" using that by (simp add: take_entry_def Let_def)
    then show ?thesis using u len by (simp add: take_entry_def Let_def nth_append)
  qed
  moreover have "lane_count l (take_entry ob e st) = count_list (map (po_lane ob) (ps_entries (take_entry ob e st))) l" for l
    using assms by (auto simp: page_ok_def take_entry_def Let_def lane_count_def update_conv' split: option.splits)
  ultimately show ?thesis using u len unfolding page_ok_def by (simp add: take_entry_def Let_def)
qed

lemma cut_back_ok:
  "0 < k \<Longrightarrow> 1 \<le> cut_back env budget ua k \<and> cut_back env budget ua k \<le> k
     \<and> (cut_back env budget ua k = 1 \<or> ua ! (cut_back env budget ua k - 1) + env \<le> budget)"
  by (induction k) (auto simp: not_less le_Suc_eq)

text \<open>What a page that ended says of its entries, and of its size when every item fits alone.\<close>

definition entries_at :: "('k, 'e) page_options \<Rightarrow> nat \<Rightarrow> 'e list \<Rightarrow> bool" where
  "entries_at ob start es \<longleftrightarrow> (\<forall>j < length es. page_entry ob (start + j) = Inr (es ! j))"

definition all_fit :: "('k, 'e) page_options \<Rightarrow> bool" where
  "all_fit ob \<longleftrightarrow> (\<forall>i e. i < length (po_items ob) \<longrightarrow> page_entry ob i = Inr e \<longrightarrow> json_bytes (po_wire ob e) + alone ob i \<le> page_budget ob)"

lemma entries_at_take: "entries_at ob start es \<Longrightarrow> entries_at ob start (take k es)"
  by (simp add: entries_at_def)

lemma entries_at_snoc: "entries_at ob start es \<Longrightarrow> page_entry ob (start + length es) = Inr e \<Longrightarrow> entries_at ob start (es @ [e])"
  by (auto simp: entries_at_def nth_append less_Suc_eq)

lemma page_walk_entries:
  assumes "page_walk ob start i m st = Inr (es, stop)" "i + m = length (po_items ob)" "i = start + length (ps_entries st)"
    "entries_at ob start (ps_entries st)"
  shows "entries_at ob start es \<and> (case stop of None \<Rightarrow> start + length es = length (po_items ob)
      | Some k \<Rightarrow> k = start + length es \<and> es \<noteq> [] \<and> k < length (po_items ob))"
  using assms
proof (induction m arbitrary: i st)
  case 0
  then show ?case by simp
next
  case (Suc m)
  obtain e where e: "page_entry ob i = Inr e" using Suc.prems(1) by (auto simp: ebind_eq_Inr)
  show ?case
  proof (cases "ps_entries st \<noteq> [] \<and> ps_used st + page_cost ob st e + envNone ob > page_budget ob")
    case True
    define keep where "keep = cut_back (envCursor ob) (page_budget ob) (ps_usedAfter st) (length (ps_entries st))"
    have k: "1 \<le> keep" "keep \<le> length (ps_entries st)" using True cut_back_ok unfolding keep_def by blast+
    have "es = take keep (ps_entries st)" "stop = Some (start + keep)"
      using Suc.prems(1) e True by (simp_all add: keep_def [symmetric] Let_def)
    then show ?thesis using k Suc.prems(2,3) entries_at_take [OF Suc.prems(4)] by auto
  next
    case False
    then have "page_walk ob start (Suc i) m (take_entry ob e st) = Inr (es, stop)" using Suc.prems(1) e by auto
    moreover have "entries_at ob start (ps_entries (take_entry ob e st))"
      using entries_at_snoc [OF Suc.prems(4), of e] e Suc.prems(3) by (simp add: take_entry_def Let_def)
    ultimately show ?thesis
      using Suc.IH [of "Suc i" "take_entry ob e st"] Suc.prems(2,3) by (simp add: take_entry_def Let_def)
  qed
qed

lemma page_walk_size:
  assumes "page_walk ob start i m st = Inr (es, stop)" "i + m = length (po_items ob)" "i = start + length (ps_entries st)"
    "entries_at ob start (ps_entries st)" "page_ok ob st" "all_fit ob"
    "2 \<le> length (ps_entries st) \<longrightarrow> ps_used st + envNone ob \<le> page_budget ob"
  shows "case stop of None \<Rightarrow> 2 \<le> length es \<longrightarrow> framed (po_lane ob) (po_wire ob) [] es + envNone ob \<le> page_budget ob
      | Some _ \<Rightarrow> framed (po_lane ob) (po_wire ob) [] es + envCursor ob \<le> page_budget ob"
  using assms
proof (induction m arbitrary: i st)
  case 0
  then show ?case by (simp add: page_ok_def)
next
  case (Suc m)
  obtain e where e: "page_entry ob i = Inr e" using Suc.prems(1) by (auto simp: ebind_eq_Inr)
  show ?case
  proof (cases "ps_entries st \<noteq> [] \<and> ps_used st + page_cost ob st e + envNone ob > page_budget ob")
    case True
    define keep where "keep = cut_back (envCursor ob) (page_budget ob) (ps_usedAfter st) (length (ps_entries st))"
    have k: "1 \<le> keep" "keep \<le> length (ps_entries st)" "keep = 1 \<or> ps_usedAfter st ! (keep - 1) + envCursor ob \<le> page_budget ob"
      using True cut_back_ok unfolding keep_def by blast+
    have es: "es = take keep (ps_entries st)" "stop = Some (start + keep)"
      using Suc.prems(1) e True by (simp_all add: keep_def [symmetric] Let_def)
    have "framed (po_lane ob) (po_wire ob) [] es + envCursor ob \<le> page_budget ob"
    proof (cases "keep = 1")
      case True
      then obtain x xs where x: "ps_entries st = x # xs" using k(2) by (cases "ps_entries st") auto
      have "page_entry ob start = Inr x" using Suc.prems(4) unfolding entries_at_def x by force
      moreover have "start < length (po_items ob)" "Suc start \<noteq> length (po_items ob)" using Suc.prems(2,3) x by simp_all
      ultimately have "json_bytes (po_wire ob x) + envCursor ob \<le> page_budget ob"
        using Suc.prems(6) by (auto simp: all_fit_def alone_def)
      then show ?thesis by (simp add: es True x)
    next
      case False
      then have "ps_usedAfter st ! (keep - 1) + envCursor ob \<le> page_budget ob" using k(3) by simp
      moreover have "ps_usedAfter st ! (keep - 1) = framed (po_lane ob) (po_wire ob) [] es"
        using Suc.prems(5) k(1,2) by (simp add: page_ok_def es)
      ultimately show ?thesis by simp
    qed
    then show ?thesis by (simp add: es)
  next
    case False
    then have w: "page_walk ob start (Suc i) m (take_entry ob e st) = Inr (es, stop)" using Suc.prems(1) e by auto
    have a: "entries_at ob start (ps_entries (take_entry ob e st))"
      using entries_at_snoc [OF Suc.prems(4), of e] e Suc.prems(3) by (simp add: take_entry_def Let_def)
    have u: "2 \<le> length (ps_entries (take_entry ob e st)) \<longrightarrow> ps_used (take_entry ob e st) + envNone ob \<le> page_budget ob"
      using False by (auto simp: take_entry_def Let_def)
    show ?thesis
      by (rule Suc.IH [OF w _ _ a page_ok_take [OF Suc.prems(5)] Suc.prems(6) u])
        (use Suc.prems(2,3) in \<open>simp_all add: take_entry_def Let_def\<close>)
  qed
qed

lemma startOffset_range: "startOffset ob = Inr start \<Longrightarrow> po_items ob \<noteq> [] \<Longrightarrow> start < length (po_items ob)"
  by (auto simp: startOffset_def ebind_eq_Inr split: option.splits if_splits)

lemma paginate_parts:
  assumes "paginateByBytes ob = Inr (es, next)"
  obtains start stop where "startOffset ob = Inr start" "next = map_option (page_mint ob) stop"
    "page_walk ob start start (length (po_items ob) - start) no_page = Inr (es, stop)"
  using assms by (auto simp: paginateByBytes_def ebind_eq_Inr)


text \<open>A page fits the budget when each item, or the error that replaces it, fits alone.\<close>

definition cursors_grow :: "('k, 'e) page_options \<Rightarrow> bool" where
  "cursors_grow ob \<longleftrightarrow> (\<forall>k < length (po_items ob).
     utf8_length (json_quote (page_mint ob k)) \<le> utf8_length (json_quote (page_mint ob (length (po_items ob)))))"

context byte_frame
begin

lemma page_fits:
  assumes "paginateByBytes ob = Inr (es, next)" "po_items ob \<noteq> []" "all_fit ob" "cursors_grow ob"
    "po_frame ob = frame" "po_lane ob = lane" "po_wire ob = wire"
  shows "json_bytes (frame es next) \<le> page_budget ob"
proof -
  obtain start stop where s: "startOffset ob = Inr start" "next = map_option (page_mint ob) stop"
    "page_walk ob start start (length (po_items ob) - start) no_page = Inr (es, stop)"
    using paginate_parts [OF assms(1)] by metis
  have r: "start < length (po_items ob)" by (rule startOffset_range [OF s(1) assms(2)])
  have en: "entries_at ob start es \<and> (case stop of None \<Rightarrow> start + length es = length (po_items ob)
      | Some k \<Rightarrow> k = start + length es \<and> es \<noteq> [] \<and> k < length (po_items ob))"
    by (rule page_walk_entries [OF s(3)]) (use r in \<open>simp_all add: no_page_def entries_at_def\<close>)
  have sz: "case stop of None \<Rightarrow> 2 \<le> length es \<longrightarrow> framed lane wire [] es + envNone ob \<le> page_budget ob
      | Some _ \<Rightarrow> framed lane wire [] es + envCursor ob \<le> page_budget ob"
    unfolding assms(6,7) [symmetric]
    by (rule page_walk_size [OF s(3) _ _ _ page_ok_none assms(3)]) (use r in \<open>simp_all add: no_page_def entries_at_def\<close>)
  show ?thesis
  proof (cases stop)
    case None
    then have n: "start + length es = length (po_items ob)" using en by simp
    have "framed lane wire [] es + envNone ob \<le> page_budget ob"
    proof (cases "2 \<le> length es")
      case True then show ?thesis using sz None by simp
    next
      case False
      then have "length es = 1" using n r by linarith
      then obtain x where x: "es = [x]" by (auto simp: length_Suc_conv)
      then have "page_entry ob start = Inr x" using en by (simp add: entries_at_def)
      then have "json_bytes (wire x) + alone ob start \<le> page_budget ob"
        using assms(3) r unfolding all_fit_def assms(7) by blast
      then show ?thesis using n x by (simp add: alone_def)
    qed
    then show ?thesis using accounted [of es None] by (simp add: s(2) None envNone_def assms(5))
  next
    case (Some k)
    then have "k < length (po_items ob)" using en by simp
    then have "json_bytes (frame [] (Some (page_mint ob k))) \<le> envCursor ob"
      using assms(4) cursor_mono unfolding cursors_grow_def envCursor_def assms(5) by blast
    then show ?thesis using accounted [of es "Some (page_mint ob k)"] sz by (simp add: s(2) Some)
  qed
qed

end

text \<open>
  C9: a page of \<open>read_notes\<close> never exceeds the server's byte budget, counted over the text the
  governor of dispatch measures, whenever the error that replaces an oversized note fits by itself.
\<close>

definition errors_fit :: "read_notes_call \<Rightarrow> bool" where
  "errors_fit c \<longleftrightarrow> (\<forall>i < length (rn_paths c).
     let p = rn_paths c ! i;
         size = json_bytes (item_wire (read_notes_item (rn_fs c) (rn_readVaultNote c) (rn_concise c) p));
         budget = pd_budgetBytes (rn_paging c)
     in json_bytes (item_wire (notes_too_large p size budget)) + alone (read_notes_options c) i \<le> budget)"

lemma read_notes_options_simps [simp]:
  "po_items (read_notes_options c) = rn_paths c" "po_wire (read_notes_options c) = item_wire"
  "po_lane (read_notes_options c) = item_lane" "po_frame (read_notes_options c) = readNotesResult (rn_vault c)"
  "page_budget (read_notes_options c) = pd_budgetBytes (rn_paging c)" "po_tooLarge (read_notes_options c) = notes_too_large"
  "po_cursor (read_notes_options c) = rn_cursor c" "po_paging (read_notes_options c) = rn_paging c"
  by (simp_all add: read_notes_options_def page_budget_def)

lemma read_notes_all_fit: "errors_fit c \<Longrightarrow> all_fit (read_notes_options c)"
  unfolding all_fit_def errors_fit_def by (auto simp: page_entry_def Let_def read_notes_options_def [of c] page_budget_def)

theorem read_notes_fits:
  assumes "read_notes c = Inr r" "rn_paths c \<noteq> []" "errors_fit c" "cursors_grow (read_notes_options c)"
  shows "json_bytes r \<le> pd_budgetBytes (rn_paging c)"
proof -
  obtain es nx where p: "paginateByBytes (read_notes_options c) = Inr (es, nx)" "r = readNotesResult (rn_vault c) es nx"
    using assms(1) by (auto simp: read_notes_def ebind_eq_Inr)
  show ?thesis
    using notes_frame.page_fits [OF p(1) _ read_notes_all_fit [OF assms(3)] assms(4)] assms(2) by (simp add: p(2))
qed

subsection \<open>A whole walk\<close>

text \<open>The same call again with a cursor among its arguments.\<close>

fun with_cursor :: "str option \<Rightarrow> json \<Rightarrow> json" where
  "with_cursor (Some s) (JObj kvs) = JObj (AList.update ''cursor'' (JStr s) kvs)"
| "with_cursor _ v = v"

definition continue_with :: "str option \<Rightarrow> read_notes_call \<Rightarrow> read_notes_call" where
  "continue_with cursor c = c\<lparr>rn_cursor := cursor, rn_input := with_cursor cursor (rn_input c)\<rparr>"


lemma without_cursor_update: "filter (\<lambda>(k, _). k \<noteq> ''cursor'') (AList.update ''cursor'' v kvs) = filter (\<lambda>(k, _). k \<noteq> ''cursor'') kvs"
  by (induction kvs) auto

lemma without_with_cursor [simp]: "without_cursor (with_cursor cursor v) = without_cursor v"
  by (cases "(cursor, v)" rule: with_cursor.cases) (simp_all add: without_cursor_update)




lemma binding_simps [simp]:
  "pb_tool (po_binding (read_notes_options c)) = ''read_notes''" "pb_principal (po_binding (read_notes_options c)) = rn_caller c"
  "pb_args (po_binding (read_notes_options c)) = rn_input c"
  by (simp_all add: read_notes_options_def)

lemma continue_simps [simp]:
  "rn_paging (continue_with cursor c) = rn_paging c" "rn_caller (continue_with cursor c) = rn_caller c"
  "rn_paths (continue_with cursor c) = rn_paths c" "rn_cursor (continue_with cursor c) = cursor"
  "rn_vault (continue_with cursor c) = rn_vault c" "rn_input (continue_with cursor c) = with_cursor cursor (rn_input c)"
  "rn_fs (continue_with cursor c) = rn_fs c" "rn_readVaultNote (continue_with cursor c) = rn_readVaultNote c"
  "rn_concise (continue_with cursor c) = rn_concise c"
  by (simp_all add: continue_with_def)





lemma page_entry_total: "\<exists>e. page_entry (read_notes_options c) i = Inr e"
  by (simp add: page_entry_def read_notes_options_def Let_def)

lemma page_walk_total:
  "(\<And>j. \<exists>e. page_entry ob j = Inr e) \<Longrightarrow> \<exists>es stop. page_walk ob start i m st = Inr (es, stop)"
proof (induction m arbitrary: i st)
  case (Suc m)
  obtain e where "page_entry ob i = Inr e" using Suc.prems by blast
  then show ?case using Suc.IH [OF Suc.prems, of "Suc i" "take_entry ob e st"] by (simp add: Let_def)
qed simp

text \<open>A cursor of the request leads back to its offset.\<close>

lemma cursor_fields_payload: "\<bar>offset\<bar> \<le> max_safe_integer \<Longrightarrow>
    cursor_fields (cursor_payload h b offset) = Some (pb_tool b, principalDigest h (pb_principal b), bindingHash h (pb_tool b) (pb_args b), offset)"
  by (simp add: cursor_payload_def get_field_def)




subsection \<open>What a cursor is good for\<close>

text \<open>The two texts whose digests a cursor carries.\<close>

definition hashed_texts :: "page_binding \<Rightarrow> str set" where
  "hashed_texts b =
     {''principal'' @ '' '' @ canonicalJson (case pb_principal b of None \<Rightarrow> JNull | Some p \<Rightarrow> JStr p),
      pb_tool b @ '' '' @ canonicalJson (without_cursor (pb_args b))}"

definition no_collision :: "(str \<Rightarrow> str) \<Rightarrow> str set \<Rightarrow> bool" where
  "no_collision h S \<longleftrightarrow> (\<forall>x \<in> S. \<forall>y \<in> S. take 32 (h x) = take 32 (h y) \<longrightarrow> x = y)"

lemma digests_equal:
  assumes "no_collision h (hashed_texts b1 \<union> hashed_texts b2)" "pb_tool b1 = pb_tool b2"
    "principalDigest h (pb_principal b1) = principalDigest h (pb_principal b2)"
    "bindingHash h (pb_tool b1) (pb_args b1) = bindingHash h (pb_tool b2) (pb_args b2)"
  shows "pb_principal b1 = pb_principal b2
    \<and> sort_keys (without_cursor (pb_args b1)) = sort_keys (without_cursor (pb_args b2))"
proof -
  let ?who = "\<lambda>b. case pb_principal b of None \<Rightarrow> JNull | Some p \<Rightarrow> JStr p"
  have "''principal'' @ '' '' @ canonicalJson (?who b1) = ''principal'' @ '' '' @ canonicalJson (?who b2)"
    using assms(1,3) unfolding no_collision_def principalDigest_def argsHash_def hashed_texts_def by blast
  then have "canonicalJson (?who b1) = canonicalJson (?who b2)" by simp
  then have "pb_principal b1 = pb_principal b2" unfolding canonical_exact by (auto split: option.splits)
  moreover have "pb_tool b1 @ '' '' @ canonicalJson (without_cursor (pb_args b1)) = pb_tool b2 @ '' '' @ canonicalJson (without_cursor (pb_args b2))"
    using assms(1,4) unfolding no_collision_def bindingHash_def argsHash_def hashed_texts_def by blast
  then have "canonicalJson (without_cursor (pb_args b1)) = canonicalJson (without_cursor (pb_args b2))" using assms(2) by simp
  ultimately show ?thesis by (simp add: canonical_exact)
qed

lemma readPageCursor_Inr:
  assumes "readPageCursor pg b cursor = Inr offset"
  shows "\<exists>payload. cd_verify (pd_codec pg) cursor = Inr payload \<and> cursor_fields payload
    = Some (pb_tool b, principalDigest (pd_sha256 pg) (pb_principal b), bindingHash (pd_sha256 pg) (pb_tool b) (pb_args b), offset)"
  using assms unfolding readPageCursor_def by (auto simp: Let_def split: sum.splits option.splits if_splits prod.splits)

text \<open>
  C11: a cursor is accepted only if the server issued it, for the same tool, the same caller and the
  same arguments up to the order of keys and the cursor itself; the offset it yields is the one it was
  issued with. It assumes that the codec lets through only payloads the server signed and that the
  digest has no collision among the bindings issued and presented.
\<close>

theorem cursor_bound:
  assumes "readPageCursor pg b cursor = Inr offset"
    "\<And>payload. cd_verify (pd_codec pg) cursor = Inr payload \<Longrightarrow> \<exists>(b1, o1) \<in> issued. payload = cursor_payload (pd_sha256 pg) b1 o1"
    "no_collision (pd_sha256 pg) (hashed_texts b \<union> (\<Union>(b1, _) \<in> issued. hashed_texts b1))"
  shows "\<exists>b1. (b1, offset) \<in> issued \<and> pb_tool b1 = pb_tool b \<and> pb_principal b1 = pb_principal b
    \<and> sort_keys (without_cursor (pb_args b1)) = sort_keys (without_cursor (pb_args b))"
proof -
  let ?h = "pd_sha256 pg"
  obtain payload where v: "cd_verify (pd_codec pg) cursor = Inr payload" and f: "cursor_fields payload
      = Some (pb_tool b, principalDigest ?h (pb_principal b), bindingHash ?h (pb_tool b) (pb_args b), offset)"
    using readPageCursor_Inr [OF assms(1)] by blast
  obtain b1 o1 where i: "(b1, o1) \<in> issued" and p: "payload = cursor_payload ?h b1 o1" using assms(2) [OF v] by auto
  have "\<bar>o1\<bar> \<le> max_safe_integer" using f unfolding p cursor_payload_def by (auto simp: get_field_def split: if_splits)
  from cursor_fields_payload [OF this, of ?h b1]
  have "(pb_tool b1, principalDigest ?h (pb_principal b1), bindingHash ?h (pb_tool b1) (pb_args b1), o1)
      = (pb_tool b, principalDigest ?h (pb_principal b), bindingHash ?h (pb_tool b) (pb_args b), offset)"
    using f [unfolded p] by (metis option.inject)
  then have e: "pb_tool b1 = pb_tool b" "principalDigest ?h (pb_principal b1) = principalDigest ?h (pb_principal b)"
    "bindingHash ?h (pb_tool b1) (pb_args b1) = bindingHash ?h (pb_tool b) (pb_args b)" "o1 = offset"
    unfolding prod.inject by blast+
  have "no_collision ?h (hashed_texts b1 \<union> hashed_texts b)" using assms(3) i unfolding no_collision_def by fastforce
  from digests_equal [OF this e(1-3)] i e(1,4) show ?thesis by blast
qed

subsection \<open>An example\<close>

text \<open>Three notes under 280 bytes: two on the first page, the third on the next, after the caller's access was revoked.\<close>

definition demo_codec :: page_codec where
  "demo_codec =
     \<lparr>cd_mint = (\<lambda>payload. case cursor_fields payload of Some (_, _, _, n) \<Rightarrow> show_nat (nat n) | None \<Rightarrow> []),
      cd_verify = (\<lambda>s. Inr (JObj [(''v'', JNum 1), (''t'', JStr ''read_notes''), (''p'', JStr []), (''h'', JStr []),
        (''o'', JNum (int (undigits s)))]))\<rparr>"

definition demo_read :: "bool \<Rightarrow> read_notes_call" where
  "demo_read revoked =
     \<lparr>rn_paging = \<lparr>pd_codec = demo_codec, pd_budgetBytes = 280, pd_sha256 = (\<lambda>_. [])\<rparr>, rn_caller = Some ''ann'', rn_vault = ''v'',
      rn_input = JObj [(''vault'', JStr ''v''), (''paths'', JArr [JStr ''a.md'', JStr ''b.md'', JStr ''c.md''])],
      rn_paths = [''a.md'', ''b.md'', ''c.md''], rn_cursor = None, rn_concise = True, rn_fs = plain_fs,
      rn_readVaultNote = (\<lambda>rel. if revoked then Inl (Tc Acl_denied ''denied'' None)
         else Inr \<lparr>ld_raw = ''x'', ld_hash = ''h'', ld_frontmatter = JNull, ld_body = replicate 60 CHR ''x'', ld_unparseable = []\<rparr>)\<rparr>"

text \<open>A text without quotes, backslashes and controls is written as it is.\<close>

definition plain_char :: "char \<Rightarrow> bool" where
  "plain_char c \<longleftrightarrow> (let n = of_char c :: nat in 32 \<le> n \<and> n < 128 \<and> n \<noteq> 34 \<and> n \<noteq> 92)"

lemma plain_quote: "list_all plain_char s \<Longrightarrow> utf8_length (json_quote s) = length s + 2"
proof -
  assume s: "list_all plain_char s"
  have "json_char c = [c] \<and> char_bytes c = 1" if "plain_char c" for c
    using that by (auto simp: plain_char_def json_char_def Let_def short_escape_def char_bytes_def)
  then have "concat (map json_char s) = s \<and> utf8_length s = length s"
    using s by (induction s) (auto simp: utf8_length_def)
  then show ?thesis by (simp add: json_quote_def) (simp add: char_bytes_def)
qed

lemma list_all_replicate: "list_all P (replicate n x) \<longleftrightarrow> n = 0 \<or> P x"
  by (induction n) auto

lemmas write_simps = list_all_replicate json_bytes_def utf8_join plain_quote plain_char_def Let_def char_bytes_def show_int_def

lemma demo_numbers: "show_nat 104 = ''104''" "show_nat 280 = ''280''" "show_nat 0 = ''0''" "show_nat (Suc 0) = ''1''" "show_nat 2 = ''2''" "show_nat 3 = ''3''"
  by code_simp+

lemma demo_names: "p \<in> {''a.md'', ''b.md'', ''c.md''} \<Longrightarrow> normalizeVaultPath plain_fs p = Inr p"
  by (auto simp: normalizeVaultPath_def looks_absolute_def is_sep_def ascii_letter_def path_parts_def Let_def
      windowsNameProblem_def windows_reserved_def windows_devices_def char_upper_def)

definition demo_note :: "str \<Rightarrow> details" where
  "demo_note p = [(''path'', JStr p), (''body'', JStr (replicate 60 CHR ''x'')), (''content_hash'', JStr ''h'')]"

lemma demo_item:
  "p \<in> {''a.md'', ''b.md'', ''c.md''} \<Longrightarrow> read_notes_item plain_fs (rn_readVaultNote (demo_read False)) True p = Read_note (demo_note p)"
  using demo_names [of p] by (simp add: read_notes_item_def demo_read_def note_fields_def spread_def demo_note_def)

lemma demo_note_bytes: "p \<in> {''a.md'', ''b.md'', ''c.md''} \<Longrightarrow> json_bytes (JObj (demo_note p)) = 104"
  by (auto simp: demo_note_def write_simps)

lemma demo_error_bytes: "p \<in> {''a.md'', ''b.md'', ''c.md''} \<Longrightarrow> json_bytes (item_wire (notes_too_large p 104 280)) \<le> 160"
  by (auto simp: notes_too_large_def write_simps demo_numbers)

lemma demo_mint: "k \<le> 3 \<Longrightarrow> page_mint (read_notes_options (demo_read b)) k = show_nat k"
  by (simp add: page_mint_def mintPageCursor_def demo_read_def demo_codec_def cursor_fields_payload max_safe_integer_def)

lemma demo_alone: "alone (read_notes_options (demo_read False)) i \<le> 55"
proof -
  have "length (rn_paths (demo_read False)) = 3" "rn_vault (demo_read False) = ''v''" by (simp_all add: demo_read_def)
  then show ?thesis
    using demo_mint [of 3 False]
    by (simp add: alone_def envNone_def envCursor_def readNotesResult_def of_lane_def next_json_def write_simps demo_numbers)
qed

lemma demo_errors_fit: "errors_fit (demo_read False)"
proof -
  have d: "rn_paths (demo_read False) = [''a.md'', ''b.md'', ''c.md'']" "rn_fs (demo_read False) = plain_fs"
    "rn_concise (demo_read False)" "pd_budgetBytes (rn_paging (demo_read False)) = 280" by (simp_all add: demo_read_def)
  have "json_bytes (item_wire (notes_too_large p 104 280)) + alone (read_notes_options (demo_read False)) i \<le> 280"
    if "p \<in> {''a.md'', ''b.md'', ''c.md''}" for p i
    using demo_error_bytes [OF that] demo_alone [of i] by linarith
  moreover have "rn_paths (demo_read False) ! i \<in> {''a.md'', ''b.md'', ''c.md''}" if "i < 3" for i
    using that unfolding d by (auto simp: less_Suc_eq numeral_3_eq_3)
  ultimately show ?thesis
    unfolding errors_fit_def Let_def d(2-4) by (simp add: d(1) demo_item demo_note_bytes d(3))
qed

lemma demo_cursors_grow: "cursors_grow (read_notes_options (demo_read b))"
proof -
  have "length (rn_paths (demo_read b)) = 3" by (simp add: demo_read_def)
  moreover have "utf8_length (json_quote (show_nat k)) = 3" if "k \<le> 3" for k
  proof -
    have "k = 0 \<or> k = Suc 0 \<or> k = 2 \<or> k = 3" using that by arith
    then show ?thesis by (elim disjE) (simp_all add: write_simps demo_numbers)
  qed
  ultimately show ?thesis by (simp add: cursors_grow_def demo_mint)
qed

lemma read_notes_answers: "rn_cursor c = None \<Longrightarrow> \<exists>r. read_notes c = Inr r"
proof -
  assume c: "rn_cursor c = None"
  obtain es stop where "page_walk (read_notes_options c) 0 0 (length (rn_paths c)) no_page = Inr (es, stop)"
    using page_walk_total [of "read_notes_options c"] page_entry_total by blast
  then show ?thesis by (simp add: read_notes_def paginateByBytes_def startOffset_def c)
qed

lemma read_notes_fits_witness:
  "\<exists>r. read_notes (demo_read False) = Inr r \<and> json_bytes r \<le> 280"
proof -
  obtain r where r: "read_notes (demo_read False) = Inr r" using read_notes_answers [of "demo_read False"] by (auto simp: demo_read_def)
  have "rn_paths (demo_read False) \<noteq> []" "pd_budgetBytes (rn_paging (demo_read False)) = 280" by (simp_all add: demo_read_def)
  then show ?thesis using read_notes_fits [OF r _ demo_errors_fit demo_cursors_grow] r by auto
qed


text \<open>A signing codec that is its own text, and two bindings that differ in nothing but the cursor.\<close>

definition plain_paging :: paging_deps where
  "plain_paging =
     \<lparr>pd_codec = \<lparr>cd_mint = stringify,
        cd_verify = (\<lambda>s. if s = ''ok'' then Inr (cursor_payload (\<lambda>t. t) \<lparr>pb_tool = ''t'', pb_principal = None, pb_args = JObj []\<rparr> 7)
                         else Inl ''forged'')\<rparr>,
      pd_budgetBytes = 1000, pd_sha256 = (\<lambda>t. t)\<rparr>"

lemma cursor_bound_witness:
  "readPageCursor plain_paging \<lparr>pb_tool = ''t'', pb_principal = None, pb_args = JObj [(''cursor'', JStr ''ok'')]\<rparr> ''ok'' = Inr 7 \<and>
   (\<exists>b1. (b1, 7) \<in> {(\<lparr>pb_tool = ''t'', pb_principal = None, pb_args = JObj []\<rparr> :: page_binding, 7 :: int)}
      \<and> pb_principal b1 = None)"
proof -
  let ?b = "\<lparr>pb_tool = ''t'', pb_principal = None, pb_args = JObj [(''cursor'', JStr ''ok'')]\<rparr>"
  let ?b1 = "\<lparr>pb_tool = ''t'', pb_principal = None, pb_args = JObj []\<rparr> :: page_binding"
  have r: "readPageCursor plain_paging ?b ''ok'' = Inr 7" by code_simp
  have v: "\<exists>(b1, o1) \<in> {(?b1, 7)}. payload = cursor_payload (pd_sha256 plain_paging) b1 o1"
    if "cd_verify (pd_codec plain_paging) ''ok'' = Inr payload" for payload
    using that by (simp add: plain_paging_def)
  have "hashed_texts ?b = hashed_texts ?b1" by (simp add: hashed_texts_def)
  moreover have "take 32 (''principal null'') = ''principal null''" "take 32 (''t {}'') = ''t {}''" by simp_all
  ultimately have "no_collision (pd_sha256 plain_paging) (hashed_texts ?b \<union> (\<Union>(b1, _) \<in> {(?b1, 7 :: int)}. hashed_texts b1))"
    by (simp add: no_collision_def hashed_texts_def plain_paging_def)
  from cursor_bound [OF r v this] r show ?thesis by auto
qed

end
