(* ===== verification/Tool_Result.thy ===== *)
theory Tool_Result
  imports Json_Text
begin

text \<open>
  What a \<open>tools/call\<close> sends, \<open>packages/server/src/mcp/tool-result.ts\<close>: clients that read only text
  blocks must find the whole answer in one. The memo of texts already serialized (\<open>takeSerialized\<close>)
  holds the text of the same object and is not modelled.
\<close>

subsection \<open>Results\<close>

text \<open>An image or audio block has its kind, media type and base64 data; an embedded resource may be a blob.\<close>

datatype content_block =
    Text_block str
  | Media_block str str str
  | Link_block str
  | Resource_block str bool "str option"

record call_result =
  tr_content :: "content_block list option"
  tr_structured :: "(str \<times> json) list option"
  tr_isError :: bool
  tr_resultType :: "str option"

definition NO_OUTPUT_TEXT :: str where
  "NO_OUTPUT_TEXT = ''OK: the tool completed and returned no data.''"

definition NO_DETAIL_ERROR_TEXT :: str where
  "NO_DETAIL_ERROR_TEXT = ''Error: the tool call failed and returned no detail.''"

text \<open>\<open>trim() === ""\<close> on the represented characters.\<close>

definition trim_space :: "char \<Rightarrow> bool" where
  "trim_space c \<longleftrightarrow> (let n = of_char c :: nat in (9 \<le> n \<and> n \<le> 13) \<or> n = 32 \<or> n = 160)"

definition blank :: "str \<Rightarrow> bool" where
  "blank s \<longleftrightarrow> list_all trim_space s"

fun structured_of :: "json option \<Rightarrow> (str \<times> json) list option" where
  "structured_of (Some (JObj kvs)) = Some kvs"
| "structured_of _ = None"

definition toolDataResult :: "json option \<Rightarrow> call_result" where
  "toolDataResult data =
     \<lparr>tr_content = Some [Text_block (stringify (case data of None \<Rightarrow> JNull | Some v \<Rightarrow> v))],
      tr_structured = structured_of data, tr_isError = False, tr_resultType = None\<rparr>"

subsection \<open>A text block that answers\<close>

definition isUsableText :: "str \<Rightarrow> bool" where
  "isUsableText text \<longleftrightarrow> \<not> blank text \<and> text \<noteq> ''null''"

definition base64Bytes :: "str \<Rightarrow> int" where
  "base64Bytes data = int (length data * 3 div 4) - (if suffix ''=='' data then 2 else if suffix ''='' data then 1 else 0)"

definition alternative :: "str \<Rightarrow> bool \<Rightarrow> content_block \<Rightarrow> str list" where
  "alternative text hasText b =
     (case b of
         Text_block _ \<Rightarrow> []
       | Media_block kind mime data \<Rightarrow>
           if \<not> hasText then [''['' @ kind @ '': '' @ mime @ '', '' @ show_int (base64Bytes data) @ '' bytes]''] else []
       | Link_block uri \<Rightarrow> if \<not> sublist uri text then [''[link: '' @ uri @ '']''] else []
       | Resource_block uri blob mimeType \<Rightarrow>
           (let mime = (case mimeType of Some m \<Rightarrow> m | None \<Rightarrow> []);
                named = (blob \<and> mime \<noteq> []) in
            if \<not> sublist uri text \<or> (named \<and> \<not> sublist mime text)
            then [''[resource: '' @ uri @ (if named then '', '' @ mime else []) @ '']''] else []))"

definition nonTextAlternatives :: "content_block list \<Rightarrow> str \<Rightarrow> bool \<Rightarrow> str list" where
  "nonTextAlternatives content text hasText = concat (map (alternative text hasText) content)"

definition text_of :: "content_block \<Rightarrow> str list" where
  "text_of b = (case b of Text_block t \<Rightarrow> [t] | _ \<Rightarrow> [])"

definition is_text :: "content_block \<Rightarrow> bool" where
  "is_text b \<longleftrightarrow> (case b of Text_block _ \<Rightarrow> True | _ \<Rightarrow> False)"

text \<open>The text the structured payload, or a plain sentence, puts in the place of a missing one.\<close>

definition lead_text :: "call_result \<Rightarrow> str" where
  "lead_text result =
     (case tr_structured result of
        Some kvs \<Rightarrow> stringify (JObj kvs)
      | None \<Rightarrow> if tr_isError result then NO_DETAIL_ERROR_TEXT else NO_OUTPUT_TEXT)"

definition rewritten :: "call_result \<Rightarrow> content_block list \<Rightarrow> bool \<Rightarrow> str list \<Rightarrow> call_result" where
  "rewritten result content hasText alts =
     (let lead = (if hasText \<or> (alts \<noteq> [] \<and> tr_structured result = None) then [] else [lead_text result]);
          added = lead @ (if alts \<noteq> [] then [join_with [CHR 0x0A] alts] else []) in
      result\<lparr>tr_content := Some ((if hasText then filter is_text content else [])
                @ map Text_block added @ filter (\<lambda>b. \<not> is_text b) content)\<rparr>)"

definition content_of :: "call_result \<Rightarrow> content_block list" where
  "content_of result = (case tr_content result of Some bs \<Rightarrow> bs | None \<Rightarrow> [])"

definition with_text :: "call_result \<Rightarrow> call_result" where
  "with_text result =
     (let content = content_of result;
          texts = concat (map text_of content);
          hasText = list_ex isUsableText texts;
          alts = nonTextAlternatives content (join_with [CHR 0x0A] texts) (hasText \<or> tr_structured result \<noteq> None) in
      if hasText \<and> alts = [] then result else rewritten result content hasText alts)"

definition ensureTextContent :: "call_result \<Rightarrow> call_result" where
  "ensureTextContent result =
     (case tr_resultType result of
        Some ty \<Rightarrow> if ty \<noteq> ''complete'' then result else with_text result
      | None \<Rightarrow> with_text result)"

subsection \<open>What it guarantees\<close>


lemma usable_bracket: "isUsableText (CHR ''['' # s)" "isUsableText (CHR ''{'' # s)"
  by (simp_all add: isUsableText_def blank_def trim_space_def)









text \<open>A payload that is an object is answered by its own text, unchanged.\<close>

lemma object_result_kept: "ensureTextContent (toolDataResult (Some (JObj kvs))) = toolDataResult (Some (JObj kvs))"
  by (simp add: ensureTextContent_def toolDataResult_def with_text_def content_of_def Let_def text_of_def usable_bracket nonTextAlternatives_def alternative_def)



end
