(* ===== verification/Task_Calls.thy ===== *)
theory Task_Calls
  imports Job_Runner Tool_Result Gates
begin

text \<open>
  Tool calls that run as background tasks: what of the caller crosses the queue
  (\<open>mcp/task-caller-context.ts\<close>), how a call is handed over (\<open>mcp/task-budget.ts\<close>), the handler that runs it
  (\<open>scheduler/task-call-runner.ts\<close>), and the Tasks extension that lets its caller poll and cancel it
  (\<open>mcp/tasks.ts\<close>).

  A payload and an outcome are the JSON values whose text the job row holds. \<open>runTaskCall\<close> is cut at its
  one \<open>await\<close>: \<open>task_begin\<close> up to the dispatch, \<open>task_end\<close> after it, so that anything may happen to the
  queue in between. The parse function of JSON is an argument.
\<close>

subsection \<open>What crosses the enqueue\<close>

text \<open>
  The keys of \<open>CallerContext\<close> the table of dispositions names: carried, rebuilt by the worker, guarded or
  dropped. The carried optional ones are JSON.
\<close>

record caller_context =
  cc_caller :: "str option"
  cc_authenticated :: bool
  cc_grantedScopes :: "str list"
  cc_vaultId :: str
  cc_vaultBound :: "bool option"
  cc_transport :: "json option"
  cc_persona :: "json option"
  cc_authVerified :: "json option"
  cc_claimedProvenance :: "json option"
  cc_toolVisibility :: "json option"
  cc_clientInfo :: "json option"
  cc_sessionId :: "json option"
  cc_acl :: acl_ref
  cc_signal :: bool
  cc_progress :: bool
  cc_elicitToken :: "str option"
  cc_roots :: bool
  cc_sample :: bool

record worker_runtime =
  wr_acl :: acl_ref
  wr_signal :: bool
  wr_progress :: bool

definition optional_field :: "str \<Rightarrow> json option \<Rightarrow> details" where
  "optional_field k v = (case v of None \<Rightarrow> [] | Some x \<Rightarrow> [(k, x)])"

definition json_caller :: "str option \<Rightarrow> json" where
  "json_caller c = (case c of None \<Rightarrow> JNull | Some s \<Rightarrow> JStr s)"

definition snapshotCaller :: "caller_context \<Rightarrow> details" where
  "snapshotCaller ctx =
     [(''caller'', json_caller (cc_caller ctx)), (''authenticated'', JBool (cc_authenticated ctx)),
      (''scopes'', JArr (map JStr (cc_grantedScopes ctx))), (''vaultId'', JStr (cc_vaultId ctx)),
      (''vaultBound'', JBool (cc_vaultBound ctx = Some True))]
     @ optional_field ''transport'' (cc_transport ctx) @ optional_field ''persona'' (cc_persona ctx)
     @ optional_field ''authVerified'' (cc_authVerified ctx) @ optional_field ''claimedProvenance'' (cc_claimedProvenance ctx)
     @ optional_field ''toolVisibility'' (cc_toolVisibility ctx) @ optional_field ''clientInfo'' (cc_clientInfo ctx)
     @ optional_field ''sessionId'' (cc_sessionId ctx)"

text \<open>Reading a field as the type the payload claims; the fields of the right type are checked before.\<close>

fun as_str :: "json option \<Rightarrow> str option" where
  "as_str (Some (JStr s)) = Some s"
| "as_str _ = None"

fun as_strs :: "json option \<Rightarrow> str list" where
  "as_strs (Some (JArr xs)) = concat (map (\<lambda>x. case x of JStr s \<Rightarrow> [s] | _ \<Rightarrow> []) xs)"
| "as_strs _ = []"

definition restoreCaller :: "details \<Rightarrow> worker_runtime \<Rightarrow> caller_context" where
  "restoreCaller s runtime =
     \<lparr>cc_caller = as_str (get_field ''caller'' s), cc_authenticated = (get_field ''authenticated'' s = Some (JBool True)),
      cc_grantedScopes = js_set (as_strs (get_field ''scopes'' s)),
      cc_vaultId = (case as_str (get_field ''vaultId'' s) of Some v \<Rightarrow> v | None \<Rightarrow> []),
      cc_vaultBound = (case get_field ''vaultBound'' s of Some (JBool b) \<Rightarrow> Some b | _ \<Rightarrow> None),
      cc_transport = get_field ''transport'' s, cc_persona = get_field ''persona'' s,
      cc_authVerified = get_field ''authVerified'' s, cc_claimedProvenance = get_field ''claimedProvenance'' s,
      cc_toolVisibility = get_field ''toolVisibility'' s, cc_clientInfo = get_field ''clientInfo'' s,
      cc_sessionId = get_field ''sessionId'' s,
      cc_acl = wr_acl runtime, cc_signal = wr_signal runtime, cc_progress = wr_progress runtime,
      cc_elicitToken = None, cc_roots = False, cc_sample = False\<rparr>"

subsection \<open>Handing a call over\<close>

definition task_call_payload_version :: int where
  "task_call_payload_version = 2"

definition task_call_job_type :: str where
  "task_call_job_type = ''mcp_tool_call''"

definition task_payload :: "str \<Rightarrow> details \<Rightarrow> caller_context \<Rightarrow> details" where
  "task_payload tool args ctx = spread
     ([(''v'', JNum task_call_payload_version), (''tool'', JStr tool), (''args'', JObj args)] @ snapshotCaller ctx)
     [(''caller'', json_caller (cc_caller ctx)), (''progress'', JBool (cc_progress ctx))]"

definition task_enqueue_options :: "str \<Rightarrow> details \<Rightarrow> caller_context \<Rightarrow> enqueue_options" where
  "task_enqueue_options tool args ctx =
     \<lparr>e_owner = Some (cc_vaultId ctx, cc_caller ctx), e_class = None, e_maxAttempts = Some 1, e_idempotencyKey = None,
      e_payload = Some (stringify (JObj (task_payload tool args ctx))), e_replaceIfTerminal = False, e_replaceIfFailed = False\<rparr>"

text \<open>
  The first half of \<open>offloadToTask\<close>: no job when the caller could never poll it, or when nobody would start
  it. The enqueue itself throws only on a clash of random ids.
\<close>

definition offload ::
    "queue_options \<Rightarrow> bool \<Rightarrow> bool \<Rightarrow> str \<Rightarrow> details \<Rightarrow> caller_context \<Rightarrow> str \<Rightarrow> int \<Rightarrow> job_queue \<Rightarrow> job_row option \<times> job_queue" where
  "offload o1 clientPollsTasks canStart tool args ctx uuid t q =
     (if \<not> isIdentifiedCaller (cc_caller ctx) \<or> (\<not> clientPollsTasks \<and> \<not> canStart) then (None, q)
      else enqueue o1 task_call_job_type (task_enqueue_options tool args ctx) uuid t q)"

text \<open>\<open>start\<close> of \<open>makeStartTask\<close>: claim the one job, unless the process is shutting down or another worker has it.\<close>

definition start_task :: "queue_options \<Rightarrow> bool \<Rightarrow> str \<Rightarrow> str \<Rightarrow> str \<Rightarrow> int \<Rightarrow> job_queue \<Rightarrow> job_row option \<times> job_queue" where
  "start_task o1 stopped leaseOwner uuid jobId t q =
     (if stopped then (None, q) else claimById o1 jobId (newLeaseToken leaseOwner uuid) None t q)"

subsection \<open>Running it\<close>

text \<open>\<open>String(v)\<close>.\<close>

fun js_String :: "json \<Rightarrow> str" where
  "js_String JNull = ''null''"
| "js_String (JBool b) = (if b then ''true'' else ''false'')"
| "js_String (JNum n) = show_int n"
| "js_String (JStr s) = s"
| "js_String (JArr xs) = join_with '','' (map (\<lambda>x. if x = JNull then [] else js_String x) xs)"
| "js_String (JObj _) = ''[object Object]''"

fun is_bool :: "json option \<Rightarrow> bool" where
  "is_bool (Some (JBool _)) = True"
| "is_bool _ = False"

fun is_string :: "json option \<Rightarrow> bool" where
  "is_string (Some (JStr _)) = True"
| "is_string _ = False"

fun is_strings :: "json option \<Rightarrow> bool" where
  "is_strings (Some (JArr xs)) = list_all (\<lambda>x. is_string (Some x)) xs"
| "is_strings _ = False"

fun is_object :: "json option \<Rightarrow> bool" where
  "is_object (Some (JObj _)) = True"
| "is_object (Some (JArr _)) = True"
| "is_object _ = False"

text \<open>The test reads fields; an array has none of these.\<close>

fun isTaskCallPayload :: "json \<Rightarrow> bool" where
  "isTaskCallPayload (JObj p) \<longleftrightarrow>
     is_bool (get_field ''authenticated'' p) \<and> is_bool (get_field ''vaultBound'' p) \<and> is_string (get_field ''tool'' p) \<and>
     is_string (get_field ''vaultId'' p) \<and> is_strings (get_field ''scopes'' p) \<and> is_object (get_field ''args'' p)"
| "isTaskCallPayload _ \<longleftrightarrow> False"

fun fields_of :: "json \<Rightarrow> details" where
  "fields_of (JObj kvs) = kvs"
| "fields_of _ = []"

definition internal_error_code :: int where
  "internal_error_code = -32603"

definition failed_outcome :: "str \<Rightarrow> details \<Rightarrow> json" where
  "failed_outcome msg data =
     JObj [(''ok'', JBool False), (''error'', JObj ([(''code'', JNum internal_error_code), (''message'', JStr msg)] @ data))]"

definition superseded :: str where
  "superseded = ''task attempt superseded: its lease is no longer held''"

text \<open>Write an outcome under the lease; the message thrown when the lease is lost, or the one given.\<close>

definition record_then :: "str \<Rightarrow> str \<Rightarrow> json \<Rightarrow> str option \<Rightarrow> int \<Rightarrow> job_queue \<Rightarrow> str option \<times> job_queue" where
  "record_then jobId leaseOwner outcome thrown t q =
     (case recordOutcome jobId (stringify outcome) leaseOwner t q of
        (landed, q1) \<Rightarrow> (if landed then thrown else Some superseded, q1))"

definition stale_message :: "json option \<Rightarrow> str" where
  "stale_message version =
     ''stale task-call payload (version '' @ (case version of None \<Rightarrow> ''missing'' | Some JNull \<Rightarrow> ''missing'' | Some v \<Rightarrow> js_String v)
     @ '', need '' @ show_int task_call_payload_version
     @ ''): it was queued before the caller's policy was captured; re-run the call''"

definition restored_caller :: "details \<Rightarrow> acl_ref \<Rightarrow> bool \<Rightarrow> caller_context" where
  "restored_caller p acl signal =
     restoreCaller p \<lparr>wr_acl = acl, wr_signal = signal, wr_progress = (get_field ''progress'' p = Some (JBool True))\<rparr>"

text \<open>Up to the dispatch: the message thrown, or the call to dispatch.\<close>

definition task_begin ::
    "str \<Rightarrow> json \<Rightarrow> acl_ref \<Rightarrow> bool \<Rightarrow> str \<Rightarrow> int \<Rightarrow> job_queue \<Rightarrow> (str + str \<times> json \<times> caller_context) \<times> job_queue" where
  "task_begin jobId payload acl signal leaseOwner t q =
     (let p = fields_of payload; version = get_field ''v'' p in
      if version \<noteq> Some (JNum task_call_payload_version) then
        (case record_then jobId leaseOwner (failed_outcome (stale_message version) []) (Some (stale_message version)) t q of
           (thrown, q1) \<Rightarrow> (Inl (the thrown), q1))
      else if \<not> isTaskCallPayload payload then (Inl ''malformed task-call payload'', q)
      else (Inr (the (as_str (get_field ''tool'' p)), the (get_field ''args'' p), restored_caller p acl signal), q))"

text \<open>A dispatch answers with data, or with the code, the message and the other fields of its \<open>ErrorJSON\<close>.\<close>

datatype call_answer = Call_ok "json option" | Call_refused str str details

definition asRecord :: "json option \<Rightarrow> json" where
  "asRecord data =
     (case data of
        Some (JObj kvs) \<Rightarrow> JObj kvs
      | Some v \<Rightarrow> JObj [(''value'', v)]
      | None \<Rightarrow> JObj [])"

definition error_fields :: "str \<Rightarrow> str \<Rightarrow> details \<Rightarrow> details" where
  "error_fields code msg rest = [(''code'', JStr code), (''message'', JStr msg)] @ rest"

definition task_end :: "str \<Rightarrow> str \<Rightarrow> call_answer \<Rightarrow> int \<Rightarrow> job_queue \<Rightarrow> str option \<times> job_queue" where
  "task_end jobId leaseOwner answer t q =
     (case answer of
        Call_refused code msg rest \<Rightarrow>
          (let text = code @ '': '' @ msg in
           record_then jobId leaseOwner (failed_outcome text [(''data'', JObj (error_fields code msg rest))]) (Some text) t q)
      | Call_ok data \<Rightarrow>
          record_then jobId leaseOwner (JObj [(''ok'', JBool True), (''result'', asRecord data)]) None t q)"

subsection \<open>The view of a task\<close>

text \<open>\<open>new Date(t).toISOString()\<close>: the civil date of a day number, counted in eras of 400 years from 1 March 0000.\<close>

definition padded :: "nat \<Rightarrow> int \<Rightarrow> str" where
  "padded width n = (let s = show_nat (nat n) in replicate (width - length s) CHR ''0'' @ s)"

definition civil_date :: "int \<Rightarrow> int \<times> int \<times> int" where
  "civil_date days =
     (let z = days + 719468; era = z div 146097; doe = z mod 146097;
          yoe = (doe - doe div 1460 + doe div 36524 - doe div 146096) div 365;
          doy = doe - (365 * yoe + yoe div 4 - yoe div 100);
          mp = (5 * doy + 2) div 153;
          m = (if mp < 10 then mp + 3 else mp - 9)
      in (yoe + era * 400 + (if m \<le> 2 then 1 else 0), m, doy - (153 * mp + 2) div 5 + 1))"

definition iso_string :: "int \<Rightarrow> str" where
  "iso_string t =
     (case civil_date (t div 86400000) of
        (y, m, d) \<Rightarrow>
          let ms = t mod 86400000 in
          (if 0 \<le> y \<and> y \<le> 9999 then padded 4 y else (if y < 0 then ''-'' else ''+'') @ padded 6 \<bar>y\<bar>)
          @ ''-'' @ padded 2 m @ ''-'' @ padded 2 d @ ''T'' @ padded 2 (ms div 3600000) @ '':'' @ padded 2 (ms div 60000 mod 60)
          @ '':'' @ padded 2 (ms div 1000 mod 60) @ ''.'' @ padded 3 (ms mod 1000) @ ''Z'')"

datatype task_status = Task_working | Task_completed | Task_failed | Task_cancelled

fun status_name :: "task_status \<Rightarrow> str" where
  "status_name Task_working = ''working''"
| "status_name Task_completed = ''completed''"
| "status_name Task_failed = ''failed''"
| "status_name Task_cancelled = ''cancelled''"

definition task_status_of :: "job_row \<Rightarrow> task_status" where
  "task_status_of job =
     (if terminal_state (j_state job) then
        if j_state job = Job_complete then Task_completed else if j_cancel_requested job then Task_cancelled else Task_failed
      else Task_working)"

definition poll_interval_ms :: int where
  "poll_interval_ms = 2000"

fun block_json :: "content_block \<Rightarrow> json" where
  "block_json (Text_block t) = JObj [(''type'', JStr ''text''), (''text'', JStr t)]"
| "block_json (Media_block kind mime data) = JObj [(''type'', JStr kind), (''data'', JStr data), (''mimeType'', JStr mime)]"
| "block_json (Link_block uri) = JObj [(''type'', JStr ''resource_link''), (''uri'', JStr uri)]"
| "block_json (Resource_block uri _ mime) =
     JObj [(''type'', JStr ''resource''), (''resource'', JObj ((''uri'', JStr uri) # optional_field ''mimeType'' (map_option JStr mime)))]"

definition result_json :: "call_result \<Rightarrow> json" where
  "result_json r =
     JObj ([(''content'', JArr (map block_json (content_of r)))] @ optional_field ''structuredContent'' (map_option JObj (tr_structured r)))"

text \<open>
  The error of a stored outcome, never with an empty message. (An outcome without them, which no writer
  stores, has none here.)
\<close>

definition outcome_error :: "details \<Rightarrow> json option" where
  "outcome_error outcome =
     (case get_field ''error'' outcome of
        Some (JObj e) \<Rightarrow>
          (case get_field ''message'' e of
             Some (JStr m) \<Rightarrow> Some (JObj (AList.update ''message'' (JStr (if blank m then NO_DETAIL_ERROR_TEXT else m)) e))
           | _ \<Rightarrow> None)
      | _ \<Rightarrow> None)"

definition toMcpTask :: "(str \<Rightarrow> json option) \<Rightarrow> job_row \<Rightarrow> details" where
  "toMcpTask parse job =
     (let status = task_status_of job;
          outcome = (case parseOutcome parse (j_outcome job) of Some v \<Rightarrow> fields_of v | None \<Rightarrow> []) in
      [(''taskId'', JStr (j_id job)), (''status'', JStr (status_name status)),
       (''createdAt'', JStr (iso_string (j_created_at job))), (''lastUpdatedAt'', JStr (iso_string (j_updated_at job))), (''ttlMs'', JNull)]
      @ (if status = Task_working then [(''pollIntervalMs'', JNum poll_interval_ms)] else [])
      @ (if status = Task_failed then
           (case j_last_error job of Some e \<Rightarrow> if e = [] then [] else [(''statusMessage'', JStr e)] | None \<Rightarrow> []) else [])
      @ (if status = Task_completed \<and> get_field ''ok'' outcome = Some (JBool True)
         then [(''result'', result_json (ensureTextContent (toolDataResult (get_field ''result'' outcome))))] else [])
      @ (if status = Task_failed \<and> get_field ''ok'' outcome = Some (JBool False)
         then optional_field ''error'' (outcome_error outcome) else []))"

definition toCreateTaskResult :: "(str \<Rightarrow> json option) \<Rightarrow> job_row \<Rightarrow> details" where
  "toCreateTaskResult parse job = (''resultType'', JStr ''task'') # toMcpTask parse job"

subsection \<open>Whose task it is\<close>

record task_owner =
  to_vaultId :: str
  to_caller :: "str option"

definition findOwnedJob :: "job_queue \<Rightarrow> str \<Rightarrow> task_owner \<Rightarrow> job_row option" where
  "findOwnedJob q i owner =
     (case find_job i (q_rows q) of
        None \<Rightarrow> None
      | Some job \<Rightarrow>
          if j_vault_id job = None then None
          else if j_vault_id job \<noteq> Some (to_vaultId owner) then None
          else if j_caller job \<noteq> to_caller owner then None
          else Some job)"

definition cancelOwnedTask :: "job_queue \<Rightarrow> str \<Rightarrow> task_owner \<Rightarrow> int \<Rightarrow> job_row option \<times> job_queue" where
  "cancelOwnedTask q i owner t =
     (case findOwnedJob q i owner of
        None \<Rightarrow> (None, q)
      | Some job \<Rightarrow>
          if task_status_of job \<noteq> Task_working then (Some job, q)
          else (let q1 = snd (requestCancel (j_id job) t q) in
                (Some (case find_job (j_id job) (q_rows q1) of Some j \<Rightarrow> j | None \<Rightarrow> job), q1)))"

definition rpc_failure :: "json \<Rightarrow> int \<Rightarrow> str \<Rightarrow> json" where
  "rpc_failure i code msg =
     JObj [(''jsonrpc'', JStr ''2.0''), (''id'', i), (''error'', JObj [(''code'', JNum code), (''message'', JStr msg)])]"

definition rpc_result :: "json \<Rightarrow> json \<Rightarrow> json" where
  "rpc_result i v = JObj [(''jsonrpc'', JStr ''2.0''), (''id'', i), (''result'', v)]"

definition task_methods :: "str list" where
  "task_methods = [''tasks/get'', ''tasks/cancel'', ''tasks/update'']"

definition param :: "str \<Rightarrow> details \<Rightarrow> json option" where
  "param k req = (case get_field ''params'' req of Some (JObj ps) \<Rightarrow> get_field k ps | _ \<Rightarrow> None)"

text \<open>What the method does with the caller's own task.\<close>

definition serve_owned ::
    "(str \<Rightarrow> json option) \<Rightarrow> str \<Rightarrow> details \<Rightarrow> json \<Rightarrow> job_row \<Rightarrow> task_owner \<Rightarrow> int \<Rightarrow> job_queue \<Rightarrow> json \<times> job_queue" where
  "serve_owned parse method req i job owner t q =
     (if method = ''tasks/cancel'' then (rpc_result i (JObj []), snd (cancelOwnedTask q (j_id job) owner t))
      else if method = ''tasks/update'' then
        (case param ''inputResponses'' req of
           Some (JObj _) \<Rightarrow> (rpc_result i (JObj []), q)
         | _ \<Rightarrow> (rpc_failure i (-32602) ''inputResponses is required'', q))
      else (rpc_result i (JObj (toMcpTask parse job)), q))"

definition serve_task ::
    "(str \<Rightarrow> json option) \<Rightarrow> str \<Rightarrow> details \<Rightarrow> json \<Rightarrow> task_owner \<Rightarrow> int \<Rightarrow> job_queue \<Rightarrow> json \<times> job_queue" where
  "serve_task parse method req i owner t q =
     (if \<not> isIdentifiedCaller (to_caller owner)
      then (rpc_failure i (-32001) ''tasks require an identified caller (this token has no `sub`)'', q)
      else
        (case as_str (param ''taskId'' req) of
           None \<Rightarrow> (rpc_failure i (-32602) ''taskId is required'', q)
         | Some taskId \<Rightarrow>
             if taskId = [] then (rpc_failure i (-32602) ''taskId is required'', q)
             else
               (case findOwnedJob q taskId owner of
                  None \<Rightarrow> (rpc_failure i (-32601) ''unknown task'', q)
                | Some job \<Rightarrow> serve_owned parse method req i job owner t q)))"

text \<open>The answer, or \<^const>\<open>None\<close> for a body that is no request of the extension, and the queue it leaves.\<close>

definition serveTaskExtension ::
    "(str \<Rightarrow> json option) \<Rightarrow> json \<Rightarrow> task_owner \<Rightarrow> int \<Rightarrow> job_queue \<Rightarrow> json option \<times> job_queue" where
  "serveTaskExtension parse body owner t q =
     (let req = fields_of body in
      if get_field ''jsonrpc'' req \<noteq> Some (JStr ''2.0'') then (None, q)
      else
        (case as_str (get_field ''method'' req) of
           None \<Rightarrow> (None, q)
         | Some method \<Rightarrow>
             if method \<notin> set task_methods then (None, q)
             else apfst Some (serve_task parse method req (case get_field ''id'' req of Some v \<Rightarrow> v | None \<Rightarrow> JNull) owner t q)))"

text \<open>The frames of a subscription: one per announced change of a task its caller owns.\<close>

definition task_frames :: "(str \<Rightarrow> json option) \<Rightarrow> task_owner \<Rightarrow> job_row list \<Rightarrow> json list" where
  "task_frames parse owner feed =
     map (\<lambda>job. JObj [(''jsonrpc'', JStr ''2.0''), (''method'', JStr ''notifications/tasks''), (''params'', JObj (toMcpTask parse job))])
       (filter (\<lambda>job. j_vault_id job = Some (to_vaultId owner) \<and> j_caller job = to_caller owner) feed)"

text \<open>An aborted request asks its task to stop, whatever state it is in (\<open>awaitJobWithinBudget\<close>).\<close>

definition abort_wait :: "str \<Rightarrow> int \<Rightarrow> job_queue \<Rightarrow> job_queue" where
  "abort_wait jobId t q = snd (requestCancel jobId t q)"

text \<open>The two tests of a client's declarations.\<close>

definition tasks_extension :: str where
  "tasks_extension = ''io.modelcontextprotocol/tasks''"

definition clientSupportsTasks :: "json \<Rightarrow> bool" where
  "clientSupportsTasks caps =
     (case get_field ''extensions'' (fields_of caps) of
        Some (JObj extensions) \<Rightarrow> is_object (get_field tasks_extension extensions)
      | _ \<Rightarrow> False)"

definition subscribesToTasks :: "json \<Rightarrow> bool" where
  "subscribesToTasks body =
     (case param ''notifications'' (fields_of body) of
        Some (JObj ns) \<Rightarrow> get_field tasks_extension ns = Some (JBool True)
      | _ \<Rightarrow> False)"

end
