(* ===== verification/Task_Calls_Guarantees.thy ===== *)
theory Task_Calls_Guarantees
  imports Task_Calls Job_Queue_Safety
begin

text \<open>
  What a task may see and do. A caller of the Tasks extension cannot tell a queue from another one that holds
  the same tasks of its own, and touches no other row; a queued call runs as the caller that queued it and
  only from a payload of the current shape; its outcome is there when the task shows as completed, and
  what a finished task shows never changes.
\<close>

subsection \<open>Isolation\<close>

definition owned_by :: "task_owner \<Rightarrow> job_row \<Rightarrow> bool" where
  "owned_by owner r \<longleftrightarrow> j_vault_id r = Some (to_vaultId owner) \<and> j_caller r = to_caller owner"

definition own_rows :: "task_owner \<Rightarrow> job_queue \<Rightarrow> job_row list" where
  "own_rows owner q = filter (owned_by owner) (q_rows q)"

definition other_rows :: "task_owner \<Rightarrow> job_queue \<Rightarrow> job_row list" where
  "other_rows owner q = filter (\<lambda>r. \<not> owned_by owner r) (q_rows q)"

lemma findOwned_own:
  assumes "distinct_ids (q_rows q)"
  shows "findOwnedJob q i owner = find_job i (own_rows owner q)"
proof -
  have d: "distinct_ids (own_rows owner q)"
    using assms by (simp add: own_rows_def distinct_ids_def distinct_map_filter)
  have s: "findOwnedJob q i owner = Some r \<longleftrightarrow> find_job i (q_rows q) = Some r \<and> owned_by owner r" for r
    by (auto simp: findOwnedJob_def owned_by_def split: option.splits)
  have "findOwnedJob q i owner = Some r \<longleftrightarrow> find_job i (own_rows owner q) = Some r" for r
    unfolding s find_job_Some [OF assms] find_job_Some [OF d] by (auto simp: own_rows_def)
  then show ?thesis by (metis not_Some_eq)
qed

text \<open>The queue after a cancel of an own task.\<close>

definition flag_row :: "int \<Rightarrow> job_row \<Rightarrow> job_row" where
  "flag_row t r = r\<lparr>j_cancel_requested := True, j_updated_at := t\<rparr>"

lemma flag_row_same [simp]: "j_id (flag_row t r) = j_id r" "owned_by owner (flag_row t r) = owned_by owner r"
  by (simp_all add: flag_row_def owned_by_def)

lemma requestCancel_rows: "q_rows (snd (requestCancel i t q)) = map (\<lambda>r. if j_id r = i then flag_row t r else r) (q_rows q)"
  by (simp add: requestCancel_def update_jobs_def flag_row_def)

definition cancel_rows :: "str \<Rightarrow> int \<Rightarrow> job_row list \<Rightarrow> job_row list" where
  "cancel_rows i t rows =
     (case find_job i rows of
        None \<Rightarrow> rows
      | Some job \<Rightarrow> if task_status_of job \<noteq> Task_working then rows else map (\<lambda>r. if j_id r = i then flag_row t r else r) rows)"

lemma cancelOwned_rows:
  assumes "distinct_ids (q_rows q)"
  shows "own_rows owner (snd (cancelOwnedTask q i owner t)) = cancel_rows i t (own_rows owner q)
    \<and> other_rows owner (snd (cancelOwnedTask q i owner t)) = other_rows owner q"
proof (cases "findOwnedJob q i owner")
  case None
  then show ?thesis using findOwned_own [OF assms, of i owner] by (simp add: cancelOwnedTask_def cancel_rows_def)
next
  case (Some job)
  have o: "find_job i (own_rows owner q) = Some job" using Some findOwned_own [OF assms] by simp
  have j: "job \<in> set (q_rows q)" "j_id job = i" "owned_by owner job"
    using Some find_job_Some [OF assms] by (auto simp: findOwnedJob_def owned_by_def split: option.splits if_splits)
  show ?thesis
  proof (cases "task_status_of job = Task_working")
    case False
    then show ?thesis using Some o by (simp add: cancelOwnedTask_def cancel_rows_def)
  next
    case True
    have q: "q_rows (snd (cancelOwnedTask q i owner t)) = map (\<lambda>r. if j_id r = i then flag_row t r else r) (q_rows q)"
      using Some True j(2) by (simp add: cancelOwnedTask_def Let_def requestCancel_rows)
    have "\<not> owned_by owner r \<longrightarrow> j_id r \<noteq> i" if "r \<in> set (q_rows q)" for r
      using same_id [OF assms that j(1)] j by auto
    then have "filter (\<lambda>r. \<not> owned_by owner r) (map (\<lambda>r. if j_id r = i then flag_row t r else r) rows) = filter (\<lambda>r. \<not> owned_by owner r) rows"
      if "set rows \<subseteq> set (q_rows q)" for rows
      using that by (induction rows) auto
    then have "filter (\<lambda>r. \<not> owned_by owner r) (map (\<lambda>r. if j_id r = i then flag_row t r else r) (q_rows q)) = filter (\<lambda>r. \<not> owned_by owner r) (q_rows q)"
      by blast
    moreover have "filter (owned_by owner) (map (\<lambda>r. if j_id r = i then flag_row t r else r) rows) = map (\<lambda>r. if j_id r = i then flag_row t r else r) (filter (owned_by owner) rows)" for rows
      by (induction rows) auto
    ultimately show ?thesis using o True by (simp add: own_rows_def other_rows_def q cancel_rows_def)
  qed
qed

text \<open>Every request is answered from the caller's own rows alone.\<close>

lemma serve_own:
  assumes "distinct_ids (q_rows q1)" "distinct_ids (q_rows q2)" "own_rows owner q1 = own_rows owner q2"
  shows "fst (serveTaskExtension parse body owner t q1) = fst (serveTaskExtension parse body owner t q2)"
proof -
  have f: "findOwnedJob q1 i owner = findOwnedJob q2 i owner" for i
    using findOwned_own [OF assms(1)] findOwned_own [OF assms(2)] assms(3) by simp
  have o: "fst (serve_owned parse m req i job owner t q1) = fst (serve_owned parse m req i job owner t q2)" for m req i job
    by (simp add: serve_owned_def split: option.split json.split)
  have "fst (serve_task parse m req i owner t q1) = fst (serve_task parse m req i owner t q2)" for m req i
    unfolding serve_task_def f by (simp add: o split: option.split)
  then show ?thesis unfolding serveTaskExtension_def Let_def by (simp split: option.split)
qed

text \<open>The only request that writes is a cancel.\<close>

lemma find_owned: "findOwnedJob q i owner = Some job \<Longrightarrow> find_job i (q_rows q) = Some job \<and> owned_by owner job"
  by (cases "find_job i (q_rows q)") (simp_all add: findOwnedJob_def owned_by_def split: if_splits)

lemma serve_owned_state:
  "snd (serve_owned parse m req i job owner t q) = (if m = ''tasks/cancel'' then snd (cancelOwnedTask q (j_id job) owner t) else q)"
  by (simp add: serve_owned_def split: option.split json.split)

definition cancelled_id :: "json \<Rightarrow> task_owner \<Rightarrow> str option" where
  "cancelled_id body owner =
     (let req = fields_of body in
      if get_field ''jsonrpc'' req = Some (JStr ''2.0'') \<and> as_str (get_field ''method'' req) = Some ''tasks/cancel''
         \<and> isIdentifiedCaller (to_caller owner)
      then (case as_str (param ''taskId'' req) of Some i \<Rightarrow> if i = [] then None else Some i | None \<Rightarrow> None) else None)"

lemma serve_state:
  "snd (serveTaskExtension parse body owner t q)
     = (case cancelled_id body owner of Some i \<Rightarrow> snd (cancelOwnedTask q i owner t) | None \<Rightarrow> q)"
proof -
  have id: "j_id job = i" if "findOwnedJob q i owner = Some job" for i job
    using find_owned [OF that] find_in_set [of "\<lambda>r. j_id r = i" "q_rows q" job] by (simp add: find_job_def)
  have no: "snd (cancelOwnedTask q i owner t) = q" if "findOwnedJob q i owner = None" for i
    using that by (simp add: cancelOwnedTask_def)
  have task: "snd (serve_task parse m req i owner t q) =
      (if m = ''tasks/cancel'' \<and> isIdentifiedCaller (to_caller owner)
       then (case as_str (param ''taskId'' req) of Some i \<Rightarrow> if i = [] then q else snd (cancelOwnedTask q i owner t) | None \<Rightarrow> q) else q)" for m req i
  proof (cases "as_str (param ''taskId'' req)")
    case None then show ?thesis by (simp add: serve_task_def)
  next
    case (Some k)
    then show ?thesis using id [of k] no [of k]
      by (cases "findOwnedJob q k owner") (simp_all add: serve_task_def serve_owned_state)
  qed
  show ?thesis
  proof (cases "as_str (get_field ''method'' (fields_of body))")
    case None then show ?thesis by (simp add: serveTaskExtension_def cancelled_id_def Let_def)
  next
    case (Some m)
    then show ?thesis
      by (simp add: serveTaskExtension_def cancelled_id_def Let_def task task_methods_def split: option.split)
  qed
qed

text \<open>
  C13: the Tasks extension tells a caller nothing of other callers' tasks and of internal jobs, and
  lets it change nothing of them: over two queues with the same tasks of that caller every request is
  answered the same, leaves the caller's tasks the same, and leaves every other row untouched.
\<close>

theorem tasks_isolated:
  assumes "queue_ok q1" "queue_ok q2" "own_rows owner q1 = own_rows owner q2"
  shows "fst (serveTaskExtension parse body owner t q1) = fst (serveTaskExtension parse body owner t q2)
    \<and> own_rows owner (snd (serveTaskExtension parse body owner t q1)) = own_rows owner (snd (serveTaskExtension parse body owner t q2))
    \<and> other_rows owner (snd (serveTaskExtension parse body owner t q1)) = other_rows owner q1"
proof -
  have d: "distinct_ids (q_rows q1)" "distinct_ids (q_rows q2)" using assms(1,2) by (simp_all add: queue_ok_def)
  have "own_rows owner (snd (serveTaskExtension parse body owner t q1)) = own_rows owner (snd (serveTaskExtension parse body owner t q2))
    \<and> other_rows owner (snd (serveTaskExtension parse body owner t q1)) = other_rows owner q1"
    using cancelOwned_rows [OF d(1), of owner _ t] cancelOwned_rows [OF d(2), of owner _ t] assms(3)
    by (simp add: serve_state split: option.split)
  then show ?thesis using serve_own [OF d assms(3)] by blast
qed

text \<open>Ann polls and cancels her task beside Bob's and an internal job; Bob's version of the queue does not show.\<close>

definition demo_task :: "str \<Rightarrow> (str \<times> str option) option \<Rightarrow> job_row" where
  "demo_task i owner = new_job default_queue_options ''mcp_tool_call''
     \<lparr>e_owner = owner, e_class = None, e_maxAttempts = Some 1, e_idempotencyKey = None, e_payload = None,
      e_replaceIfTerminal = False, e_replaceIfFailed = False\<rparr> i 0"

definition demo_tasks :: "job_row list \<Rightarrow> job_queue" where
  "demo_tasks others = \<lparr>q_rows = demo_task ''a'' (Some (''v'', Some ''ann'')) # others, q_progress = [], q_listening = False, q_feed = []\<rparr>"

definition cancel_request :: "str \<Rightarrow> json" where
  "cancel_request i = JObj [(''jsonrpc'', JStr ''2.0''), (''id'', JNum 1), (''method'', JStr ''tasks/cancel''), (''params'', JObj [(''taskId'', JStr i)])]"

lemma tasks_isolated_witness:
  "fst (serveTaskExtension (\<lambda>_. None) (cancel_request ''b'') \<lparr>to_vaultId = ''v'', to_caller = Some ''ann''\<rparr> 5
      (demo_tasks [demo_task ''b'' (Some (''v'', Some ''bob''))])) =
   fst (serveTaskExtension (\<lambda>_. None) (cancel_request ''b'') \<lparr>to_vaultId = ''v'', to_caller = Some ''ann''\<rparr> 5 (demo_tasks []))"
proof -
  have ok: "queue_ok (demo_tasks [demo_task ''b'' (Some (''v'', Some ''bob''))])" "queue_ok (demo_tasks [])"
    by (simp_all add: queue_ok_def demo_tasks_def distinct_ids_def keys_unique_def row_ok_def demo_task_def new_job_def)
  have "own_rows \<lparr>to_vaultId = ''v'', to_caller = Some ''ann''\<rparr> (demo_tasks [demo_task ''b'' (Some (''v'', Some ''bob''))])
      = own_rows \<lparr>to_vaultId = ''v'', to_caller = Some ''ann''\<rparr> (demo_tasks [])"
    by (simp add: own_rows_def demo_tasks_def owned_by_def demo_task_def new_job_def)
  from tasks_isolated [OF ok this] show ?thesis by blast
qed

subsection \<open>The caller a task runs as\<close>

text \<open>What the worker may know of a caller: the carried keys, its scopes as a set.\<close>

definition carried_keys :: "caller_context \<Rightarrow> caller_context" where
  "carried_keys ctx = ctx\<lparr>cc_grantedScopes := js_set (cc_grantedScopes ctx), cc_vaultBound := Some (cc_vaultBound ctx = Some True)\<rparr>"

lemma get_optional: "get_field k (optional_field k' v @ rest) = (if k = k' \<and> v \<noteq> None then v else get_field k rest)"
  by (simp add: optional_field_def get_field_def split: option.split)

lemma get_Cons: "get_field k ((k', v) # rest) = (if k = k' then Some v else get_field k rest)"
  by (simp add: get_field_def)

lemma get_Nil: "get_field k [] = None"
  by (simp add: get_field_def)

lemma payload_fields: "get_field k (task_payload tool args ctx) =
    (if k = ''progress'' then Some (JBool (cc_progress ctx)) else if k = ''v'' then Some (JNum 2) else if k = ''tool'' then Some (JStr tool)
     else if k = ''args'' then Some (JObj args) else get_field k (snapshotCaller ctx))"
proof -
  have c: "get_field ''caller'' (snapshotCaller ctx) = Some (json_caller (cc_caller ctx))"
    by (simp add: snapshotCaller_def get_Cons)
  show ?thesis
    unfolding task_payload_def get_field_spread
    by (simp add: get_Cons task_call_payload_version_def c split: option.split)
qed

lemmas snapshot_get = get_Cons get_optional get_Nil get_optional [where rest = "[]", simplified]

lemma as_strs_scopes: "as_strs (Some (JArr (map JStr ss))) = ss"
  by (induction ss) simp_all

lemma as_str_caller: "as_str (Some (json_caller c)) = c"
  by (simp add: json_caller_def split: option.split)

lemma restored_snapshot:
  "restoreCaller (task_payload tool args ctx) rt =
     carried_keys (ctx\<lparr>cc_acl := wr_acl rt, cc_signal := wr_signal rt, cc_progress := wr_progress rt,
       cc_elicitToken := None, cc_roots := False, cc_sample := False\<rparr>)"
  unfolding restoreCaller_def payload_fields
  by (simp add: snapshotCaller_def snapshot_get as_strs_scopes as_str_caller carried_keys_def del: as_strs.simps)


text \<open>
  C14: a tool call handed to the queue runs as the caller that made it. The row names the
  caller and its vault, its payload read back gives the same tool and arguments, and the call is
  dispatched under a context with every carried key of the caller's own, its scopes and its tool
  visibility among them, the worker's own folder ACL and abort signal, and none of the keys that belong
  to the request (its elicitation, its roots, its sampling).
\<close>

theorem task_runs_as_caller:
  assumes "queue_ok q" "offload o1 polls canStart tool args ctx uuid t q = (Some job, q1)"
    and "parse (stringify (JObj (task_payload tool args ctx))) = Some (JObj (task_payload tool args ctx))"
  shows "find_job (j_id job) (q_rows q1) = Some job \<and> owned_by \<lparr>to_vaultId = cc_vaultId ctx, to_caller = cc_caller ctx\<rparr> job \<and>
    (\<exists>text p. j_payload job = Some text \<and> parse text = Some p \<and>
      task_begin (j_id job) p acl signal lease t2 q2 =
        (Inr (tool, JObj args, carried_keys (ctx\<lparr>cc_acl := acl, cc_signal := signal, cc_elicitToken := None, cc_roots := False, cc_sample := False\<rparr>)), q2))"
proof -
  let ?p = "task_payload tool args ctx"
  let ?r = "new_job o1 task_call_job_type (task_enqueue_options tool args ctx) uuid t"
  have e: "enqueue o1 task_call_job_type (task_enqueue_options tool args ctx) uuid t q = (Some job, q1)"
    using assms(2) by (simp add: offload_def split: if_splits)
  then have j: "job = ?r" "q_rows q1 = q_rows q @ [?r]" "find_job (j_id ?r) (q_rows q) = None"
    by (auto simp: enqueue_def task_enqueue_options_def insert_or_winner_def insert_job_def new_job_def Let_def split: option.splits if_splits)
  have f: "find_job (j_id job) (q_rows q1) = Some job" using j by (simp add: find_append_new)
  have o: "owned_by \<lparr>to_vaultId = cc_vaultId ctx, to_caller = cc_caller ctx\<rparr> job"
    by (simp add: j(1) owned_by_def new_job_def task_enqueue_options_def)
  have p: "j_payload job = Some (stringify (JObj ?p))" by (simp add: j(1) new_job_def task_enqueue_options_def)
  have typed: "isTaskCallPayload (JObj ?p)"
    by (simp add: payload_fields snapshotCaller_def snapshot_get list_all_iff)
  have b: "task_begin (j_id job) (JObj ?p) acl signal lease t2 q2 =
      (Inr (tool, JObj args, carried_keys (ctx\<lparr>cc_acl := acl, cc_signal := signal, cc_elicitToken := None, cc_roots := False, cc_sample := False\<rparr>)), q2)"
    using typed by (simp add: task_begin_def Let_def payload_fields task_call_payload_version_def restored_caller_def restored_snapshot)
  from f o p b assms(3) show ?thesis by blast
qed

definition demo_caller :: caller_context where
  "demo_caller =
     \<lparr>cc_caller = Some ''ann'', cc_authenticated = True, cc_grantedScopes = [''read:notes''], cc_vaultId = ''v'',
      cc_vaultBound = None, cc_transport = Some (JStr ''http''), cc_persona = None, cc_authVerified = None, cc_claimedProvenance = None,
      cc_toolVisibility = Some (JObj [(''only'', JArr [JStr ''read_note''])]), cc_clientInfo = None, cc_sessionId = None,
      cc_acl = 0, cc_signal = True, cc_progress = False, cc_elicitToken = Some ''e1'', cc_roots = True, cc_sample = True\<rparr>"


definition demo_parse :: "json \<Rightarrow> str \<Rightarrow> json option" where
  "demo_parse v text = (if text = stringify v then Some v else None)"

lemma task_runs_as_caller_witness:
  "\<exists>job q1 text p ctx'. offload default_queue_options True False ''read_note'' [] demo_caller ''u'' 0 (demo_tasks []) = (Some job, q1) \<and>
     j_payload job = Some text \<and> demo_parse (JObj (task_payload ''read_note'' [] demo_caller)) text = Some p \<and>
     task_begin ''u'' p 7 False ''w#1'' 5 q1 = (Inr (''read_note'', JObj [], ctx'), q1) \<and>
     cc_caller ctx' = Some ''ann'' \<and> cc_toolVisibility ctx' = cc_toolVisibility demo_caller \<and> cc_acl ctx' = 7 \<and> cc_elicitToken ctx' = None"
proof -
  let ?p = "task_payload ''read_note'' [] demo_caller"
  have ok: "queue_ok (demo_tasks [])"
    by (simp add: queue_ok_def demo_tasks_def distinct_ids_def keys_unique_def row_ok_def demo_task_def new_job_def)
  have "\<exists>job q1. offload default_queue_options True False ''read_note'' [] demo_caller ''u'' 0 (demo_tasks []) = (Some job, q1) \<and> j_id job = ''u''"
    by (simp add: offload_def demo_caller_def isIdentifiedCaller_def enqueue_def task_enqueue_options_def insert_or_winner_def insert_job_def
        new_job_def demo_tasks_def find_job_def demo_task_def Let_def)
  then obtain job q1 where o: "offload default_queue_options True False ''read_note'' [] demo_caller ''u'' 0 (demo_tasks []) = (Some job, q1)"
    and i: "j_id job = ''u''" by blast
  have parse: "demo_parse (JObj ?p) (stringify (JObj ?p)) = Some (JObj ?p)" by (simp add: demo_parse_def)
  obtain raw p where p: "j_payload job = Some raw" "demo_parse (JObj ?p) raw = Some p"
    "task_begin (j_id job) p 7 False ''w#1'' 5 q1 =
        (Inr (''read_note'', JObj [], carried_keys (demo_caller\<lparr>cc_acl := 7, cc_signal := False, cc_elicitToken := None, cc_roots := False, cc_sample := False\<rparr>)), q1)"
    using task_runs_as_caller [where parse = "demo_parse (JObj ?p)", OF ok o parse, of 7 False "''w#1''" 5 q1] by blast
  show ?thesis
    by (rule exI [of _ job], rule exI [of _ q1], rule exI [of _ raw], rule exI [of _ p], rule exI)
      (use o p i in \<open>auto simp: carried_keys_def demo_caller_def\<close>)
qed

subsection \<open>Only typed payloads run\<close>

text \<open>A payload of the shape this build writes: the fields a task runs under, at their types.\<close>

definition typed_payload :: "json \<Rightarrow> bool" where
  "typed_payload payload \<longleftrightarrow> (\<exists>p tool args b vb ss vault. payload = JObj p \<and> get_field ''v'' p = Some (JNum 2) \<and>
     get_field ''tool'' p = Some (JStr tool) \<and> get_field ''args'' p = Some args \<and> is_object (Some args) \<and>
     get_field ''authenticated'' p = Some (JBool b) \<and> get_field ''vaultBound'' p = Some (JBool vb) \<and>
     get_field ''scopes'' p = Some (JArr (map JStr ss)) \<and> get_field ''vaultId'' p = Some (JStr vault))"

lemma is_bool_ex: "is_bool v \<longleftrightarrow> (\<exists>b. v = Some (JBool b))"
  by (cases v rule: is_bool.cases) simp_all

lemma is_string_ex: "is_string v \<longleftrightarrow> (\<exists>s. v = Some (JStr s))"
  by (cases v rule: is_string.cases) simp_all

lemma all_strings: "list_all (\<lambda>x. is_string (Some x)) xs \<longleftrightarrow> (\<exists>ss. xs = map JStr ss)"
proof (induction xs)
  case (Cons x xs)
  show ?case
  proof
    assume "list_all (\<lambda>x. is_string (Some x)) (x # xs)"
    then obtain s ss where "x = JStr s" "xs = map JStr ss" using Cons by (auto simp: is_string_ex)
    then have "x # xs = map JStr (s # ss)" by simp
    then show "\<exists>ss. x # xs = map JStr ss" by (rule exI)
  qed (auto simp: list_all_iff)
qed simp

lemma is_strings_ex: "is_strings v \<longleftrightarrow> (\<exists>ss. v = Some (JArr (map JStr ss)))"
  by (cases v rule: is_strings.cases) (auto simp: all_strings)

lemma is_object_some: "is_object v \<Longrightarrow> \<exists>a. v = Some a"
  by (cases v) simp_all

lemma typed_payload_iff: "typed_payload payload \<longleftrightarrow> (\<exists>p. payload = JObj p \<and> get_field ''v'' p = Some (JNum 2)) \<and> isTaskCallPayload payload"
proof (cases payload)
  case (JObj p)
  then show ?thesis
    by (simp add: typed_payload_def is_bool_ex is_string_ex is_strings_ex) (metis is_object_some)
qed (simp_all add: typed_payload_def)

text \<open>
  C15: a claimed row is dispatched exactly when its payload is of the shape and version
  this build writes, and then under the vault, the scopes and the authentication the payload states and
  no others; anything else, a payload an older build queued without the caller's policy included, ends
  in an error and never reaches a tool.
\<close>

theorem only_typed_payloads_run:
  "case fst (task_begin jobId payload acl signal lease t q) of
     Inl msg \<Rightarrow> \<not> typed_payload payload
   | Inr (tool, args, ctx) \<Rightarrow>
       \<exists>p ss. payload = JObj p \<and> typed_payload payload \<and> get_field ''tool'' p = Some (JStr tool) \<and> get_field ''args'' p = Some args \<and>
         get_field ''scopes'' p = Some (JArr (map JStr ss)) \<and> set (cc_grantedScopes ctx) = set ss \<and>
         get_field ''vaultId'' p = Some (JStr (cc_vaultId ctx)) \<and> get_field ''authenticated'' p = Some (JBool (cc_authenticated ctx)) \<and>
         map_option JBool (cc_vaultBound ctx) = get_field ''vaultBound'' p"
proof (cases "typed_payload payload")
  case False
  then have "\<exists>msg. fst (task_begin jobId payload acl signal lease t q) = Inl msg"
    by (cases payload) (auto simp: typed_payload_iff task_begin_def Let_def task_call_payload_version_def get_Nil split: prod.split)
  with False show ?thesis by auto
next
  case True
  then obtain p where p: "payload = JObj p" "get_field ''v'' p = Some (JNum 2)" by (auto simp: typed_payload_def)
  obtain tool args b vb ss vault where f: "get_field ''tool'' p = Some (JStr tool)" "get_field ''args'' p = Some args"
    "get_field ''authenticated'' p = Some (JBool b)" "get_field ''vaultBound'' p = Some (JBool vb)"
    "get_field ''scopes'' p = Some (JArr (map JStr ss))" "get_field ''vaultId'' p = Some (JStr vault)"
    using True p(1) by (auto simp: typed_payload_def)
  have "fst (task_begin jobId payload acl signal lease t q) = Inr (tool, args, restored_caller p acl signal)"
    using True p f by (simp add: task_begin_def Let_def task_call_payload_version_def typed_payload_iff)
  then show ?thesis
    using True p(1) f by (auto simp: restored_caller_def restoreCaller_def as_strs_scopes simp del: as_strs.simps)
qed


subsection \<open>A finished task shows its answer\<close>

definition call_outcome :: "call_answer \<Rightarrow> json" where
  "call_outcome answer =
     (case answer of
        Call_ok data \<Rightarrow> JObj [(''ok'', JBool True), (''result'', asRecord data)]
      | Call_refused code msg rest \<Rightarrow>
          failed_outcome (code @ '': '' @ msg) [(''data'', JObj (error_fields code msg rest))])"



text \<open>The row once the outcome is written.\<close>

definition answered_row :: "call_answer \<Rightarrow> int \<Rightarrow> job_row \<Rightarrow> job_row" where
  "answered_row answer t r = r\<lparr>j_outcome := Some (stringify (call_outcome answer)), j_updated_at := t\<rparr>"


lemma answered_row_same [simp]:
  "j_id (answered_row a t r) = j_id r" "owned i tok (answered_row a t r) = owned i tok r"
  "j_cancel_requested (answered_row a t r) = j_cancel_requested r" "j_attempt (answered_row a t r) = j_attempt r"
  "j_max_attempts (answered_row a t r) = j_max_attempts r" "j_lease_owner (answered_row a t r) = j_lease_owner r"
  "j_state (answered_row a t r) = j_state r"
  by (simp_all add: answered_row_def owned_def)






lemma fields_append: "get_field k (xs @ ys) = (case get_field k xs of Some v \<Rightarrow> Some v | None \<Rightarrow> get_field k ys)"
  by (simp add: get_field_def map_add_def split: option.split)











subsection \<open>A finished task stays as it finished\<close>

lemma find_map: "(\<And>x. j_id (g x) = j_id x) \<Longrightarrow> find_job i (map g rows) = map_option g (find_job i rows)"
  by (induction rows) (simp_all add: find_job_def)














text \<open>
  An aborted request does not come through \<open>cancelOwnedTask\<close>: it flags its task whatever its state, so a
  task that another process has already failed turns from failed, with the error, to cancelled without one.
\<close>

lemma abort_rewrites_failed:
  assumes "distinct_ids (q_rows q)" "find_job i (q_rows q) = Some r" "j_state r = Job_failed" "\<not> j_cancel_requested r"
  shows "task_status_of r = Task_failed \<and>
    map_option task_status_of (find_job i (q_rows (abort_wait i t q))) = Some Task_cancelled"
proof -
  have "find_job i (q_rows (abort_wait i t q)) = Some (flag_row t r)"
    using assms(2) find_job_in [OF assms(2)] by (simp add: abort_wait_def requestCancel_rows find_map)
  then show ?thesis using assms by (simp add: task_status_of_def terminal_state_def flag_row_def)
qed

end
