(* ===== verification/Spec2Isabelle.thy ===== *)
theory Spec2Isabelle
  imports Dispatch_Guarantees Rate_Window Job_Runner Oauth_Guarantees Note_Trash Scheduler_Guarantees
    Index_Coordinator_Guarantees Byte_Page_Guarantees Task_Calls_Guarantees
begin

text \<open>
  \<^bold>\<open>The obsidian-tc server, its decisions in Isabelle/HOL.\<close>

  obsidian-tc (\<open>src/packages/server\<close>, TypeScript) lets language models call tools on Obsidian vaults over
  the Model Context Protocol. Every call goes through one pipeline: who is calling and with which scopes,
  which tool, which vault, which path under which folder ACL, at which rate, with which human confirmation,
  and whether the same keyed call has run before; then the tool's handler runs, and what it returned is
  recorded and answered. Beside the pipeline the server keeps a durable job queue for background work and
  an OAuth 2.1 authorization server that hands out the tokens the pipeline accepts; its tools write notes
  through a small layer that promises never to lose one. This development models that core: the decisions,
  their state and their errors. Tools, storage engines, cryptography and the
  network stay outside, as arguments.

  \<^bold>\<open>Conventions.\<close>
  \<^item> Names are the source's names; an auxiliary function is named after what the code does at that place.
  \<^item> Objects are records, unions are datatypes, strings are lists of characters (\<open>str\<close>: one character is
    one UTF-16 unit below 256), numbers are \<open>int\<close> or \<open>nat\<close> (milliseconds are integers) and \<open>real\<close> for the
    fractional tokens of a bucket.
  \<^item> A throw is \<^const>\<open>Inl\<close> of a \<open>terror\<close> (code, message, details) or a \<open>Thrown\<close> for anything else;
    \<open>ebind\<close> of \<open>Tc_Prelude\<close> sequences such computations.
  \<^item> A table is a list of rows; an SQL statement is a function on it that may fault. Clocks, random
    values, hashes, the file system, URL and JSON parsing are arguments; what a theorem needs of them is
    a hypothesis of it (a witness shows the hypothesis can hold) and never an axiom.
  \<^item> A theorem named \<open>X_witness\<close> applies theorem \<open>X\<close> to concrete data.

  \<^bold>\<open>The shared prelude.\<close> \<open>Tc_Prelude\<close> (strings, splitting, JavaScript sets and objects, the error monad and the
  collections \<open>gate_simps\<close> and \<open>by_events\<close>), \<open>Tc_Errors\<close> (\<open>shared/src/errors.ts\<close>).

  \<^bold>\<open>Authorization of a call.\<close>
  \<^item> \<open>Scopes\<close> (\<open>shared/src/scopes.ts\<close>): parsing, coverage, the class of a call; coverage is a preorder.
  \<^item> \<open>Globs\<close> and \<open>Folder_Acl\<close> (\<open>server/src/acl.ts\<close>): a glob is compiled to a matcher and accepts exactly
    the language of its tokens; the cache of compiled globs (1000 entries, globs of at most 512 characters)
    never changes an answer; the class \<open>FolderAcl\<close> with its lazily settled rules answers what a scan of the
    configuration answers, and its fingerprint decides its reads.
  \<^item> \<open>Vault_Paths\<close> (\<open>vault/paths.ts\<close>, \<open>primitives.ts\<close>): normalisation of a path, names that may be created, and
    the resolution of symbolic links. \<open>realpathDeepest\<close> climbs one component per step, so its recursion is
    on the list of components; an accepted path lies inside the real root of the vault.
  \<^item> \<open>Acl_Path\<close> (\<open>vault/acl-path.ts\<close>): the guards of a path access in the order of the source and what they
    guarantee; secondary rewrites and the index predicate.
  \<^item> \<open>Visibility\<close> (\<open>mcp/visibility.ts\<close>): which tools a caller sees, and why not.
  \<^item> \<open>Gates\<close> and \<open>Path_Gates\<close> (\<open>mcp/registry/policy-gates.ts\<close>, \<open>authorization-gates.ts\<close>,
    \<open>input-binding.ts\<close>, \<open>vault-default.ts\<close>, \<open>identified-caller.ts\<close>, \<open>resolve-target.ts\<close>): every gate, their
    composition \<open>runAuthorizationGates\<close>, and the refinement from what is listed to what dispatch admits.

  \<^bold>\<open>State of the pipeline.\<close>
  \<^item> \<open>Database\<close>: tables under faults, write transactions that roll back.
  \<^item> \<open>Idempotency\<close> (\<open>mcp/registry/idempotency.ts\<close>): the rows of keyed calls, claim or replay.
  \<^item> \<open>Elicit\<close> (\<open>elicit.ts\<close>, \<open>elicit-drift.ts\<close>, \<open>elicit-request-state.ts\<close>, \<open>vault/hitl.ts\<close>): human
    confirmations, their one redemption and what they bind.
  \<^item> \<open>Rate_Limit\<close> and \<open>Rate_Window\<close> (\<open>ratelimit/\<close>, \<open>throttle.ts\<close>): token buckets, the memory backend with its
    sweep, outages; bounds over arbitrary traces and clock readings.

  \<^bold>\<open>The pipeline.\<close> \<open>Dispatch\<close> (\<open>mcp/registry/dispatch.ts\<close>, \<open>result-governance.ts\<close>, \<open>abort.ts\<close>,
  \<open>effect-marker.ts\<close>, \<open>elicit-release.ts\<close>, \<open>idempotent-replay.ts\<close>) is \<open>runDispatch\<close> from the first check to
  the catch block, in a monad over the state a call holds and the databases, in which any statement may
  fault. \<open>Act_Wp\<close> is the monad and its weakest-precondition calculus, \<open>Act_Logic\<close> the rules for the state of a
  call; \<open>Dispatch_Safety\<close> proves the invariants of
  each stage with it, and \<open>Dispatch_Guarantees\<close> states what a whole call guarantees: a keyed call never
  runs its handler twice, the handler stands behind every gate, a refusal leaves no trace, and every call
  is answered.

  \<^bold>\<open>Background work.\<close> \<open>Job_Queue\<close> (\<open>scheduler/job-queue.ts\<close>) has the \<open>jobs\<close> table and every method of the
  class \<open>JobQueue\<close>: enqueue under an idempotency key, claim in order under class limits (at most 50
  candidates are scanned, as in the source), leases, progress, retry with back-off, cancellation.
  \<open>Job_Queue_Safety\<close> has the reachable queues and their invariants. \<open>Job_Runner\<close> (\<open>scheduler/job-runner.ts\<close>,
  \<open>runJob\<close>) runs claimed jobs; a tick is bounded by its maximum of jobs, and a worker drains any reachable
  queue whatever its handlers throw. \<open>Scheduler\<close> (\<open>scheduler/scheduler.ts\<close>) is the one timer behind all
  recurring work: every method of the class, and the events between them (the timer fires, a promise
  settles, a stop). Time is the scheduler's own virtual clock; run bodies, the wall clock, random
  numbers, the event-loop delay and SQL failures are oracles. \<open>Scheduler_Safety\<close> has the invariant of a
  live scheduler, \<open>Scheduler_Guarantees\<close> what follows: the timer always leads to work, no job is overdue
  or overlaps itself, a stopped scheduler stays quiet, and the durable table only records.

  \<^bold>\<open>Index writes.\<close> \<open>Index_Coordinator\<close> (\<open>search/index-coordinator.ts\<close>) has both semaphores and every method
  of the coordinator but \<open>idle\<close>, which only waits; its events are the places where JavaScript may switch
  between promises, in any order in which they are possible. \<open>Index_Coordinator_Safety\<close> has the laws of a
  permit (a locale interpreted at both levels) and the invariants of the queue,
  \<open>Index_Coordinator_Guarantees\<close> that the newest state of a note is what its handler sees last, that the
  limits hold and that the coordinator always drains, in at most seven steps per submission.

  \<^bold>\<open>Paged reads.\<close> \<open>Json_Text\<close> (\<open>hash.ts\<close> and \<open>JSON.stringify\<close>) writes a value as text, counts its UTF-8 bytes and
  shows that the text determines the value. \<open>Byte_Page\<close> (\<open>mcp/byte-page.ts\<close>, with \<open>read_notes\<close> of
  \<open>tools/m1/notes/read.ts\<close> and the result frames of its two other users) is the paginator under a byte budget and its
  signed cursors. \<open>Byte_Page_Guarantees\<close>: the accounting is exact for any frame that meets the contract in the
  source's comment (locale \<open>byte_frame\<close>, interpreted on all three frames), pages fit, a walk answers every item
  once and ends within as many pages as items, a cursor is only good where it was issued.

  \<^bold>\<open>Task calls.\<close> \<open>Tool_Result\<close> (\<open>mcp/tool-result.ts\<close>) shapes what a call sends so that a client reading only text
  finds the answer. \<open>Task_Calls\<close> (\<open>mcp/task-caller-context.ts\<close>, \<open>mcp/tasks.ts\<close>, \<open>scheduler/task-call-runner.ts\<close> and
  the enqueue of \<open>mcp/task-budget.ts\<close>) is a tool call that runs as a job: the snapshot of its caller, the handler
  before and after its dispatch, the task its caller polls, and the extension that answers those polls.
  \<open>Task_Calls_Guarantees\<close>: a caller sees and touches its own tasks only, a task runs under the authority
  its caller had and only from a typed payload of this version, its answer is there when it shows as
  finished, and a finished task stays as it finished. The parse of JSON is an argument, assumed to read back
  the one text that was written.

  \<^bold>\<open>Writing notes\<close> (\<open>server/src/vault/\<close>).
  \<^item> \<open>File_Ops\<close> (\<open>notes-io.ts\<close>, \<open>temp-write.ts\<close>, \<open>no-follow-walk.ts\<close>): a file system of names, inodes and
    folders in which every system call may fail with any code, and over it the code's temporary files,
    no-replace commits and moves, atomic and staged writes.
  \<^item> \<open>Write_Batch\<close> (\<open>write-batch.ts\<close>): staging, the commit, the removal of a move's sources, the rollback.
    \<open>Write_Batch_Safety\<close> has what each operation does to the notes under any faults,
    \<open>Write_Batch_Guarantees\<close> that a batch lands as a unit or says that it did not, and that a rollback
    never destroys a text it did not write. The theorems assume that failing calls tell the truth
    (\<open>ENOENT\<close>, \<open>EEXIST\<close>), that the disk has hard links, and that nobody else writes during the call;
    the undo of a note starts from an arbitrary disk, which stands for edits made before it.
  \<^item> \<open>Note_Trash\<close> (\<open>notes-io.ts\<close>): the trash, whose search for a free name takes at most 10001 attempts, and
    overwriting, which puts the old note back when the write fails.

  \<^bold>\<open>The authorization server\<close> (\<open>server/src/auth/\<close>).
  \<^item> \<open>Oauth_Clients\<close> (\<open>as-clients.ts\<close>, \<open>resource-set.ts\<close>, \<open>as-client-auth.ts\<close>, \<open>as-request.ts\<close>): client
    authentication and the authorization request, which is no open redirector.
  \<^item> \<open>Oauth_Store\<close> (\<open>as-grants.ts\<close>, \<open>as-refresh.ts\<close>, \<open>as-account.ts\<close>, \<open>as-operator-store.ts\<close>, \<open>oauth-db.ts\<close>):
    the tables of \<open>oauth.db\<close> and each transaction on them. Pending requests are bounded by 1000 in all
    (100 of them reserved), 250 per client and 20 per source.
  \<^item> \<open>Oauth_Token\<close> (\<open>as-token-endpoint.ts\<close>, \<open>as-refresh-grant.ts\<close>, \<open>as-access.ts\<close>, \<open>as-revoke.ts\<close>): the handlers,
    whole and cut where another process may act.
  \<^item> \<open>Oauth_Machine\<close>: any number of processes on one database, as a step relation over worlds with
    history; \<open>Oauth_Families\<close>: the shape of the refresh-token families and what each operation does to
    it; \<open>Oauth_Safety\<close>: the invariant of every reachable world; \<open>Oauth_Guarantees\<close>: no token escapes a
    revocation, a code is exchanged once, tokens stay within the consent, a reused token costs the family.

  \<^bold>\<open>How the parts meet.\<close> \<open>Dispatch\<close> calls the gates, the limiter, the confirmations and the idempotency
  store; the gates call the ACL, the paths and the scopes; the runner calls the queue; the token endpoint
  calls the store. A contract that several clients share is a locale, interpreted on the code's model:
  \<open>single_use\<close> of \<open>Database\<close> (idempotency claims, confirmation tokens), \<open>token_backend\<close> and
  \<open>mem_setting\<close> of \<open>Rate_Window\<close> (the limiter's backend), \<open>permit_class\<close> of \<open>Index_Coordinator_Safety\<close> (the
  two levels of semaphores), \<open>byte_frame\<close> of \<open>Byte_Page_Guarantees\<close> (what a result frame owes the paginator).

  \<^bold>\<open>Not modelled.\<close>
  \<^item> JWT, OIDC, passkeys, password hashing, the key registry, client metadata documents and dynamic
    registration, the login and consent pages: cryptography, HTTP and HTML around the modelled server.
  \<^item> The tool handlers (\<open>tools/\<close>), search, graph, embeddings, models, experiential memory, formats, git,
    the Obsidian bridge, transports, the command line: they stand behind the pipeline, and most of their
    substance is SQL, files and services of others.
  \<^item> Inside modelled parts: metrics, audit, tracing and log lines (no effect on results), \<open>walkVault\<close>,
    the sqlite and redis backends of the limiter (an argument), the codec of signed request state,
    \<open>relaxVaultInJson\<close>, subscriptions of a job's progress, the wait of a call for its task
    (\<open>awaitJobWithinBudget\<close> but for its abort, \<open>finishedTaskResult\<close>) and the byte stream of \<open>serveTaskSubscription\<close>.
  \<^item> Of the rest, the consent flow and personas, the vault lock, workspace sessions, network address rules,
    bases expressions and the fusion of search results would repay a model.
\<close>

end
